(* ===== verification/Rust_Str.thy ===== *)
theory Rust_Str
  imports Prelude
begin

text \<open>
  The part of Rust's \<open>str\<close> and \<open>char\<close> that the sources use: strict UTF-8 decoding and encoding, the
  \<open>chars\<close> iterator, Unicode white space, \<open>trim\<close>, \<open>lines\<close>, \<open>split_whitespace\<close>, character boundaries and
  the ASCII classes.  A code point is a natural number; a string stays a list of bytes.
\<close>

section \<open>UTF-8\<close>

definition is_scalar :: "nat \<Rightarrow> bool" where
  "is_scalar c \<longleftrightarrow> c < 0xD800 \<or> (0xE000 \<le> c \<and> c < 0x110000)"

definition is_cont :: "char \<Rightarrow> bool" where
  "is_cont b \<longleftrightarrow> 0x80 \<le> byte b \<and> byte b < 0xC0"

definition cont_bits :: "char \<Rightarrow> nat" where
  "cont_bits b = byte b - 0x80"

text \<open>\<open>char::encode_utf8\<close> and \<open>char::len_utf8\<close>.\<close>

definition encode_char :: "nat \<Rightarrow> string" where
  "encode_char c =
     (if c < 0x80 then [char_of c]
      else if c < 0x800 then [char_of (0xC0 + c div 64), char_of (0x80 + c mod 64)]
      else if c < 0x10000 then
        [char_of (0xE0 + c div 4096), char_of (0x80 + c div 64 mod 64), char_of (0x80 + c mod 64)]
      else [char_of (0xF0 + c div 262144), char_of (0x80 + c div 4096 mod 64),
            char_of (0x80 + c div 64 mod 64), char_of (0x80 + c mod 64)])"

definition len_utf8 :: "nat \<Rightarrow> nat" where
  "len_utf8 c = (if c < 0x80 then 1 else if c < 0x800 then 2 else if c < 0x10000 then 3 else 4)"

text \<open>The first code point of a byte sequence and its width; \<open>None\<close> where the bytes are not UTF-8.\<close>

definition utf8_next :: "string \<Rightarrow> (nat \<times> nat) option" where
  "utf8_next s =
     (case s of
        [] \<Rightarrow> None
      | b0 # r \<Rightarrow>
        (let v = byte b0 in
         if v < 0x80 then Some (v, 1)
         else if v < 0xC0 then None
         else if v < 0xE0 then
           (case r of
              b1 # _ \<Rightarrow> (let c = (v - 0xC0) * 64 + cont_bits b1
                        in if is_cont b1 \<and> 0x80 \<le> c then Some (c, 2) else None)
            | _ \<Rightarrow> None)
         else if v < 0xF0 then
           (case r of
              b1 # b2 # _ \<Rightarrow>
                (let c = (v - 0xE0) * 4096 + cont_bits b1 * 64 + cont_bits b2
                 in if is_cont b1 \<and> is_cont b2 \<and> 0x800 \<le> c \<and> is_scalar c then Some (c, 3) else None)
            | _ \<Rightarrow> None)
         else if v < 0xF8 then
           (case r of
              b1 # b2 # b3 # _ \<Rightarrow>
                (let c = (v - 0xF0) * 262144 + cont_bits b1 * 4096 + cont_bits b2 * 64 + cont_bits b3
                 in if is_cont b1 \<and> is_cont b2 \<and> is_cont b3 \<and> 0x10000 \<le> c \<and> is_scalar c
                    then Some (c, 4) else None)
            | _ \<Rightarrow> None)
         else None))"

lemma byte_lt [simp]: "byte c < 256"
  by (metis mod_less_divisor of_char_mod_256 zero_less_numeral)

lemma base64_split3: "(c::nat) div 4096 * 4096 + c div 64 mod 64 * 64 + c mod 64 = c"
proof -
  have "c div 4096 = c div 64 div 64" by (simp add: div_mult2_eq [symmetric])
  with div_mult_mod_eq [of "c div 64" 64] div_mult_mod_eq [of c 64] show ?thesis by linarith
qed

lemma base64_split4:
  "(c::nat) div 262144 * 262144 + c div 4096 mod 64 * 4096 + c div 64 mod 64 * 64 + c mod 64 = c"
proof -
  have "c div 262144 = c div 4096 div 64" by (simp add: div_mult2_eq [symmetric])
  with div_mult_mod_eq [of "c div 4096" 64] base64_split3 [of c] show ?thesis by linarith
qed

lemma of_char_char_of_small: "n < 256 \<Longrightarrow> byte (char_of n) = n"
  by (simp add: of_char_of take_bit_nat_def)

lemma char_of_byte [simp]: "char_of (byte c) = c"
  by (rule char_of_char)

lemma encode_char_nonempty [simp]: "encode_char c \<noteq> []"
  by (simp add: encode_char_def)

lemma length_encode_char: "length (encode_char c) = len_utf8 c"
  by (simp add: encode_char_def len_utf8_def)

lemma len_utf8_bounds: "1 \<le> len_utf8 c" "len_utf8 c \<le> 4"
  by (simp_all add: len_utf8_def)

lemma utf8_next_encode:
  assumes "is_scalar c"
  shows "utf8_next (encode_char c @ r) = Some (c, len_utf8 c)"
proof -
  have c: "c < 0x110000" using assms by (auto simp: is_scalar_def)
  consider "c < 0x80" | "0x80 \<le> c" "c < 0x800" | "0x800 \<le> c" "c < 0x10000" | "0x10000 \<le> c"
    by linarith
  then show ?thesis
  proof cases
    case 1
    then show ?thesis
      by (simp add: utf8_next_def encode_char_def len_utf8_def of_char_char_of_small)
  next
    case 2
    then have "c div 64 < 32" by simp
    with 2 show ?thesis
      by (simp add: utf8_next_def encode_char_def len_utf8_def of_char_char_of_small is_cont_def
          cont_bits_def)
  next
    case 3
    then have "c div 4096 < 16" by simp
    moreover note base64_split3 [of c]
    ultimately show ?thesis using 3 assms
      by (simp add: utf8_next_def encode_char_def len_utf8_def of_char_char_of_small is_cont_def
          cont_bits_def)
  next
    case 4
    with c have "c div 262144 < 8" by simp
    moreover note base64_split4 [of c]
    ultimately show ?thesis using 4 assms
      by (simp add: utf8_next_def encode_char_def len_utf8_def of_char_char_of_small is_cont_def
          cont_bits_def)
  qed
qed

lemma two_byte_digits:
  "a < 32 \<Longrightarrow> (b::nat) < 64 \<Longrightarrow> (a * 64 + b) div 64 = a \<and> (a * 64 + b) mod 64 = b"
  by simp

lemma three_byte_digits:
  assumes "(b::nat) < 64" "c < 64"
  shows "(a * 4096 + b * 64 + c) div 4096 = a" "(a * 4096 + b * 64 + c) div 64 mod 64 = b"
    "(a * 4096 + b * 64 + c) mod 64 = c"
proof -
  have eq: "a * 4096 + b * 64 + c = (a * 64 + b) * 64 + c" by simp
  have d: "(a * 4096 + b * 64 + c) div 64 = a * 64 + b" unfolding eq using assms by simp
  show "(a * 4096 + b * 64 + c) div 64 mod 64 = b" unfolding d using assms by simp
  show "(a * 4096 + b * 64 + c) mod 64 = c" unfolding eq mod_mult_self3 using assms by simp
  have "(a * 4096 + b * 64 + c) div (64 * 64) = a" unfolding div_mult2_eq d using assms by simp
  then show "(a * 4096 + b * 64 + c) div 4096 = a" by simp
qed

lemma four_byte_digits:
  assumes "(b::nat) < 64" "c < 64" "d < 64"
  shows "(a * 262144 + b * 4096 + c * 64 + d) div 262144 = a"
    "(a * 262144 + b * 4096 + c * 64 + d) div 4096 mod 64 = b"
    "(a * 262144 + b * 4096 + c * 64 + d) div 64 mod 64 = c"
    "(a * 262144 + b * 4096 + c * 64 + d) mod 64 = d"
proof -
  have eq: "a * 262144 + b * 4096 + c * 64 + d = (a * 64 + b) * 4096 + c * 64 + d" by simp
  note three = three_byte_digits [OF assms(2,3), of "a * 64 + b"]
  show "(a * 262144 + b * 4096 + c * 64 + d) div 4096 mod 64 = b" unfolding eq three using assms by simp
  show "(a * 262144 + b * 4096 + c * 64 + d) div 64 mod 64 = c" unfolding eq three by simp
  show "(a * 262144 + b * 4096 + c * 64 + d) mod 64 = d" unfolding eq three by simp
  have "(a * 262144 + b * 4096 + c * 64 + d) div (4096 * 64) = a"
    unfolding div_mult2_eq eq three using assms by simp
  then show "(a * 262144 + b * 4096 + c * 64 + d) div 262144 = a" by simp
qed

lemma cont_bits_lt: "is_cont b \<Longrightarrow> cont_bits b < 64"
  by (auto simp: is_cont_def cont_bits_def)

lemma char_of_cont: "is_cont b \<Longrightarrow> char_of (0x80 + cont_bits b) = b"
  by (simp add: is_cont_def cont_bits_def)

lemma utf8_next_Some:
  assumes "utf8_next s = Some (c, w)"
  shows "is_scalar c \<and> w = len_utf8 c \<and> (\<exists>r. s = encode_char c @ r)"
proof -
  obtain b0 r where s: "s = b0 # r" using assms by (cases s) (auto simp: utf8_next_def)
  let ?v = "byte b0"
  consider "?v < 0x80" | "0xC0 \<le> ?v" "?v < 0xE0" | "0xE0 \<le> ?v" "?v < 0xF0"
    | "0xF0 \<le> ?v" "?v < 0xF8"
    using assms by (simp add: utf8_next_def s Let_def split: if_splits)
  then show ?thesis
  proof cases
    case 1
    then show ?thesis using assms
      by (auto simp: utf8_next_def s is_scalar_def len_utf8_def encode_char_def)
  next
    case 2
    with assms obtain b1 r' where r: "r = b1 # r'" by (cases r) (auto simp: utf8_next_def s)
    from 2 assms have b1: "is_cont b1" and c: "c = (?v - 0xC0) * 64 + cont_bits b1" "0x80 \<le> c" "w = 2"
      by (auto simp: utf8_next_def s r Let_def split: if_splits)
    have lt: "cont_bits b1 < 64" using b1 by (rule cont_bits_lt)
    have "c < 0x800" using c lt 2 by linarith
    moreover have "c div 64 = ?v - 0xC0" "c mod 64 = cont_bits b1"
      using two_byte_digits [OF _ lt, of "?v - 0xC0"] c 2 by simp_all
    ultimately show ?thesis using c 2 b1
      by (auto simp: s r is_scalar_def len_utf8_def encode_char_def char_of_cont)
  next
    case 3
    with assms obtain b1 b2 r' where r: "r = b1 # b2 # r'"
      by (auto simp: utf8_next_def s split: list.splits)
    from 3 assms have b: "is_cont b1" "is_cont b2" and
      c: "c = (?v - 0xE0) * 4096 + cont_bits b1 * 64 + cont_bits b2" "0x800 \<le> c" "w = 3" "is_scalar c"
      by (auto simp: utf8_next_def s r Let_def split: if_splits)
    have lt: "cont_bits b1 < 64" "cont_bits b2 < 64" using b by (simp_all add: cont_bits_lt)
    have "c < 0x10000" using c lt 3 by linarith
    then show ?thesis using c 3 b three_byte_digits [OF lt, of "?v - 0xE0"]
      by (auto simp: s r len_utf8_def encode_char_def char_of_cont)
  next
    case 4
    with assms obtain b1 b2 b3 r' where r: "r = b1 # b2 # b3 # r'"
      by (auto simp: utf8_next_def s split: list.splits)
    from 4 assms have b: "is_cont b1" "is_cont b2" "is_cont b3" and
      c: "c = (?v - 0xF0) * 262144 + cont_bits b1 * 4096 + cont_bits b2 * 64 + cont_bits b3"
         "0x10000 \<le> c" "w = 4" "is_scalar c"
      by (auto simp: utf8_next_def s r Let_def split: if_splits)
    have lt: "cont_bits b1 < 64" "cont_bits b2 < 64" "cont_bits b3 < 64"
      using b by (simp_all add: cont_bits_lt)
    show ?thesis using c 4 b four_byte_digits [OF lt, of "?v - 0xF0"]
      by (auto simp: s r len_utf8_def encode_char_def char_of_cont)
  qed
qed

lemma utf8_next_width: "utf8_next s = Some (c, w) \<Longrightarrow> 1 \<le> w \<and> w \<le> length s"
  using utf8_next_Some [of s c w] len_utf8_bounds(1) [of c]
  by (auto simp: length_encode_char)

text \<open>\<open>std::str::from_utf8\<close> as a predicate, and the \<open>chars\<close> iterator.\<close>

function utf8_valid :: "string \<Rightarrow> bool" where
  "utf8_valid s = (s = [] \<or> (case utf8_next s of None \<Rightarrow> False | Some (c, w) \<Rightarrow> utf8_valid (drop w s)))"
  by pat_completeness auto
termination
  by (relation "measure length") (auto dest: utf8_next_width)

function chars :: "string \<Rightarrow> nat list" where
  "chars s = (case utf8_next s of None \<Rightarrow> [] | Some (c, w) \<Rightarrow> c # chars (drop w s))"
  by pat_completeness auto
termination
  by (relation "measure length") (auto dest: utf8_next_width)

declare utf8_valid.simps [simp del] chars.simps [simp del]

definition str_of_chars :: "nat list \<Rightarrow> string" where
  "str_of_chars cs = concat (map encode_char cs)"

lemma str_of_chars_simps [simp]:
  "str_of_chars [] = []" "str_of_chars (c # cs) = encode_char c @ str_of_chars cs"
  "str_of_chars (cs @ ds) = str_of_chars cs @ str_of_chars ds"
  by (simp_all add: str_of_chars_def)

lemma chars_Nil [simp]: "chars [] = []"
  by (simp add: chars.simps utf8_next_def)

lemma chars_encode: "is_scalar c \<Longrightarrow> chars (encode_char c @ r) = c # chars r"
  by (subst chars.simps) (simp add: utf8_next_encode length_encode_char)

lemma chars_str_of_chars: "list_all is_scalar cs \<Longrightarrow> chars (str_of_chars cs) = cs"
  by (induction cs) (simp_all add: chars_encode)

lemma utf8_valid_str_of_chars: "list_all is_scalar cs \<Longrightarrow> utf8_valid (str_of_chars cs)"
proof (induction cs)
  case Nil
  then show ?case by (simp add: utf8_valid.simps)
next
  case (Cons c cs)
  then show ?case
    by (subst utf8_valid.simps) (simp add: utf8_next_encode length_encode_char)
qed

lemma utf8_valid_chars: "utf8_valid s \<Longrightarrow> list_all is_scalar (chars s) \<and> str_of_chars (chars s) = s"
proof (induction s rule: utf8_valid.induct)
  case (1 s)
  show ?case
  proof (cases "s = []")
    case True
    then show ?thesis by simp
  next
    case False
    with "1.prems" obtain c w where n: "utf8_next s = Some (c, w)" and v: "utf8_valid (drop w s)"
      by (auto simp: utf8_valid.simps [of s] split: option.splits)
    from "1.IH" [OF n refl v] have
      "list_all is_scalar (chars (drop w s)) \<and> str_of_chars (chars (drop w s)) = drop w s" .
    moreover have "chars s = c # chars (drop w s)" using n by (simp add: chars.simps [of s])
    ultimately show ?thesis
      using utf8_next_Some [OF n] by (auto simp: length_encode_char)
  qed
qed

lemma utf8_valid_iff: "utf8_valid s \<longleftrightarrow> (\<exists>cs. list_all is_scalar cs \<and> s = str_of_chars cs)"
  using utf8_valid_chars utf8_valid_str_of_chars by metis

lemma utf8_validE:
  assumes "utf8_valid s"
  obtains cs where "list_all is_scalar cs" "s = str_of_chars cs" "chars s = cs"
  using assms utf8_valid_chars by metis

lemma utf8_valid_append: "utf8_valid s \<Longrightarrow> utf8_valid t \<Longrightarrow> utf8_valid (s @ t)"
  by (metis list_all_append str_of_chars_simps(3) utf8_valid_iff)

lemma chars_append: "utf8_valid s \<Longrightarrow> utf8_valid t \<Longrightarrow> chars (s @ t) = chars s @ chars t"
  by (metis chars_str_of_chars list_all_append str_of_chars_simps(3) utf8_valid_chars)

section \<open>Character classes\<close>

definition is_whitespace :: "nat \<Rightarrow> bool" where
  "is_whitespace c \<longleftrightarrow>
     (9 \<le> c \<and> c \<le> 13) \<or> c = 0x20 \<or> c = 0x85 \<or> c = 0xA0 \<or> c = 0x1680 \<or>
     (0x2000 \<le> c \<and> c \<le> 0x200A) \<or> c = 0x2028 \<or> c = 0x2029 \<or> c = 0x202F \<or> c = 0x205F \<or> c = 0x3000"

definition is_control :: "nat \<Rightarrow> bool" where
  "is_control c \<longleftrightarrow> c < 0x20 \<or> (0x7F \<le> c \<and> c < 0xA0)"

definition is_hexdigit :: "char \<Rightarrow> bool" where
  "is_hexdigit c \<longleftrightarrow> is_digit c \<or> (97 \<le> byte c \<and> byte c \<le> 102) \<or> (65 \<le> byte c \<and> byte c \<le> 70)"

definition is_alphanumeric :: "char \<Rightarrow> bool" where
  "is_alphanumeric c \<longleftrightarrow>
     is_digit c \<or> (97 \<le> byte c \<and> byte c \<le> 122) \<or> (65 \<le> byte c \<and> byte c \<le> 90)"

definition ascii_lower :: "char \<Rightarrow> char" where
  "ascii_lower c = (if 65 \<le> byte c \<and> byte c \<le> 90 then char_of (byte c + 32) else c)"

abbreviation to_ascii_lowercase :: "string \<Rightarrow> string" where
  "to_ascii_lowercase \<equiv> map ascii_lower"

definition eq_ignore_ascii_case :: "string \<Rightarrow> string \<Rightarrow> bool" where
  "eq_ignore_ascii_case s t \<longleftrightarrow> to_ascii_lowercase s = to_ascii_lowercase t"

lemma byte_ascii_lower:
  "byte (ascii_lower c) = (if 65 \<le> byte c \<and> byte c \<le> 90 then byte c + 32 else byte c)"
  by (simp add: ascii_lower_def of_char_char_of_small)

lemma ascii_lower_idem [simp]: "ascii_lower (ascii_lower c) = ascii_lower c"
  by (simp add: ascii_lower_def of_char_char_of_small)

lemma to_ascii_lowercase_idem: "to_ascii_lowercase (to_ascii_lowercase s) = to_ascii_lowercase s"
  by simp

lemma is_hexdigit_lower [simp]: "is_hexdigit (ascii_lower c) = is_hexdigit c"
  by (auto simp: is_hexdigit_def is_digit_def byte_ascii_lower)

section \<open>Trimming, lines and words\<close>

text \<open>
  The pattern trims work on the characters of the string, so they are given on the code points and
  encoded again; on valid UTF-8 this is the sub-slice that Rust returns.
\<close>

definition trim_start :: "string \<Rightarrow> string" where
  "trim_start s = str_of_chars (dropWhile is_whitespace (chars s))"

definition trim_end :: "string \<Rightarrow> string" where
  "trim_end s = str_of_chars (rev (dropWhile is_whitespace (rev (chars s))))"

definition trim :: "string \<Rightarrow> string" where
  "trim s = trim_end (trim_start s)"

definition trim_matches :: "(nat \<Rightarrow> bool) \<Rightarrow> string \<Rightarrow> string" where
  "trim_matches p s = str_of_chars (rev (dropWhile p (rev (dropWhile p (chars s)))))"

text \<open>\<open>str::lines\<close>: the line ends are a line feed or a carriage return and line feed.\<close>

definition strip_cr :: "string \<Rightarrow> string" where
  "strip_cr l = (if l \<noteq> [] \<and> last l = CHR 0x0D then butlast l else l)"

definition lines :: "string \<Rightarrow> string list" where
  "lines s = (let ps = split_on CHR 0x0A s
              in map strip_cr (butlast ps) @ (if last ps = [] then [] else [last ps]))"

fun split_chars :: "(nat \<Rightarrow> bool) \<Rightarrow> nat list \<Rightarrow> nat list list" where
  "split_chars p [] = [[]]"
| "split_chars p (c # cs) =
     (if p c then [] # split_chars p cs
      else (case split_chars p cs of [] \<Rightarrow> [[c]] | q # qs \<Rightarrow> (c # q) # qs))"

definition split_whitespace :: "string \<Rightarrow> string list" where
  "split_whitespace s = map str_of_chars (filter (\<lambda>q. q \<noteq> []) (split_chars is_whitespace (chars s)))"

text \<open>\<open>str::is_char_boundary\<close>: the ends of the string and every byte that is not a continuation byte.\<close>

definition is_char_boundary :: "string \<Rightarrow> nat \<Rightarrow> bool" where
  "is_char_boundary s i \<longleftrightarrow> i = 0 \<or> i = length s \<or> (i < length s \<and> \<not> is_cont (s ! i))"

lemma split_chars_nonempty [simp]: "split_chars p cs \<noteq> []"
  by (induction cs) (auto split: list.splits)

lemma split_chars_elems: "q \<in> set (split_chars p cs) \<Longrightarrow> set q \<subseteq> {c \<in> set cs. \<not> p c}"
proof (induction cs arbitrary: q)
  case Nil
  then show ?case by simp
next
  case (Cons c cs)
  then show ?case by (fastforce split: if_splits list.splits)
qed

section \<open>ASCII texts\<close>

lemma encode_ascii: "byte b < 0x80 \<Longrightarrow> encode_char (byte b) = [b]"
  by (simp add: encode_char_def)

lemma ascii_valid: "list_all (\<lambda>c. byte c < 0x80) s \<Longrightarrow> utf8_valid s"
proof (induction s)
  case Nil
  then show ?case by (simp add: utf8_valid.simps)
next
  case (Cons c s)
  then show ?case by (subst utf8_valid.simps) (simp add: utf8_next_def)
qed


lemma chars_ascii: "list_all (\<lambda>c. byte c < 0x80) s \<Longrightarrow> chars s = map of_char s"
proof (induction s)
  case (Cons c s)
  then show ?case using chars_encode [of "byte c" s] by (simp add: encode_ascii is_scalar_def)
qed simp

lemma str_of_chars_ascii: "list_all (\<lambda>c. byte c < 0x80) s \<Longrightarrow> str_of_chars (map of_char s) = s"
  by (induction s) (simp_all add: encode_ascii)

end
