(* ===== verification/Sha256.thy ===== *)
theory Sha256
  imports Rust_Str
begin

text \<open>
  Model of \<open>sha256_hex\<close> of \<open>src/src/handshake.rs\<close>: the local SHA-256, with its message array, its
  64-word schedule array filled in place and its eight working variables.  The second half states
  the hash the way FIPS 180-4 does (recursive message schedule, functional round) and shows the
  array program equal to it.
\<close>

section \<open>The program\<close>

definition sha_k :: "u32 list" where
  "sha_k =
    concat
     [[0x428a2f98, 0x71374491, 0xb5c0fbcf, 0xe9b5dba5, 0x3956c25b, 0x59f111f1, 0x923f82a4],
      [0xab1c5ed5, 0xd807aa98, 0x12835b01, 0x243185be, 0x550c7dc3, 0x72be5d74, 0x80deb1fe],
      [0x9bdc06a7, 0xc19bf174, 0xe49b69c1, 0xefbe4786, 0x0fc19dc6, 0x240ca1cc, 0x2de92c6f],
      [0x4a7484aa, 0x5cb0a9dc, 0x76f988da, 0x983e5152, 0xa831c66d, 0xb00327c8, 0xbf597fc7],
      [0xc6e00bf3, 0xd5a79147, 0x06ca6351, 0x14292967, 0x27b70a85, 0x2e1b2138, 0x4d2c6dfc],
      [0x53380d13, 0x650a7354, 0x766a0abb, 0x81c2c92e, 0x92722c85, 0xa2bfe8a1, 0xa81a664b],
      [0xc24b8b70, 0xc76c51a3, 0xd192e819, 0xd6990624, 0xf40e3585, 0x106aa070, 0x19a4c116],
      [0x1e376c08, 0x2748774c, 0x34b0bcb5, 0x391c0cb3, 0x4ed8aa4a, 0x5b9cca4f, 0x682e6ff3],
      [0x748f82ee, 0x78a5636f, 0x84c87814, 0x8cc70208, 0x90befffa, 0xa4506ceb, 0xbef9a3f7],
      [0xc67178f2]]"

definition sha_h0 :: "u32 list" where
  "sha_h0 = [0x6a09e667, 0xbb67ae85, 0x3c6ef372, 0xa54ff53a, 0x510e527f, 0x9b05688c, 0x1f83d9ab,
             0x5be0cd19]"

text \<open>\<open>to_be_bytes\<close> of a \<open>k\<close>-byte value and \<open>u32::from_be_bytes\<close>.\<close>

definition be_bytes :: "nat \<Rightarrow> nat \<Rightarrow> string" where
  "be_bytes k n = map (\<lambda>i. char_of (n div 256 ^ (k - 1 - i))) [0..<k]"

definition from_be_bytes :: "string \<Rightarrow> u32" where
  "from_be_bytes bs = fold (\<lambda>b acc. acc * 256 + of_nat (byte b)) bs 0"

lemma mod64_below: "(r::nat) \<le> q \<Longrightarrow> q < 64 \<Longrightarrow> (64 + q - r) mod 64 = q - r"
proof -
  assume "r \<le> q" "q < 64"
  then have "64 + q - r = 64 + (q - r)" "q - r < 64" by simp_all
  then show ?thesis by (metis mod_add_self1 mod_less)
qed

lemma mod64_above: "(q::nat) < r \<Longrightarrow> (64 + q - r) mod 64 = 64 + q - r"
  by simp

lemma pad_count_step:
  assumes "(r::nat) < 64" "r \<noteq> 56"
  shows "(120 - r) mod 64 = Suc ((120 - (if r = 63 then 0 else Suc r)) mod 64)"
proof (cases "r \<le> 56")
  case True
  with assms mod64_below [of r 56] mod64_below [of "Suc r" 56] show ?thesis by simp
next
  case False
  with assms mod64_above [of 56 r] mod64_above [of 56 "Suc r"] mod64_below [of 0 56] show ?thesis
    by (cases "r = 63") simp_all
qed

lemma pad_count_shift:
  assumes "(r::nat) < 64"
  shows "(120 - (if r = 63 then 0 else Suc r)) mod 64 = (119 - r) mod 64"
proof (cases "r \<le> 55")
  case True
  with assms mod64_below [of r 55] mod64_below [of "Suc r" 56] show ?thesis by simp
next
  case False
  with assms mod64_above [of 55 r] mod64_above [of 56 "Suc r"] mod64_below [of 0 56] show ?thesis
    by (cases "r = 63") simp_all
qed

lemma Suc_mod64: "Suc n mod 64 = (if n mod 64 = 63 then 0 else Suc (n mod 64))"
  by (simp add: mod_Suc)

text \<open>\<open>while message.len() % 64 != 56 { message.push(0) }\<close>\<close>

function pad_zeros :: "string \<Rightarrow> string" where
  "pad_zeros m = (if length m mod 64 = 56 then m else pad_zeros (m @ [CHR 0x00]))"
  by pat_completeness auto
termination
proof (relation "measure (\<lambda>m. (120 - length m mod 64) mod 64)", goal_cases)
  case (2 m)
  have "length m mod 64 < 64" by simp
  with 2 pad_count_step [of "length m mod 64"] show ?case by (simp add: Suc_mod64)
qed simp

declare pad_zeros.simps [simp del]

definition padded_message :: "string \<Rightarrow> string" where
  "padded_message data =
     (let bits = (of_nat (length data) :: u64) * 8
      in pad_zeros (data @ [CHR 0x80]) @ be_bytes 8 (unat bits))"

text \<open>\<open>as_chunks::<N>().0\<close>: the whole chunks of length \<open>N\<close>.\<close>

function chunks_exact :: "nat \<Rightarrow> 'a list \<Rightarrow> 'a list list" where
  "chunks_exact n xs = (if 0 < n \<and> n \<le> length xs then take n xs # chunks_exact n (drop n xs) else [])"
  by pat_completeness auto
termination
  by (relation "measure (\<lambda>(n, xs). length xs)") auto

declare chunks_exact.simps [simp del]

definition schedule_word :: "u32 list \<Rightarrow> nat \<Rightarrow> u32" where
  "schedule_word w i =
     w ! (i - 16)
     + (word_rotr 7 (w ! (i - 15)) XOR word_rotr 18 (w ! (i - 15)) XOR drop_bit 3 (w ! (i - 15)))
     + w ! (i - 7)
     + (word_rotr 17 (w ! (i - 2)) XOR word_rotr 19 (w ! (i - 2)) XOR drop_bit 10 (w ! (i - 2)))"

definition message_schedule :: "string \<Rightarrow> u32 list" where
  "message_schedule block =
     fold (\<lambda>i w. w[i := schedule_word w i]) [16..<64]
       (fold (\<lambda>(i, word) w. w[i := from_be_bytes word])
             (zip [0..<length (chunks_exact 4 block)] (chunks_exact 4 block))
             (replicate 64 0))"

type_synonym work = "u32 \<times> u32 \<times> u32 \<times> u32 \<times> u32 \<times> u32 \<times> u32 \<times> u32"

definition sha_round :: "u32 list \<Rightarrow> nat \<Rightarrow> work \<Rightarrow> work" where
  "sha_round w i = (\<lambda>(a, b, c, d, e, f, g, hh).
     let s1 = word_rotr 6 e XOR word_rotr 11 e XOR word_rotr 25 e;
         choice = (e AND f) XOR (NOT e AND g);
         t1 = hh + s1 + choice + sha_k ! i + w ! i;
         s0 = word_rotr 2 a XOR word_rotr 13 a XOR word_rotr 22 a;
         majority = (a AND b) XOR (a AND c) XOR (b AND c);
         t2 = s0 + majority
     in (t1 + t2, a, b, c, d + t1, e, f, g))"

definition work_of :: "u32 list \<Rightarrow> work" where
  "work_of h = (h ! 0, h ! 1, h ! 2, h ! 3, h ! 4, h ! 5, h ! 6, h ! 7)"

definition work_list :: "work \<Rightarrow> u32 list" where
  "work_list = (\<lambda>(a, b, c, d, e, f, g, hh). [a, b, c, d, e, f, g, hh])"

definition sha_block :: "string \<Rightarrow> u32 list \<Rightarrow> u32 list" where
  "sha_block block h =
     (let w = message_schedule block
      in map2 (+) h (work_list (fold (sha_round w) [0..<64] (work_of h))))"

definition sha256_words :: "string \<Rightarrow> u32 list" where
  "sha256_words data = fold sha_block (chunks_exact 64 (padded_message data)) sha_h0"

text \<open>\<open>format!("{word:08x}")\<close>\<close>

definition hex08 :: "u32 \<Rightarrow> string" where
  "hex08 w = (let s = show_hex (unat w) in replicate (8 - length s) CHR ''0'' @ s)"

definition sha256_hex :: "string \<Rightarrow> string" where
  "sha256_hex data = concat (map hex08 (sha256_words data))"

section \<open>FIPS 180-4\<close>

definition Ch :: "u32 \<Rightarrow> u32 \<Rightarrow> u32 \<Rightarrow> u32" where
  "Ch x y z = (x AND y) XOR (NOT x AND z)"
definition Maj :: "u32 \<Rightarrow> u32 \<Rightarrow> u32 \<Rightarrow> u32" where
  "Maj x y z = (x AND y) XOR (x AND z) XOR (y AND z)"
definition BSig0 :: "u32 \<Rightarrow> u32" where
  "BSig0 x = word_rotr 2 x XOR word_rotr 13 x XOR word_rotr 22 x"
definition BSig1 :: "u32 \<Rightarrow> u32" where
  "BSig1 x = word_rotr 6 x XOR word_rotr 11 x XOR word_rotr 25 x"
definition SSig0 :: "u32 \<Rightarrow> u32" where
  "SSig0 x = word_rotr 7 x XOR word_rotr 18 x XOR drop_bit 3 x"
definition SSig1 :: "u32 \<Rightarrow> u32" where
  "SSig1 x = word_rotr 17 x XOR word_rotr 19 x XOR drop_bit 10 x"

fun fips_W :: "u32 list \<Rightarrow> nat \<Rightarrow> u32" where
  "fips_W M t = (if t < 16 then M ! t
     else SSig1 (fips_W M (t - 2)) + fips_W M (t - 7) + SSig0 (fips_W M (t - 15)) + fips_W M (t - 16))"

declare fips_W.simps [simp del]

primrec fips_rounds :: "u32 list \<Rightarrow> work \<Rightarrow> nat \<Rightarrow> work" where
  "fips_rounds M v 0 = v"
| "fips_rounds M v (Suc t) =
     (let (a, b, c, d, e, f, g, h) = fips_rounds M v t;
          T1 = h + BSig1 e + Ch e f g + sha_k ! t + fips_W M t;
          T2 = BSig0 a + Maj a b c
      in (T1 + T2, a, b, c, d + T1, e, f, g))"

definition fips_compress :: "u32 list \<Rightarrow> u32 list \<Rightarrow> u32 list" where
  "fips_compress M H = map2 (+) H (work_list (fips_rounds M (work_of H) 64))"

text \<open>The padded message: the bit \<open>1\<close>, the least number of zero bytes, the bit length in 64 bits.\<close>

definition fips_pad :: "string \<Rightarrow> string" where
  "fips_pad data =
     (let k = (119 - length data mod 64) mod 64
      in data @ [CHR 0x80] @ replicate k CHR 0x00 @ be_bytes 8 (8 * length data mod 2 ^ 64))"

definition fips_sha256 :: "string \<Rightarrow> u32 list" where
  "fips_sha256 data =
     fold (\<lambda>block H. fips_compress (map from_be_bytes (chunks_exact 4 block)) H)
       (chunks_exact 64 (fips_pad data)) sha_h0"

section \<open>Padding\<close>

lemma pad_zeros_eq: "pad_zeros m = m @ replicate ((120 - length m mod 64) mod 64) CHR 0x00"
proof (induction m rule: pad_zeros.induct)
  case (1 m)
  show ?case
  proof (cases "length m mod 64 = 56")
    case True
    then show ?thesis by (simp add: pad_zeros.simps [of m])
  next
    case False
    have lt: "length m mod 64 < 64" by simp
    have k: "(120 - length m mod 64) mod 64 = Suc ((120 - Suc (length m) mod 64) mod 64)"
      unfolding Suc_mod64 by (rule pad_count_step [OF lt False])
    from False 1 show ?thesis
      by (simp add: pad_zeros.simps [of m] k replicate_append_same)
  qed
qed

lemma padded_message_fips: "padded_message data = fips_pad data"
proof -
  have "length data mod 64 < 64" by simp
  then have k: "(120 - Suc (length data) mod 64) mod 64 = (119 - length data mod 64) mod 64"
    unfolding Suc_mod64 by (rule pad_count_shift)
  have "unat ((of_nat (length data) :: u64) * 8) = 8 * length data mod 2 ^ 64"
    by (simp add: unat_word_ariths unat_of_nat mod_mult_right_eq mult.commute)
  with k show ?thesis by (simp add: padded_message_def fips_pad_def pad_zeros_eq Let_def)
qed

lemma length_be_bytes [simp]: "length (be_bytes k n) = k"
  by (simp add: be_bytes_def)

lemma length_fips_pad: "length (fips_pad data) mod 64 = 0"
proof -
  let ?r = "length data mod 64"
  have r: "?r < 64" by simp
  have "length (fips_pad data) = length data + 9 + (119 - ?r) mod 64"
    by (simp add: fips_pad_def Let_def)
  also have "\<dots> mod 64 = (?r + 9 + (119 - ?r) mod 64) mod 64"
    by (metis add.assoc mod_add_left_eq)
  also have "\<dots> = 0"
  proof (cases "?r \<le> 55")
    case True
    then have "(119 - ?r) mod 64 = 55 - ?r" using mod64_below [of ?r 55] by simp
    with True show ?thesis by simp
  next
    case False
    with r have "(119 - ?r) mod 64 = 119 - ?r" by simp
    with r show ?thesis by simp
  qed
  finally show ?thesis .
qed

section \<open>Schedule and rounds\<close>

lemma length_chunks_exact: "0 < n \<Longrightarrow> length (chunks_exact n xs) = length xs div n"
proof (induction n xs rule: chunks_exact.induct)
  case (1 n xs)
  then show ?case
    by (cases "n \<le> length xs") (simp_all add: chunks_exact.simps [of n xs] le_div_geq)
qed

lemma chunks_exact_length: "c \<in> set (chunks_exact n xs) \<Longrightarrow> length c = n"
proof (induction n xs rule: chunks_exact.induct)
  case (1 n xs)
  show ?case
  proof (cases "0 < n \<and> n \<le> length xs")
    case True
    with 1 show ?thesis by (auto simp: chunks_exact.simps [of n xs])
  next
    case False
    with 1(2) show ?thesis by (subst (asm) chunks_exact.simps) simp
  qed
qed

lemma fold_store:
  "length ys + k \<le> length w \<Longrightarrow>
     fold (\<lambda>(i, y) w. w[i := f y]) (zip [k..<k + length ys] ys) w
       = take k w @ map f ys @ drop (k + length ys) w"
proof (induction ys arbitrary: k w)
  case Nil
  then show ?case by simp
next
  case (Cons y ys)
  have z: "zip [k..<k + length (y # ys)] (y # ys) = (k, y) # zip [Suc k..<Suc k + length ys] ys"
    by (simp add: upt_conv_Cons del: upt_Suc)
  from Cons.prems have k: "k < length w" by simp
  have "fold (\<lambda>(i, y) w. w[i := f y]) (zip [k..<k + length (y # ys)] (y # ys)) w
      = take (Suc k) (w[k := f y]) @ map f ys @ drop (Suc k + length ys) (w[k := f y])"
    unfolding z using Cons.IH [of "Suc k" "w[k := f y]"] Cons.prems by simp
  also have "take (Suc k) (w[k := f y]) = take k w @ [f y]"
    using k by (simp add: take_Suc_conv_app_nth)
  finally show ?case by simp
qed

lemma schedule_invariant:
  assumes "length M = 16" "n \<le> 48"
  shows "fold (\<lambda>i w. w[i := schedule_word w i]) [16..<16 + n] (M @ replicate 48 0)
         = map (fips_W M) [0..<16 + n] @ replicate (48 - n) 0"
  using assms(2)
proof (induction n)
  case 0
  have "map (fips_W M) [0..<16] = M"
    by (rule nth_equalityI) (simp_all add: assms(1) fips_W.simps)
  then show ?case by simp
next
  case (Suc n)
  define w where "w = map (fips_W M) [0..<16 + n] @ replicate (48 - n) 0"
  have at: "w ! j = fips_W M j" if "j < 16 + n" for j using that by (simp add: w_def nth_append)
  have "schedule_word w (16 + n) = fips_W M (16 + n)"
    unfolding schedule_word_def
    by (subst fips_W.simps) (simp add: at SSig0_def SSig1_def add.commute add.left_commute)
  moreover have "w[16 + n := x] = map (fips_W M) [0..<16 + n] @ x # replicate (48 - Suc n) 0" for x
  proof -
    have "replicate (48 - n) (0::u32) = 0 # replicate (48 - Suc n) 0"
      using Suc.prems by (metis Suc_diff_Suc Suc_le_lessD replicate_Suc)
    then show ?thesis by (simp add: w_def list_update_append)
  qed
  moreover have "fold (\<lambda>i w. w[i := schedule_word w i]) [16..<16 + n] (M @ replicate 48 0) = w"
    using Suc unfolding w_def by simp
  moreover have "[16..<16 + Suc n] = [16..<16 + n] @ [16 + n]" "[0..<16 + Suc n] = [0..<16 + n] @ [16 + n]"
    using upt_Suc_append [of 16 "16 + n"] upt_Suc_append [of 0 "16 + n"] by simp_all
  ultimately show ?case by (simp only: fold_append map_append comp_apply fold_simps list.map) simp
qed

lemma message_schedule_fips:
  assumes "length block = 64"
  shows "message_schedule block = map (fips_W (map from_be_bytes (chunks_exact 4 block))) [0..<64]"
proof -
  let ?M = "map from_be_bytes (chunks_exact 4 block)"
  have len: "length (chunks_exact 4 block) = 16" using assms by (simp add: length_chunks_exact)
  have d: "drop 16 (replicate 64 (0::u32)) = replicate 48 0" by simp
  have "fold (\<lambda>(i, word) w. w[i := from_be_bytes word])
          (zip [0..<length (chunks_exact 4 block)] (chunks_exact 4 block)) (replicate 64 0)
        = ?M @ replicate 48 0"
    using fold_store [of "chunks_exact 4 block" 0 "replicate 64 0" from_be_bytes]
    by (simp add: len d)
  moreover have "fold (\<lambda>i w. w[i := schedule_word w i]) [16..<64] (?M @ replicate 48 0)
      = map (fips_W ?M) [0..<64]"
    using schedule_invariant [of ?M 48] len by (simp del: upt_rec_numeral)
  ultimately show ?thesis by (simp add: message_schedule_def del: upt_rec_numeral)
qed

lemma sha_rounds_fips:
  "n \<le> 64 \<Longrightarrow> fold (sha_round (map (fips_W M) [0..<64])) [0..<n] v = fips_rounds M v n"
proof (induction n)
  case 0
  then show ?case by simp
next
  case (Suc n)
  then show ?case
    by (simp add: sha_round_def Let_def Ch_def Maj_def BSig0_def BSig1_def split: prod.splits)
qed

lemma sha_block_fips:
  "length block = 64 \<Longrightarrow> sha_block block h = fips_compress (map from_be_bytes (chunks_exact 4 block)) h"
  by (simp add: sha_block_def fips_compress_def message_schedule_fips sha_rounds_fips)

lemma sha256_words_fips: "sha256_words data = fips_sha256 data"
  unfolding sha256_words_def fips_sha256_def padded_message_fips
  by (rule fold_cong) (auto simp: fun_eq_iff sha_block_fips dest: chunks_exact_length)

section \<open>Shape of the digest\<close>

lemma length_sha_block: "length h = 8 \<Longrightarrow> length (sha_block b h) = 8"
  by (simp add: sha_block_def Let_def work_list_def split: prod.splits)

lemma length_sha256_words: "length (sha256_words data) = 8"
proof -
  have "length (fold sha_block bs h) = 8" if "length h = 8" for bs h
    using that by (induction bs arbitrary: h) (simp_all add: length_sha_block)
  then show ?thesis by (simp add: sha256_words_def sha_h0_def)
qed

lemma length_show_base: "2 \<le> b \<Longrightarrow> n < b ^ Suc k \<Longrightarrow> length (show_base b n) \<le> Suc k"
proof (induction k arbitrary: n)
  case 0
  then show ?case by (simp add: show_base.simps [of b n])
next
  case (Suc k)
  have "n div b < b ^ Suc k" using Suc.prems by (simp add: less_mult_imp_div_less mult.commute)
  then have "length (show_base b (n div b)) \<le> Suc k" using Suc by blast
  then show ?case by (subst show_base.simps) simp
qed

lemma length_hex08: "length (hex08 w) = 8"
proof -
  have "unat w < 16 ^ Suc 7" using unsigned_less [of w] by simp
  then have "length (show_hex (unat w)) \<le> Suc 7" unfolding show_hex_def by (intro length_show_base) simp_all
  then show ?thesis by (simp add: hex08_def Let_def)
qed

lemma length_sha256_hex: "length (sha256_hex data) = 64"
  using length_sha256_words [of data]
  by (simp add: sha256_hex_def length_concat comp_def length_hex08 sum_list_triv)

end
