(* ===== verification/Accepted_Set.thy ===== *)
theory Accepted_Set
  imports Sha256 "HOL-Library.List_Lexorder" "HOL-Library.Char_ord"
begin

text \<open>
  The identities the handshake of \<open>src/src/handshake.rs\<close> exchanges: the cluster UUID, the target
  generation with its hexadecimal text form, and the canonical digest of the set of accepted schema
  versions.  The lemmas show that the text forms round-trip, that a version string is accepted
  exactly when it is the decimal form of a number in \<open>1..u32::MAX\<close>, that the digest frame determines the
  set, and that the digest depends on the set only.
\<close>

section \<open>Cluster UUID and target generation\<close>

text \<open>\<open>ElasticsearchClusterUuid\<close> is the checked string itself.\<close>

definition uuid_parse :: "string \<Rightarrow> string option" where
  "uuid_parse value =
     (if length value = 22 \<and> list_all (\<lambda>b. is_alphanumeric b \<or> b = CHR ''_'' \<or> b = CHR ''-'') value
      then Some value else None)"

definition hex :: "char \<Rightarrow> u8 option" where
  "hex b = (if CHR ''0'' \<le> b \<and> b \<le> CHR ''9'' then Some (of_char b - 48)
            else if CHR ''a'' \<le> b \<and> b \<le> CHR ''f'' then Some (of_char b - 97 + 10) else None)"

fun generation_bytes :: "string \<Rightarrow> u8 list option" where
  "generation_bytes (h # l # r) =
     (case (hex h, hex l) of
        (Some x, Some y) \<Rightarrow> map_option ((#) (push_bit 4 x OR y)) (generation_bytes r)
      | _ \<Rightarrow> None)"
| "generation_bytes _ = Some []"

text \<open>\<open>TargetGeneration\<close> is the array of its 32 bytes.\<close>

definition generation_parse :: "string \<Rightarrow> u8 list option" where
  "generation_parse value =
     (if length value \<noteq> 64 \<or>
         \<not> list_all (\<lambda>b. is_digit b \<or> (CHR ''a'' \<le> b \<and> b \<le> CHR ''f'')) value
      then None else generation_bytes value)"

text \<open>\<open>write!(f, "{b:02x}")\<close> for every byte.\<close>

definition hex02 :: "u8 \<Rightarrow> string" where
  "hex02 w = (let s = show_hex (unat w) in replicate (2 - length s) CHR ''0'' @ s)"

definition generation_text :: "u8 list \<Rightarrow> string" where
  "generation_text bs = concat (map hex02 bs)"

section \<open>Accepted schema versions\<close>

definition diagnosis_schema_version :: nat where "diagnosis_schema_version = 1"

definition valid_version :: "string \<Rightarrow> bool" where
  "valid_version value \<longleftrightarrow>
     value \<noteq> [] \<and> length value \<le> 10 \<and> list_all is_digit value \<and> \<not> starts_with ''0'' value
     \<and> parse_u32 value \<noteq> None"

definition digest_frame :: "string list \<Rightarrow> string" where
  "digest_frame entries =
     ''rigsignal:w1:accepted-schema-versions:digest:v1'' @ [CHR 0x00]
     @ be_bytes 4 (unat (of_nat (length entries) :: u32))
     @ concat (map (\<lambda>entry. be_bytes 4 (unat (of_nat (length entry) :: u32)) @ entry) entries)"

definition digest_entries :: "string list \<Rightarrow> string" where
  "digest_entries entries = sha256_hex (digest_frame entries)"

text \<open>\<open>sort\<close> then \<open>dedup\<close> of the entries.\<close>

definition canonical_entries :: "string list \<Rightarrow> string list" where
  "canonical_entries values = remdups_adj (sort values)"

definition accepted_set :: "string list \<Rightarrow> (string \<times> bool) option" where
  "accepted_set values =
     (if values = [] \<or> 256 < length values then None
      else if list_ex (\<lambda>v. \<not> valid_version v) values then None
      else let entries = canonical_entries values
           in Some (digest_entries entries,
                    list_ex (\<lambda>v. v = show_nat diagnosis_schema_version) entries))"

section \<open>Lemmas on the generation text\<close>

lemma digit_char_0: "digit_char 0 = CHR ''0''"
  by (simp add: digit_char_def char_of_eq_iff)

lemma unat_u8_div: "unat (w::u8) div 16 < 16"
  using unsigned_less [where ?'a = nat, of w] by simp

lemma hex02_digits: "hex02 w = [digit_char (unat w div 16), digit_char (unat w mod 16)]"
proof -
  note d = unat_u8_div [of w]
  show ?thesis
  proof (cases "unat w < 16")
    case True
    then show ?thesis
      by (simp add: hex02_def show_hex_def show_base.simps [of 16 "unat w"] digit_char_0)
  next
    case False
    with d show ?thesis
      by (simp add: hex02_def show_hex_def show_base.simps [of 16 "unat w"]
          show_base.simps [of 16 "unat w div 16"])
  qed
qed

lemma byte_digit_char: "d < 16 \<Longrightarrow> byte (digit_char d) = (if d < 10 then 48 + d else 87 + d)"
  by (simp add: digit_char_def of_char_char_of_small)

lemma char_le_byte: "(c::char) \<le> d \<longleftrightarrow> byte c \<le> byte d"
  by (simp add: less_eq_char_def)

lemma of_char_word: "(of_char c :: u8) = of_nat (byte c)"
  by (simp add: of_nat_of_char)

lemma unat_of_nat_u8: "n < 256 \<Longrightarrow> unat (of_nat n :: u8) = n"
  by (simp add: unat_of_nat take_bit_nat_def)

lemma unat_of_nat_u32: "n < 2 ^ 32 \<Longrightarrow> unat (of_nat n :: u32) = n"
  by (simp add: unat_of_nat take_bit_nat_def)

lemma hex_digit_char: "d < 16 \<Longrightarrow> hex (digit_char d) = Some (of_nat d)"
  by (auto simp: hex_def char_le_byte byte_digit_char of_char_word)

lemma nibbles: "push_bit 4 (of_nat (unat (w::u8) div 16)) OR of_nat (unat w mod 16) = w"
proof -
  have "push_bit 4 (of_nat (unat w div 16)) OR of_nat (unat w mod 16)
      = (of_nat (unat w div 16) * 16 + of_nat (unat w mod 16) :: u8)"
  proof (subst disjunctive_add [symmetric])
    fix n
    have "\<not> bit (push_bit 4 (unat w div 16)) n \<or> \<not> bit (unat w mod 16) n"
    proof (cases "n < 4")
      case True
      then show ?thesis by (simp add: bit_push_bit_iff)
    next
      case False
      have "unat w mod 2 ^ 4 = take_bit 4 (unat w)" by (simp add: take_bit_eq_mod)
      with False show ?thesis by (simp add: bit_take_bit_iff)
    qed
    then show "\<not> bit (push_bit 4 (of_nat (unat w div 16) :: u8)) n \<or> \<not> bit (of_nat (unat w mod 16) :: u8) n"
      by (auto simp: bit_push_bit_iff bit_simps)
  qed (simp add: push_bit_eq_mult mult.commute)
  also have "\<dots> = of_nat (unat w div 16 * 16 + unat w mod 16)"
    by (simp only: of_nat_add of_nat_mult of_nat_numeral)
  also have "\<dots> = w" by (simp only: div_mult_mod_eq) simp
  finally show ?thesis .
qed

lemma generation_bytes_text: "generation_bytes (generation_text bs) = Some bs"
  by (induction bs) (simp_all add: generation_text_def hex02_digits hex_digit_char nibbles unat_u8_div)

lemma hex_Some: "hex b = Some x \<Longrightarrow> unat x < 16 \<and> b = digit_char (unat x)"
proof -
  assume a: "hex b = Some x"
  obtain k where k: "x = of_nat k" "(k < 10 \<and> byte b = 48 + k) \<or> (10 \<le> k \<and> k < 16 \<and> byte b = 87 + k)"
  proof (cases "CHR ''0'' \<le> b \<and> b \<le> CHR ''9''")
    case True
    then have "48 \<le> byte b" "byte b \<le> 57" by (simp_all add: char_le_byte)
    moreover from True a have "x = of_nat (byte b - 48)" using \<open>48 \<le> byte b\<close>
      by (simp add: hex_def of_char_word of_nat_diff)
    ultimately show ?thesis by (intro that [of "byte b - 48"]) auto
  next
    case False
    with a have "97 \<le> byte b" "byte b \<le> 102" by (auto simp: hex_def char_le_byte split: if_splits)
    moreover from False a have "x = of_nat (byte b - 87)" using \<open>97 \<le> byte b\<close>
      by (auto simp: hex_def of_char_word of_nat_diff split: if_splits)
    ultimately show ?thesis by (intro that [of "byte b - 87"]) auto
  qed
  then have "b = digit_char k" by (metis char_of_byte digit_char_def linorder_not_less)
  moreover have "unat x = k" unfolding k(1) using k(2) by (intro unat_of_nat_u8) auto
  ultimately show ?thesis using k(2) by auto
qed

lemma nibbles_unat:
  assumes "unat (x::u8) < 16" "unat y < 16"
  shows "unat (push_bit 4 x OR y) = 16 * unat x + unat y"
proof -
  define n where "n = 16 * unat x + unat y"
  have w: "unat (of_nat n :: u8) = n" unfolding n_def using assms by (intro unat_of_nat_u8) simp
  have "n div 16 = unat x" "n mod 16 = unat y" unfolding n_def using assms by simp_all
  with nibbles [of "of_nat n"] have "push_bit 4 x OR y = of_nat n" unfolding w by simp
  with w show ?thesis by (simp add: n_def)
qed

lemma generation_text_bytes:
  "even (length v) \<Longrightarrow> generation_bytes v = Some bs \<Longrightarrow> generation_text bs = v \<and> 2 * length bs = length v"
proof (induction v arbitrary: bs rule: generation_bytes.induct)
  case (1 h l r)
  then obtain x y bs' where xy: "hex h = Some x" "hex l = Some y" and
    r: "generation_bytes r = Some bs'" and bs: "bs = (push_bit 4 x OR y) # bs'"
    by (auto split: option.splits)
  note nib = hex_Some [OF xy(1)] hex_Some [OF xy(2)]
  have "hex02 (push_bit 4 x OR y) = [h, l]"
    using nib by (simp add: hex02_digits nibbles_unat)
  moreover have "generation_text bs' = r \<and> 2 * length bs' = length r"
    using "1.IH" [OF refl xy _ r] "1.prems"(1) by simp
  ultimately show ?case by (simp add: bs generation_text_def)
qed (auto simp: generation_text_def)

lemma generation_text_chars:
  "c \<in> set (generation_text bs) \<Longrightarrow> is_digit c \<or> (CHR ''a'' \<le> c \<and> c \<le> CHR ''f'')"
proof -
  assume "c \<in> set (generation_text bs)"
  then obtain w where "c \<in> set (hex02 w)" by (auto simp: generation_text_def)
  then consider "c = digit_char (unat w div 16)" | "c = digit_char (unat w mod 16)"
    unfolding hex02_digits by auto
  then obtain d where "d < 16" "c = digit_char d"
    by cases (metis unat_u8_div, metis mod_less_divisor zero_less_numeral)
  then show ?thesis by (auto simp: is_digit_def char_le_byte byte_digit_char)
qed

lemma length_generation_text: "length (generation_text bs) = 2 * length bs"
  by (induction bs) (simp_all add: generation_text_def hex02_digits)

section \<open>Lemmas on versions and the digest frame\<close>

lemma digit_value_digit: "is_digit c \<Longrightarrow> digit_value 10 c = Some (byte c - 48)"
proof -
  assume "is_digit c"
  then have "48 \<le> byte c" "byte c \<le> 57" by (simp_all add: is_digit_def)
  then show ?thesis by (simp add: digit_value_def Let_def)
qed

lemma digits_value_ge: "acc \<le> digits_value 10 acc s"
proof (induction s arbitrary: acc)
  case (Cons c s)
  have "acc \<le> acc * 10 + the (digit_value 10 c)" by simp
  also have "\<dots> \<le> digits_value 10 (acc * 10 + the (digit_value 10 c)) s" by (rule Cons.IH)
  finally show ?case by simp
qed simp

lemma read_digits_value:
  "list_all is_digit s \<Longrightarrow> acc \<le> mx \<Longrightarrow>
     read_digits 10 mx acc s = (if digits_value 10 acc s \<le> mx then Some (digits_value 10 acc s) else None)"
proof (induction s arbitrary: acc)
  case Nil
  then show ?case by simp
next
  case (Cons c s)
  let ?a = "acc * 10 + (byte c - 48)"
  from Cons.prems have c: "digit_value 10 c = Some (byte c - 48)" by (simp add: digit_value_digit)
  show ?case
  proof (cases "?a \<le> mx")
    case True
    with Cons c show ?thesis by simp
  next
    case False
    with digits_value_ge [of ?a s] have "\<not> digits_value 10 ?a s \<le> mx" by linarith
    with False c show ?thesis by simp
  qed
qed

lemma parse_u32_digits:
  assumes "list_all is_digit s" "s \<noteq> []"
  shows "parse_u32 s = (if digits_value 10 0 s \<le> u32_max then Some (digits_value 10 0 s) else None)"
proof -
  obtain c cs where s: "s = c # cs" using assms(2) by (cases s) auto
  have "c \<noteq> CHR ''+''" "c \<noteq> CHR ''-''" using assms(1) by (auto simp: s is_digit_def)
  then have "parse_u32 s = read_digits 10 u32_max 0 s" by (simp add: parse_u32_def from_str_radix_def s)
  with read_digits_value [OF assms(1), of 0 u32_max] show ?thesis by simp
qed

lemma show_nat_0: "show_nat 0 = ''0''"
  by (simp add: show_nat_def show_base.simps digit_char_0)

lemma show_digits_value:
  "list_all is_digit s \<Longrightarrow> s \<noteq> [] \<Longrightarrow> hd s \<noteq> CHR ''0'' \<Longrightarrow> show_nat (digits_value 10 0 s) = s"
proof (induction s rule: rev_induct)
  case Nil
  then show ?case by simp
next
  case (snoc c xs)
  have c: "is_digit c" using snoc.prems by simp
  let ?d = "byte c - 48"
  have d: "?d < 10" "digit_char ?d = c" using c by (auto simp: is_digit_def digit_char_def less_diff_conv2)
  show ?case
  proof (cases "xs = []")
    case True
    with c d show ?thesis by (simp add: digit_value_digit show_nat_def show_base.simps)
  next
    case False
    let ?n = "digits_value 10 0 xs"
    from False snoc have IH: "show_nat ?n = xs" by simp
    with False snoc.prems have "?n \<noteq> 0" by (metis hd_append2 list.sel(1) show_nat_0)
    then have "\<not> ?n * 10 + ?d < 10" by simp
    then have "show_nat (?n * 10 + ?d) = show_nat ?n @ [digit_char ?d]"
      unfolding show_nat_def using d by (subst show_base.simps) simp
    with IH d c show ?thesis by (simp add: digits_value_snoc digit_value_digit)
  qed
qed

lemma hd_show_base: "2 \<le> b \<Longrightarrow> b \<le> 36 \<Longrightarrow> 0 < n \<Longrightarrow> hd (show_base b n) \<noteq> digit_char 0"
proof (induction b n rule: show_base.induct)
  case (1 b n)
  show ?case
  proof (cases "n < b")
    case True
    with 1(2-4) digit_value_char [of n b] digit_value_char [of 0 b] show ?thesis
      by (auto simp: show_base.simps [of b n])
  next
    case False
    with 1 have "hd (show_base b (n div b)) \<noteq> digit_char 0" by (simp add: div_greater_zero_iff)
    with False 1(2) show ?thesis by (simp add: show_base.simps [of b n])
  qed
qed

lemma valid_version_char:
  "valid_version v \<longleftrightarrow> (\<exists>n. 1 \<le> n \<and> n \<le> u32_max \<and> v = show_nat n)"
proof
  assume v: "valid_version v"
  then have d: "list_all is_digit v" "v \<noteq> []" and p: "parse_u32 v \<noteq> None" and z: "hd v \<noteq> CHR ''0''"
    by (auto simp: valid_version_def starts_with_def neq_Nil_conv)
  let ?n = "digits_value 10 0 v"
  have eq: "show_nat ?n = v" using show_digits_value [OF d z] .
  have "?n \<le> u32_max" using p parse_u32_digits [OF d] by (simp split: if_splits)
  moreover have "?n \<noteq> 0" using eq z by (metis list.sel(1) show_nat_0)
  ultimately show "\<exists>n. 1 \<le> n \<and> n \<le> u32_max \<and> v = show_nat n"
    using eq by (intro exI [of _ ?n]) auto
next
  assume "\<exists>n. 1 \<le> n \<and> n \<le> u32_max \<and> v = show_nat n"
  then obtain n where n: "1 \<le> n" "n \<le> u32_max" "v = show_nat n" by blast
  have d: "list_all is_digit v" using show_nat_is_digit n(3) by (auto simp: list_all_iff)
  have val: "digits_value 10 0 v = n" unfolding n(3) show_nat_def by (rule digits_value_show) simp_all
  have "n < 10 ^ Suc 9" using n(2) by (simp add: u32_max_def)
  then have "length v \<le> 10" unfolding n(3) show_nat_def using length_show_base [of 10 n 9] by simp
  moreover have "hd v \<noteq> CHR ''0''"
    using hd_show_base [of 10 n] n(1) unfolding n(3) show_nat_def digit_char_0 by simp
  moreover have "v \<noteq> []" by (simp add: n(3))
  ultimately show "valid_version v"
    using d val n(2) parse_u32_digits [OF d \<open>v \<noteq> []\<close>]
    by (cases v) (auto simp: valid_version_def starts_with_def)
qed

fun be_value :: "nat \<Rightarrow> string \<Rightarrow> nat" where
  "be_value acc [] = acc"
| "be_value acc (b # bs) = be_value (acc * 256 + byte b) bs"

lemma be_value_snoc: "be_value acc (bs @ [b]) = be_value acc bs * 256 + byte b"
  by (induction bs arbitrary: acc) simp_all

lemma be_bytes_Suc: "be_bytes (Suc k) n = be_bytes k (n div 256) @ [char_of n]"
proof -
  have "n div 256 ^ (k - i) = n div 256 div 256 ^ (k - 1 - i)" if "i < k" for i
  proof -
    from that have "k - i = Suc (k - 1 - i)" by simp
    then show ?thesis by (simp only: power_Suc div_mult2_eq)
  qed
  then show ?thesis by (simp add: be_bytes_def)
qed

lemma be_value_bytes: "be_value 0 (be_bytes k n) = n mod 256 ^ k"
proof (induction k arbitrary: n)
  case 0
  then show ?case by (simp add: be_bytes_def)
next
  case (Suc k)
  have "n mod (256 * 256 ^ k) = 256 * (n div 256 mod 256 ^ k) + n mod 256" by (rule mod_mult2_eq)
  with Suc show ?case by (simp add: be_bytes_Suc be_value_snoc)
qed

lemma be_bytes_inj: "m < 256 ^ k \<Longrightarrow> n < 256 ^ k \<Longrightarrow> be_bytes k m = be_bytes k n \<Longrightarrow> m = n"
  by (metis be_value_bytes mod_less)

definition framed :: "string \<Rightarrow> string" where
  "framed e = be_bytes 4 (unat (of_nat (length e) :: u32)) @ e"

lemma framed_head:
  assumes "length e < 2 ^ 32" "length e' < 2 ^ 32" "framed e @ r = framed e' @ r'"
  shows "e = e' \<and> r = r'"
proof -
  from assms(3) have "be_bytes 4 (length e) = be_bytes 4 (length e')" and r: "e @ r = e' @ r'"
    unfolding framed_def unat_of_nat_u32 [OF assms(1)] unat_of_nat_u32 [OF assms(2)]
    by (simp_all add: append_eq_append_conv)
  then have "length e = length e'" using be_bytes_inj [of "length e" 4 "length e'"] assms(1,2) by simp
  with r show ?thesis by simp
qed

lemma frames_inj:
  "length es = length fs \<Longrightarrow> list_all (\<lambda>e. length e < 2 ^ 32) es \<Longrightarrow> list_all (\<lambda>e. length e < 2 ^ 32) fs \<Longrightarrow>
     concat (map framed es) = concat (map framed fs) \<Longrightarrow> es = fs"
proof (induction es fs rule: list_induct2)
  case (Cons e es f fs)
  with framed_head [of e f "concat (map framed es)" "concat (map framed fs)"] show ?case by simp
qed simp

lemma digest_frame_framed:
  "digest_frame es = ''rigsignal:w1:accepted-schema-versions:digest:v1'' @ [CHR 0x00]
     @ be_bytes 4 (unat (of_nat (length es) :: u32)) @ concat (map framed es)"
  by (simp add: digest_frame_def framed_def [abs_def])

lemma digest_frame_inj_aux:
  assumes "length es < 2 ^ 32" "length fs < 2 ^ 32"
    and "list_all (\<lambda>e. length e < 2 ^ 32) es" "list_all (\<lambda>e. length e < 2 ^ 32) fs"
    and "digest_frame es = digest_frame fs"
  shows "es = fs"
proof -
  from assms(5) have "be_bytes 4 (length es) = be_bytes 4 (length fs)"
    and c: "concat (map framed es) = concat (map framed fs)"
    unfolding digest_frame_framed unat_of_nat_u32 [OF assms(1)] unat_of_nat_u32 [OF assms(2)]
    by (simp_all add: append_eq_append_conv)
  then have "length es = length fs" using be_bytes_inj [of "length es" 4 "length fs"] assms(1,2) by simp
  with assms(3,4) c show ?thesis by (intro frames_inj)
qed

lemma distinct_remdups_adj_sorted: "sorted (xs :: 'a::linorder list) \<Longrightarrow> distinct (remdups_adj xs)"
  by (induction xs rule: remdups_adj.induct) auto

lemma canonical_entries_set: "canonical_entries vs = sorted_list_of_set (set vs)"
proof (rule sorted_distinct_set_unique)
  show "sorted (canonical_entries vs)" by (simp add: canonical_entries_def sorted_remdups_adj)
  show "distinct (canonical_entries vs)"
    by (simp add: canonical_entries_def distinct_remdups_adj_sorted)
qed (simp_all add: canonical_entries_def)

lemma generation_parse_Some:
  assumes "generation_parse v = Some bs"
  shows "length bs = 32 \<and> generation_text bs = v"
proof -
  from assms have "length v = 64" "generation_bytes v = Some bs"
    by (simp_all add: generation_parse_def split: if_splits)
  with generation_text_bytes [of v bs] show ?thesis by auto
qed

section \<open>Properties\<close>

text \<open>The text form of a target generation and its parser are inverse: a string parses to 32 bytes
  exactly when it is the lower-case hexadecimal text those bytes are displayed as.\<close>

theorem generation_roundtrip:
  "generation_parse v = Some bs \<longleftrightarrow> length bs = 32 \<and> generation_text bs = v"
proof
  assume "generation_parse v = Some bs"
  then show "length bs = 32 \<and> generation_text bs = v" by (rule generation_parse_Some)
next
  assume "length bs = 32 \<and> generation_text bs = v"
  then show "generation_parse v = Some bs"
    using generation_text_chars [of _ bs] generation_bytes_text [of bs]
    by (auto simp: generation_parse_def length_generation_text list_all_iff)
qed

text \<open>A version string is accepted exactly when it is the canonical decimal form of a number between
  1 and \<open>u32::MAX\<close>: no sign, no leading zero, no overflow.\<close>

theorem valid_version_iff:
  "valid_version v \<longleftrightarrow> (\<exists>n. 1 \<le> n \<and> n \<le> u32_max \<and> v = show_nat n)"
  by (rule valid_version_char)

text \<open>The digest and the membership answer depend only on the set of versions a cluster lists: order
  and repetition do not matter, and the answer says whether this agent's schema version is in the set.\<close>

theorem accepted_set_canonical:
  assumes "set vs = set ws" "vs \<noteq> []" "length vs \<le> 256" "length ws \<le> 256"
  shows "accepted_set vs = accepted_set ws
    \<and> accepted_set vs = (if list_all valid_version vs
         then Some (digest_entries (sorted_list_of_set (set vs)), ''1'' \<in> set vs) else None)"
proof -
  have one: "show_nat diagnosis_schema_version = ''1''"
    by (simp add: diagnosis_schema_version_def show_nat_def show_base.simps digit_char_def char_of_eq_iff)
  have ws: "ws \<noteq> []" using assms(1,2) by auto
  have "accepted_set us = (if list_all valid_version us
         then Some (digest_entries (sorted_list_of_set (set us)), ''1'' \<in> set us) else None)"
    if "us \<noteq> []" "length us \<le> 256" for us
    using that
    by (auto simp: accepted_set_def canonical_entries_set one list_ex_iff list_all_iff Let_def)
  then show ?thesis using assms ws by (simp add: list_all_iff)
qed

theorem accepted_set_canonical_witness:
  "accepted_set [''2'', ''1'', ''2''] = accepted_set [''1'', ''2'']"
  using accepted_set_canonical [of "[''2'', ''1'', ''2'']" "[''1'', ''2'']"] by auto

text \<open>The byte frame that is hashed determines the set of versions: two accepted lists have the same
  frame exactly when they list the same versions, so two different sets can share a digest only
  through a collision of SHA-256.\<close>

theorem digest_frame_determines_set:
  assumes "accepted_set vs = Some r" "accepted_set ws = Some r'"
  shows "digest_frame (canonical_entries vs) = digest_frame (canonical_entries ws) \<longleftrightarrow> set vs = set ws"
proof -
  have bound: "length (canonical_entries us) < 2 ^ 32 \<and> list_all (\<lambda>e. length e < 2 ^ 32) (canonical_entries us)"
    if "accepted_set us = Some q" for us q
  proof -
    from that have l: "length us \<le> 256" and v: "list_all valid_version us"
      by (auto simp: accepted_set_def list_ex_iff list_all_iff split: if_splits)
    have "length (canonical_entries us) \<le> length us"
      unfolding canonical_entries_def by (metis length_sort remdups_adj_length)
    moreover have "length e < 2 ^ 32" if "e \<in> set (canonical_entries us)" for e
    proof -
      from that v have "length e \<le> 10" by (simp add: canonical_entries_def list_all_iff valid_version_def)
      then show ?thesis by simp
    qed
    ultimately show ?thesis using l by (simp add: list_all_iff)
  qed
  note b = bound [OF assms(1)] bound [OF assms(2)]
  have "digest_frame (canonical_entries vs) = digest_frame (canonical_entries ws)
    \<longleftrightarrow> canonical_entries vs = canonical_entries ws"
    using digest_frame_inj_aux [OF conjunct1 [OF b(1)] conjunct1 [OF b(2)] conjunct2 [OF b(1)]
        conjunct2 [OF b(2)]] by (iprover intro: arg_cong)
  also have "\<dots> \<longleftrightarrow> set vs = set ws"
    by (metis canonical_entries_set List.finite_set set_sorted_list_of_set)
  finally show ?thesis .
qed

theorem digest_frame_determines_set_witness:
  "digest_frame (canonical_entries [''1'']) \<noteq> digest_frame (canonical_entries [''7''])"
proof -
  have d: "is_digit CHR ''1''" "is_digit CHR ''7''" by (simp_all add: is_digit_def)
  have "valid_version ''1''" "valid_version ''7''"
    using d by (simp_all add: valid_version_def starts_with_def parse_u32_digits digit_value_digit u32_max_def)
  then obtain r r' where "accepted_set [''1''] = Some r" "accepted_set [''7''] = Some r'"
    by (simp add: accepted_set_def Let_def)
  from digest_frame_determines_set [OF this] show ?thesis by simp
qed


end
