(* ===== verification/Json_Scan.thy ===== *)
theory Json_Scan
  imports Rust_Str "HOL-Library.List_Lexorder" "HOL-Library.Char_ord"
begin

text \<open>
  Model of the bounded JSON admission of \<open>src/src/handshake.rs\<close>: \<open>scan_json\<close> and \<open>scan_string\<close>, which
  bound nesting, tokens and decoded string bytes before the deserialiser runs, and \<open>DuplicateParser\<close>,
  which walks the document a second time and rejects duplicates of the keys a decision depends on.
  The deserialiser itself (serde\_json) is a parameter.  The lemmas show the scanner equal to a
  lexer followed by a check of the token list, the walk to end within its fuel (two units per byte), and
  the walk to accept exactly the documents whose syntax tree has no duplicate protected key.
\<close>

section \<open>Values\<close>

text \<open>\<open>serde_json::Value\<close>; an object is the association list of its map.\<close>

datatype jnum = PosInt nat | NegInt int | JFloat string

datatype json =
    JNull | JBool bool | JNumber jnum | JString string | JArray "json list"
  | JObject "(string \<times> json) list"

definition as_object :: "json \<Rightarrow> (string \<times> json) list option" where
  "as_object v = (case v of JObject m \<Rightarrow> Some m | _ \<Rightarrow> None)"
definition as_array :: "json \<Rightarrow> json list option" where
  "as_array v = (case v of JArray xs \<Rightarrow> Some xs | _ \<Rightarrow> None)"
definition as_str :: "json \<Rightarrow> string option" where
  "as_str v = (case v of JString s \<Rightarrow> Some s | _ \<Rightarrow> None)"
definition as_u64 :: "json \<Rightarrow> nat option" where
  "as_u64 v = (case v of JNumber (PosInt n) \<Rightarrow> Some n | _ \<Rightarrow> None)"
definition as_bool :: "json \<Rightarrow> bool option" where
  "as_bool v = (case v of JBool b \<Rightarrow> Some b | _ \<Rightarrow> None)"
definition is_object :: "json \<Rightarrow> bool" where
  "is_object v = (as_object v \<noteq> None)"

text \<open>\<open>Value::get\<close> with a string key: absent on anything that is not an object.\<close>

definition get :: "string \<Rightarrow> json \<Rightarrow> json option" where
  "get k v = (case v of JObject m \<Rightarrow> map_of m k | _ \<Rightarrow> None)"

section \<open>\<open>scan_string\<close>\<close>

text \<open>\<open>u16::from_str_radix(std::str::from_utf8(hexes).ok()?, 16).ok()\<close>\<close>

definition hex_u16 :: "string \<Rightarrow> nat option" where
  "hex_u16 hexes = (if utf8_valid hexes then from_str_radix 16 0xFFFF hexes else None)"

text \<open>\<open>char::from_u32(c)?.len_utf8()\<close>\<close>

definition scalar_len :: "nat \<Rightarrow> nat option" where
  "scalar_len c = (if is_scalar c then Some (len_utf8 c) else None)"

text \<open>The escape whose letter is at \<open>i\<close>: the index of its last byte and the decoded bytes it stands for.\<close>

definition scan_escape :: "bytes \<Rightarrow> nat \<Rightarrow> (nat \<times> nat) option" where
  "scan_escape bytes i =
     (case list_get bytes i of
        None \<Rightarrow> None
      | Some esc \<Rightarrow>
        (if esc \<in> set [CHR 0x22, CHR 0x5C, CHR ''/'', CHR ''b'', CHR ''f'', CHR ''n'', CHR ''r'', CHR ''t'']
         then Some (i, 1)
         else if esc = CHR ''u'' then
           do { hexes \<leftarrow> slice_get bytes (i + 1) (i + 5);
                value \<leftarrow> hex_u16 hexes;
                let i = i + 4;
                if 0xD800 \<le> value \<and> value \<le> 0xDBFF then
                  (if list_get bytes (i + 1) \<noteq> Some CHR 0x5C \<or> list_get bytes (i + 2) \<noteq> Some CHR ''u''
                   then None
                   else do { lowhex \<leftarrow> slice_get bytes (i + 3) (i + 7);
                             low \<leftarrow> hex_u16 lowhex;
                             if \<not> (0xDC00 \<le> low \<and> low \<le> 0xDFFF) then None
                             else do { n \<leftarrow> scalar_len (0x10000 + (push_bit 10 (value - 0xD800) OR (low - 0xDC00)));
                                       Some (i + 6, n) } })
                else if 0xDC00 \<le> value \<and> value \<le> 0xDFFF then None
                else do { n \<leftarrow> scalar_len value; Some (i, n) } }
         else None))"

lemma scan_escape_bounds: "scan_escape bytes i = Some (j, n) \<Longrightarrow> i \<le> j \<and> j < length bytes"
  by (auto simp: scan_escape_def Let_def slice_get_def list_get_Some bind_eq_Some_conv
      split: option.splits if_splits)

function scan_string_loop :: "bytes \<Rightarrow> nat \<Rightarrow> nat \<Rightarrow> nat option" where
  "scan_string_loop bytes i decoded =
     (if length bytes \<le> i then None
      else if bytes ! i = CHR 0x22 then (if decoded \<le> 4096 then Some (i + 1) else None)
      else if bytes ! i = CHR 0x5C then
        (case scan_escape bytes (i + 1) of
           None \<Rightarrow> None
         | Some (j, n) \<Rightarrow> if 4096 < decoded + n then None
                        else scan_string_loop bytes (j + 1) (decoded + n))
      else if 0x20 \<le> byte (bytes ! i) then
        (case (if utf8_valid (drop i bytes) then utf8_next (drop i bytes) else None) of
           None \<Rightarrow> None
         | Some (c, width) \<Rightarrow> if 4096 < decoded + width then None
                            else scan_string_loop bytes (i + (width - 1) + 1) (decoded + width))
      else None)"
  by pat_completeness auto
termination
  by (relation "measure (\<lambda>(bytes, i, decoded). length bytes - i)")
     (auto dest: scan_escape_bounds utf8_next_width)

declare scan_string_loop.simps [simp del]

definition scan_string :: "bytes \<Rightarrow> nat \<Rightarrow> nat option" where
  "scan_string bytes i = scan_string_loop bytes i 0"

lemma scan_string_loop_bounds:
  "scan_string_loop bytes i decoded = Some j \<Longrightarrow> i < j \<and> j \<le> length bytes"
proof (induction bytes i decoded rule: scan_string_loop.induct)
  case (1 bytes i decoded)
  from "1.prems" have i: "\<not> length bytes \<le> i" by (subst (asm) scan_string_loop.simps) (simp split: if_splits)
  consider (quote) "bytes ! i = CHR 0x22"
    | (esc) "bytes ! i \<noteq> CHR 0x22" "bytes ! i = CHR 0x5C"
    | (plain) "bytes ! i \<noteq> CHR 0x22" "bytes ! i \<noteq> CHR 0x5C" by blast
  then show ?case
  proof cases
    case quote
    with "1.prems" i show ?thesis by (subst (asm) scan_string_loop.simps) (simp split: if_splits)
  next
    case esc
    with "1.prems" i obtain k n where k: "scan_escape bytes (i + 1) = Some (k, n)"
      "\<not> 4096 < decoded + n" "scan_string_loop bytes (k + 1) (decoded + n) = Some j"
      by (subst (asm) scan_string_loop.simps) (auto split: option.splits if_splits)
    from "1.IH"(1) [OF i esc k(1) refl k(2,3)] scan_escape_bounds [OF k(1)] show ?thesis by simp
  next
    case plain
    with "1.prems" i obtain c w where w: "0x20 \<le> byte (bytes ! i)"
      "(if utf8_valid (drop i bytes) then utf8_next (drop i bytes) else None) = Some (c, w)"
      "\<not> 4096 < decoded + w" "scan_string_loop bytes (i + (w - 1) + 1) (decoded + w) = Some j"
      by (subst (asm) scan_string_loop.simps) (auto split: option.splits if_splits)
    from "1.IH"(2) [OF i plain w(1,2) refl w(3,4)] show ?thesis by simp
  qed
qed

lemma scan_string_bounds: "scan_string bytes i = Some j \<Longrightarrow> i < j \<and> j \<le> length bytes"
  unfolding scan_string_def by (rule scan_string_loop_bounds)

section \<open>\<open>scan_json\<close>\<close>

definition is_json_ws :: "char \<Rightarrow> bool" where
  "is_json_ws b \<longleftrightarrow> b \<in> set [CHR '' '', CHR 0x0A, CHR 0x0D, CHR 0x09]"

definition ends_scalar :: "char \<Rightarrow> bool" where
  "ends_scalar b \<longleftrightarrow> is_json_ws b \<or> b \<in> set [CHR '','', CHR '']'', CHR ''}'']"

text \<open>The inner \<open>while\<close> of a number: the first index from \<open>i\<close> that ends the scalar.\<close>

definition scalar_end :: "bytes \<Rightarrow> nat \<Rightarrow> nat" where
  "scalar_end bytes i = i + length (takeWhile (\<lambda>b. \<not> ends_scalar b) (drop i bytes))"

definition starts_number :: "char \<Rightarrow> bool" where
  "starts_number b \<longleftrightarrow> b = CHR ''-'' \<or> is_digit b"

text \<open>One pass of the scanning loop: the next index, depth and token count.\<close>

definition scan_step :: "bytes \<Rightarrow> nat \<Rightarrow> nat \<Rightarrow> nat \<Rightarrow> (nat \<times> nat \<times> nat) option" where
  "scan_step bytes i depth tokens =
     (let b = bytes ! i in
      if is_json_ws b then Some (i + 1, depth, tokens)
      else if b = CHR ''{'' \<or> b = CHR ''['' then
        (if 32 < depth + 1 then None else Some (i + 1, depth + 1, tokens + 1))
      else if b = CHR ''}'' \<or> b = CHR '']'' then
        (if depth = 0 then None else Some (i + 1, depth - 1, tokens + 1))
      else if b = CHR '':'' \<or> b = CHR '','' then Some (i + 1, depth, tokens + 1)
      else if b = CHR 0x22 then
        (case scan_string bytes (i + 1) of None \<Rightarrow> None | Some j \<Rightarrow> Some (j, depth, tokens + 1))
      else if starts_number b then Some (scalar_end bytes (i + 1), depth, tokens + 1)
      else if b = CHR ''t'' \<and> slice_get bytes i (i + 4) = Some ''true'' then Some (i + 4, depth, tokens + 1)
      else if b = CHR ''f'' \<and> slice_get bytes i (i + 5) = Some ''false'' then Some (i + 5, depth, tokens + 1)
      else if b = CHR ''n'' \<and> slice_get bytes i (i + 4) = Some ''null'' then Some (i + 4, depth, tokens + 1)
      else None)"

lemma scan_step_advances: "scan_step bytes i d t = Some (j, d', t') \<Longrightarrow> i < j"
  by (auto simp: scan_step_def Let_def scalar_end_def dest: scan_string_bounds
      split: if_splits option.splits)

function scan_json_loop :: "bytes \<Rightarrow> nat \<Rightarrow> nat \<Rightarrow> nat \<Rightarrow> unit option" where
  "scan_json_loop bytes i depth tokens =
     (if i < length bytes then
        (case scan_step bytes i depth tokens of
           None \<Rightarrow> None
         | Some (i', depth', tokens') \<Rightarrow>
             if 4096 < tokens' then None else scan_json_loop bytes i' depth' tokens')
      else if depth = 0 then Some () else None)"
  by pat_completeness auto
termination
  by (relation "measure (\<lambda>(bytes, i, depth, tokens). length bytes - i)")
     (auto dest: scan_step_advances)

declare scan_json_loop.simps [simp del]

definition scan_json :: "bytes \<Rightarrow> unit option" where
  "scan_json bytes = scan_json_loop bytes 0 0 0"

section \<open>\<open>DuplicateParser\<close>\<close>

datatype protected_stage = Root | Template | Mapping

datatype path_segment = Key string | ArrayElement

definition template_path :: "path_segment list \<Rightarrow> string list \<Rightarrow> bool" where
  "template_path path suff \<longleftrightarrow>
     length path = length suff + 2
     \<and> list_get path 0 = Some (Key ''component_templates'')
     \<and> list_get path 1 = Some ArrayElement
     \<and> list_all (\<lambda>(actual, expected). actual = Key expected) (zip (drop 2 path) suff)"

definition protected_key :: "protected_stage \<Rightarrow> path_segment list \<Rightarrow> string \<Rightarrow> bool" where
  "protected_key stage path key =
     (case stage of
        Root \<Rightarrow> path = [] \<and> key = ''cluster_uuid''
      | Template \<Rightarrow>
          (path = [] \<and> key = ''component_templates'')
          \<or> (template_path path [] \<and> (key = ''name'' \<or> key = ''component_template''))
          \<or> (template_path path [''component_template''] \<and> key = ''_meta'')
          \<or> (template_path path [''component_template'', ''_meta''] \<and> key = ''accepted_schema_versions'')
      | Mapping \<Rightarrow> False)"

definition dp_ws :: "bytes \<Rightarrow> nat \<Rightarrow> nat" where
  "dp_ws bytes i = i + length (takeWhile is_json_ws (drop i bytes))"

text \<open>\<open>DuplicateParser::string\<close>; \<open>serde_str\<close> is the deserialiser of one string literal.\<close>

definition dp_string :: "(bytes \<Rightarrow> string option) \<Rightarrow> bytes \<Rightarrow> nat \<Rightarrow> (string \<times> nat) option" where
  "dp_string serde_str bytes cursor =
     (let start = dp_ws bytes cursor in
      if list_get bytes start \<noteq> Some CHR 0x22 then None
      else do { j \<leftarrow> scan_string bytes (start + 1);
                literal \<leftarrow> slice_get bytes start j;
                key \<leftarrow> serde_str literal;
                Some (key, j) })"

definition dp_take :: "bytes \<Rightarrow> nat \<Rightarrow> string \<Rightarrow> nat option" where
  "dp_take bytes cursor word =
     (if slice_get bytes cursor (cursor + length word) = Some word then Some (cursor + length word) else None)"

text \<open>
  The mutually recursive walk.  The first argument is fuel: \<open>None\<close> is running out of it, \<open>Some None\<close> a
  rejected document, \<open>Some (Some cursor)\<close> an accepted value.  \<open>dp_members\<close> and \<open>dp_elements\<close> are the loops
  of \<open>object\<close> and \<open>array\<close>; \<open>seen\<close> is the set of protected keys met in this object.
\<close>

function (sequential) dp_value :: "nat \<Rightarrow> protected_stage \<Rightarrow> (bytes \<Rightarrow> string option) \<Rightarrow> bytes \<Rightarrow> path_segment list \<Rightarrow> nat
      \<Rightarrow> nat option option"
  and dp_members :: "nat \<Rightarrow> protected_stage \<Rightarrow> (bytes \<Rightarrow> string option) \<Rightarrow> bytes \<Rightarrow> path_segment list \<Rightarrow> string list
      \<Rightarrow> nat \<Rightarrow> nat option option"
  and dp_elements :: "nat \<Rightarrow> protected_stage \<Rightarrow> (bytes \<Rightarrow> string option) \<Rightarrow> bytes \<Rightarrow> path_segment list
      \<Rightarrow> nat \<Rightarrow> nat option option" where
  "dp_value 0 st sd bytes path cursor = None"
| "dp_value (Suc n) st sd bytes path cursor =
     (let cursor = dp_ws bytes cursor in
      case list_get bytes cursor of
        None \<Rightarrow> Some None
      | Some b \<Rightarrow>
        (if b = CHR ''{'' then
           (let cursor = dp_ws bytes (cursor + 1) in
            if list_get bytes cursor = Some CHR ''}'' then Some (Some (cursor + 1))
            else dp_members n st sd bytes path [] cursor)
         else if b = CHR ''['' then
           (let cursor = dp_ws bytes (cursor + 1) in
            if list_get bytes cursor = Some CHR '']'' then Some (Some (cursor + 1))
            else dp_elements n st sd bytes (path @ [ArrayElement]) cursor)
         else if b = CHR 0x22 then Some (map_option snd (dp_string sd bytes cursor))
         else if starts_number b then Some (Some (scalar_end bytes cursor))
         else if b = CHR ''t'' then Some (dp_take bytes cursor ''true'')
         else if b = CHR ''f'' then Some (dp_take bytes cursor ''false'')
         else if b = CHR ''n'' then Some (dp_take bytes cursor ''null'')
         else Some None))"
| "dp_members 0 st sd bytes path seen cursor = None"
| "dp_members (Suc n) st sd bytes path seen cursor =
     (case dp_string sd bytes cursor of
        None \<Rightarrow> Some None
      | Some (key, j) \<Rightarrow>
        (if protected_key st path key \<and> key \<in> set seen then Some None
         else let seen' = (if protected_key st path key then key # seen else seen); j = dp_ws bytes j in
              if list_get bytes j \<noteq> Some CHR '':'' then Some None
              else (case dp_value n st sd bytes (path @ [Key key]) (j + 1) of
                      None \<Rightarrow> None
                    | Some None \<Rightarrow> Some None
                    | Some (Some k) \<Rightarrow>
                      (let k = dp_ws bytes k in
                       if list_get bytes k = Some CHR '',''
                       then dp_members n st sd bytes path seen' (dp_ws bytes (k + 1))
                       else if list_get bytes k = Some CHR ''}'' then Some (Some (k + 1))
                       else Some None))))"
| "dp_elements 0 st sd bytes path cursor = None"
| "dp_elements (Suc n) st sd bytes path cursor =
     (case dp_value n st sd bytes path cursor of
        None \<Rightarrow> None
      | Some None \<Rightarrow> Some None
      | Some (Some k) \<Rightarrow>
        (let k = dp_ws bytes k in
         if list_get bytes k = Some CHR '','' then dp_elements n st sd bytes path (dp_ws bytes (k + 1))
         else if list_get bytes k = Some CHR '']'' then Some (Some (k + 1))
         else Some None))"
  by pat_completeness auto
termination
  by (relation "measure (\<lambda>x. case x of Inl (n, _) \<Rightarrow> n | Inr (Inl (n, _)) \<Rightarrow> n | Inr (Inr (n, _)) \<Rightarrow> n)") auto

text \<open>Two units of fuel per byte and one more are enough (\<open>dp_value_fuel\<close> below).\<close>

definition checked_json :: "(bytes \<Rightarrow> json option) \<Rightarrow> bytes \<Rightarrow> json option" where
  "checked_json serde body = (case scan_json body of None \<Rightarrow> None | Some () \<Rightarrow> serde body)"

definition checked_json_stage ::
  "(bytes \<Rightarrow> json option) \<Rightarrow> (bytes \<Rightarrow> string option) \<Rightarrow> bytes \<Rightarrow> protected_stage \<Rightarrow> json option" where
  "checked_json_stage serde serde_str body stage =
     do { value \<leftarrow> checked_json serde body;
          cursor \<leftarrow> (case dp_value (2 * length body + 1) stage serde_str body [] 0 of
                      None \<Rightarrow> None | Some r \<Rightarrow> r);
          if dp_ws body cursor = length body then Some value else None }"

section \<open>The scanner is a lexer and a check\<close>

datatype tok = TOpen | TClose | TOther

text \<open>The token at a position that is not white space, and the position after it; no limit applies.\<close>

definition lex_token :: "bytes \<Rightarrow> nat \<Rightarrow> (tok \<times> nat) option" where
  "lex_token bytes i =
     (let b = bytes ! i in
      if b = CHR ''{'' \<or> b = CHR ''['' then Some (TOpen, i + 1)
      else if b = CHR ''}'' \<or> b = CHR '']'' then Some (TClose, i + 1)
      else if b = CHR '':'' \<or> b = CHR '','' then Some (TOther, i + 1)
      else if b = CHR 0x22 then map_option (Pair TOther) (scan_string bytes (i + 1))
      else if starts_number b then Some (TOther, scalar_end bytes (i + 1))
      else if slice_get bytes i (i + 4) = Some ''true'' then Some (TOther, i + 4)
      else if slice_get bytes i (i + 5) = Some ''false'' then Some (TOther, i + 5)
      else if slice_get bytes i (i + 4) = Some ''null'' then Some (TOther, i + 4)
      else None)"

lemma lex_token_advances: "lex_token bytes i = Some (t, j) \<Longrightarrow> i < j"
  by (auto simp: lex_token_def Let_def scalar_end_def dest: scan_string_bounds split: if_splits)

function lex_json :: "bytes \<Rightarrow> nat \<Rightarrow> tok list option" where
  "lex_json bytes i =
     (if length bytes \<le> i then Some []
      else if is_json_ws (bytes ! i) then lex_json bytes (i + 1)
      else (case lex_token bytes i of
              None \<Rightarrow> None
            | Some (t, j) \<Rightarrow> map_option ((#) t) (lex_json bytes j)))"
  by pat_completeness auto
termination
  by (relation "measure (\<lambda>(bytes, i). length bytes - i)") (auto dest: lex_token_advances)

declare lex_json.simps [simp del]

fun admitted :: "nat \<Rightarrow> nat \<Rightarrow> tok list \<Rightarrow> bool" where
  "admitted depth tokens [] \<longleftrightarrow> depth = 0"
| "admitted depth tokens (t # ts) \<longleftrightarrow>
     tokens < 4096
     \<and> (case t of TOpen \<Rightarrow> depth < 32 \<and> admitted (depth + 1) (tokens + 1) ts
        | TClose \<Rightarrow> 0 < depth \<and> admitted (depth - 1) (tokens + 1) ts
        | TOther \<Rightarrow> admitted depth (tokens + 1) ts)"

lemma slice_get_first:
  "i < length xs \<Longrightarrow> slice_get xs i j = Some (y # ys) \<Longrightarrow> xs ! i = y"
  by (auto simp: slice_get_def take_Cons' drop_eq_Nil hd_drop_conv_nth nth_Cons split: if_splits)
     (metis Cons_nth_drop_Suc list.inject take_Cons' list.distinct(1))

lemma scan_step_lex:
  assumes "i < length bytes" "\<not> is_json_ws (bytes ! i)"
  shows "scan_step bytes i depth tokens =
    (case lex_token bytes i of
       None \<Rightarrow> None
     | Some (TOpen, j) \<Rightarrow> if 32 < depth + 1 then None else Some (j, depth + 1, tokens + 1)
     | Some (TClose, j) \<Rightarrow> if depth = 0 then None else Some (j, depth - 1, tokens + 1)
     | Some (TOther, j) \<Rightarrow> Some (j, depth, tokens + 1))"
proof -
  have lits:
    "(bytes ! i = CHR ''t'' \<and> slice_get bytes i (i + 4) = Some ''true'') = (slice_get bytes i (i + 4) = Some ''true'')"
    "(bytes ! i = CHR ''f'' \<and> slice_get bytes i (i + 5) = Some ''false'') = (slice_get bytes i (i + 5) = Some ''false'')"
    "(bytes ! i = CHR ''n'' \<and> slice_get bytes i (i + 4) = Some ''null'') = (slice_get bytes i (i + 4) = Some ''null'')"
    using slice_get_first [OF assms(1)] by blast+
  show ?thesis
    unfolding scan_step_def lex_token_def Let_def lits
    by (simp add: assms(2) split: option.split)
qed

lemma scan_json_loop_lex:
  "tokens \<le> 4096 \<Longrightarrow>
     scan_json_loop bytes i depth tokens = Some () \<longleftrightarrow>
     (\<exists>ts. lex_json bytes i = Some ts \<and> admitted depth tokens ts)"
proof (induction bytes i depth tokens rule: scan_json_loop.induct)
  case (1 bytes i depth tokens)
  show ?case
  proof (cases "i < length bytes")
    case False
    then show ?thesis by (simp add: scan_json_loop.simps lex_json.simps)
  next
    case i: True
    show ?thesis
    proof (cases "is_json_ws (bytes ! i)")
      case True
      then have "scan_step bytes i depth tokens = Some (i + 1, depth, tokens)"
        by (simp add: scan_step_def)
      with i True "1.IH" [OF i this refl refl _ "1.prems"] "1.prems" show ?thesis
        by (simp add: scan_json_loop.simps [of bytes i] lex_json.simps [of bytes i])
    next
      case ws: False
      note step = scan_step_lex [OF i ws, of depth tokens]
      show ?thesis
      proof (cases "lex_token bytes i")
        case None
        with i ws step show ?thesis
          by (simp add: scan_json_loop.simps [of bytes i] lex_json.simps [of bytes i])
      next
        case (Some tj)
        obtain t j where tj: "tj = (t, j)" by (cases tj)
        show ?thesis
        proof (cases "scan_step bytes i depth tokens")
          case None
          with Some tj i ws step "1.prems" show ?thesis
            by (auto simp: scan_json_loop.simps [of bytes i] lex_json.simps [of bytes i]
                split: tok.splits if_splits)
        next
          case (Some r)
          obtain d' where r: "r = (j, d', tokens + 1)"
            using Some \<open>lex_token bytes i = Some tj\<close> tj step by (auto split: tok.splits if_splits)
          have adm: "admitted depth tokens (t # ts) \<longleftrightarrow> tokens < 4096 \<and> admitted d' (tokens + 1) ts" for ts
            using Some \<open>lex_token bytes i = Some tj\<close> tj step r by (auto split: tok.splits if_splits)
          show ?thesis
            using "1.IH" [OF i Some r [symmetric] refl] Some r \<open>lex_token bytes i = Some tj\<close> tj i ws
            by (auto simp: scan_json_loop.simps [of bytes i] lex_json.simps [of bytes i] adm
                simp del: admitted.simps)
        qed
      qed
    qed
  qed
qed

text \<open>The limits on the token list, without a running state.\<close>

definition opens :: "tok list \<Rightarrow> nat" where "opens ts = count_list ts TOpen"
definition closes :: "tok list \<Rightarrow> nat" where "closes ts = count_list ts TClose"

lemma admitted_counts:
  "tokens \<le> 4096 \<Longrightarrow> depth \<le> 32 \<Longrightarrow>
   admitted depth tokens ts \<longleftrightarrow>
     tokens + length ts \<le> 4096 \<and> depth + opens ts = closes ts \<and>
     (\<forall>k \<le> length ts. closes (take k ts) \<le> depth + opens (take k ts) \<and>
                     depth + opens (take k ts) \<le> closes (take k ts) + 32)"
proof (induction ts arbitrary: depth tokens)
  case Nil
  then show ?case by (auto simp: opens_def closes_def)
next
  case (Cons t ts)
  have split: "(\<forall>k \<le> length (t # ts). P k) \<longleftrightarrow> P 0 \<and> (\<forall>k \<le> length ts. P (Suc k))" for P
    by (metis Suc_le_mono length_Cons not0_implies_Suc zero_le)
  show ?case
  proof (cases "tokens < 4096")
    case False
    with Cons.prems show ?thesis by simp
  next
    case tok: True
    show ?thesis
    proof (cases t)
      case TOpen
      show ?thesis
      proof (cases "depth < 32")
        case True
        with TOpen tok Cons.IH [of "tokens + 1" "depth + 1"] Cons.prems show ?thesis
          unfolding split by (simp add: opens_def closes_def)
      next
        case False
        with TOpen have "\<not> (\<forall>k \<le> length (t # ts). depth + opens (take k (t # ts)) \<le> closes (take k (t # ts)) + 32)"
          by (intro notI, drule_tac x = 1 in spec) (simp add: opens_def closes_def)
        with False TOpen show ?thesis by auto
      qed
    next
      case TClose
      show ?thesis
      proof (cases "0 < depth")
        case True
        with TClose tok Cons.IH [of "tokens + 1" "depth - 1"] Cons.prems show ?thesis
          unfolding split by (cases depth) (simp_all add: opens_def closes_def add.commute)
      next
        case False
        with TClose have "\<not> (\<forall>k \<le> length (t # ts). closes (take k (t # ts)) \<le> depth + opens (take k (t # ts)))"
          by (intro notI, drule_tac x = 1 in spec) (simp add: opens_def closes_def)
        with False TClose show ?thesis by auto
      qed
    next
      case TOther
      with tok Cons.IH [of "tokens + 1" depth] Cons.prems show ?thesis
        unfolding split by (simp add: opens_def closes_def)
    qed
  qed
qed

section \<open>The walk accepts the trees without duplicate protected keys\<close>

datatype jtree = Leaf | Arr "jtree list" | Obj "(string \<times> jtree) list"

text \<open>The same grammar, building the syntax tree with every occurrence of every key and no check.\<close>

function (sequential) pt_value :: "nat \<Rightarrow> (bytes \<Rightarrow> string option) \<Rightarrow> bytes \<Rightarrow> nat \<Rightarrow> (jtree \<times> nat) option option"
  and pt_members :: "nat \<Rightarrow> (bytes \<Rightarrow> string option) \<Rightarrow> bytes \<Rightarrow> nat \<Rightarrow> ((string \<times> jtree) list \<times> nat) option option"
  and pt_elements :: "nat \<Rightarrow> (bytes \<Rightarrow> string option) \<Rightarrow> bytes \<Rightarrow> nat \<Rightarrow> (jtree list \<times> nat) option option" where
  "pt_value 0 sd bytes cursor = None"
| "pt_value (Suc n) sd bytes cursor =
     (let cursor = dp_ws bytes cursor in
      case list_get bytes cursor of
        None \<Rightarrow> Some None
      | Some b \<Rightarrow>
        (if b = CHR ''{'' then
           (let cursor = dp_ws bytes (cursor + 1) in
            if list_get bytes cursor = Some CHR ''}'' then Some (Some (Obj [], cursor + 1))
            else map_option (map_option (\<lambda>(ms, j). (Obj ms, j))) (pt_members n sd bytes cursor))
         else if b = CHR ''['' then
           (let cursor = dp_ws bytes (cursor + 1) in
            if list_get bytes cursor = Some CHR '']'' then Some (Some (Arr [], cursor + 1))
            else map_option (map_option (\<lambda>(ts, j). (Arr ts, j))) (pt_elements n sd bytes cursor))
         else if b = CHR 0x22 then Some (map_option (\<lambda>(_, j). (Leaf, j)) (dp_string sd bytes cursor))
         else if starts_number b then Some (Some (Leaf, scalar_end bytes cursor))
         else if b = CHR ''t'' then Some (map_option (Pair Leaf) (dp_take bytes cursor ''true''))
         else if b = CHR ''f'' then Some (map_option (Pair Leaf) (dp_take bytes cursor ''false''))
         else if b = CHR ''n'' then Some (map_option (Pair Leaf) (dp_take bytes cursor ''null''))
         else Some None))"
| "pt_members 0 sd bytes cursor = None"
| "pt_members (Suc n) sd bytes cursor =
     (case dp_string sd bytes cursor of
        None \<Rightarrow> Some None
      | Some (key, j) \<Rightarrow>
        (let j = dp_ws bytes j in
         if list_get bytes j \<noteq> Some CHR '':'' then Some None
         else (case pt_value n sd bytes (j + 1) of
                 None \<Rightarrow> None
               | Some None \<Rightarrow> Some None
               | Some (Some (t, k)) \<Rightarrow>
                 (let k = dp_ws bytes k in
                  if list_get bytes k = Some CHR '',''
                  then map_option (map_option (\<lambda>(ms, j). ((key, t) # ms, j)))
                         (pt_members n sd bytes (dp_ws bytes (k + 1)))
                  else if list_get bytes k = Some CHR ''}'' then Some (Some ([(key, t)], k + 1))
                  else Some None))))"
| "pt_elements 0 sd bytes cursor = None"
| "pt_elements (Suc n) sd bytes cursor =
     (case pt_value n sd bytes cursor of
        None \<Rightarrow> None
      | Some None \<Rightarrow> Some None
      | Some (Some (t, k)) \<Rightarrow>
        (let k = dp_ws bytes k in
         if list_get bytes k = Some CHR '',''
         then map_option (map_option (\<lambda>(ts, j). (t # ts, j))) (pt_elements n sd bytes (dp_ws bytes (k + 1)))
         else if list_get bytes k = Some CHR '']'' then Some (Some ([t], k + 1))
         else Some None))"
  by pat_completeness auto
termination
  by (relation "measure (\<lambda>x. case x of Inl (n, _) \<Rightarrow> n | Inr (Inl (n, _)) \<Rightarrow> n | Inr (Inr (n, _)) \<Rightarrow> n)") auto

text \<open>No object holds a protected key twice, at any path.\<close>

function no_dup :: "protected_stage \<Rightarrow> path_segment list \<Rightarrow> jtree \<Rightarrow> bool" where
  "no_dup st path Leaf = True"
| "no_dup st path (Arr ts) = (\<forall>t \<in> set ts. no_dup st (path @ [ArrayElement]) t)"
| "no_dup st path (Obj ms) =
     (distinct (filter (protected_key st path) (map fst ms))
      \<and> (\<forall>m \<in> set ms. no_dup st (path @ [Key (fst m)]) (snd m)))"
  by pat_completeness auto
termination
proof (relation "measure (\<lambda>(st, path, t). size t)", goal_cases)
  case (2 st path ts t)
  then show ?case by (simp add: size_list_estimation' less_Suc_eq_le)
next
  case (3 st path ms m)
  have "size (snd m) \<le> size_prod (\<lambda>_. 0) size m" by (cases m) simp
  with 3 show ?case by (simp add: size_list_estimation' less_Suc_eq_le)
qed simp

definition members_ok :: "protected_stage \<Rightarrow> path_segment list \<Rightarrow> string list \<Rightarrow> (string \<times> jtree) list \<Rightarrow> bool" where
  "members_ok st path seen ms \<longleftrightarrow>
     distinct (filter (protected_key st path) (map fst ms))
     \<and> set (filter (protected_key st path) (map fst ms)) \<inter> set seen = {}
     \<and> (\<forall>m \<in> set ms. no_dup st (path @ [Key (fst m)]) (snd m))"

lemma members_ok_Cons:
  "members_ok st path seen ((key, t) # ms) \<longleftrightarrow>
     \<not> (protected_key st path key \<and> key \<in> set seen) \<and> no_dup st (path @ [Key key]) t
     \<and> members_ok st path (if protected_key st path key then key # seen else seen) ms"
  by (auto simp: members_ok_def)

lemma dp_pt_step_members:
  assumes "\<And>p i j. dp_value n st sd bytes p i = Some (Some j) \<longleftrightarrow>
             (\<exists>t. pt_value n sd bytes i = Some (Some (t, j)) \<and> no_dup st p t)"
    and "\<And>p seen i j. dp_members n st sd bytes p seen i = Some (Some j) \<longleftrightarrow>
             (\<exists>ms. pt_members n sd bytes i = Some (Some (ms, j)) \<and> members_ok st p seen ms)"
  shows "dp_members (Suc n) st sd bytes p seen i = Some (Some j) \<longleftrightarrow>
             (\<exists>ms. pt_members (Suc n) sd bytes i = Some (Some (ms, j)) \<and> members_ok st p seen ms)"
proof (cases "dp_string sd bytes i")
  case None
  then show ?thesis by simp
next
  case (Some kj)
  obtain key c where kj: "kj = (key, c)" by (cases kj)
  let ?c = "dp_ws bytes c"
  show ?thesis
  proof (cases "list_get bytes ?c = Some CHR '':''")
    case False
    with Some kj show ?thesis by simp
  next
    case colon: True
    show ?thesis
    proof (cases "\<exists>t k. pt_value n sd bytes (?c + 1) = Some (Some (t, k))")
      case True
      then obtain t k where pt: "pt_value n sd bytes (?c + 1) = Some (Some (t, k))" by blast
      have dp: "dp_value n st sd bytes (p @ [Key key]) (?c + 1) = Some (Some l) \<longleftrightarrow> l = k \<and> no_dup st (p @ [Key key]) t" for l
        using assms(1) [of "p @ [Key key]" "?c + 1" l] pt by auto
      show ?thesis
      proof (cases "no_dup st (p @ [Key key]) t")
        case True
        with dp have "dp_value n st sd bytes (p @ [Key key]) (?c + 1) = Some (Some k)" by simp
        with Some kj colon pt True show ?thesis
          by (auto simp: Let_def members_ok_Cons assms(2) members_ok_def [of st p _ "[]"])
      next
        case False
        with dp have nd: "dp_value n st sd bytes (p @ [Key key]) (?c + 1) \<noteq> Some (Some l)" for l by simp
        have "dp_members (Suc n) st sd bytes p seen i \<noteq> Some (Some j)"
          using Some kj colon nd by (auto simp: Let_def split: option.splits)
        with Some kj colon pt False show ?thesis
          by (auto simp: Let_def members_ok_Cons split: if_splits)
      qed
    next
      case False
      then have "dp_value n st sd bytes (p @ [Key key]) (?c + 1) \<noteq> Some (Some l)" for l
        using assms(1) by blast
      then have "dp_members (Suc n) st sd bytes p seen i \<noteq> Some (Some j)"
        using Some kj colon by (auto simp: Let_def split: option.splits)
      with Some kj colon False show ?thesis
        by (auto simp: Let_def split: option.splits)
    qed
  qed
qed

lemma dp_pt_step_elements:
  assumes "\<And>p i j. dp_value n st sd bytes p i = Some (Some j) \<longleftrightarrow>
             (\<exists>t. pt_value n sd bytes i = Some (Some (t, j)) \<and> no_dup st p t)"
    and "\<And>p i j. dp_elements n st sd bytes p i = Some (Some j) \<longleftrightarrow>
             (\<exists>ts. pt_elements n sd bytes i = Some (Some (ts, j)) \<and> (\<forall>t \<in> set ts. no_dup st p t))"
  shows "dp_elements (Suc n) st sd bytes p i = Some (Some j) \<longleftrightarrow>
             (\<exists>ts. pt_elements (Suc n) sd bytes i = Some (Some (ts, j)) \<and> (\<forall>t \<in> set ts. no_dup st p t))"
proof (cases "\<exists>t k. pt_value n sd bytes i = Some (Some (t, k))")
  case True
  then obtain t k where pt: "pt_value n sd bytes i = Some (Some (t, k))" by blast
  have dp: "dp_value n st sd bytes p i = Some (Some l) \<longleftrightarrow> l = k \<and> no_dup st p t" for l
    using assms(1) [of p i l] pt by auto
  show ?thesis
  proof (cases "no_dup st p t")
    case True
    with dp have "dp_value n st sd bytes p i = Some (Some k)" by simp
    with pt True show ?thesis by (auto simp: Let_def assms(2))
  next
    case False
    with dp have "dp_value n st sd bytes p i \<noteq> Some (Some l)" for l by simp
    then have "dp_elements (Suc n) st sd bytes p i \<noteq> Some (Some j)"
      by (auto simp: Let_def split: option.splits)
    with pt False show ?thesis by (auto simp: Let_def split: if_splits)
  qed
next
  case False
  then have "dp_value n st sd bytes p i \<noteq> Some (Some l)" for l using assms(1) by blast
  then have "dp_elements (Suc n) st sd bytes p i \<noteq> Some (Some j)"
    by (auto simp: Let_def split: option.splits)
  with False show ?thesis by (auto simp: Let_def split: option.splits)
qed

lemma dp_pt_step_value:
  assumes "\<And>p seen i j. dp_members n st sd bytes p seen i = Some (Some j) \<longleftrightarrow>
             (\<exists>ms. pt_members n sd bytes i = Some (Some (ms, j)) \<and> members_ok st p seen ms)"
    and "\<And>p i j. dp_elements n st sd bytes p i = Some (Some j) \<longleftrightarrow>
             (\<exists>ts. pt_elements n sd bytes i = Some (Some (ts, j)) \<and> (\<forall>t \<in> set ts. no_dup st p t))"
  shows "dp_value (Suc n) st sd bytes p i = Some (Some j) \<longleftrightarrow>
             (\<exists>t. pt_value (Suc n) sd bytes i = Some (Some (t, j)) \<and> no_dup st p t)"
proof -
  have obj: "members_ok st p [] ms \<longleftrightarrow> no_dup st p (Obj ms)" for ms by (simp add: members_ok_def)
  let ?c = "dp_ws bytes i"
  show ?thesis
  proof (cases "list_get bytes ?c")
    case None
    then show ?thesis by simp
  next
    case (Some b)
    consider "b = CHR ''{''" | "b = CHR ''[''" | "b \<noteq> CHR ''{''" "b \<noteq> CHR ''[''" by blast
    then show ?thesis
    proof cases
      case 1
      have "no_dup st p (Obj [])" by simp
      with 1 Some show ?thesis by (auto simp: Let_def assms(1) obj simp del: no_dup.simps(3))
    next
      case 2
      with Some show ?thesis by (auto simp: Let_def assms(2))
    next
      case 3
      with Some show ?thesis by (auto simp: Let_def)
    qed
  qed
qed

lemma dp_pt:
  "(\<forall>p i j. dp_value n st sd bytes p i = Some (Some j) \<longleftrightarrow>
      (\<exists>t. pt_value n sd bytes i = Some (Some (t, j)) \<and> no_dup st p t))
   \<and> (\<forall>p seen i j. dp_members n st sd bytes p seen i = Some (Some j) \<longleftrightarrow>
      (\<exists>ms. pt_members n sd bytes i = Some (Some (ms, j)) \<and> members_ok st p seen ms))
   \<and> (\<forall>p i j. dp_elements n st sd bytes p i = Some (Some j) \<longleftrightarrow>
      (\<exists>ts. pt_elements n sd bytes i = Some (Some (ts, j)) \<and> (\<forall>t \<in> set ts. no_dup st p t)))"
proof (induction n)
  case 0
  then show ?case by simp
next
  case (Suc n)
  then show ?case
    using dp_pt_step_value [of n st sd bytes] dp_pt_step_members [of n st sd bytes]
      dp_pt_step_elements [of n st sd bytes] by presburger
qed

section \<open>Enough fuel\<close>

lemma dp_ws_bounds: "i \<le> dp_ws bytes i" "i \<le> length bytes \<Longrightarrow> dp_ws bytes i \<le> length bytes"
proof -
  show "i \<le> dp_ws bytes i" by (simp add: dp_ws_def)
  have "length (takeWhile is_json_ws (drop i bytes)) \<le> length bytes - i"
    by (metis length_drop length_takeWhile_le)
  then show "i \<le> length bytes \<Longrightarrow> dp_ws bytes i \<le> length bytes" by (simp add: dp_ws_def)
qed

lemma list_get_lt: "list_get xs i = Some x \<Longrightarrow> i < length xs"
  by (simp add: list_get_Some)

lemma dp_string_bounds: "dp_string sd bytes i = Some (k, j) \<Longrightarrow> i < j \<and> j \<le> length bytes"
  using dp_ws_bounds(1) [of i bytes]
  by (auto simp: dp_string_def Let_def bind_eq_Some_conv dest!: scan_string_bounds split: if_splits)

lemma scalar_end_bounds: "i \<le> scalar_end bytes i" "i \<le> length bytes \<Longrightarrow> scalar_end bytes i \<le> length bytes"
proof -
  show "i \<le> scalar_end bytes i" by (simp add: scalar_end_def)
  have "length (takeWhile (\<lambda>b. \<not> ends_scalar b) (drop i bytes)) \<le> length bytes - i"
    by (metis length_drop length_takeWhile_le)
  then show "i \<le> length bytes \<Longrightarrow> scalar_end bytes i \<le> length bytes" by (simp add: scalar_end_def)
qed

lemma dp_take_bounds: "dp_take bytes i w = Some j \<Longrightarrow> i \<le> j \<and> j \<le> length bytes"
  by (auto simp: dp_take_def slice_get_def split: if_splits)

text \<open>What an accepting pass of each loop did.\<close>

lemma dp_members_SucE:
  assumes "dp_members (Suc n) st sd bytes p seen i = Some (Some j)"
  obtains key c k seen' where "dp_string sd bytes i = Some (key, c)"
    "list_get bytes (dp_ws bytes c) = Some CHR '':''"
    "dp_value n st sd bytes (p @ [Key key]) (dp_ws bytes c + 1) = Some (Some k)"
    "dp_members n st sd bytes p seen' (dp_ws bytes (dp_ws bytes k + 1)) = Some (Some j) \<and> dp_ws bytes k < length bytes
     \<or> j = dp_ws bytes k + 1 \<and> dp_ws bytes k < length bytes"
  using assms that by (fastforce simp: Let_def dest: list_get_lt split: option.splits if_splits)

lemma dp_elements_SucE:
  assumes "dp_elements (Suc n) st sd bytes p i = Some (Some j)"
  obtains k where "dp_value n st sd bytes p i = Some (Some k)"
    "dp_elements n st sd bytes p (dp_ws bytes (dp_ws bytes k + 1)) = Some (Some j) \<and> dp_ws bytes k < length bytes
     \<or> j = dp_ws bytes k + 1 \<and> dp_ws bytes k < length bytes"
  using assms that by (fastforce simp: Let_def dest: list_get_lt split: option.splits if_splits)

lemma dp_value_SucE:
  assumes "dp_value (Suc n) st sd bytes p i = Some (Some j)"
  obtains "dp_ws bytes (dp_ws bytes i + 1) < length bytes" "j = dp_ws bytes (dp_ws bytes i + 1) + 1"
    | "dp_members n st sd bytes p [] (dp_ws bytes (dp_ws bytes i + 1)) = Some (Some j)"
    | "dp_elements n st sd bytes (p @ [ArrayElement]) (dp_ws bytes (dp_ws bytes i + 1)) = Some (Some j)"
    | key where "dp_string sd bytes (dp_ws bytes i) = Some (key, j)"
    | "dp_ws bytes i < length bytes" "j = scalar_end bytes (dp_ws bytes i)"
    | w where "dp_take bytes (dp_ws bytes i) w = Some j"
proof (cases "list_get bytes (dp_ws bytes i)")
  case None
  with assms show thesis by simp
next
  case (Some b)
  let ?c = "dp_ws bytes i" let ?d = "dp_ws bytes (dp_ws bytes i + 1)"
  note step = assms [unfolded dp_value.simps Let_def Some option.case]
  consider "b = CHR ''{''" | "b = CHR ''[''" | "b = CHR 0x22" | "b \<noteq> CHR ''{''" "b \<noteq> CHR ''[''" "b \<noteq> CHR 0x22"
    by blast
  then show thesis
  proof cases
    case 1
    show thesis
    proof (cases "list_get bytes ?d = Some CHR ''}''")
      case True
      with step 1 have "j = ?d + 1" by simp
      with list_get_lt [OF True] show thesis by (intro that(1))
    next
      case False
      with step 1 show thesis by (intro that(2)) simp
    qed
  next
    case 2
    show thesis
    proof (cases "list_get bytes ?d = Some CHR '']''")
      case True
      with step 2 have "j = ?d + 1" by simp
      with list_get_lt [OF True] show thesis by (intro that(1))
    next
      case False
      with step 2 show thesis by (intro that(3)) simp
    qed
  next
    case 3
    with step have "map_option snd (dp_string sd bytes ?c) = Some j" by simp
    then obtain key where "dp_string sd bytes ?c = Some (key, j)" by auto
    then show thesis by (rule that(4))
  next
    case 4
    show thesis
    proof (cases "starts_number b")
      case True
      with step 4 have "j = scalar_end bytes ?c" by simp
      with list_get_lt [OF Some] show thesis by (intro that(5))
    next
      case False
      with step 4 have "dp_take bytes ?c ''true'' = Some j \<or> dp_take bytes ?c ''false'' = Some j
          \<or> dp_take bytes ?c ''null'' = Some j" by (simp split: if_splits)
      with that(6) show thesis by blast
    qed
  qed
qed

text \<open>The cursor never moves back and never leaves the input.\<close>

lemma dp_cursor:
  "(\<forall>p i j. dp_value n st sd bytes p i = Some (Some j) \<longrightarrow> i \<le> j \<and> j \<le> length bytes)
   \<and> (\<forall>p seen i j. dp_members n st sd bytes p seen i = Some (Some j) \<longrightarrow> i \<le> j \<and> j \<le> length bytes)
   \<and> (\<forall>p i j. dp_elements n st sd bytes p i = Some (Some j) \<longrightarrow> i \<le> j \<and> j \<le> length bytes)"
proof (induction n)
  case 0
  then show ?case by simp
next
  case (Suc n)
  have ws: "a \<le> dp_ws bytes a" for a by (rule dp_ws_bounds)
  note IH = Suc.IH [THEN conjunct1, rule_format] Suc.IH [THEN conjunct2, THEN conjunct1, rule_format]
    Suc.IH [THEN conjunct2, THEN conjunct2, rule_format]
  have V: "i \<le> j \<and> j \<le> length bytes" if "dp_value (Suc n) st sd bytes p i = Some (Some j)" for p i j
  proof -
    have le: "i \<le> dp_ws bytes i" "dp_ws bytes i + 1 \<le> dp_ws bytes (dp_ws bytes i + 1)" by (rule ws)+
    from that have "dp_ws bytes i \<le> j \<and> j \<le> length bytes"
    proof (cases rule: dp_value_SucE)
      case 1
      with le show ?thesis by simp
    next
      case 2
      from IH(2) [OF this] le show ?thesis by simp
    next
      case 3
      from IH(3) [OF this] le show ?thesis by simp
    next
      case (4 key)
      from dp_string_bounds [OF this] show ?thesis by simp
    next
      case 5
      with scalar_end_bounds [of "dp_ws bytes i" bytes] show ?thesis by simp
    next
      case (6 w)
      then show ?thesis by (rule dp_take_bounds)
    qed
    with le show ?thesis by simp
  qed
  have M: "i \<le> j \<and> j \<le> length bytes" if "dp_members (Suc n) st sd bytes p seen i = Some (Some j)" for p seen i j
  proof -
    from that obtain key c k seen' where 1: "dp_string sd bytes i = Some (key, c)"
      "dp_value n st sd bytes (p @ [Key key]) (dp_ws bytes c + 1) = Some (Some k)"
      "dp_members n st sd bytes p seen' (dp_ws bytes (dp_ws bytes k + 1)) = Some (Some j) \<and> dp_ws bytes k < length bytes
       \<or> j = dp_ws bytes k + 1 \<and> dp_ws bytes k < length bytes" by (elim dp_members_SucE)
    from 1(3) have "dp_ws bytes k \<le> j \<and> j \<le> length bytes"
      using IH(2) [of p seen' _ j] ws [of "dp_ws bytes k + 1"] by fastforce
    with dp_string_bounds [OF 1(1)] IH(1) [OF 1(2)] ws [of c] ws [of k] show ?thesis by linarith
  qed
  have E: "i \<le> j \<and> j \<le> length bytes" if "dp_elements (Suc n) st sd bytes p i = Some (Some j)" for p i j
  proof -
    from that obtain k where 1: "dp_value n st sd bytes p i = Some (Some k)"
      "dp_elements n st sd bytes p (dp_ws bytes (dp_ws bytes k + 1)) = Some (Some j) \<and> dp_ws bytes k < length bytes
       \<or> j = dp_ws bytes k + 1 \<and> dp_ws bytes k < length bytes" by (elim dp_elements_SucE)
    from 1(2) have "dp_ws bytes k \<le> j \<and> j \<le> length bytes"
      using IH(3) [of p _ j] ws [of "dp_ws bytes k + 1"] by fastforce
    with IH(1) [OF 1(1)] ws [of k] show ?thesis by linarith
  qed
  from V M E show ?case by blast
qed

lemmas dp_value_cursor = dp_cursor [THEN conjunct1, rule_format]

lemma dp_fuel:
  "(\<forall>p i. 2 * (length bytes - i) < n \<longrightarrow> dp_value n st sd bytes p i \<noteq> None)
   \<and> (\<forall>p seen i. 2 * (length bytes - i) < n \<longrightarrow> dp_members n st sd bytes p seen i \<noteq> None)
   \<and> (\<forall>p i. 2 * (length bytes - i) + 1 < n \<longrightarrow> dp_elements n st sd bytes p i \<noteq> None)"
proof (induction n)
  case 0
  then show ?case by simp
next
  case (Suc n)
  have ws: "a \<le> dp_ws bytes a" for a by (rule dp_ws_bounds)
  note IH = Suc.IH [THEN conjunct1, rule_format] Suc.IH [THEN conjunct2, THEN conjunct1, rule_format]
    Suc.IH [THEN conjunct2, THEN conjunct2, rule_format]
  have V: "dp_value (Suc n) st sd bytes p i \<noteq> None" if f: "2 * (length bytes - i) < Suc n" for p i
  proof (cases "list_get bytes (dp_ws bytes i)")
    case None
    then show ?thesis by simp
  next
    case (Some b)
    from list_get_lt [OF Some] ws [of i] ws [of "dp_ws bytes i + 1"] f
    have lt: "2 * (length bytes - dp_ws bytes (dp_ws bytes i + 1)) + 1 < n" by linarith
    then show ?thesis using Some IH(2) [of "dp_ws bytes (dp_ws bytes i + 1)"] IH(3) [OF lt]
      by (simp add: Let_def)
  qed
  have M: "dp_members (Suc n) st sd bytes p seen i \<noteq> None" if f: "2 * (length bytes - i) < Suc n" for p seen i
  proof (cases "dp_string sd bytes i")
    case None
    then show ?thesis by simp
  next
    case (Some kc)
    obtain key c where kc: "kc = (key, c)" by (cases kc)
    have lt: "2 * (length bytes - (dp_ws bytes c + 1)) < n"
      using dp_string_bounds [OF Some [unfolded kc]] ws [of c] f by linarith
    have m: "dp_members n st sd bytes p seen' (dp_ws bytes (dp_ws bytes k + 1)) \<noteq> None"
      if "dp_value n st sd bytes (p @ [Key key]) (dp_ws bytes c + 1) = Some (Some k)" for k seen'
    proof (rule IH(2))
      show "2 * (length bytes - dp_ws bytes (dp_ws bytes k + 1)) < n"
        using dp_value_cursor [OF that] lt ws [of k] ws [of "dp_ws bytes k + 1"] by linarith
    qed
    show ?thesis using Some kc IH(1) [OF lt, of "p @ [Key key]"] m by (auto simp: Let_def split: option.splits)
  qed
  have E: "dp_elements (Suc n) st sd bytes p i \<noteq> None" if f: "2 * (length bytes - i) + 1 < Suc n" for p i
  proof -
    have v: "dp_value n st sd bytes p i \<noteq> None" using f by (intro IH(1)) simp
    have e: "dp_elements n st sd bytes p (dp_ws bytes (dp_ws bytes k + 1)) \<noteq> None"
      if "dp_value n st sd bytes p i = Some (Some k)" "dp_ws bytes k < length bytes" for k
    proof (rule IH(3))
      show "2 * (length bytes - dp_ws bytes (dp_ws bytes k + 1)) + 1 < n"
        using dp_value_cursor [OF that(1)] that(2) f ws [of k] ws [of "dp_ws bytes k + 1"] by linarith
    qed
    show ?thesis using v e by (auto simp: Let_def dest: list_get_lt split: option.splits)
  qed
  from V M E show ?case by blast
qed

lemma dp_value_fuel: "2 * (length bytes - i) < n \<Longrightarrow> dp_value n st sd bytes p i \<noteq> None"
  using dp_fuel by blast

lemma checked_json_stage_Some:
  "checked_json_stage serde sd body stage = Some v \<longleftrightarrow>
     scan_json body = Some () \<and> serde body = Some v
     \<and> (\<exists>j. dp_value (2 * length body + 1) stage sd body [] 0 = Some (Some j) \<and> dp_ws body j = length body)"
proof -
  have "((case r of None \<Rightarrow> None | Some q \<Rightarrow> q) = Some j) \<longleftrightarrow> r = Some (Some j)" for r :: "nat option option" and j
    by (cases r) simp_all
  moreover have "checked_json serde body = Some w \<longleftrightarrow> scan_json body = Some () \<and> serde body = Some w" for w
    by (simp add: checked_json_def split: option.splits unit.splits)
  ultimately show ?thesis
    unfolding checked_json_stage_def bind_eq_Some_conv by (metis option.distinct(1) option.inject)
qed

section \<open>Properties\<close>

text \<open>C22: The one-pass scanner with its early exits admits exactly the inputs that lex completely and whose
  token list has at most 4096 tokens, closes no more brackets than it opened, never nests deeper than
  32 and is balanced at the end.\<close>

theorem scan_json_admits:
  "scan_json bytes = Some () \<longleftrightarrow>
     (\<exists>ts. lex_json bytes 0 = Some ts \<and> length ts \<le> 4096 \<and> opens ts = closes ts
        \<and> (\<forall>k. closes (take k ts) \<le> opens (take k ts) \<and> opens (take k ts) \<le> closes (take k ts) + 32))"
proof -
  have all: "(\<forall>k \<le> length ts. P (take k ts)) \<longleftrightarrow> (\<forall>k. P (take k ts))" for P and ts :: "tok list"
    by (metis linorder_le_cases order_refl take_all)
  have "admitted 0 0 ts \<longleftrightarrow> length ts \<le> 4096 \<and> opens ts = closes ts
      \<and> (\<forall>k. closes (take k ts) \<le> opens (take k ts) \<and> opens (take k ts) \<le> closes (take k ts) + 32)" for ts
    using admitted_counts [of 0 0 ts] all [of ts "\<lambda>us. closes us \<le> opens us \<and> opens us \<le> closes us + 32"]
    by simp
  then show ?thesis by (simp add: scan_json_def scan_json_loop_lex)
qed

text \<open>C14: The admission of a response body: a value is returned exactly when the bounded scanner admits the
  body, the deserialiser accepts it, and the syntax tree of the whole body has no object in which a
  key that drives the decision of this stage occurs twice.  The walk always ends within its fuel.\<close>

theorem checked_json_stage_no_duplicates:
  "checked_json_stage serde sd body stage = Some v \<longleftrightarrow>
     scan_json body = Some () \<and> serde body = Some v
     \<and> (\<exists>t j. pt_value (2 * length body + 1) sd body 0 = Some (Some (t, j)) \<and> dp_ws body j = length body
              \<and> no_dup stage [] t)
     \<and> dp_value (2 * length body + 1) stage sd body [] 0 \<noteq> None"
proof -
  have "dp_value (2 * length body + 1) stage sd body [] 0 \<noteq> None" by (rule dp_value_fuel) simp
  moreover have "dp_value (2 * length body + 1) stage sd body [] 0 = Some (Some j) \<longleftrightarrow>
      (\<exists>t. pt_value (2 * length body + 1) sd body 0 = Some (Some (t, j)) \<and> no_dup stage [] t)" for j
    using dp_pt [of "2 * length body + 1" stage sd body] by blast
  moreover have "checked_json_stage serde sd body stage = Some v \<longleftrightarrow>
      scan_json body = Some () \<and> serde body = Some v
      \<and> (\<exists>j. dp_value (2 * length body + 1) stage sd body [] 0 = Some (Some j) \<and> dp_ws body j = length body)"
    by (rule checked_json_stage_Some)
  ultimately show ?thesis by blast
qed

end
