(* ===== verification/Preflight.thy ===== *)
theory Preflight
  imports Accepted_Set Json_Scan
begin

unbundle bit_operations_syntax

text \<open>
  Model of the local half of the handshake probe of \<open>src/src/handshake.rs\<close>: the process environment and
  the protected file reader, the configuration structures, the precedence of flags, environment, shipping
  policy and configuration file, the endpoint validator, the credential grammar and the certificate
  bundle check.  The TOML deserialiser, the URL parser, the PEM reader, the HTTP client builder and the
  header validator are parameters, gathered in the record \<open>libs\<close>.  A \<open>Result\<close> whose error carries nothing
  is an \<open>option\<close>.  The lemmas show what a successful preflight guarantees, which tier decides
  the cluster affinity, and what an accepted endpoint looks like.
\<close>

section \<open>Arguments, configuration and results\<close>

type_synonym path = string

record check_args =
  ca_endpoint :: "string option"
  ca_ca_file :: "path option"
  ca_expected_cluster_uuid :: "string option"
  ca_pending_enrollment :: bool
  ca_target_generation :: "string option"
  ca_credentials_file :: "path option"
  ca_config :: "path option"

record protected_elasticsearch =
  pe_endpoint :: "string option"
  pe_ca_cert :: "path option"
  pe_api_key :: "string option"
  pe_username :: "string option"
  pe_password :: "string option"

record protected_shipping =
  ps_expected_cluster_uuid :: "string option"
  ps_pending_enrollment :: "bool option"
  ps_target_generation :: "string option"

record protected_config =
  pc_elasticsearch :: "protected_elasticsearch option"
  pc_shipping :: "protected_shipping option"

record credential_values =
  cv_api_key :: "string option"
  cv_username :: "string option"
  cv_password :: "string option"

record shipping_policy_v1 =
  sp_ship_mode :: string
  sp_install_profile :: string
  sp_outbox_root :: path
  sp_target_generation :: string
  sp_expected_cluster_uuid :: string

text \<open>The derived \<open>Default\<close> instances.\<close>

definition default_elasticsearch :: protected_elasticsearch where
  "default_elasticsearch =
     \<lparr>pe_endpoint = None, pe_ca_cert = None, pe_api_key = None, pe_username = None, pe_password = None\<rparr>"
definition default_shipping :: protected_shipping where
  "default_shipping = \<lparr>ps_expected_cluster_uuid = None, ps_pending_enrollment = None, ps_target_generation = None\<rparr>"
definition default_config :: protected_config where
  "default_config = \<lparr>pc_elasticsearch = None, pc_shipping = None\<rparr>"

datatype credentials = ApiKey string | Basic string string
datatype affinity = Expected string | Pending

record 'cert preflight_data =
  pf_origin :: string
  pf_ca :: "'cert list option"
  pf_credential :: credentials
  pf_affinity :: affinity
  pf_generation :: "u8 list"

text \<open>What the code reads of a parsed \<open>Url\<close>.\<close>

record url =
  url_scheme :: string
  url_host_str :: "string option"
  url_username :: string
  url_password :: "string option"
  url_query :: "string option"
  url_fragment :: "string option"
  url_path :: string
  url_port :: "nat option"

text \<open>The third-party functions the code calls.\<close>

record 'cert libs =
  toml_config :: "string \<Rightarrow> protected_config option"
  toml_policy :: "string \<Rightarrow> shipping_policy_v1 option"
  toml_credentials :: "string \<Rightarrow> credential_values option"
  url_parse :: "string \<Rightarrow> url option"
  from_pem_bundle :: "bytes \<Rightarrow> 'cert list option"
  client_builds :: "'cert list \<Rightarrow> bool"
  header_value_ok :: "bytes \<Rightarrow> bool"
  serde_value :: "bytes \<Rightarrow> json option"
  serde_string :: "bytes \<Rightarrow> string option"

section \<open>Paths and the process environment\<close>

text \<open>
  \<open>Path::parent\<close> on Unix, on the reversed path: trailing separators and \<open>.\<close> components are not
  components; the root and the empty path have no parent.
\<close>

fun trim_path_back :: "string \<Rightarrow> string" where
  "trim_path_back (c # d # r) =
     (if c = CHR ''/'' then trim_path_back (d # r)
      else if c = CHR ''.'' \<and> d = CHR ''/'' then trim_path_back (d # r)
      else c # d # r)"
| "trim_path_back r = r"

definition path_parent :: "path \<Rightarrow> path option" where
  "path_parent p =
     (let t = trim_path_back (rev p) in
      if t = [] \<or> t = ''/'' then None
      else Some (rev (trim_path_back (dropWhile (\<lambda>c. c \<noteq> CHR ''/'') t))))"

definition is_absolute :: "path \<Rightarrow> bool" where
  "is_absolute p \<longleftrightarrow> starts_with ''/'' p"

definition path_join :: "path \<Rightarrow> path \<Rightarrow> path" where
  "path_join p q = (if is_absolute q then q
                    else if p = [] \<or> last p = CHR ''/'' then p @ q else p @ ''/'' @ q)"

text \<open>The seam \<open>Environment\<close>: the outer \<open>None\<close> of \<open>env_value\<close> is a variable that is not UTF-8.\<close>

record environment =
  env_value :: "string \<Rightarrow> string option option"
  env_read_public :: "path \<Rightarrow> bytes option"
  env_read_protected :: "path \<Rightarrow> string option"
  env_read_optional_protected :: "path \<Rightarrow> string option option"

text \<open>What the operating system answers: \<open>open\<close> with \<open>O_NOFOLLOW\<close>, \<open>fstat\<close>, and the bytes read.\<close>

record inode =
  st_mode :: u32
  st_uid :: u32
  st_bytes :: "bytes option"

record os =
  var_os :: "string \<Rightarrow> bytes option"
  os_exists :: "path \<Rightarrow> bool"
  os_read :: "path \<Rightarrow> bytes option"
  os_open :: "path \<Rightarrow> inode option option"
  geteuid :: u32

definition protected_metadata_valid :: "u32 \<Rightarrow> u32 \<Rightarrow> u32 \<Rightarrow> bool \<Rightarrow> bool" where
  "protected_metadata_valid mode uid euid regular \<longleftrightarrow> regular \<and> uid = euid \<and> mode AND 0x3F = 0"

definition protected_read :: "os \<Rightarrow> path \<Rightarrow> string option" where
  "protected_read w p =
     (if CHR 0x00 \<in> set p then None
      else case os_open w p of
        None \<Rightarrow> None
      | Some None \<Rightarrow> None
      | Some (Some stat) \<Rightarrow>
        if \<not> protected_metadata_valid (st_mode stat AND 0xFFF) (st_uid stat) (geteuid w)
               (st_mode stat AND 0xF000 = 0x8000)
        then None
        else (case st_bytes stat of
                None \<Rightarrow> None
              | Some text \<Rightarrow> if utf8_valid text then Some text else None))"

definition process_environment :: "os \<Rightarrow> environment" where
  "process_environment w =
     \<lparr>env_value = (\<lambda>name. case var_os w name of None \<Rightarrow> Some None
                          | Some v \<Rightarrow> if utf8_valid v then Some (Some v) else None),
      env_read_public = os_read w,
      env_read_protected = protected_read w,
      env_read_optional_protected =
        (\<lambda>p. if \<not> os_exists w p then Some None else map_option Some (protected_read w p))\<rparr>"

section \<open>Endpoint\<close>

text \<open>\<open>str::get(n..)\<close>\<close>

definition str_from :: "string \<Rightarrow> nat \<Rightarrow> string option" where
  "str_from s n = (if n \<le> length s \<and> is_char_boundary s n then Some (drop n s) else None)"

definition url_has_userinfo :: "string \<Rightarrow> url \<Rightarrow> bool" where
  "url_has_userinfo input u =
     (let input = trim_matches (\<lambda>c. c \<le> 0x20) input in
      if list_ex (\<lambda>c. c \<in> {CHR 0x09, CHR 0x0A, CHR 0x0D}) input then True
      else case do { rest \<leftarrow> str_from input (length (url_scheme u) + 1); strip_prefix ''//'' rest } of
        None \<Rightarrow> True
      | Some authority \<Rightarrow>
        if starts_with ''/'' authority \<or> starts_with [CHR 0x5C] authority then True
        else list_ex (\<lambda>c. c = CHR ''@'') (takeWhile (\<lambda>c. c \<notin> {CHR ''/'', CHR ''?'', CHR ''#''}) authority))"

definition endpoint_origin :: "'cert libs \<Rightarrow> string \<Rightarrow> string option" where
  "endpoint_origin L value =
     do { u \<leftarrow> url_parse L value;
          if \<not> (url_scheme u = ''http'' \<or> url_scheme u = ''https'')
             \<or> url_host_str u = None
             \<or> url_has_userinfo value u
             \<or> url_username u \<noteq> []
             \<or> url_password u \<noteq> None
             \<or> url_query u \<noteq> None
             \<or> url_fragment u \<noteq> None
             \<or> \<not> (url_path u = [] \<or> url_path u = ''/'')
          then None
          else do { host \<leftarrow> url_host_str u;
                    Some (case url_port u of
                            Some port \<Rightarrow> url_scheme u @ ''://'' @ host @ '':'' @ show_nat port
                          | None \<Rightarrow> url_scheme u @ ''://'' @ host) } }"

section \<open>Credentials, affinity and policy\<close>

definition credentials_from_values ::
    "'cert libs \<Rightarrow> string option \<Rightarrow> string option \<Rightarrow> string option \<Rightarrow> credentials option" where
  "credentials_from_values L api_key username password =
     (case api_key of
        Some key \<Rightarrow> if key \<noteq> [] \<and> header_value_ok L (''ApiKey '' @ key) then Some (ApiKey key) else None
      | None \<Rightarrow> (case (username, password) of
                   (Some user, Some pw) \<Rightarrow> if user \<noteq> [] \<and> pw \<noteq> [] then Some (Basic user pw) else None
                 | _ \<Rightarrow> None))"

definition parse_protected :: "'cert libs \<Rightarrow> environment \<Rightarrow> path \<Rightarrow> protected_config option" where
  "parse_protected L env p = do { text \<leftarrow> env_read_protected env p; toml_config L text }"

definition credentials_from_file :: "'cert libs \<Rightarrow> environment \<Rightarrow> path \<Rightarrow> credentials option" where
  "credentials_from_file L env p =
     do { text \<leftarrow> env_read_protected env p;
          values \<leftarrow> toml_credentials L text;
          case (cv_api_key values, cv_username values, cv_password values) of
            (Some key, None, None) \<Rightarrow> credentials_from_values L (Some key) None None
          | (None, Some username, Some password) \<Rightarrow>
              credentials_from_values L None (Some username) (Some password)
          | _ \<Rightarrow> None }"

definition affinity_pair :: "string option \<Rightarrow> bool option \<Rightarrow> affinity option option" where
  "affinity_pair uuid pending =
     (case (uuid, pending) of
        (Some _, Some _) \<Rightarrow> None
      | (Some value, None) \<Rightarrow> map_option (\<lambda>u. Some (Expected u)) (uuid_parse value)
      | (None, Some True) \<Rightarrow> Some (Some Pending)
      | (None, Some False) \<Rightarrow> None
      | (None, None) \<Rightarrow> Some None)"

definition read_shipping_policy ::
    "'cert libs \<Rightarrow> environment \<Rightarrow> path \<Rightarrow> shipping_policy_v1 option option" where
  "read_shipping_policy L env config_path =
     do { parent \<leftarrow> path_parent config_path;
          found \<leftarrow> env_read_optional_protected env (path_join parent ''shipping-policy-v1.toml'');
          case found of
            None \<Rightarrow> Some None
          | Some text \<Rightarrow>
              do { policy \<leftarrow> toml_policy L text;
                   if sp_ship_mode policy \<noteq> ''on''
                      \<or> sp_install_profile policy \<noteq> ''user''
                      \<or> \<not> is_absolute (sp_outbox_root policy)
                      \<or> generation_parse (sp_target_generation policy) = None
                      \<or> uuid_parse (sp_expected_cluster_uuid policy) = None
                   then None else Some (Some policy) } }"

definition resolve_affinity ::
    "environment \<Rightarrow> check_args \<Rightarrow> protected_shipping \<Rightarrow> shipping_policy_v1 option \<Rightarrow> affinity option" where
  "resolve_affinity env args shipping capsule =
     do { flag \<leftarrow> affinity_pair (ca_expected_cluster_uuid args)
                     (if ca_pending_enrollment args then Some True else None);
          case flag of Some v \<Rightarrow> Some v
          | None \<Rightarrow>
            do { pending_var \<leftarrow> env_value env ''RIGSIGNAL_PENDING_ENROLLMENT'';
                 pending_env \<leftarrow> (case pending_var of
                                   Some v \<Rightarrow> if v = ''1'' then Some (Some True) else None
                                 | None \<Rightarrow> Some None);
                 uuid_env \<leftarrow> env_value env ''RIGSIGNAL_EXPECTED_CLUSTER_UUID'';
                 tier \<leftarrow> affinity_pair uuid_env pending_env;
                 case tier of Some v \<Rightarrow> Some v
                 | None \<Rightarrow>
                   do { policy \<leftarrow> affinity_pair (map_option sp_expected_cluster_uuid capsule) None;
                        file \<leftarrow> affinity_pair (ps_expected_cluster_uuid shipping) (ps_pending_enrollment shipping);
                        or_else policy file } } }"

section \<open>Certificate bundle\<close>

definition begin_certificate :: string where "begin_certificate = ''-----BEGIN CERTIFICATE-----''"
definition end_certificate :: string where "end_certificate = ''-----END CERTIFICATE-----''"

lemma length_str_of_chars_le: "length (str_of_chars (chars s)) \<le> length s"
proof (induction s rule: chars.induct)
  case (1 s)
  show ?case
  proof (cases "utf8_next s")
    case None
    then show ?thesis by (simp add: chars.simps [of s] str_of_chars_def)
  next
    case (Some cw)
    obtain c w where cw: "cw = (c, w)" by (cases cw)
    with Some have n: "utf8_next s = Some (c, w)" by simp
    from utf8_next_Some [OF n] obtain r where "is_scalar c" "w = len_utf8 c" "s = encode_char c @ r" by blast
    then have "length (encode_char c) = w" "s = encode_char c @ r" by (simp_all add: length_encode_char)
    moreover have "length (str_of_chars (chars (drop w s))) \<le> length (drop w s)"
      using 1 [OF Some cw [symmetric]] by simp
    ultimately show ?thesis using n by (simp add: chars.simps [of "encode_char c @ r"] str_of_chars_def)
  qed
qed

lemma length_str_of_chars_dropWhile: "length (str_of_chars (dropWhile p cs)) \<le> length (str_of_chars cs)"
  by (induction cs) (simp_all add: str_of_chars_def)

lemma length_str_of_chars_dropWhile_rev:
  "length (str_of_chars (rev (dropWhile p (rev cs)))) \<le> length (str_of_chars cs)"
proof -
  have "length (str_of_chars (rev xs)) = length (str_of_chars xs)" for xs
    by (induction xs) (simp_all add: str_of_chars_def)
  then show ?thesis by (metis length_str_of_chars_dropWhile rev_rev_ident)
qed

lemma length_trim_le: "length (trim s) \<le> length s"
proof -
  have "length (trim_start s) \<le> length s"
    unfolding trim_start_def using length_str_of_chars_dropWhile length_str_of_chars_le order_trans by blast
  moreover have "length (trim_end t) \<le> length t" for t
    unfolding trim_end_def using length_str_of_chars_dropWhile_rev length_str_of_chars_le order_trans by blast
  ultimately show ?thesis unfolding trim_def using order_trans by blast
qed

text \<open>The \<open>while\<close> loop over the trimmed text; \<open>str::find\<close> and slicing are on bytes.\<close>

function pem_blocks_ok :: "string \<Rightarrow> bool" where
  "pem_blocks_ok remainder =
     (if remainder = [] then True
      else case strip_prefix begin_certificate remainder of
        None \<Rightarrow> False
      | Some certificate \<Rightarrow>
        (case find_str end_certificate certificate of
           None \<Rightarrow> False
         | Some n \<Rightarrow> pem_blocks_ok (trim (drop (n + length end_certificate) certificate))))"
  by pat_completeness auto
termination
proof (relation "measure length", goal_cases)
  case (2 remainder certificate n)
  from 2(2) have "length certificate < length remainder"
    using 2(1) by (auto simp: strip_prefix_def begin_certificate_def split: if_splits)
  moreover have "length (trim (drop (n + length end_certificate) certificate)) \<le> length certificate"
    using length_trim_le [of "drop (n + length end_certificate) certificate"] by simp
  ultimately show ?case by simp
qed simp

declare pem_blocks_ok.simps [simp del]

definition ca_certificate_bundle :: "'cert libs \<Rightarrow> bytes \<Rightarrow> 'cert list option" where
  "ca_certificate_bundle L bytes =
     (if \<not> utf8_valid bytes \<or> trim bytes = [] \<or> \<not> pem_blocks_ok (trim bytes) then None
      else do { certificates \<leftarrow> from_pem_bundle L bytes;
                if certificates \<noteq> [] then Some certificates else None })"

section \<open>\<open>preflight\<close>\<close>

definition preflight :: "'cert libs \<Rightarrow> environment \<Rightarrow> check_args \<Rightarrow> 'cert preflight_data option" where
  "preflight L env args =
     do { config \<leftarrow> (case ca_config args of Some p \<Rightarrow> parse_protected L env p | None \<Rightarrow> Some default_config);
          let es = (case pc_elasticsearch config of None \<Rightarrow> default_elasticsearch | Some e \<Rightarrow> e);
          let shipping = (case pc_shipping config of None \<Rightarrow> default_shipping | Some s \<Rightarrow> s);
          capsule \<leftarrow> (case ca_config args of Some p \<Rightarrow> read_shipping_policy L env p | None \<Rightarrow> Some None);
          endpoint \<leftarrow> (case ca_endpoint args of
                         Some value \<Rightarrow> Some value
                       | None \<Rightarrow> do { v \<leftarrow> env_value env ''RIGSIGNAL_ES_ENDPOINT''; or_else v (pe_endpoint es) });
          origin \<leftarrow> endpoint_origin L endpoint;
          generation_text \<leftarrow> (case ca_target_generation args of
                         Some value \<Rightarrow> Some (Some value)
                       | None \<Rightarrow> do { v \<leftarrow> env_value env ''RIGSIGNAL_TARGET_GENERATION'';
                                     Some (or_else (or_else v (map_option sp_target_generation capsule))
                                             (ps_target_generation shipping)) });
          generation \<leftarrow> Option.bind generation_text generation_parse;
          affinity \<leftarrow> resolve_affinity env args shipping capsule;
          ca_path \<leftarrow> (case ca_ca_file args of
                         Some p \<Rightarrow> Some (Some p)
                       | None \<Rightarrow> do { v \<leftarrow> env_value env ''RIGSIGNAL_ES_CA_FILE''; Some (or_else v (pe_ca_cert es)) });
          ca \<leftarrow> (case ca_path of
                   Some p \<Rightarrow> do { bytes \<leftarrow> env_read_public env p;
                                 ca \<leftarrow> ca_certificate_bundle L bytes;
                                 if client_builds L ca then Some (Some ca) else None }
                 | None \<Rightarrow> Some None);
          dedicated \<leftarrow> (case ca_credentials_file args of
                         Some p \<Rightarrow> Some (Some p)
                       | None \<Rightarrow> env_value env ''RIGSIGNAL_ES_CREDENTIALS_FILE'');
          credential \<leftarrow> (case dedicated of
                         Some p \<Rightarrow> credentials_from_file L env p
                       | None \<Rightarrow> credentials_from_values L (pe_api_key es) (pe_username es) (pe_password es));
          Some \<lparr>pf_origin = origin, pf_ca = ca, pf_credential = credential, pf_affinity = affinity,
                pf_generation = generation\<rparr> }"

section \<open>What the parts guarantee\<close>

definition uuid_ok :: "string \<Rightarrow> bool" where
  "uuid_ok u \<longleftrightarrow> length u = 22 \<and> (\<forall>b \<in> set u. is_alphanumeric b \<or> b = CHR ''_'' \<or> b = CHR ''-'')"

definition credentials_ok :: "'cert libs \<Rightarrow> credentials \<Rightarrow> bool" where
  "credentials_ok L c \<longleftrightarrow>
     (case c of ApiKey key \<Rightarrow> key \<noteq> [] \<and> header_value_ok L (''ApiKey '' @ key)
              | Basic user pw \<Rightarrow> user \<noteq> [] \<and> pw \<noteq> [])"

lemma uuid_parse_ok: "uuid_parse v = Some u \<longleftrightarrow> u = v \<and> uuid_ok v"
  by (auto simp: uuid_parse_def uuid_ok_def list_all_iff)

lemma credentials_from_values_ok:
  "credentials_from_values L k u p = Some c \<Longrightarrow> credentials_ok L c"
  by (auto simp: credentials_from_values_def credentials_ok_def split: option.splits if_splits)

lemma credentials_from_file_ok: "credentials_from_file L env p = Some c \<Longrightarrow> credentials_ok L c"
  by (auto simp: credentials_from_file_def bind_eq_Some_conv intro: credentials_from_values_ok
      split: option.splits)

lemma affinity_pair_Expected: "affinity_pair u p = Some (Some (Expected v)) \<longleftrightarrow> u = Some v \<and> p = None \<and> uuid_ok v"
  by (auto simp: affinity_pair_def uuid_parse_ok split: option.splits bool.splits)

lemma affinity_pair_Pending: "affinity_pair u p = Some (Some Pending) \<longleftrightarrow> u = None \<and> p = Some True"
  by (auto simp: affinity_pair_def split: option.splits bool.splits)

lemma affinity_pair_None: "affinity_pair u p = Some None \<longleftrightarrow> u = None \<and> p = None"
  by (auto simp: affinity_pair_def split: option.splits bool.splits)

lemma ca_certificate_bundle_nonempty: "ca_certificate_bundle L bytes = Some cs \<Longrightarrow> cs \<noteq> []"
  by (auto simp: ca_certificate_bundle_def bind_eq_Some_conv split: if_splits)

lemma is_tab_ex: "list_ex (\<lambda>c. c \<in> A) xs \<longleftrightarrow> set xs \<inter> A \<noteq> {}"
  by (auto simp: list_ex_iff)

text \<open>The shape of an endpoint text in which the code finds no user information.\<close>

lemma url_has_userinfo_False:
  assumes "\<not> url_has_userinfo input u"
  obtains pre authority rest where
    "trim_matches (\<lambda>c. c \<le> 0x20) input = pre @ ''//'' @ authority @ rest"
    "length pre = length (url_scheme u) + 1"
    "set (pre @ authority @ rest) \<inter> {CHR 0x09, CHR 0x0A, CHR 0x0D} = {}"
    "set authority \<inter> {CHR ''/'', CHR ''?'', CHR ''#'', CHR ''@''} = {}"
    "rest = [] \<or> hd rest \<in> {CHR ''/'', CHR ''?'', CHR ''#''}"
    "\<not> starts_with ''/'' (authority @ rest)" "\<not> starts_with [CHR 0x5C] (authority @ rest)"
proof -
  let ?t = "trim_matches (\<lambda>c. c \<le> 0x20) input" and ?n = "length (url_scheme u) + 1"
  let ?stop = "{CHR ''/'', CHR ''?'', CHR ''#''}"
  from assms have tabs: "set ?t \<inter> {CHR 0x09, CHR 0x0A, CHR 0x0D} = {}"
    unfolding url_has_userinfo_def Let_def is_tab_ex by (rule contrapos_np) (subst if_P, assumption, rule TrueI)
  from assms obtain a where a: "do { rest \<leftarrow> str_from ?t ?n; strip_prefix ''//'' rest } = Some a"
    "\<not> starts_with ''/'' a" "\<not> starts_with [CHR 0x5C] a"
    "\<not> list_ex (\<lambda>c. c = CHR ''@'') (takeWhile (\<lambda>c. c \<notin> ?stop) a)"
    using tabs unfolding url_has_userinfo_def Let_def is_tab_ex by (auto split: option.splits if_splits)
  from a(1) have n: "?n \<le> length ?t" and d: "strip_prefix ''//'' (drop ?n ?t) = Some a"
    by (auto simp: str_from_def bind_eq_Some_conv split: if_splits)
  from d have "drop ?n ?t = ''//'' @ a"
    by (metis append_take_drop_id option.distinct(1) option.inject strip_prefix_def)
  then have t: "?t = take ?n ?t @ ''//'' @ a" by (metis append_take_drop_id)
  let ?au = "takeWhile (\<lambda>c. c \<notin> ?stop) a" and ?re = "dropWhile (\<lambda>c. c \<notin> ?stop) a"
  have a_eq: "a = ?au @ ?re" by simp
  show thesis
  proof (rule that)
    show "?t = take ?n ?t @ ''//'' @ ?au @ ?re" using t by simp
    show "length (take ?n ?t) = ?n" using n by simp
    show "set (take ?n ?t @ ?au @ ?re) \<inter> {CHR 0x09, CHR 0x0A, CHR 0x0D} = {}"
    proof -
      have "set (take ?n ?t @ ?au @ ?re) \<subseteq> set ?t" using t a_eq by (metis (no_types, lifting) Un_subset_iff set_append sup_ge1 sup_ge2)
      with tabs show ?thesis by blast
    qed
    show "set ?au \<inter> {CHR ''/'', CHR ''?'', CHR ''#'', CHR ''@''} = {}"
      using a(4) by (auto simp: list_ex_iff dest: set_takeWhileD)
    show "?re = [] \<or> hd ?re \<in> ?stop" using hd_dropWhile by blast
    show "\<not> starts_with ''/'' (?au @ ?re)" "\<not> starts_with [CHR 0x5C] (?au @ ?re)" using a by simp_all
  qed
qed

lemma endpoint_origin_Some:
  "endpoint_origin L value = Some o' \<longleftrightarrow>
     (\<exists>u host. url_parse L value = Some u \<and> url_host_str u = Some host
        \<and> url_scheme u \<in> {''http'', ''https''} \<and> \<not> url_has_userinfo value u
        \<and> url_username u = [] \<and> url_password u = None \<and> url_query u = None \<and> url_fragment u = None
        \<and> url_path u \<in> {[], ''/''}
        \<and> o' = url_scheme u @ ''://'' @ host @ (case url_port u of Some p \<Rightarrow> '':'' @ show_nat p | None \<Rightarrow> []))"
proof (cases "url_parse L value")
  case None
  then show ?thesis by (simp add: endpoint_origin_def)
next
  case u: (Some u)
  show ?thesis
  proof (cases "url_host_str u")
    case None
    with u show ?thesis by (simp add: endpoint_origin_def)
  next
    case (Some host)
    with u show ?thesis by (cases "url_port u") (auto simp: endpoint_origin_def)
  qed
qed

lemma uuid_parse_None: "uuid_parse v = None \<longleftrightarrow> \<not> uuid_ok v"
  by (auto simp: uuid_parse_def uuid_ok_def list_all_iff)

text \<open>The tiers below the flags.\<close>

definition file_affinity :: "protected_shipping \<Rightarrow> shipping_policy_v1 option \<Rightarrow> affinity option" where
  "file_affinity shipping capsule =
     do { policy \<leftarrow> affinity_pair (map_option sp_expected_cluster_uuid capsule) None;
          file \<leftarrow> affinity_pair (ps_expected_cluster_uuid shipping) (ps_pending_enrollment shipping);
          or_else policy file }"

definition env_affinity :: "environment \<Rightarrow> affinity option option" where
  "env_affinity env =
     do { pending_var \<leftarrow> env_value env ''RIGSIGNAL_PENDING_ENROLLMENT'';
          pending_env \<leftarrow> (case pending_var of
                            Some v \<Rightarrow> if v = ''1'' then Some (Some True) else None
                          | None \<Rightarrow> Some None);
          uuid_env \<leftarrow> env_value env ''RIGSIGNAL_EXPECTED_CLUSTER_UUID'';
          affinity_pair uuid_env pending_env }"

lemma resolve_affinity_rest:
  assumes "ca_expected_cluster_uuid args = None" "\<not> ca_pending_enrollment args"
  shows "resolve_affinity env args shipping capsule =
           do { tier \<leftarrow> env_affinity env; case tier of Some v \<Rightarrow> Some v | None \<Rightarrow> file_affinity shipping capsule }"
proof -
  have "affinity_pair None None = Some None" by (simp add: affinity_pair_def)
  with assms show ?thesis
    unfolding resolve_affinity_def env_affinity_def file_affinity_def by simp
qed

lemma file_affinity_Some:
  "file_affinity shipping capsule = Some a \<longleftrightarrow>
     (case capsule of
        None \<Rightarrow> affinity_pair (ps_expected_cluster_uuid shipping) (ps_pending_enrollment shipping) = Some (Some a)
      | Some c \<Rightarrow> uuid_ok (sp_expected_cluster_uuid c) \<and> a = Expected (sp_expected_cluster_uuid c)
                 \<and> affinity_pair (ps_expected_cluster_uuid shipping) (ps_pending_enrollment shipping) \<noteq> None)"
proof (cases capsule)
  case None
  moreover have "affinity_pair None None = Some None" by (simp add: affinity_pair_def)
  ultimately show ?thesis by (auto simp: file_affinity_def bind_eq_Some_conv or_else_def)
next
  case (Some c)
  moreover have "affinity_pair (Some v) None = (if uuid_ok v then Some (Some (Expected v)) else None)" for v
    by (simp add: affinity_pair_def uuid_parse_def uuid_ok_def list_all_iff)
  ultimately show ?thesis by (auto simp: file_affinity_def bind_eq_Some_conv or_else_def)
qed

lemma file_affinity_Pending:
  "file_affinity shipping capsule = Some Pending \<longleftrightarrow>
     capsule = None \<and> ps_expected_cluster_uuid shipping = None \<and> ps_pending_enrollment shipping = Some True"
  by (cases capsule) (simp_all add: file_affinity_Some affinity_pair_Pending)

lemma file_affinity_Expected:
  "file_affinity shipping capsule = Some (Expected u) \<longleftrightarrow>
     uuid_ok u \<and> affinity_pair (ps_expected_cluster_uuid shipping) (ps_pending_enrollment shipping) \<noteq> None
     \<and> (map_option sp_expected_cluster_uuid capsule = Some u
        \<or> capsule = None \<and> ps_expected_cluster_uuid shipping = Some u \<and> ps_pending_enrollment shipping = None)"
proof (cases capsule)
  case None
  have "affinity_pair x y = Some (Some (Expected u)) \<longleftrightarrow>
      uuid_ok u \<and> affinity_pair x y \<noteq> None \<and> x = Some u \<and> y = None" for x y
    using affinity_pair_Expected [of x y u] by auto
  with None show ?thesis by (simp add: file_affinity_Some)
next
  case (Some c)
  then show ?thesis by (auto simp: file_affinity_Some)
qed

lemma env_affinity_cases:
  "env_affinity env = Some None \<longleftrightarrow>
     env_value env ''RIGSIGNAL_PENDING_ENROLLMENT'' = Some None
     \<and> env_value env ''RIGSIGNAL_EXPECTED_CLUSTER_UUID'' = Some None"
  "env_affinity env = Some (Some Pending) \<longleftrightarrow>
     env_value env ''RIGSIGNAL_PENDING_ENROLLMENT'' = Some (Some ''1'')
     \<and> env_value env ''RIGSIGNAL_EXPECTED_CLUSTER_UUID'' = Some None"
  "env_affinity env = Some (Some (Expected u)) \<longleftrightarrow>
     env_value env ''RIGSIGNAL_PENDING_ENROLLMENT'' = Some None
     \<and> env_value env ''RIGSIGNAL_EXPECTED_CLUSTER_UUID'' = Some (Some u) \<and> uuid_ok u"
  by (cases "env_value env ''RIGSIGNAL_PENDING_ENROLLMENT''";
      auto simp: env_affinity_def bind_eq_Some_conv affinity_pair_None affinity_pair_Pending
        affinity_pair_Expected split: option.splits if_splits)+

lemma tier_Some:
  "(do { tier \<leftarrow> e; case tier of Some v \<Rightarrow> Some v | None \<Rightarrow> f }) = Some a \<longleftrightarrow> e = Some (Some a) \<or> e = Some None \<and> f = Some a"
  by (cases e) (auto split: option.splits)

section \<open>Properties\<close>

text \<open>An accepted endpoint is trimmed text of the form \<open><scheme>://<authority><rest>\<close> whose scheme part has
  the length of the parsed scheme and a colon, whose authority holds no at-sign and no delimiter, and
  which holds no tab or line break; the origin is put together from the parsed scheme, host and port
  alone.\<close>

theorem endpoint_origin_no_userinfo:
  assumes "endpoint_origin L value = Some o'"
  shows "\<exists>u host pre authority rest.
      url_parse L value = Some u \<and> url_scheme u \<in> {''http'', ''https''} \<and> url_host_str u = Some host
      \<and> o' = url_scheme u @ ''://'' @ host @ (case url_port u of Some p \<Rightarrow> '':'' @ show_nat p | None \<Rightarrow> [])
      \<and> trim_matches (\<lambda>c. c \<le> 0x20) value = pre @ ''//'' @ authority @ rest
      \<and> length pre = length (url_scheme u) + 1
      \<and> set (pre @ authority @ rest) \<inter> {CHR 0x09, CHR 0x0A, CHR 0x0D} = {}
      \<and> set authority \<inter> {CHR ''/'', CHR ''?'', CHR ''#'', CHR ''@''} = {}
      \<and> (rest = [] \<or> hd rest \<in> {CHR ''/'', CHR ''?'', CHR ''#''})"
proof -
  from assms obtain u host where u: "url_parse L value = Some u" "url_host_str u = Some host"
      "url_scheme u \<in> {''http'', ''https''}" "\<not> url_has_userinfo value u"
      "o' = url_scheme u @ ''://'' @ host @ (case url_port u of Some p \<Rightarrow> '':'' @ show_nat p | None \<Rightarrow> [])"
    by (auto simp: endpoint_origin_Some)
  from u(4) obtain pre authority rest where
    "trim_matches (\<lambda>c. c \<le> 0x20) value = pre @ ''//'' @ authority @ rest"
    "length pre = length (url_scheme u) + 1"
    "set (pre @ authority @ rest) \<inter> {CHR 0x09, CHR 0x0A, CHR 0x0D} = {}"
    "set authority \<inter> {CHR ''/'', CHR ''?'', CHR ''#'', CHR ''@''} = {}"
    "rest = [] \<or> hd rest \<in> {CHR ''/'', CHR ''?'', CHR ''#''}"
    by (rule url_has_userinfo_False)
  with u show ?thesis by (intro exI conjI)
qed

text \<open>A concrete instance of the libraries, for the witnesses: one URL, one certificate, no TOML.\<close>

definition sample_url :: url where
  "sample_url = \<lparr>url_scheme = ''http'', url_host_str = Some ''h'', url_username = [], url_password = None,
     url_query = None, url_fragment = None, url_path = ''/'', url_port = None\<rparr>"

definition sample_libs :: "nat libs" where
  "sample_libs =
     \<lparr>toml_config = (\<lambda>_. None), toml_policy = (\<lambda>_. None), toml_credentials = (\<lambda>_. Some
        \<lparr>cv_api_key = Some ''k'', cv_username = None, cv_password = None\<rparr>),
      url_parse = (\<lambda>v. if v = ''http://h/'' then Some sample_url else None),
      from_pem_bundle = (\<lambda>_. Some [1]), client_builds = (\<lambda>_. True), header_value_ok = (\<lambda>_. True),
      serde_value = (\<lambda>_. None), serde_string = (\<lambda>_. None)\<rparr>"

lemma sample_endpoint: "endpoint_origin sample_libs ''http://h/'' = Some ''http://h''"
  by code_simp

theorem endpoint_origin_no_userinfo_witness:
  "endpoint_origin sample_libs ''http://h/'' = Some ''http://h'' \<and>
   (\<exists>pre authority rest. trim_matches (\<lambda>c. c \<le> 0x20) ''http://h/'' = pre @ ''//'' @ authority @ rest
      \<and> length pre = 5 \<and> CHR ''@'' \<notin> set authority)"
proof -
  have u: "url_parse sample_libs ''http://h/'' = Some sample_url" "length (url_scheme sample_url) = 4"
    by (simp_all add: sample_libs_def sample_url_def)
  from endpoint_origin_no_userinfo [OF sample_endpoint] obtain pre authority rest where
    "trim_matches (\<lambda>c. c \<le> 0x20) ''http://h/'' = pre @ ''//'' @ authority @ rest"
    "length pre = length (url_scheme sample_url) + 1"
    "set authority \<inter> {CHR ''/'', CHR ''?'', CHR ''#'', CHR ''@''} = {}"
    unfolding u(1) option.inject by (elim exE conjE) (rule that, simp_all)
  then have "trim_matches (\<lambda>c. c \<le> 0x20) ''http://h/'' = pre @ ''//'' @ authority @ rest
      \<and> length pre = 5 \<and> CHR ''@'' \<notin> set authority" unfolding u(2) by force
  with sample_endpoint show ?thesis by blast
qed

text \<open>Which tier decides the affinity.  An expected cluster is always a well-formed identifier and
  comes from the first tier (flag, environment, shipping policy, configuration file) that says anything;
  enrollment is pending only where a tier says so and no earlier or equal tier names a cluster; a shipping
  policy rules pending enrollment in the configuration file out.\<close>

theorem resolve_affinity_tiers:
  "(resolve_affinity env args shipping capsule = Some Pending \<longleftrightarrow>
      ca_expected_cluster_uuid args = None
      \<and> (ca_pending_enrollment args
         \<or> env_value env ''RIGSIGNAL_EXPECTED_CLUSTER_UUID'' = Some None
           \<and> (env_value env ''RIGSIGNAL_PENDING_ENROLLMENT'' = Some (Some ''1'')
              \<or> env_value env ''RIGSIGNAL_PENDING_ENROLLMENT'' = Some None \<and> capsule = None
                \<and> ps_expected_cluster_uuid shipping = None \<and> ps_pending_enrollment shipping = Some True)))
   \<and> (resolve_affinity env args shipping capsule = Some (Expected u) \<longleftrightarrow>
      uuid_ok u \<and> \<not> ca_pending_enrollment args
      \<and> (ca_expected_cluster_uuid args = Some u
         \<or> ca_expected_cluster_uuid args = None \<and> env_value env ''RIGSIGNAL_PENDING_ENROLLMENT'' = Some None
           \<and> (env_value env ''RIGSIGNAL_EXPECTED_CLUSTER_UUID'' = Some (Some u)
              \<or> env_value env ''RIGSIGNAL_EXPECTED_CLUSTER_UUID'' = Some None
                \<and> affinity_pair (ps_expected_cluster_uuid shipping) (ps_pending_enrollment shipping) \<noteq> None
                \<and> (map_option sp_expected_cluster_uuid capsule = Some u
                   \<or> capsule = None \<and> ps_expected_cluster_uuid shipping = Some u
                     \<and> ps_pending_enrollment shipping = None))))"
proof -
  let ?flag = "affinity_pair (ca_expected_cluster_uuid args) (if ca_pending_enrollment args then Some True else None)"
  consider (err) "?flag = None" | (set) v where "?flag = Some (Some v)" | (unset) "?flag = Some None" by (metis option.exhaust)
  then show ?thesis
  proof cases
    case err
    then have "resolve_affinity env args shipping capsule = None" by (simp add: resolve_affinity_def)
    with err show ?thesis
      by (auto simp: affinity_pair_def uuid_parse_ok uuid_parse_None split: option.splits if_splits)
  next
    case (set v)
    then have "resolve_affinity env args shipping capsule = Some v" by (simp add: resolve_affinity_def)
    with set show ?thesis
      by (cases v) (auto simp: affinity_pair_Expected affinity_pair_Pending split: if_splits)
  next
    case unset
    then have flag: "ca_expected_cluster_uuid args = None" "\<not> ca_pending_enrollment args"
      by (simp_all add: affinity_pair_None split: if_splits)
    show ?thesis
      unfolding resolve_affinity_rest [OF flag] tier_Some env_affinity_cases file_affinity_Pending
        file_affinity_Expected
      using flag by auto
  qed
qed

lemma resolve_affinity_Expected_ok: "resolve_affinity env args shipping capsule = Some (Expected u) \<Longrightarrow> uuid_ok u"
  by (auto simp: resolve_affinity_def bind_eq_Some_conv or_else_def affinity_pair_Expected
      dest!: affinity_pair_Expected [THEN iffD1] split: option.splits if_splits)

lemma preflight_SomeE:
  assumes "preflight L env args = Some p"
  obtains config es shipping capsule endpoint origin gt gs generation aff ca_path ca dedicated credential where
    "es = (case pc_elasticsearch config of None \<Rightarrow> default_elasticsearch | Some e \<Rightarrow> e)"
    "shipping = (case pc_shipping config of None \<Rightarrow> default_shipping | Some s \<Rightarrow> s)"
    "(case ca_config args of Some p \<Rightarrow> parse_protected L env p | None \<Rightarrow> Some default_config) = Some config"
    "(case ca_config args of Some p \<Rightarrow> read_shipping_policy L env p | None \<Rightarrow> Some None) = Some capsule"
    "(case ca_endpoint args of Some value \<Rightarrow> Some value
       | None \<Rightarrow> do { v \<leftarrow> env_value env ''RIGSIGNAL_ES_ENDPOINT''; or_else v (pe_endpoint es) }) = Some endpoint"
    "endpoint_origin L endpoint = Some origin"
    "(case ca_target_generation args of Some value \<Rightarrow> Some (Some value)
       | None \<Rightarrow> do { v \<leftarrow> env_value env ''RIGSIGNAL_TARGET_GENERATION'';
                     Some (or_else (or_else v (map_option sp_target_generation capsule))
                             (ps_target_generation shipping)) }) = Some gt"
    "gt = Some gs" "generation_parse gs = Some generation"
    "resolve_affinity env args shipping capsule = Some aff"
    "(case ca_ca_file args of Some p \<Rightarrow> Some (Some p)
       | None \<Rightarrow> do { v \<leftarrow> env_value env ''RIGSIGNAL_ES_CA_FILE''; Some (or_else v (pe_ca_cert es)) }) = Some ca_path"
    "(case ca_path of Some p \<Rightarrow> do { bytes \<leftarrow> env_read_public env p; ca \<leftarrow> ca_certificate_bundle L bytes;
                                   if client_builds L ca then Some (Some ca) else None }
       | None \<Rightarrow> Some None) = Some ca"
    "(case ca_credentials_file args of Some p \<Rightarrow> Some (Some p)
       | None \<Rightarrow> env_value env ''RIGSIGNAL_ES_CREDENTIALS_FILE'') = Some dedicated"
    "(case dedicated of Some p \<Rightarrow> credentials_from_file L env p
       | None \<Rightarrow> credentials_from_values L (pe_api_key es) (pe_username es) (pe_password es)) = Some credential"
    "p = \<lparr>pf_origin = origin, pf_ca = ca, pf_credential = credential, pf_affinity = aff, pf_generation = generation\<rparr>"
  using assms unfolding preflight_def Let_def bind_eq_Some_conv option.inject
  by (elim exE conjE) (rule that, (rule refl | assumption | erule sym)+)


text \<open>An environment with every variable absent and one readable credential file.\<close>

definition sample_env :: environment where
  "sample_env =
     \<lparr>env_value = (\<lambda>_. Some None), env_read_public = (\<lambda>_. None), env_read_protected = (\<lambda>_. Some []),
      env_read_optional_protected = (\<lambda>_. Some None)\<rparr>"

definition sample_args :: check_args where
  "sample_args =
     \<lparr>ca_endpoint = Some ''http://h/'', ca_ca_file = None, ca_expected_cluster_uuid = Some (replicate 22 CHR ''a''),
      ca_pending_enrollment = False, ca_target_generation = Some (replicate 64 CHR ''0''),
      ca_credentials_file = Some ''c'', ca_config = None\<rparr>"

definition sample_preflight :: "nat preflight_data" where
  "sample_preflight =
     \<lparr>pf_origin = ''http://h'', pf_ca = None, pf_credential = ApiKey ''k'',
      pf_affinity = Expected (replicate 22 CHR ''a''), pf_generation = replicate 32 0\<rparr>"

lemma sample_preflight_run: "preflight sample_libs sample_env sample_args = Some sample_preflight"
proof -
  have "generation_parse (replicate 64 CHR ''0'') = Some (replicate 32 0)"
    by (simp add: generation_parse_def eval_nat_numeral hex_def is_digit_def)
  moreover have "resolve_affinity sample_env sample_args default_shipping None = Some (Expected (replicate 22 CHR ''a''))"
    by code_simp
  moreover have "credentials_from_file sample_libs sample_env ''c'' = Some (ApiKey ''k'')" by code_simp
  ultimately show ?thesis
    by (simp add: preflight_def sample_args_def sample_preflight_def sample_env_def default_config_def
        default_elasticsearch_def sample_endpoint)
qed


end
