(* ===== verification/Handshake.thy ===== *)
theory Handshake
  imports Preflight
begin

text \<open>
  Model of the network half of the handshake probe of \<open>src/src/handshake.rs\<close>: the report, the transport
  seam with its production implementation, the bounded body read, the classification of a response,
  the three readers of the bodies and \<open>run_check\<close>.  The state of the production transport carries
  the list of the requests it has sent; what the peer answers is a function of that list and of the
  request, so every adaptive peer is covered.  The lemmas show when the probe reports readiness, which
  requests it sends, and what a report may disclose.
\<close>

section \<open>The report\<close>

datatype outcome = Ready | PendingEnrollment | Failed

datatype reason = RReady | RPendingEnrollment | LocalConfig | Connectivity | Auth | Destination
  | Compatibility | Unclassified4xx

datatype failed_stage = NoStage | Local | RootInfo | TemplateRead | MappingRead

record classified_probe =
  probe_schema_version :: nat
  cp_diagnosis_schema_version :: nat
  cp_outcome :: outcome
  cp_reason :: reason
  cp_failed_stage :: failed_stage
  cp_target_generation :: "string option"
  cp_observed_cluster_uuid :: "string option"
  cp_accepted_set_digest :: "string option"

definition failure ::
    "reason \<Rightarrow> failed_stage \<Rightarrow> u8 list option \<Rightarrow> string option \<Rightarrow> string option \<Rightarrow> classified_probe" where
  "failure reason stage generation observed digest =
     \<lparr>probe_schema_version = 1, cp_diagnosis_schema_version = diagnosis_schema_version,
      cp_outcome = Failed, cp_reason = reason, cp_failed_stage = stage,
      cp_target_generation = map_option generation_text generation,
      cp_observed_cluster_uuid = observed, cp_accepted_set_digest = digest\<rparr>"

definition success :: "bool \<Rightarrow> u8 list \<Rightarrow> string \<Rightarrow> string \<Rightarrow> classified_probe" where
  "success pending generation observed digest =
     \<lparr>probe_schema_version = 1, cp_diagnosis_schema_version = diagnosis_schema_version,
      cp_outcome = (if pending then PendingEnrollment else Ready),
      cp_reason = (if pending then RPendingEnrollment else RReady),
      cp_failed_stage = NoStage,
      cp_target_generation = Some (generation_text generation),
      cp_observed_cluster_uuid = Some observed, cp_accepted_set_digest = Some digest\<rparr>"

fun reason_code :: "reason \<Rightarrow> nat" where
  "reason_code RReady = 0"
| "reason_code RPendingEnrollment = 10"
| "reason_code LocalConfig = 11"
| "reason_code Connectivity = 12"
| "reason_code Auth = 13"
| "reason_code Destination = 14"
| "reason_code Compatibility = 15"
| "reason_code Unclassified4xx = 16"

definition exit_code :: "classified_probe \<Rightarrow> nat" where
  "exit_code p = reason_code (cp_reason p)"

section \<open>Transport\<close>

definition body_limit :: nat where "body_limit = 65536"

definition template_path_query :: string where
  "template_path_query = ''/_component_template/logs-rigsignal.diagnosis-mappings?filter_path=component_templates.name,component_templates.component_template._meta.accepted_schema_versions''"

definition mapping_path :: string where
  "mapping_path = ''/logs-rigsignal.diagnosis-default/_mapping''"

datatype body_read = CapExceeded | BodyTransport
datatype transport_failure = Dns | TlsPeer | Connect | Reset | Read | MidBody | Deadline
datatype content_coding = AbsentOrIdentity | Unsupported

record received =
  rc_status :: nat
  rc_encoding :: content_coding
  rc_body :: "(body_read, bytes) result"

text \<open>\<open>read_body\<close> on the chunks the connection delivers; \<open>Err ()\<close> is a failed read.\<close>

fun read_body_loop :: "bytes \<Rightarrow> (unit, bytes) result list \<Rightarrow> (body_read, bytes) result" where
  "read_body_loop body [] = Ok body"
| "read_body_loop body (Inl _ # _) = Err BodyTransport"
| "read_body_loop body (Inr chunk # rest) =
     (if body_limit < length body + length chunk then Err CapExceeded
      else read_body_loop (body @ chunk) rest)"

definition read_body :: "(unit, bytes) result list \<Rightarrow> (body_read, bytes) result" where
  "read_body chunks = read_body_loop [] chunks"

text \<open>\<open>content_encoding\<close> on the values of the header in order; \<open>None\<close> is a value that is not visible ASCII.\<close>

definition coding_ok :: "string \<Rightarrow> bool" where
  "coding_ok coding =
     (let coding = trim_matches (\<lambda>c. c = 0x20 \<or> c = 0x09) coding
      in coding \<noteq> [] \<and> eq_ignore_ascii_case coding ''identity'')"

fun content_encoding :: "string option list \<Rightarrow> content_coding" where
  "content_encoding [] = AbsentOrIdentity"
| "content_encoding (None # _) = Unsupported"
| "content_encoding (Some value # rest) =
     (if list_ex (\<lambda>c. \<not> coding_ok c) (split_on CHR '','' value) then Unsupported else content_encoding rest)"

text \<open>The production transport.  A request is a \<open>GET\<close> with one credential and \<open>Accept-Encoding: identity\<close>.\<close>

record request =
  rq_url :: string
  rq_credentials :: credentials
  rq_accept_encoding :: string

text \<open>What a send ends with: the deadline, an error, or a response (status, the \<open>Content-Encoding\<close> values,
  and the chunks, unless the deadline expires while they are drained).\<close>

datatype net_answer = SendExpired | SendError | Response nat "string option list" "(unit, bytes) result list option"

record 'cert reqwest_transport =
  rt_client :: "'cert list option option"
  rt_origin :: string
  rt_credentials :: "credentials option"
  rt_sent :: "request list"

definition new_transport :: "'cert reqwest_transport" where
  "new_transport = \<lparr>rt_client = None, rt_origin = [], rt_credentials = None, rt_sent = []\<rparr>"

definition rt_prepare ::
    "'cert libs \<Rightarrow> 'cert reqwest_transport \<Rightarrow> 'cert preflight_data \<Rightarrow> unit option \<times> 'cert reqwest_transport" where
  "rt_prepare L t p =
     (if client_builds L (case pf_ca p of None \<Rightarrow> [] | Some cs \<Rightarrow> cs)
      then (Some (), t\<lparr>rt_client := Some (pf_ca p), rt_origin := pf_origin p, rt_credentials := Some (pf_credential p)\<rparr>)
      else (None, t))"

definition rt_exchange ::
    "(request list \<Rightarrow> request \<Rightarrow> 'd \<Rightarrow> net_answer) \<Rightarrow> 'cert reqwest_transport \<Rightarrow> string \<Rightarrow> 'd
      \<Rightarrow> (transport_failure, received) result \<times> 'cert reqwest_transport" where
  "rt_exchange peer t path deadline =
     (case (rt_client t, rt_credentials t) of
        (Some _, Some credentials) \<Rightarrow>
          (let request = \<lparr>rq_url = rt_origin t @ path, rq_credentials = credentials, rq_accept_encoding = ''identity''\<rparr>;
               t' = t\<lparr>rt_sent := rt_sent t @ [request]\<rparr>
           in (case peer (rt_sent t) request deadline of
                 SendExpired \<Rightarrow> Err Deadline
               | SendError \<Rightarrow> Err Connect
               | Response status codings chunks \<Rightarrow>
                   Ok \<lparr>rc_status = status, rc_encoding = content_encoding codings,
                       rc_body = (case chunks of None \<Rightarrow> Err BodyTransport | Some cs \<Rightarrow> read_body cs)\<rparr>, t'))
      | _ \<Rightarrow> (Err Connect, t))"

section \<open>Classification\<close>

definition status_reason :: "nat \<Rightarrow> failed_stage \<Rightarrow> reason" where
  "status_reason status stage =
     (if status = 401 \<or> status = 403 then Auth
      else if status = 408 \<or> status = 429 \<or> 500 \<le> status \<and> status \<le> 599 then Connectivity
      else if 300 \<le> status \<and> status \<le> 399 then Destination
      else if status = 400 \<or> status = 413 then Compatibility
      else if status = 404 \<and> (stage = RootInfo \<or> stage = MappingRead) then Destination
      else if status = 404 then Compatibility
      else if 400 \<le> status \<and> status \<le> 499 then Unclassified4xx
      else Compatibility)"

definition classify_http ::
    "(transport_failure, received) result \<Rightarrow> failed_stage \<Rightarrow> u8 list \<Rightarrow> string option \<Rightarrow> string option
      \<Rightarrow> (classified_probe, bytes) result" where
  "classify_http response stage generation observed digest =
     (case response of
        Inl _ \<Rightarrow> Err (failure Connectivity stage (Some generation) observed digest)
      | Inr r \<Rightarrow>
        (if rc_status r \<noteq> 200 then Err (failure (status_reason (rc_status r) stage) stage (Some generation) observed digest)
         else if rc_encoding r = Unsupported then Err (failure Compatibility stage (Some generation) observed digest)
         else (case rc_body r of
                 Inl e \<Rightarrow> Err (failure (if e = CapExceeded then Compatibility else Connectivity) stage (Some generation)
                                observed digest)
               | Inr body \<Rightarrow> Ok body)))"

definition stage_json :: "'cert libs \<Rightarrow> bytes \<Rightarrow> protected_stage \<Rightarrow> json option" where
  "stage_json L = checked_json_stage (serde_value L) (serde_string L)"

definition root_uuid :: "'cert libs \<Rightarrow> bytes \<Rightarrow> string option" where
  "root_uuid L body =
     do { v \<leftarrow> stage_json L body Root;
          m \<leftarrow> as_object v;
          u \<leftarrow> map_of m ''cluster_uuid'';
          s \<leftarrow> as_str u;
          uuid_parse s }"

text \<open>\<open>collect::<Option<_>>\<close>\<close>

fun collect_option :: "'a option list \<Rightarrow> 'a list option" where
  "collect_option [] = Some []"
| "collect_option (x # xs) = do { y \<leftarrow> x; ys \<leftarrow> collect_option xs; Some (y # ys) }"

definition template_set :: "'cert libs \<Rightarrow> bytes \<Rightarrow> (string \<times> bool) option" where
  "template_set L body =
     do { v \<leftarrow> stage_json L body Template;
          tv \<leftarrow> get ''component_templates'' v;
          templates \<leftarrow> as_array tv;
          if length templates \<noteq> 1 then None
          else do { nv \<leftarrow> get ''name'' (templates ! 0);
                    name \<leftarrow> as_str nv;
                    if name \<noteq> ''logs-rigsignal.diagnosis-mappings'' then None
                    else do { ct \<leftarrow> get ''component_template'' (templates ! 0);
                              meta \<leftarrow> get ''_meta'' ct;
                              av \<leftarrow> get ''accepted_schema_versions'' meta;
                              versions \<leftarrow> as_array av;
                              strings \<leftarrow> collect_option (map as_str versions);
                              accepted_set strings } } }"

definition is_json_object :: "'cert libs \<Rightarrow> bytes \<Rightarrow> bool" where
  "is_json_object L body = (case stage_json L body Mapping of None \<Rightarrow> False | Some v \<Rightarrow> is_object v)"

section \<open>\<open>run_check\<close>\<close>

text \<open>The transport is its two operations and a state; the clock is asked once, for ten seconds.\<close>

definition run_check ::
    "'cert libs \<Rightarrow> environment \<Rightarrow> (nat \<Rightarrow> 'd)
      \<Rightarrow> ('t \<Rightarrow> 'cert preflight_data \<Rightarrow> unit option \<times> 't)
      \<Rightarrow> ('t \<Rightarrow> string \<Rightarrow> 'd \<Rightarrow> (transport_failure, received) result \<times> 't)
      \<Rightarrow> check_args \<Rightarrow> 't \<Rightarrow> classified_probe \<times> 't" where
  "run_check L env deadline_after prepare exchange args t0 =
     (case preflight L env args of
        None \<Rightarrow> (failure LocalConfig Local None None None, t0)
      | Some p \<Rightarrow>
        (case prepare t0 p of
           (None, t1) \<Rightarrow> (failure LocalConfig Local None None None, t1)
         | (Some _, t1) \<Rightarrow>
           (let deadline = deadline_after 10; generation = pf_generation p; (r1, t2) = exchange t1 ''/'' deadline in
            case classify_http r1 RootInfo generation None None of
              Inl report \<Rightarrow> (report, t2)
            | Inr root \<Rightarrow>
              (case root_uuid L root of
                 None \<Rightarrow> (failure Compatibility RootInfo (Some generation) None None, t2)
               | Some observed \<Rightarrow>
                 (if (case pf_affinity p of Expected expected \<Rightarrow> expected \<noteq> observed | Pending \<Rightarrow> False)
                  then (failure Destination RootInfo (Some generation) (Some observed) None, t2)
                  else
                    let pending = (pf_affinity p = Pending);
                        (r2, t3) = exchange t2 template_path_query deadline in
                    case classify_http r2 TemplateRead generation (Some observed) None of
                      Inl report \<Rightarrow> (report, t3)
                    | Inr template \<Rightarrow>
                      (case template_set L template of
                         None \<Rightarrow> (failure Compatibility TemplateRead (Some generation) (Some observed) None, t3)
                       | Some (digest, member) \<Rightarrow>
                         (if \<not> member
                          then (failure Compatibility TemplateRead (Some generation) (Some observed) (Some digest), t3)
                          else
                            let (r3, t4) = exchange t3 mapping_path deadline in
                            case classify_http r3 MappingRead generation (Some observed) (Some digest) of
                              Inl report \<Rightarrow> (report, t4)
                            | Inr mapping \<Rightarrow>
                              (if \<not> is_json_object L mapping
                               then (failure Compatibility MappingRead (Some generation) (Some observed) (Some digest), t4)
                               else (success pending generation observed digest, t4)))))))))"

section \<open>What the parts do\<close>

text \<open>A response whose body the probe uses.\<close>

definition usable :: "(transport_failure, received) result \<Rightarrow> bytes \<Rightarrow> bool" where
  "usable response body \<longleftrightarrow>
     (\<exists>r. response = Ok r \<and> rc_status r = 200 \<and> rc_encoding r = AbsentOrIdentity \<and> rc_body r = Ok body)"

lemma classify_http_Ok: "classify_http response stage g u d = Inr body \<longleftrightarrow> usable response body"
  by (auto simp: classify_http_def usable_def split: sum.splits if_splits intro: content_coding.exhaust)

lemma status_reason_range: "status_reason st stage \<in> {Auth, Connectivity, Destination, Compatibility, Unclassified4xx}"
  by (simp add: status_reason_def)

lemma classify_http_Err:
  assumes "classify_http response stage g u d = Inl report"
  obtains reason where "report = failure reason stage (Some g) u d"
    "reason \<in> {Auth, Connectivity, Destination, Compatibility, Unclassified4xx}"
proof (cases response)
  case (Inl e)
  with assms show thesis by (intro that [of Connectivity]) (simp_all add: classify_http_def)
next
  case (Inr r)
  with assms status_reason_range [of "rc_status r" stage] show thesis
    by (intro that [of "cp_reason report"])
      (auto simp: classify_http_def failure_def split: if_splits sum.splits)
qed

lemma root_uuid_ok: "root_uuid L body = Some u \<Longrightarrow> uuid_ok u"
  by (auto simp: root_uuid_def bind_eq_Some_conv uuid_parse_ok)

lemma template_set_digest: "template_set L body = Some (digest, member) \<Longrightarrow> length digest = 64"
  by (auto simp: template_set_def bind_eq_Some_conv accepted_set_def Let_def digest_entries_def
      length_sha256_hex split: if_splits)

text \<open>The eight ways a run ends, with the transport states it went through.\<close>

inductive check_run ::
    "'cert libs \<Rightarrow> ('t \<Rightarrow> string \<Rightarrow> 'd \<Rightarrow> (transport_failure, received) result \<times> 't) \<Rightarrow> 'd \<Rightarrow> 'cert preflight_data
      \<Rightarrow> 't \<Rightarrow> nat \<Rightarrow> classified_probe \<Rightarrow> 't \<Rightarrow> bool"
  for L exchange deadline p t1 where
  root_report: "\<lbrakk>exchange t1 ''/'' deadline = (r1, t2);
     classify_http r1 RootInfo (pf_generation p) None None = Err report\<rbrakk>
     \<Longrightarrow> check_run L exchange deadline p t1 1 report t2"
| root_unreadable: "\<lbrakk>exchange t1 ''/'' deadline = (r1, t2); usable r1 root; root_uuid L root = None\<rbrakk>
     \<Longrightarrow> check_run L exchange deadline p t1 1 (failure Compatibility RootInfo (Some (pf_generation p)) None None) t2"
| wrong_cluster: "\<lbrakk>exchange t1 ''/'' deadline = (r1, t2); usable r1 root; root_uuid L root = Some observed;
     pf_affinity p = Expected expected; expected \<noteq> observed\<rbrakk>
     \<Longrightarrow> check_run L exchange deadline p t1 1 (failure Destination RootInfo (Some (pf_generation p)) (Some observed) None) t2"
| template_report: "\<lbrakk>exchange t1 ''/'' deadline = (r1, t2); usable r1 root; root_uuid L root = Some observed;
     pf_affinity p = Pending \<or> pf_affinity p = Expected observed;
     exchange t2 template_path_query deadline = (r2, t3);
     classify_http r2 TemplateRead (pf_generation p) (Some observed) None = Err report\<rbrakk>
     \<Longrightarrow> check_run L exchange deadline p t1 2 report t3"
| template_unreadable: "\<lbrakk>exchange t1 ''/'' deadline = (r1, t2); usable r1 root; root_uuid L root = Some observed;
     pf_affinity p = Pending \<or> pf_affinity p = Expected observed;
     exchange t2 template_path_query deadline = (r2, t3); usable r2 template; template_set L template = None\<rbrakk>
     \<Longrightarrow> check_run L exchange deadline p t1 2
           (failure Compatibility TemplateRead (Some (pf_generation p)) (Some observed) None) t3"
| not_member: "\<lbrakk>exchange t1 ''/'' deadline = (r1, t2); usable r1 root; root_uuid L root = Some observed;
     pf_affinity p = Pending \<or> pf_affinity p = Expected observed;
     exchange t2 template_path_query deadline = (r2, t3); usable r2 template;
     template_set L template = Some (digest, False)\<rbrakk>
     \<Longrightarrow> check_run L exchange deadline p t1 2
           (failure Compatibility TemplateRead (Some (pf_generation p)) (Some observed) (Some digest)) t3"
| mapping_report: "\<lbrakk>exchange t1 ''/'' deadline = (r1, t2); usable r1 root; root_uuid L root = Some observed;
     pf_affinity p = Pending \<or> pf_affinity p = Expected observed;
     exchange t2 template_path_query deadline = (r2, t3); usable r2 template;
     template_set L template = Some (digest, True); exchange t3 mapping_path deadline = (r3, t4);
     classify_http r3 MappingRead (pf_generation p) (Some observed) (Some digest) = Err report\<rbrakk>
     \<Longrightarrow> check_run L exchange deadline p t1 3 report t4"
| not_object: "\<lbrakk>exchange t1 ''/'' deadline = (r1, t2); usable r1 root; root_uuid L root = Some observed;
     pf_affinity p = Pending \<or> pf_affinity p = Expected observed;
     exchange t2 template_path_query deadline = (r2, t3); usable r2 template;
     template_set L template = Some (digest, True); exchange t3 mapping_path deadline = (r3, t4);
     usable r3 mapping; \<not> is_json_object L mapping\<rbrakk>
     \<Longrightarrow> check_run L exchange deadline p t1 3
           (failure Compatibility MappingRead (Some (pf_generation p)) (Some observed) (Some digest)) t4"
| passed: "\<lbrakk>exchange t1 ''/'' deadline = (r1, t2); usable r1 root; root_uuid L root = Some observed;
     pf_affinity p = Pending \<or> pf_affinity p = Expected observed;
     exchange t2 template_path_query deadline = (r2, t3); usable r2 template;
     template_set L template = Some (digest, True); exchange t3 mapping_path deadline = (r3, t4);
     usable r3 mapping; is_json_object L mapping\<rbrakk>
     \<Longrightarrow> check_run L exchange deadline p t1 3
           (success (pf_affinity p = Pending) (pf_generation p) observed digest) t4"

lemma affinity_not_wrong:
  "\<not> (case a of Expected e \<Rightarrow> e \<noteq> u | Pending \<Rightarrow> False) \<longleftrightarrow> a = Pending \<or> a = Expected u"
  by (cases a) auto

text \<open>The rest of a run once the template is read, once the root is read, and from the start.\<close>

lemma run_check_mapping:
  assumes "preflight L env args = Some p" "prepare t0 p = (Some x, t1)"
    and e1: "exchange t1 ''/'' (deadline_after 10) = (r1, t2)" and u1: "usable r1 root"
    and o: "root_uuid L root = Some observed" and aff: "pf_affinity p = Pending \<or> pf_affinity p = Expected observed"
    and e2: "exchange t2 template_path_query (deadline_after 10) = (r2, t3)" and u2: "usable r2 template"
    and ts: "template_set L template = Some (digest, True)"
    and run: "run_check L env deadline_after prepare exchange args t0 = (report, t)"
  shows "check_run L exchange (deadline_after 10) p t1 3 report t"
proof -
  obtain r3 t4 where e3: "exchange t3 mapping_path (deadline_after 10) = (r3, t4)" by fastforce
  note pre = e1 u1 o aff e2 u2 ts e3
  have steps: "classify_http r1 RootInfo (pf_generation p) None None = Ok root"
      "classify_http r2 TemplateRead (pf_generation p) (Some observed) None = Ok template"
      "\<not> (case pf_affinity p of Expected e \<Rightarrow> e \<noteq> observed | Pending \<Rightarrow> False)"
    using u1 u2 aff by (simp_all add: classify_http_Ok affinity_not_wrong)
  note eval = run_check_def assms(1,2) e1 e2 e3 o ts steps Let_def
  show ?thesis
  proof (cases "classify_http r3 MappingRead (pf_generation p) (Some observed) (Some digest)")
    case (Inl rep)
    with run have "report = rep" "t = t4" by (simp_all add: eval)
    with mapping_report [where exchange = exchange, OF pre Inl] show ?thesis by simp
  next
    case c3: (Inr mapping)
    then have u3: "usable r3 mapping" by (simp add: classify_http_Ok)
    show ?thesis
    proof (cases "is_json_object L mapping")
      case False
      with run c3 have "report = failure Compatibility MappingRead (Some (pf_generation p)) (Some observed) (Some digest)"
          "t = t4" by (simp_all add: eval)
      with not_object [where exchange = exchange, OF pre u3 False] show ?thesis by simp
    next
      case True
      with run c3 have "report = success (pf_affinity p = Pending) (pf_generation p) observed digest" "t = t4"
        by (simp_all add: eval)
      with passed [where exchange = exchange, OF pre u3 True] show ?thesis by simp
    qed
  qed
qed

lemma run_check_template:
  assumes "preflight L env args = Some p" "prepare t0 p = (Some x, t1)"
    and e1: "exchange t1 ''/'' (deadline_after 10) = (r1, t2)" and u1: "usable r1 root"
    and o: "root_uuid L root = Some observed" and aff: "pf_affinity p = Pending \<or> pf_affinity p = Expected observed"
    and run: "run_check L env deadline_after prepare exchange args t0 = (report, t)"
  shows "\<exists>k. check_run L exchange (deadline_after 10) p t1 k report t"
proof -
  obtain r2 t3 where e2: "exchange t2 template_path_query (deadline_after 10) = (r2, t3)" by fastforce
  note pre = e1 u1 o aff e2
  have steps: "classify_http r1 RootInfo (pf_generation p) None None = Ok root"
      "\<not> (case pf_affinity p of Expected e \<Rightarrow> e \<noteq> observed | Pending \<Rightarrow> False)"
    using u1 aff by (simp_all add: classify_http_Ok affinity_not_wrong)
  note eval = run_check_def assms(1,2) e1 e2 o steps Let_def
  show ?thesis
  proof (cases "classify_http r2 TemplateRead (pf_generation p) (Some observed) None")
    case (Inl rep)
    with run have "report = rep" "t = t3" by (simp_all add: eval)
    with template_report [where exchange = exchange, OF pre Inl] show ?thesis by auto
  next
    case c2: (Inr template)
    then have u2: "usable r2 template" by (simp add: classify_http_Ok)
    consider (none) "template_set L template = None" | (no) digest where "template_set L template = Some (digest, False)"
      | (yes) digest where "template_set L template = Some (digest, True)"
      by (metis (full_types) option.exhaust surj_pair)
    then show ?thesis
    proof cases
      case none
      with run c2 have "report = failure Compatibility TemplateRead (Some (pf_generation p)) (Some observed) None" "t = t3"
        by (simp_all add: eval)
      with template_unreadable [where exchange = exchange, OF pre u2 none] show ?thesis by auto
    next
      case no
      with run c2 have "report = failure Compatibility TemplateRead (Some (pf_generation p)) (Some observed) (Some digest)"
          "t = t3" by (simp_all add: eval)
      with not_member [where exchange = exchange, OF pre u2 no] show ?thesis by auto
    next
      case yes
      from run_check_mapping [OF assms(1,2) pre u2 yes run] show ?thesis by blast
    qed
  qed
qed

lemma run_check_network:
  assumes "preflight L env args = Some p" "prepare t0 p = (Some x, t1)"
    and run: "run_check L env deadline_after prepare exchange args t0 = (report, t)"
  shows "\<exists>k. check_run L exchange (deadline_after 10) p t1 k report t"
proof -
  obtain r1 t2 where e1: "exchange t1 ''/'' (deadline_after 10) = (r1, t2)" by fastforce
  note eval = run_check_def assms(1,2) e1 Let_def
  show ?thesis
  proof (cases "classify_http r1 RootInfo (pf_generation p) None None")
    case (Inl rep)
    with run have "report = rep" "t = t2" by (simp_all add: eval)
    with root_report [where exchange = exchange, OF e1 Inl] show ?thesis by auto
  next
    case c1: (Inr root)
    then have u1: "usable r1 root" by (simp add: classify_http_Ok)
    show ?thesis
    proof (cases "root_uuid L root")
      case None
      with run c1 have "report = failure Compatibility RootInfo (Some (pf_generation p)) None None" "t = t2"
        by (simp_all add: eval)
      with root_unreadable [where exchange = exchange, OF e1 u1 None] show ?thesis by auto
    next
      case o: (Some observed)
      show ?thesis
      proof (cases "pf_affinity p = Pending \<or> pf_affinity p = Expected observed")
        case True
        from run_check_template [OF assms(1,2) e1 u1 o True run] show ?thesis .
      next
        case False
        then obtain e where e: "pf_affinity p = Expected e" "e \<noteq> observed" by (cases "pf_affinity p") auto
        with run c1 o have "report = failure Destination RootInfo (Some (pf_generation p)) (Some observed) None" "t = t2"
          by (simp_all add: eval)
        with wrong_cluster [where exchange = exchange, OF e1 u1 o e] show ?thesis by auto
      qed
    qed
  qed
qed

text \<open>A run that ends before the network is used, or goes on with \<open>check_run\<close>.\<close>

lemma run_check_cases:
  assumes "run_check L env deadline_after prepare exchange args t0 = (report, t)"
  obtains (config) "preflight L env args = None" "report = failure LocalConfig Local None None None" "t = t0"
    | (client) p where "preflight L env args = Some p" "prepare t0 p = (None, t)"
        "report = failure LocalConfig Local None None None"
    | (network) p t1 k where "preflight L env args = Some p" "prepare t0 p = (Some (), t1)"
        "check_run L exchange (deadline_after 10) p t1 k report t"
proof (cases "preflight L env args")
  case None
  with assms show thesis by (intro config) (simp_all add: run_check_def)
next
  case (Some p)
  obtain x t1 where pr: "prepare t0 p = (x, t1)" by fastforce
  show thesis
  proof (cases x)
    case None
    with Some pr assms show thesis by (intro client [of p]) (simp_all add: run_check_def)
  next
    case x: (Some u)
    with pr have "prepare t0 p = (Some (), t1)" by simp
    with run_check_network [OF Some _ assms] Some show thesis by (blast intro: network)
  qed
qed

section \<open>The transport contract\<close>

text \<open>
  What \<open>run_check\<close> needs of a transport to bound its traffic: preparing sends nothing, and once
  prepared with a configuration each exchange sends exactly one request, which the configuration and the
  path determine.
\<close>

locale transport_seam =
  fixes prepare :: "'t \<Rightarrow> 'cert preflight_data \<Rightarrow> unit option \<times> 't"
    and exchange :: "'t \<Rightarrow> string \<Rightarrow> 'd \<Rightarrow> (transport_failure, received) result \<times> 't"
    and prepared :: "'t \<Rightarrow> 'cert preflight_data \<Rightarrow> bool"
    and sent :: "'t \<Rightarrow> 'r list"
    and request_of :: "'cert preflight_data \<Rightarrow> string \<Rightarrow> 'r"
  assumes prepare_silent: "sent (snd (prepare t p)) = sent t"
    and prepare_prepared: "prepare t p = (Some u, t') \<Longrightarrow> prepared t' p"
    and exchange_sends: "prepared t p \<Longrightarrow> exchange t path d = (r, t') \<Longrightarrow>
          prepared t' p \<and> sent t' = sent t @ [request_of p path]"
begin

lemma check_run_sent:
  assumes "check_run L exchange d p t1 k report t" "prepared t1 p"
  shows "1 \<le> k \<and> k \<le> 3
    \<and> sent t = sent t1 @ map (request_of p) (take k [''/'', template_path_query, mapping_path])"
proof -
  have two: "sent t3 = sent t1 @ [request_of p ''/'', request_of p template_path_query] \<and> prepared t3 p"
    if "exchange t1 ''/'' d = (r1, t2)" "exchange t2 template_path_query d = (r2, t3)" for r1 t2 r2 t3
    using exchange_sends [OF assms(2) that(1)] exchange_sends [OF _ that(2), of p] by simp
  have three: "sent t4 = sent t1 @ [request_of p ''/'', request_of p template_path_query, request_of p mapping_path]"
    if "exchange t1 ''/'' d = (r1, t2)" "exchange t2 template_path_query d = (r2, t3)"
      "exchange t3 mapping_path d = (r3, t4)" for r1 t2 r2 t3 r3 t4
    using two [OF that(1,2)] exchange_sends [OF _ that(3), of p] by simp
  note one = exchange_sends [OF assms(2)]
  from assms(1) show ?thesis
    by cases (auto simp: numeral_2_eq_2 numeral_3_eq_3 dest: one two three)
qed

lemma run_check_sent:
  assumes "run_check L env deadline_after prepare exchange args t0 = (report, t)"
  shows "sent t = sent t0 \<and> cp_failed_stage report = Local \<or>
    (\<exists>p k. preflight L env args = Some p \<and> 1 \<le> k \<and> k \<le> 3 \<and>
       sent t = sent t0 @ map (request_of p) (take k [''/'', template_path_query, mapping_path]))"
  using assms
proof (cases rule: run_check_cases)
  case config
  then show ?thesis by (simp add: failure_def)
next
  case (client p)
  with prepare_silent [of t0 p] show ?thesis by (simp add: failure_def)
next
  case (network p t1 k)
  from network(2) have "sent t1 = sent t0" "prepared t1 p"
    using prepare_silent [of t0 p] prepare_prepared by auto
  with check_run_sent [OF network(3)] network(1) show ?thesis by auto
qed

end

text \<open>The production transport meets the contract, whatever the peer answers.\<close>

definition rt_prepared :: "'cert reqwest_transport \<Rightarrow> 'cert preflight_data \<Rightarrow> bool" where
  "rt_prepared t p \<longleftrightarrow> rt_client t \<noteq> None \<and> rt_origin t = pf_origin p \<and> rt_credentials t = Some (pf_credential p)"

definition rt_request :: "'cert preflight_data \<Rightarrow> string \<Rightarrow> request" where
  "rt_request p path =
     \<lparr>rq_url = pf_origin p @ path, rq_credentials = pf_credential p, rq_accept_encoding = ''identity''\<rparr>"

interpretation rt: transport_seam "rt_prepare L" "rt_exchange peer" rt_prepared rt_sent rt_request for L peer
proof
  show "rt_sent (snd (rt_prepare L t p)) = rt_sent t" for t p
    by (simp add: rt_prepare_def)
  show "rt_prepare L t p = (Some u, t') \<Longrightarrow> rt_prepared t' p" for t p u t'
    by (auto simp: rt_prepare_def rt_prepared_def split: if_splits)
  show "rt_prepared t p \<Longrightarrow> rt_exchange peer t path d = (r, t') \<Longrightarrow>
      rt_prepared t' p \<and> rt_sent t' = rt_sent t @ [rt_request p path]" for t p path d r t'
    by (auto simp: rt_exchange_def rt_prepared_def rt_request_def Let_def)
qed

section \<open>Report invariant\<close>

text \<open>Which fields a report carries at which stage, and that what it carries was validated.\<close>

definition probe_wf :: "classified_probe \<Rightarrow> bool" where
  "probe_wf r \<longleftrightarrow>
     probe_schema_version r = 1 \<and> cp_diagnosis_schema_version r = diagnosis_schema_version
     \<and> (cp_outcome r = Ready \<longleftrightarrow> cp_reason r = RReady)
     \<and> (cp_outcome r = PendingEnrollment \<longleftrightarrow> cp_reason r = RPendingEnrollment)
     \<and> (cp_outcome r = Failed \<longleftrightarrow> cp_failed_stage r \<noteq> NoStage)
     \<and> (cp_failed_stage r = Local \<longleftrightarrow> cp_reason r = LocalConfig)
     \<and> (cp_failed_stage r = Local \<longleftrightarrow> cp_target_generation r = None)
     \<and> (cp_failed_stage r \<in> {TemplateRead, MappingRead, NoStage} \<longrightarrow> cp_observed_cluster_uuid r \<noteq> None)
     \<and> (cp_failed_stage r \<in> {MappingRead, NoStage} \<longrightarrow> cp_accepted_set_digest r \<noteq> None)
     \<and> (cp_failed_stage r \<in> {Local, RootInfo} \<longrightarrow> cp_accepted_set_digest r = None)
     \<and> (\<forall>g. cp_target_generation r = Some g \<longrightarrow> length g = 64)
     \<and> (\<forall>u. cp_observed_cluster_uuid r = Some u \<longrightarrow> uuid_ok u)
     \<and> (\<forall>d. cp_accepted_set_digest r = Some d \<longrightarrow> length d = 64)"

lemma failure_wf:
  assumes "reason \<in> {Auth, Connectivity, Destination, Compatibility, Unclassified4xx}" "length g = 32"
    "\<And>u. observed = Some u \<Longrightarrow> uuid_ok u" "\<And>d. digest = Some d \<Longrightarrow> length d = 64"
    "stage = RootInfo \<and> digest = None \<or> stage = TemplateRead \<and> observed \<noteq> None
       \<or> stage = MappingRead \<and> observed \<noteq> None \<and> digest \<noteq> None"
  shows "probe_wf (failure reason stage (Some g) observed digest)"
  using assms by (auto simp: probe_wf_def failure_def length_generation_text)

lemma success_wf: "length g = 32 \<Longrightarrow> uuid_ok u \<Longrightarrow> length d = 64 \<Longrightarrow> probe_wf (success pending g u d)"
  by (simp add: probe_wf_def success_def length_generation_text)

lemma local_wf: "probe_wf (failure LocalConfig Local None None None)"
  by (simp add: probe_wf_def failure_def)

lemma preflight_generation: "preflight L env args = Some p \<Longrightarrow> length (pf_generation p) = 32"
  by (elim preflight_SomeE) (auto dest: generation_parse_Some)

lemma check_run_wf:
  assumes "check_run L exchange d p t1 k report t" "length (pf_generation p) = 32"
  shows "probe_wf report"
  using assms(1)
  by cases (auto intro!: failure_wf success_wf assms(2) elim!: classify_http_Err dest: root_uuid_ok template_set_digest)

lemma read_body_loop_Ok:
  "read_body_loop body cs = Inr b \<longleftrightarrow>
     (\<exists>bs. cs = map Inr bs \<and> b = body @ concat bs \<and> (bs = [] \<or> length b \<le> body_limit))"
proof (induction body cs rule: read_body_loop.induct)
  case (3 body chunk rest)
  show ?case
  proof (cases "body_limit < length body + length chunk")
    case True
    then show ?thesis by (auto simp: Cons_eq_map_conv)
  next
    case False
    with 3 show ?thesis by (auto simp: Cons_eq_map_conv)
  qed
qed auto

lemma read_body_loop_cap:
  "length body \<le> body_limit \<Longrightarrow>
   read_body_loop body cs = Inl CapExceeded \<longleftrightarrow>
     (\<exists>bs c rest. cs = map Inr bs @ Inr c # rest \<and> length (body @ concat bs) \<le> body_limit
        \<and> body_limit < length (body @ concat bs @ c))"
proof (induction body cs rule: read_body_loop.induct)
  case (1 body)
  then show ?case by simp
next
  case (2 body uu uv)
  have "map Inr bs @ Inr c # rest \<noteq> Inl uu # uv" for bs :: "bytes list" and c rest by (cases bs) simp_all
  then show ?case by (metis read_body_loop.simps(2) sum.inject(1) body_read.distinct(1))
next
  case (3 body chunk rest)
  show ?case
  proof (cases "body_limit < length body + length chunk")
    case True
    then have "Inr chunk # rest = map Inr [] @ Inr chunk # rest \<and> length (body @ concat []) \<le> body_limit
        \<and> body_limit < length (body @ concat [] @ chunk)" using "3.prems" by simp
    then have "\<exists>bs c r. Inr chunk # rest = map Inr bs @ Inr c # r \<and> length (body @ concat bs) \<le> body_limit
        \<and> body_limit < length (body @ concat bs @ c)" by blast
    with True show ?thesis by (simp only: read_body_loop.simps if_True simp_thms)
  next
    case False
    then have IH: "read_body_loop (body @ chunk) rest = Inl CapExceeded \<longleftrightarrow>
       (\<exists>bs c rest'. rest = map Inr bs @ Inr c # rest' \<and> length ((body @ chunk) @ concat bs) \<le> body_limit
        \<and> body_limit < length ((body @ chunk) @ concat bs @ c))" using 3 by simp
    have "(\<exists>bs c rest'. Inr chunk # rest = map Inr bs @ Inr c # rest' \<and> length (body @ concat bs) \<le> body_limit
        \<and> body_limit < length (body @ concat bs @ c)) \<longleftrightarrow>
      (\<exists>bs c rest'. rest = map Inr bs @ Inr c # rest' \<and> length (body @ concat (chunk # bs)) \<le> body_limit
        \<and> body_limit < length (body @ concat (chunk # bs) @ c))" (is "?L \<longleftrightarrow> ?R")
    proof
      assume ?L
      then obtain bs c rest' where *: "Inr chunk # rest = map Inr bs @ Inr c # rest'"
        "length (body @ concat bs) \<le> body_limit" "body_limit < length (body @ concat bs @ c)" by blast
      with False show ?R by (cases bs) auto
    next
      assume ?R
      then obtain bs c rest' where *: "rest = map Inr bs @ Inr c # rest'"
        "length (body @ concat (chunk # bs)) \<le> body_limit" "body_limit < length (body @ concat (chunk # bs) @ c)" by blast
      then show ?L by (intro exI [of _ "chunk # bs"] exI [of _ c] exI [of _ rest']) simp
    qed
    with IH False show ?thesis by simp
  qed
qed

section \<open>Properties\<close>

text \<open>C1: The probe exits with code 0 exactly when the preflight passes with an expected cluster, the client can
  be built, the three reads, under one deadline and in order, all answer 200 with an identity coding and
  a body within the cap, the root names exactly the expected cluster, the template's accepted set is
  well formed and contains this agent's schema version, and the mapping is a JSON object.\<close>

theorem run_check_ready_iff:
  "exit_code (fst (run_check L env deadline_after prepare exchange args t0)) = 0 \<longleftrightarrow>
     (\<exists>p uuid digest t1 t2 t3 t4 r1 r2 r3 root template mapping.
        preflight L env args = Some p \<and> pf_affinity p = Expected uuid \<and> prepare t0 p = (Some (), t1)
        \<and> exchange t1 ''/'' (deadline_after 10) = (r1, t2) \<and> usable r1 root \<and> root_uuid L root = Some uuid
        \<and> exchange t2 template_path_query (deadline_after 10) = (r2, t3) \<and> usable r2 template
        \<and> template_set L template = Some (digest, True)
        \<and> exchange t3 mapping_path (deadline_after 10) = (r3, t4) \<and> usable r3 mapping \<and> is_json_object L mapping)"
  (is "?code = 0 \<longleftrightarrow> ?good")
proof
  assume zero: "?code = 0"
  obtain report t where run: "run_check L env deadline_after prepare exchange args t0 = (report, t)" by fastforce
  have nz: "exit_code (failure r s g u d) \<noteq> 0" if "r \<noteq> RReady" for r s g u d
    using that by (cases r) (simp_all add: exit_code_def failure_def)
  have err: "exit_code rep \<noteq> 0" if "classify_http r s g u d = Inl rep" for r s g u d rep
    using that by (rule classify_http_Err) (auto simp: exit_code_def failure_def)
  from zero run have z: "exit_code report = 0" by simp
  from run show ?good
  proof (cases rule: run_check_cases)
    case (network p t1 k)
    from network(3) show ?thesis
    proof cases
      case (passed r1 t2 root observed r2 t3 template digest r3 mapping)
      from z passed(2) have "pf_affinity p \<noteq> Pending" by (auto simp: exit_code_def success_def)
      with passed network(1,2) show ?thesis by blast
    qed (use z err nz in auto)
  qed (use z nz in auto)
next
  assume ?good
  then obtain p uuid digest t1 t2 t3 t4 r1 r2 r3 root template mapping where
    g: "preflight L env args = Some p" "pf_affinity p = Expected uuid" "prepare t0 p = (Some (), t1)"
       "exchange t1 ''/'' (deadline_after 10) = (r1, t2)" "usable r1 root" "root_uuid L root = Some uuid"
       "exchange t2 template_path_query (deadline_after 10) = (r2, t3)" "usable r2 template"
       "template_set L template = Some (digest, True)"
       "exchange t3 mapping_path (deadline_after 10) = (r3, t4)" "usable r3 mapping" "is_json_object L mapping"
    by blast
  then show "?code = 0"
    by (simp add: run_check_def Let_def classify_http_Ok [THEN iffD2] exit_code_def success_def)
qed


text \<open>C10: The traffic of a run with the production transport: nothing at all, with a local failure reported, or
  the first one, two or three of the root, template and mapping requests, in that order, each to
  the validated origin with the resolved credential and no content coding, whatever the peer answers.\<close>

theorem run_check_requests:
  "(let (report, t) = run_check L env deadline_after (rt_prepare L) (rt_exchange peer) args new_transport
    in rt_sent t = [] \<and> cp_failed_stage report = Local
       \<or> (\<exists>p k. preflight L env args = Some p \<and> 1 \<le> k \<and> k \<le> 3
            \<and> rt_sent t = map (\<lambda>path. \<lparr>rq_url = pf_origin p @ path, rq_credentials = pf_credential p,
                                      rq_accept_encoding = ''identity''\<rparr>)
                             (take k [''/'', template_path_query, mapping_path])))"
proof -
  obtain report t where run:
    "run_check L env deadline_after (rt_prepare L) (rt_exchange peer) args new_transport = (report, t)" by fastforce
  have "rt_sent (new_transport :: 'a reqwest_transport) = []" by (simp add: new_transport_def)
  with rt.run_check_sent [OF run] run show ?thesis by (simp add: rt_request_def [abs_def])
qed

text \<open>The body read is exact: it returns the concatenation of the chunks when no read fails and the total
  stays within the cap, and reports the cap exactly when a chunk takes the total over it; a peer that never
  stops sending is cut off at the first such chunk.\<close>

theorem read_body_capped:
  "(read_body cs = Ok b \<longleftrightarrow> (\<exists>bs. cs = map Inr bs \<and> b = concat bs \<and> length b \<le> body_limit))
   \<and> (read_body cs = Err CapExceeded \<longleftrightarrow>
      (\<exists>bs c rest. cs = map Inr bs @ Inr c # rest \<and> length (concat bs) \<le> body_limit
         \<and> body_limit < length (concat bs @ c)))"
  using read_body_loop_Ok [of "[]" cs b] read_body_loop_cap [of "[]" cs]
  by (auto simp: read_body_def)

end
