(* ===== verification/Log_Safe.thy ===== *)
theory Log_Safe
  imports Rust_Str
begin

text \<open>
  Model of \<open>src/src/log_safe.rs\<close>: the escaping of untrusted text before it enters a one-line log
  record, and the truncation to a byte budget that respects character boundaries.  The lemmas show
  that an escaped text holds no line-breaking or direction-changing character, that escaping is
  injective (two different texts never give the same log text), and that truncation returns the
  longest prefix that fits.
\<close>

definition needs_escape :: "nat \<Rightarrow> bool" where
  "needs_escape c \<longleftrightarrow>
     c = 0x5C \<or> c \<le> 0x1F \<or> (0x7F \<le> c \<and> c \<le> 0x9F) \<or> c = 0x200E \<or> c = 0x200F \<or>
     (0x202A \<le> c \<and> c \<le> 0x202E) \<or> c = 0x2028 \<or> c = 0x2029 \<or> (0x2066 \<le> c \<and> c \<le> 0x2069)"

definition escape_char :: "nat \<Rightarrow> string" where
  "escape_char c =
     (if c = 0x5C then [CHR 0x5C, CHR 0x5C]
      else if c = 0x0A then [CHR 0x5C, CHR ''n'']
      else if c = 0x0D then [CHR 0x5C, CHR ''r'']
      else if c = 0x09 then [CHR 0x5C, CHR ''t'']
      else if needs_escape c then [CHR 0x5C, CHR ''u'', CHR ''{''] @ show_hex c @ ''}''
      else encode_char c)"

definition escape_for_log :: "string \<Rightarrow> string" where
  "escape_for_log s =
     (if \<not> list_ex needs_escape (chars s) then s
      else fold (\<lambda>c out. out @ escape_char c) (chars s) [])"

text \<open>\<open>str::floor_char_boundary\<close>, then the slice.\<close>

fun floor_char_boundary :: "string \<Rightarrow> nat \<Rightarrow> nat" where
  "floor_char_boundary s 0 = 0"
| "floor_char_boundary s (Suc i) =
     (if length s \<le> Suc i then length s
      else if is_char_boundary s (Suc i) then Suc i else floor_char_boundary s i)"

definition truncate_chars :: "string \<Rightarrow> nat \<Rightarrow> string" where
  "truncate_chars s max_bytes = take (floor_char_boundary s (min max_bytes (length s))) s"

section \<open>The escaping loop as a map\<close>

lemma fold_escape: "fold (\<lambda>c out. out @ escape_char c) cs acc = acc @ concat (map escape_char cs)"
  by (induction cs arbitrary: acc) simp_all

lemma needs_escape_special [simp]:
  "needs_escape 0x5C" "needs_escape 0x0A" "needs_escape 0x0D" "needs_escape 0x09"
  "\<not> needs_escape 110" "\<not> needs_escape 114" "\<not> needs_escape 116" "\<not> needs_escape 117"
  "\<not> needs_escape 123" "\<not> needs_escape 125"
  by (simp_all add: needs_escape_def)

lemma escape_char_plain: "\<not> needs_escape c \<Longrightarrow> escape_char c = encode_char c"
  by (auto simp: escape_char_def)

lemma concat_escape_plain:
  "\<not> list_ex needs_escape cs \<Longrightarrow> concat (map escape_char cs) = str_of_chars cs"
  by (induction cs) (auto simp: escape_char_plain)

lemma escape_for_log_eq:
  "utf8_valid s \<Longrightarrow> escape_for_log s = concat (map escape_char (chars s))"
  using utf8_valid_chars [of s] by (auto simp: escape_for_log_def fold_escape concat_escape_plain)

section \<open>No forbidden character survives\<close>

definition escape_codes :: "nat \<Rightarrow> nat list" where
  "escape_codes c =
     (if c = 0x5C then [0x5C, 0x5C] else if c = 0x0A then [0x5C, 110] else if c = 0x0D then [0x5C, 114]
      else if c = 0x09 then [0x5C, 116]
      else if needs_escape c then [0x5C, 117, 123] @ map of_char (show_hex c) @ [125] else [c])"

lemma show_hex_ascii: "b \<in> set (show_hex c) \<Longrightarrow> byte b < 0x80 \<and> \<not> needs_escape (byte b)"
  using show_base_digits [of 16 b c]
  by (auto simp: show_hex_def digit_char_def needs_escape_def of_char_char_of_small split: if_splits)

lemma str_of_chars_bytes: "(\<And>b. b \<in> set bs \<Longrightarrow> byte b < 0x80) \<Longrightarrow> str_of_chars (map of_char bs) = bs"
  by (induction bs) (auto simp: encode_ascii)

lemma escape_char_codes: "str_of_chars (escape_codes c) = escape_char c"
proof -
  have "str_of_chars (map of_char (show_hex c)) = show_hex c"
    by (rule str_of_chars_bytes) (simp add: show_hex_ascii)
  moreover have "encode_char 0x5C = [CHR 0x5C]" "encode_char 110 = ''n''" "encode_char 114 = ''r''"
    "encode_char 116 = ''t''" "encode_char 117 = ''u''" "encode_char 123 = ''{''" "encode_char 125 = ''}''"
    by (simp_all add: encode_char_def char_of_eq_iff)
  ultimately show ?thesis by (simp add: escape_codes_def escape_char_def)
qed

lemma escape_codes_scalar: "is_scalar c \<Longrightarrow> list_all is_scalar (escape_codes c)"
  using show_hex_ascii [of _ c] by (fastforce simp: escape_codes_def is_scalar_def list_all_iff)

lemma escape_codes_safe: "d \<in> set (escape_codes c) \<Longrightarrow> needs_escape d \<Longrightarrow> d = 0x5C"
  using show_hex_ascii [of _ c] by (auto simp: escape_codes_def split: if_splits)

lemma concat_escape_codes: "concat (map escape_char cs) = str_of_chars (concat (map escape_codes cs))"
  by (induction cs) (simp_all add: escape_char_codes)

lemma chars_escape_for_log:
  assumes "utf8_valid s"
  shows "chars (escape_for_log s) = concat (map escape_codes (chars s))"
proof -
  from assms have "list_all is_scalar (concat (map escape_codes (chars s)))"
    using utf8_valid_chars [OF assms] escape_codes_scalar by (fastforce simp: list_all_iff)
  then show ?thesis
    using assms by (simp add: escape_for_log_eq concat_escape_codes chars_str_of_chars)
qed

lemma escape_output_safe:
  "utf8_valid s \<Longrightarrow> d \<in> set (chars (escape_for_log s)) \<Longrightarrow> needs_escape d \<Longrightarrow> d = 0x5C"
  by (auto simp: chars_escape_for_log dest: escape_codes_safe)

lemma escape_for_log_valid: "utf8_valid s \<Longrightarrow> utf8_valid (escape_for_log s)"
proof -
  assume s: "utf8_valid s"
  then have "list_all is_scalar (concat (map escape_codes (chars s)))"
    using utf8_valid_chars [OF s] escape_codes_scalar by (fastforce simp: list_all_iff)
  then show ?thesis using s by (simp add: escape_for_log_eq concat_escape_codes utf8_valid_str_of_chars)
qed

section \<open>Escaping is injective\<close>

lemma encode_head:
  "is_scalar c \<Longrightarrow> encode_char c @ x = encode_char d @ y \<Longrightarrow> is_scalar d \<Longrightarrow> c = d \<and> x = y"
  using utf8_next_encode [of c x] utf8_next_encode [of d y] by auto

lemma encode_not_backslash: "is_scalar c \<Longrightarrow> c \<noteq> 0x5C \<Longrightarrow> encode_char c \<noteq> CHR 0x5C # r"
proof
  assume a: "is_scalar c" "c \<noteq> 0x5C" "encode_char c = CHR 0x5C # r"
  have "utf8_next (encode_char c) = Some (0x5C, 1)" unfolding a(3) by (simp add: utf8_next_def)
  with utf8_next_encode [OF a(1), of "[]"] a(2) show False by simp
qed

lemma hex_brace: "show_hex c @ CHR ''}'' # x = show_hex d @ CHR ''}'' # y \<Longrightarrow> c = d \<and> x = y"
proof -
  assume a: "show_hex c @ CHR ''}'' # x = show_hex d @ CHR ''}'' # y"
  have n: "CHR ''}'' \<notin> set (show_hex k)" for k
  proof
    assume "CHR ''}'' \<in> set (show_hex k)"
    then obtain d where "d < 16" and eq: "CHR ''}'' = digit_char d"
      using show_base_digits [of 16 "CHR ''}''" k] by (auto simp: show_hex_def)
    have "byte (digit_char d) = 125" by (simp flip: eq)
    with \<open>d < 16\<close> show False by (simp add: digit_char_def of_char_char_of_small split: if_splits)
  qed
  from arg_cong [OF a, of "split_once CHR ''}''"] show ?thesis
    by (simp add: split_once_append n)
qed

lemma escape_char_backslash: "needs_escape c \<Longrightarrow> \<exists>r. escape_char c = CHR 0x5C # r"
  by (simp add: escape_char_def)

lemma escape_special_head:
  "needs_escape c \<Longrightarrow> needs_escape d \<Longrightarrow> escape_char c @ x = escape_char d @ y \<Longrightarrow> c = d \<and> x = y"
  unfolding escape_char_def
  using hex_brace [of c x d y] by (simp split: if_split_asm)

lemma escape_head:
  assumes "is_scalar c" "is_scalar d" "escape_char c @ x = escape_char d @ y"
  shows "c = d \<and> x = y"
proof (cases "needs_escape c")
  case True
  then obtain r where c: "escape_char c = CHR 0x5C # r" using escape_char_backslash by blast
  have "needs_escape d"
  proof (rule ccontr)
    assume "\<not> needs_escape d"
    then have d: "escape_char d = encode_char d" "d \<noteq> 0x5C"
      by (simp_all add: escape_char_plain) (simp add: needs_escape_def)
    with c assms(3) have "encode_char d @ y = CHR 0x5C # r @ x" by simp
    then obtain r' where "encode_char d = CHR 0x5C # r'" by (cases "encode_char d") auto
    with d(2) assms(2) encode_not_backslash show False by blast
  qed
  with True assms(3) show ?thesis by (intro escape_special_head)
next
  case False
  then have c: "escape_char c = encode_char c" "c \<noteq> 0x5C"
    by (simp_all add: escape_char_plain) (simp add: needs_escape_def)
  have "\<not> needs_escape d"
  proof
    assume "needs_escape d"
    then obtain r where "escape_char d = CHR 0x5C # r" using escape_char_backslash by blast
    with c assms(3) have "encode_char c @ x = CHR 0x5C # r @ y" by simp
    then obtain r' where "encode_char c = CHR 0x5C # r'" by (cases "encode_char c") auto
    with c(2) assms(1) encode_not_backslash show False by blast
  qed
  with c assms show ?thesis by (simp add: escape_char_plain) (rule encode_head)
qed

lemma escape_char_nonempty [simp]: "escape_char c \<noteq> []"
  by (simp add: escape_char_def)

lemma concat_escape_inj:
  "list_all is_scalar cs \<Longrightarrow> list_all is_scalar ds \<Longrightarrow>
     concat (map escape_char cs) = concat (map escape_char ds) \<Longrightarrow> cs = ds"
proof (induction cs arbitrary: ds)
  case Nil
  then show ?case by (cases ds) auto
next
  case (Cons c cs)
  from Cons.prems(3) obtain d ds' where ds: "ds = d # ds'" by (cases ds) simp_all
  from Cons.prems ds have sc: "is_scalar c" "is_scalar d" "list_all is_scalar cs" "list_all is_scalar ds'"
    and eq: "escape_char c @ concat (map escape_char cs) = escape_char d @ concat (map escape_char ds')"
    by simp_all
  note h = escape_head [OF sc(1,2) eq]
  with Cons.IH [OF sc(3,4)] ds show ?case by blast
qed

section \<open>Truncation\<close>

lemma floor_char_boundary_le: "floor_char_boundary s i \<le> i"
  by (induction s i rule: floor_char_boundary.induct) auto

lemma floor_char_boundary_is:
  "i \<le> length s \<Longrightarrow> is_char_boundary s (floor_char_boundary s i)"
  by (induction s i rule: floor_char_boundary.induct) (auto simp: is_char_boundary_def)

lemma floor_char_boundary_max:
  "i \<le> length s \<Longrightarrow> j \<le> i \<Longrightarrow> is_char_boundary s j \<Longrightarrow> j \<le> floor_char_boundary s i"
  by (induction s i rule: floor_char_boundary.induct) (auto simp: le_Suc_eq)

text \<open>On valid UTF-8 the boundaries are exactly the ends of the encoded characters.\<close>

lemma encode_char_head_not_cont: "is_scalar c \<Longrightarrow> \<not> is_cont (hd (encode_char c))"
  by (auto simp: encode_char_def is_cont_def of_char_char_of_small is_scalar_def)

lemma encode_char_tail_cont:
  "is_scalar c \<Longrightarrow> 0 < i \<Longrightarrow> i < length (encode_char c) \<Longrightarrow> is_cont (encode_char c ! i)"
proof -
  assume a: "is_scalar c" "0 < i" "i < length (encode_char c)"
  have cont: "is_cont (char_of (0x80 + k mod 64))" for k :: nat
    by (simp add: is_cont_def of_char_char_of_small)
  have "\<forall>b \<in> set (tl (encode_char c)). is_cont b"
    using cont by (simp add: encode_char_def)
  moreover have "encode_char c ! i \<in> set (tl (encode_char c))"
    using a by (cases "encode_char c"; cases i) auto
  ultimately show ?thesis by blast
qed

lemma boundary_take_valid:
  "list_all is_scalar cs \<Longrightarrow> i \<le> length (str_of_chars cs) \<Longrightarrow> is_char_boundary (str_of_chars cs) i \<Longrightarrow>
     \<exists>k. take i (str_of_chars cs) = str_of_chars (take k cs)"
proof (induction cs arbitrary: i)
  case Nil
  then show ?case by simp
next
  case (Cons c cs)
  let ?e = "encode_char c"
  show ?case
  proof (cases "i = 0")
    case True
    then show ?thesis by (intro exI [of _ 0]) simp
  next
    case False
    have le: "length ?e \<le> i"
    proof (rule ccontr)
      assume "\<not> length ?e \<le> i"
      with False Cons.prems(1,3) encode_char_tail_cont [of c i] show False
        by (auto simp: is_char_boundary_def nth_append)
    qed
    have "is_char_boundary (str_of_chars cs) (i - length ?e)"
      using Cons.prems(3) le by (auto simp: is_char_boundary_def nth_append)
    moreover have "list_all is_scalar cs" "i - length ?e \<le> length (str_of_chars cs)"
      using Cons.prems by auto
    ultimately obtain k where "take (i - length ?e) (str_of_chars cs) = str_of_chars (take k cs)"
      using Cons.IH by blast
    with le show ?thesis by (intro exI [of _ "Suc k"]) simp
  qed
qed

lemma truncate_chars_valid:
  assumes "utf8_valid s"
  shows "\<exists>k. truncate_chars s n = str_of_chars (take k (chars s))"
proof -
  let ?i = "floor_char_boundary s (min n (length s))"
  have "?i \<le> length s" using floor_char_boundary_le [of s "min n (length s)"] by simp
  moreover have "is_char_boundary s ?i" by (rule floor_char_boundary_is) simp
  ultimately show ?thesis
    using assms boundary_take_valid [of "chars s" ?i] utf8_valid_chars [OF assms]
    by (simp add: truncate_chars_def)
qed

lemma take_drop_chars: "utf8_valid s \<Longrightarrow> s = str_of_chars (take j (chars s)) @ str_of_chars (drop j (chars s))"
  by (metis append_take_drop_id str_of_chars_simps(3) utf8_valid_chars)

lemma length_take_chars_le: "utf8_valid s \<Longrightarrow> length (str_of_chars (take j (chars s))) \<le> length s"
  using take_drop_chars [of s j] by (metis le_add1 length_append)

lemma take_chars_boundary:
  assumes "utf8_valid s"
  shows "is_char_boundary s (length (str_of_chars (take j (chars s))))"
proof (cases "drop j (chars s)")
  case Nil
  with take_drop_chars [OF assms, of j] show ?thesis by (simp add: is_char_boundary_def)
next
  case (Cons c r)
  have "is_scalar c" using utf8_valid_chars [OF assms] Cons
    by (metis in_set_dropD list.set_intros(1) list_all_iff)
  then have "\<not> is_cont (hd (encode_char c))" by (rule encode_char_head_not_cont)
  moreover have "s = str_of_chars (take j (chars s)) @ encode_char c @ str_of_chars r"
    using take_drop_chars [OF assms, of j] Cons by simp
  then have "s ! length (str_of_chars (take j (chars s))) = hd (encode_char c)"
    and "length (str_of_chars (take j (chars s))) < length s"
    by (metis append_is_Nil_conv encode_char_nonempty hd_append2 hd_conv_nth nth_append_length_plus add_0_right,
        metis append_is_Nil_conv encode_char_nonempty length_append length_greater_0_conv less_add_same_cancel1)
  ultimately show ?thesis by (simp add: is_char_boundary_def)
qed

section \<open>Properties\<close>

text \<open>An escaped text is valid UTF-8 and stays on one log line: no control character, line separator or
  direction mark is left in it, and the only character of the escape class it may hold is the
  backslash that starts an escape.\<close>

theorem escape_for_log_single_line:
  assumes "utf8_valid s"
  shows "utf8_valid (escape_for_log s)
    \<and> list_all (\<lambda>d. \<not> needs_escape d \<or> d = 0x5C) (chars (escape_for_log s))"
  using escape_for_log_valid [OF assms] escape_output_safe [OF assms] by (auto simp: list_all_iff)

theorem escape_for_log_single_line_witness:
  "list_all (\<lambda>d. \<not> needs_escape d \<or> d = 0x5C) (chars (escape_for_log [CHR ''a'', CHR 0x0A]))"
proof -
  have "utf8_valid [CHR ''a'', CHR 0x0A]"
    by (simp add: utf8_valid.simps [of "_ # _"] utf8_valid.simps [of "[]"] utf8_next_def)
  from escape_for_log_single_line [OF this] show ?thesis by simp
qed

text \<open>Escaping is injective: two different texts never give the same log text, so a peer cannot forge
  the escaped form of another message.\<close>

theorem escape_for_log_inj:
  assumes "utf8_valid s" "utf8_valid t" "escape_for_log s = escape_for_log t"
  shows "s = t"
proof -
  from assms have "concat (map escape_char (chars s)) = concat (map escape_char (chars t))"
    by (simp add: escape_for_log_eq)
  with utf8_valid_chars [OF assms(1)] utf8_valid_chars [OF assms(2)] concat_escape_inj
  have "chars s = chars t" by blast
  with utf8_valid_chars [OF assms(1)] utf8_valid_chars [OF assms(2)] show ?thesis by metis
qed

theorem escape_for_log_inj_witness:
  "escape_for_log [CHR 0x0A] \<noteq> escape_for_log [CHR 0x5C, CHR ''n'']"
proof -
  have "utf8_valid [CHR 0x0A]" "utf8_valid [CHR 0x5C, CHR ''n'']"
    by (simp_all add: utf8_valid.simps [of "_ # _"] utf8_valid.simps [of "[]"] utf8_next_def)
  from escape_for_log_inj [OF this] show ?thesis by auto
qed

text \<open>Truncation keeps whole characters and wastes nothing: the result is the encoding of a prefix of
  the characters, fits the byte budget, and no longer prefix of whole characters fits.\<close>

theorem truncate_chars_longest:
  assumes "utf8_valid s"
  shows "\<exists>k. truncate_chars s n = str_of_chars (take k (chars s)) \<and> length (truncate_chars s n) \<le> n
    \<and> (\<forall>j. n < length (str_of_chars (take j (chars s)))
            \<or> length (str_of_chars (take j (chars s))) \<le> length (truncate_chars s n))"
proof -
  obtain k where k: "truncate_chars s n = str_of_chars (take k (chars s))"
    using truncate_chars_valid [OF assms] by blast
  let ?f = "floor_char_boundary s (min n (length s))"
  have len: "length (truncate_chars s n) = ?f" and le: "?f \<le> n"
    using floor_char_boundary_le [of s "min n (length s)"] by (simp_all add: truncate_chars_def)
  have "length (str_of_chars (take j (chars s))) \<le> ?f"
    if "length (str_of_chars (take j (chars s))) \<le> n" for j
  proof (rule floor_char_boundary_max)
    show "length (str_of_chars (take j (chars s))) \<le> min n (length s)"
      using that length_take_chars_le [OF assms] by simp
    show "is_char_boundary s (length (str_of_chars (take j (chars s))))"
      by (rule take_chars_boundary [OF assms])
  qed simp
  then show ?thesis using k le len by (metis linorder_not_le)
qed

theorem truncate_chars_longest_witness:
  "length (truncate_chars [CHR ''a'', CHR 0xC3, CHR 0xA9] 2) \<le> 2"
proof -
  have "utf8_valid [CHR ''a'', CHR 0xC3, CHR 0xA9]"
    by (simp add: utf8_valid.simps [of "_ # _"] utf8_valid.simps [of "[]"] utf8_next_def is_cont_def
        cont_bits_def)
  from truncate_chars_longest [OF this, of 2] show ?thesis by blast
qed

end
