(* ===== verification/File_System.thy ===== *)
theory File_System
  imports Rust_Str
begin

text \<open>
  The part of \<open>std::fs\<close>, \<open>std::io::BufWriter\<close> and the clocks that the spool of \<open>src/src/shipper.rs\<close> uses,
  on one flat directory.  Every system call reads a fault schedule at a running call number, so a
  theorem over all schedules covers every pattern of I/O errors, a write that stops after some bytes
  included.  The successful renames are logged, so that theorems can speak of what was published.
  The lemmas say which files a call may touch and what a call that succeeds has done.
\<close>

section \<open>Errors, schedule and state\<close>

datatype spool_error = AlreadyExists | NotFound | IoError | PadEmpty | PadNoNewline | BeforeEpoch
  | Serialise | BeforePublish | LockFailed | Panicked | NoResult

text \<open>
  \<open>fault n = Some k\<close>: call number \<open>n\<close> fails, a write after \<open>k\<close> bytes.  \<open>wall\<close> is \<open>SystemTime\<close> in
  milliseconds since the epoch (\<open>None\<close> before it), \<open>mono\<close> is \<open>Instant\<close> in milliseconds, \<open>order\<close> is the order in
  which a hash map or a directory is walked, \<open>modified\<close> the age information of a directory entry.
  \<open>fuel\<close> bounds the search for a free name (\<open>NoResult\<close> when it runs out).
\<close>

record sys =
  fault :: "nat \<Rightarrow> nat option"
  wall :: "nat \<Rightarrow> nat option"
  mono :: "nat \<Rightarrow> nat"
  order :: "nat \<Rightarrow> string list \<Rightarrow> string list"
  modified :: "nat \<Rightarrow> string \<Rightarrow> nat option"
  fuel :: nat

record fs =
  files :: "(string \<times> bytes) list"
  tick :: nat
  renames :: "(string \<times> string \<times> bytes) list"

definition fget :: "'z fs_scheme \<Rightarrow> string \<Rightarrow> bytes option" where
  "fget w n = map_of (files w) n"

definition fput :: "string \<Rightarrow> bytes \<Rightarrow> 'z fs_scheme \<Rightarrow> 'z fs_scheme" where
  "fput n c w = w\<lparr>files := (n, c) # filter (\<lambda>p. fst p \<noteq> n) (files w)\<rparr>"

definition fdel :: "string \<Rightarrow> 'z fs_scheme \<Rightarrow> 'z fs_scheme" where
  "fdel n w = w\<lparr>files := filter (\<lambda>p. fst p \<noteq> n) (files w)\<rparr>"

definition tock :: "'z fs_scheme \<Rightarrow> 'z fs_scheme" where
  "tock w = w\<lparr>tick := Suc (tick w)\<rparr>"

lemma map_of_filter_other: "map_of (filter (\<lambda>p. fst p \<noteq> n) xs) m = (if m = n then None else map_of xs m)"
  by (induction xs) auto

lemma fget_fput [simp]: "fget (fput n c w) m = (if m = n then Some c else fget w m)"
  by (simp add: fget_def fput_def map_of_filter_other)

lemma fget_fdel [simp]: "fget (fdel n w) m = (if m = n then None else fget w m)"
  by (simp add: fget_def fdel_def map_of_filter_other)

lemma fget_tock [simp]: "fget (tock w) m = fget w m"
  by (simp add: fget_def tock_def)

lemma renames_simps [simp]:
  "renames (fput n c w) = renames w" "renames (fdel n w) = renames w" "renames (tock w) = renames w"
  by (simp_all add: fput_def fdel_def tock_def)

lemma fget_renames_update [simp]: "fget (w\<lparr>renames := rs\<rparr>) m = fget w m"
  by (simp add: fget_def)

lemma more_simps [simp]:
  "fs.more (fput n c w) = fs.more w" "fs.more (fdel n w) = fs.more w" "fs.more (tock w) = fs.more w"
  by (simp_all add: fput_def fdel_def tock_def)

section \<open>Results and sequencing\<close>

type_synonym ('a, 'z) io = "'z fs_scheme \<Rightarrow> (spool_error, 'a) result \<times> 'z fs_scheme"

text \<open>The \<open>?\<close> operator between two fallible steps.\<close>

definition io_bind ::
    "('s \<Rightarrow> (spool_error, 'a) result \<times> 's) \<Rightarrow> ('a \<Rightarrow> 's \<Rightarrow> (spool_error, 'b) result \<times> 's)
      \<Rightarrow> 's \<Rightarrow> (spool_error, 'b) result \<times> 's" where
  "io_bind m f w = (case m w of (Inl e, w') \<Rightarrow> (Inl e, w') | (Inr x, w') \<Rightarrow> f x w')"

definition io_return :: "'a \<Rightarrow> 's \<Rightarrow> (spool_error, 'a) result \<times> 's" where
  "io_return x w = (Ok x, w)"

definition io_fail :: "spool_error \<Rightarrow> 's \<Rightarrow> (spool_error, 'a) result \<times> 's" where
  "io_fail e w = (Err e, w)"

lemma io_bind_OkE:
  assumes "io_bind m f w = (Inr y, w'')"
  obtains x w' where "m w = (Inr x, w')" "f x w' = (Inr y, w'')"
  using assms by (auto simp: io_bind_def split: prod.splits sum.splits)

lemma io_bind_ErrE:
  assumes "io_bind m f w = (Inl e, w'')"
  obtains "m w = (Inl e, w'')" | x w' where "m w = (Inr x, w')" "f x w' = (Inl e, w'')"
  using assms by (auto simp: io_bind_def split: prod.splits sum.splits)

lemma io_bind_cases:
  obtains e w' where "m w = (Inl e, w')" "io_bind m f w = (Inl e, w')"
    | x w' where "m w = (Inr x, w')" "io_bind m f w = f x w'"
  by (cases "m w"; cases "fst (m w)") (auto simp: io_bind_def)

lemma io_return_simps [simp]: "io_return x w = (Inr x, w)" and io_fail_simps [simp]: "io_fail e w = (Inl e, w)"
  by (simp_all add: io_return_def io_fail_def)

section \<open>System calls\<close>

text \<open>\<open>create(true).write(true).truncate(true)\<close>\<close>

definition fs_create_trunc :: "sys \<Rightarrow> string \<Rightarrow> (unit, 'z) io" where
  "fs_create_trunc S n w =
     (case fault S (tick w) of Some _ \<Rightarrow> (Err IoError, tock w) | None \<Rightarrow> (Ok (), fput n [] (tock w)))"

text \<open>\<open>create_new(true).write(true)\<close>\<close>

definition fs_create_new :: "sys \<Rightarrow> string \<Rightarrow> (unit, 'z) io" where
  "fs_create_new S n w =
     (case fault S (tick w) of Some _ \<Rightarrow> (Err IoError, tock w)
      | None \<Rightarrow> if fget w n \<noteq> None then (Err AlreadyExists, tock w) else (Ok (), fput n [] (tock w)))"

text \<open>Opening an existing file, to append to it or to read it.\<close>

definition fs_open :: "sys \<Rightarrow> string \<Rightarrow> (bytes, 'z) io" where
  "fs_open S n w =
     (case fault S (tick w) of Some _ \<Rightarrow> (Err IoError, tock w)
      | None \<Rightarrow> (case fget w n of None \<Rightarrow> (Err NotFound, tock w) | Some c \<Rightarrow> (Ok c, tock w)))"

text \<open>\<open>metadata(path).len()\<close>\<close>

definition fs_len :: "sys \<Rightarrow> string \<Rightarrow> (nat, 'z) io" where
  "fs_len S n = io_bind (fs_open S n) (\<lambda>c. io_return (length c))"

text \<open>\<open>write_all\<close> on a file positioned at its end.\<close>

definition append_file :: "string \<Rightarrow> bytes \<Rightarrow> 'z fs_scheme \<Rightarrow> 'z fs_scheme" where
  "append_file n bs w = (case fget w n of None \<Rightarrow> w | Some c \<Rightarrow> fput n (c @ bs) w)"

definition fs_write :: "sys \<Rightarrow> string \<Rightarrow> bytes \<Rightarrow> (unit, 'z) io" where
  "fs_write S n bs w =
     (case fault S (tick w) of
        Some k \<Rightarrow> (Err IoError, append_file n (take k bs) (tock w))
      | None \<Rightarrow> (Ok (), append_file n bs (tock w)))"

text \<open>\<open>set_len\<close> to a shorter length.\<close>

definition fs_set_len :: "sys \<Rightarrow> string \<Rightarrow> nat \<Rightarrow> (unit, 'z) io" where
  "fs_set_len S n len w =
     (case fault S (tick w) of
        Some _ \<Rightarrow> (Err IoError, tock w)
      | None \<Rightarrow> (case fget w n of None \<Rightarrow> (Ok (), tock w) | Some c \<Rightarrow> (Ok (), fput n (take len c) (tock w))))"

text \<open>\<open>seek\<close> and other calls that change nothing but may fail.\<close>

definition fs_touch :: "sys \<Rightarrow> (unit, 'z) io" where
  "fs_touch S w = (case fault S (tick w) of Some _ \<Rightarrow> (Err IoError, tock w) | None \<Rightarrow> (Ok (), tock w))"

definition fs_rename :: "sys \<Rightarrow> string \<Rightarrow> string \<Rightarrow> (unit, 'z) io" where
  "fs_rename S source target w =
     (case fault S (tick w) of
        Some _ \<Rightarrow> (Err IoError, tock w)
      | None \<Rightarrow> (case fget w source of
                  None \<Rightarrow> (Err NotFound, tock w)
                | Some c \<Rightarrow> (Ok (), let w' = fput target c (fdel source (tock w))
                                   in w'\<lparr>renames := renames w' @ [(source, target, c)]\<rparr>)))"

definition fs_remove :: "sys \<Rightarrow> string \<Rightarrow> (unit, 'z) io" where
  "fs_remove S n w =
     (case fault S (tick w) of
        Some _ \<Rightarrow> (Err IoError, tock w)
      | None \<Rightarrow> if fget w n = None then (Err NotFound, tock w) else (Ok (), fdel n (tock w)))"

definition remove_file_if_exists :: "sys \<Rightarrow> string \<Rightarrow> (unit, 'z) io" where
  "remove_file_if_exists S n w =
     (case fs_remove S n w of
        (Inr _, w') \<Rightarrow> (Ok (), w')
      | (Inl e, w') \<Rightarrow> if e = NotFound then (Ok (), w') else (Err e, w'))"

text \<open>\<open>read_dir\<close>: the names at the time of the call, in any order.\<close>

definition fs_read_dir :: "sys \<Rightarrow> (string list, 'z) io" where
  "fs_read_dir S w =
     (case fault S (tick w) of
        Some _ \<Rightarrow> (Err IoError, tock w)
      | None \<Rightarrow> (Ok (order S (tick w) (map fst (files w))), tock w))"

definition unix_millis :: "sys \<Rightarrow> (nat, 'z) io" where
  "unix_millis S w = (case wall S (tick w) of None \<Rightarrow> (Err BeforeEpoch, tock w) | Some t \<Rightarrow> (Ok t, tock w))"

section \<open>\<open>BufWriter\<close>\<close>

definition buf_capacity :: nat where "buf_capacity = 8192"

definition bw_flush :: "sys \<Rightarrow> string \<Rightarrow> bytes \<Rightarrow> 'z fs_scheme \<Rightarrow> (spool_error, unit) result \<times> bytes \<times> 'z fs_scheme" where
  "bw_flush S n buf w =
     (if buf = [] then (Ok (), [], w)
      else case fault S (tick w) of
        Some k \<Rightarrow> (Err IoError, drop k buf, append_file n (take k buf) (tock w))
      | None \<Rightarrow> (Ok (), [], append_file n buf (tock w)))"

definition bw_write_all ::
    "sys \<Rightarrow> string \<Rightarrow> bytes \<Rightarrow> bytes \<Rightarrow> 'z fs_scheme \<Rightarrow> (spool_error, unit) result \<times> bytes \<times> 'z fs_scheme" where
  "bw_write_all S n bs buf w =
     (if length bs < buf_capacity - length buf then (Ok (), buf @ bs, w)
      else case (if buf_capacity - length buf < length bs then bw_flush S n buf w else (Ok (), buf, w)) of
        (Inl e, buf', w') \<Rightarrow> (Err e, buf', w')
      | (Inr _, buf', w') \<Rightarrow>
          (if buf_capacity \<le> length bs
           then (case fs_write S n bs w' of (r, w'') \<Rightarrow> (r, buf', w''))
           else (Ok (), buf' @ bs, w')))"

text \<open>Dropping a writer flushes it and forgets the outcome.\<close>

definition bw_drop :: "sys \<Rightarrow> string \<Rightarrow> bytes \<Rightarrow> 'z fs_scheme \<Rightarrow> 'z fs_scheme" where
  "bw_drop S n buf w = snd (snd (bw_flush S n buf w))"

section \<open>Which files a call touches\<close>

text \<open>\<open>w'\<close> differs from \<open>w\<close> at most in the named files.\<close>

definition touches :: "string set \<Rightarrow> 'z fs_scheme \<Rightarrow> 'z fs_scheme \<Rightarrow> bool" where
  "touches N w w' \<longleftrightarrow> (\<forall>m. m \<notin> N \<longrightarrow> fget w' m = fget w m) \<and> renames w' = renames w \<and> fs.more w' = fs.more w"

named_theorems touch_rules

lemma touches_refl [simp]: "touches N w w"
  by (simp add: touches_def)

lemma touches_trans: "touches N w w' \<Longrightarrow> touches N w' w'' \<Longrightarrow> touches N w w''"
  by (simp add: touches_def)

lemma touches_mono: "touches M w w' \<Longrightarrow> M \<subseteq> N \<Longrightarrow> touches N w w'"
  by (auto simp: touches_def)

lemma touches_tock [simp]: "touches N w (tock w)"
  by (simp add: touches_def)

lemma touches_append [touch_rules]: "touches {n} w (append_file n bs w)"
  by (simp add: touches_def append_file_def split: option.splits)

lemma touches_append_tock [touch_rules]: "touches {n} w (append_file n bs (tock w))"
  using touches_trans [OF touches_tock touches_append] .

lemma fs_create_trunc_touches [touch_rules]: "touches {n} w (snd (fs_create_trunc S n w))"
  by (simp add: fs_create_trunc_def touches_def split: option.splits)

lemma fs_create_new_touches [touch_rules]: "touches {n} w (snd (fs_create_new S n w))"
  by (simp add: fs_create_new_def touches_def split: option.splits)

lemma fs_open_touches [touch_rules]: "touches {} w (snd (fs_open S n w))"
  by (simp add: fs_open_def split: option.splits)

lemma fs_len_touches [touch_rules]: "touches {} w (snd (fs_len S n w))"
  using fs_open_touches [of w S n] by (auto simp: fs_len_def io_bind_def split: prod.splits sum.splits)

lemma fs_write_touches [touch_rules]: "touches {n} w (snd (fs_write S n bs w))"
  by (simp add: fs_write_def touches_append_tock split: option.splits)

lemma fs_set_len_touches [touch_rules]: "touches {n} w (snd (fs_set_len S n len w))"
  by (simp add: fs_set_len_def touches_def split: option.splits)

lemma fs_touch_touches [touch_rules]: "touches {} w (snd (fs_touch S w))"
  by (simp add: fs_touch_def split: option.splits)

lemma fs_remove_touches [touch_rules]: "touches {n} w (snd (fs_remove S n w))"
  by (simp add: fs_remove_def touches_def split: option.splits)

lemma remove_file_if_exists_touches [touch_rules]: "touches {n} w (snd (remove_file_if_exists S n w))"
  using fs_remove_touches [of n w S] by (auto simp: remove_file_if_exists_def split: prod.splits sum.splits)

lemma fs_read_dir_touches [touch_rules]: "touches {} w (snd (fs_read_dir S w))"
  by (simp add: fs_read_dir_def split: option.splits)

lemma unix_millis_touches [touch_rules]: "touches {} w (snd (unix_millis S w))"
  by (simp add: unix_millis_def split: option.splits)

lemma bw_flush_touches [touch_rules]: "touches {n} w (snd (snd (bw_flush S n buf w)))"
  by (simp add: bw_flush_def touches_append_tock split: option.splits)

lemma bw_drop_touches [touch_rules]: "touches {n} w (bw_drop S n buf w)"
  by (simp add: bw_drop_def bw_flush_touches)

lemma bw_write_all_touches [touch_rules]: "touches {n} w (snd (snd (bw_write_all S n bs buf w)))"
proof -
  let ?pre = "if buf_capacity - length buf < length bs then bw_flush S n buf w else (Ok (), buf, w)"
  obtain r b1 w1 where pre: "?pre = (r, b1, w1)" by (cases ?pre)
  then have w1: "touches {n} w w1" using bw_flush_touches [of n w S buf] by (auto split: if_splits)
  then have "touches {n} w (snd (fs_write S n bs w1))" using fs_write_touches touches_trans by blast
  with w1 pre show ?thesis by (cases r) (auto simp: bw_write_all_def split: prod.splits)
qed

lemma io_bind_touches:
  assumes "touches N w (snd (m w))" "\<And>x w'. m w = (Inr x, w') \<Longrightarrow> touches N w' (snd (f x w'))"
  shows "touches N w (snd (io_bind m f w))"
  using assms by (cases "m w"; cases "fst (m w)") (auto simp: io_bind_def intro: touches_trans)

section \<open>What a call that succeeds has done\<close>

named_theorems ok_iff

lemma io_bind_ok_iff [ok_iff]: "io_bind m f w = (Inr y, w'') \<longleftrightarrow> (\<exists>x w'. m w = (Inr x, w') \<and> f x w' = (Inr y, w''))"
  by (auto simp: io_bind_def split: prod.splits sum.splits)

lemma fs_open_ok_iff [ok_iff]: "fs_open S n w = (Inr c, w') \<longleftrightarrow> fault S (tick w) = None \<and> fget w n = Some c \<and> w' = tock w"
  by (auto simp: fs_open_def split: option.splits)

lemma fs_len_ok_iff [ok_iff]:
  "fs_len S n w = (Inr k, w') \<longleftrightarrow> fault S (tick w) = None \<and> (\<exists>c. fget w n = Some c \<and> k = length c) \<and> w' = tock w"
  by (auto simp: fs_len_def ok_iff)

lemma fs_touch_ok_iff [ok_iff]: "fs_touch S w = (Inr u, w') \<longleftrightarrow> fault S (tick w) = None \<and> w' = tock w"
  by (auto simp: fs_touch_def split: option.splits)

lemma fs_write_ok_iff [ok_iff]:
  "fs_write S n bs w = (Inr u, w') \<longleftrightarrow> fault S (tick w) = None \<and> w' = append_file n bs (tock w)"
  by (auto simp: fs_write_def split: option.splits)

lemma fs_set_len_ok_iff [ok_iff]:
  "fs_set_len S n len w = (Inr u, w') \<longleftrightarrow> fault S (tick w) = None
     \<and> w' = (case fget w n of None \<Rightarrow> tock w | Some c \<Rightarrow> fput n (take len c) (tock w))"
  by (auto simp: fs_set_len_def split: option.splits)

lemma fs_create_trunc_ok_iff [ok_iff]:
  "fs_create_trunc S n w = (Inr u, w') \<longleftrightarrow> fault S (tick w) = None \<and> w' = fput n [] (tock w)"
  by (auto simp: fs_create_trunc_def split: option.splits)

lemma unix_millis_ok_iff [ok_iff]: "unix_millis S w = (Inr t, w') \<longleftrightarrow> wall S (tick w) = Some t \<and> w' = tock w"
  by (auto simp: unix_millis_def split: option.splits)

lemma fs_create_trunc_Ok: "fs_create_trunc S n w = (Inr x, w') \<Longrightarrow> fget w' n = Some []"
  by (auto simp: fs_create_trunc_def split: option.splits)

lemma fs_create_new_Ok: "fs_create_new S n w = (Inr x, w') \<Longrightarrow> fget w n = None \<and> fget w' n = Some []"
  by (auto simp: fs_create_new_def split: option.splits if_splits)

lemma fs_open_Ok: "fs_open S n w = (Inr c, w') \<Longrightarrow> fget w n = Some c \<and> w' = tock w"
  by (auto simp: fs_open_def split: option.splits)

lemma fs_len_Ok: "fs_len S n w = (Inr len, w') \<Longrightarrow> \<exists>c. fget w n = Some c \<and> len = length c \<and> w' = tock w"
  by (auto simp: fs_len_def elim!: io_bind_OkE dest!: fs_open_Ok)

lemma fs_write_Ok: "fs_write S n bs w = (Inr x, w') \<Longrightarrow> w' = append_file n bs (tock w)"
  by (auto simp: fs_write_def split: option.splits)

lemma fs_rename_Ok:
  "fs_rename S s t w = (Inr x, w') \<Longrightarrow>
     \<exists>c. fget w s = Some c \<and> renames w' = renames w @ [(s, t, c)] \<and> fs.more w' = fs.more w
       \<and> (\<forall>m. fget w' m = (if m = t then Some c else if m = s then None else fget w m))"
  by (auto simp: fs_rename_def Let_def split: option.splits)

lemma fs_rename_Err: "fs_rename S s t w = (Inl e, w') \<Longrightarrow> touches {} w w'"
  by (auto simp: fs_rename_def split: option.splits)

lemma bw_flush_Ok:
  "bw_flush S n buf w = (Inr x, buf', w') \<Longrightarrow> fget w n = Some c \<Longrightarrow> buf' = [] \<and> fget w' n = Some (c @ buf)"
  by (auto simp: bw_flush_def append_file_def split: if_splits option.splits)

lemma bw_write_all_Ok:
  assumes "bw_write_all S n bs buf w = (Inr x, buf', w')" "fget w n = Some c"
  shows "\<exists>c'. fget w' n = Some c' \<and> c' @ buf' = c @ buf @ bs"
proof (cases "length bs < buf_capacity - length buf")
  case True
  with assms show ?thesis by (simp add: bw_write_all_def)
next
  case False
  let ?pre = "if buf_capacity - length buf < length bs then bw_flush S n buf w else (Ok (), buf, w)"
  obtain r b1 w1 where pre: "?pre = (r, b1, w1)" by (cases ?pre)
  with assms False obtain y where r: "r = Inr y" by (cases r) (auto simp: bw_write_all_def)
  have 1: "\<exists>c1. fget w1 n = Some c1 \<and> c1 @ b1 = c @ buf"
    using pre r assms(2) bw_flush_Ok [of S n buf w y b1 w1] by (auto split: if_splits)
  show ?thesis
  proof (cases "buf_capacity \<le> length bs")
    case False
    with assms(1) pre r \<open>\<not> length bs < _\<close> have "buf' = b1 @ bs" "w' = w1" by (auto simp: bw_write_all_def)
    with 1 show ?thesis by auto
  next
    case True
    with assms(1) pre r \<open>\<not> length bs < _\<close> have wr: "fs_write S n bs w1 = (Inr x, w')" and b: "buf' = b1"
      by (auto simp: bw_write_all_def split: prod.splits)
    have "b1 = []"
    proof (cases "buf_capacity - length buf < length bs")
      case True
      with pre r show ?thesis using bw_flush_Ok [OF _ assms(2)] by auto
    next
      case no: False
      with True have "length buf = 0" using \<open>\<not> length bs < _\<close> unfolding buf_capacity_def by arith
      with no pre show ?thesis by simp
    qed
    with 1 b fs_write_Ok [OF wr] show ?thesis by (auto simp: append_file_def)
  qed
qed

end
