(* ===== verification/Spool.thy ===== *)
theory Spool
  imports File_System Json_Scan "HOL-Library.Multiset"
begin

text \<open>
  Model of the spool writer of \<open>src/src/shipper.rs\<close>: the padding of a closed file, the publication under
  a fresh name, the per-dataset writers with their rotation by size and age, finalisation, and the
  incremental pruning of quarantined files.  A path is its file name in the spool directory; a dataset
  slug is taken to hold no path separator.  The serialiser of a document is a parameter.  The lemmas here are
  the laws of the state's fields; \<open>Spool_Safety\<close> and \<open>Spool_Stream\<close> hold the theorems.
\<close>

section \<open>State\<close>

record seq_fs = fs +
  next_seq :: nat

record dataset_spool =
  ds_active :: string
  ds_buf :: bytes
  ds_bytes :: nat
  ds_started :: nat

record spool_state = seq_fs +
  max_file_bytes :: nat
  max_file_age :: nat
  retention :: nat
  spools :: "(string \<times> dataset_spool) list"
  retention_scan :: "string list option"

definition sp_insert :: "string \<Rightarrow> dataset_spool \<Rightarrow> 'z spool_state_scheme \<Rightarrow> 'z spool_state_scheme" where
  "sp_insert slug d st = st\<lparr>spools := (slug, d) # filter (\<lambda>p. fst p \<noteq> slug) (spools st)\<rparr>"

definition sp_remove :: "string \<Rightarrow> 'z spool_state_scheme \<Rightarrow> 'z spool_state_scheme" where
  "sp_remove slug st = st\<lparr>spools := filter (\<lambda>p. fst p \<noteq> slug) (spools st)\<rparr>"

definition sp_get :: "string \<Rightarrow> 'z spool_state_scheme \<Rightarrow> dataset_spool option" where
  "sp_get slug st = map_of (spools st) slug"

definition active_name :: "string \<Rightarrow> string" where
  "active_name slug = ''rigsignal-'' @ slug @ ''.ndjson.tmp''"

definition target_name :: "string \<Rightarrow> nat \<Rightarrow> nat \<Rightarrow> string \<Rightarrow> string" where
  "target_name slug millis seq extension =
     ''rigsignal-'' @ slug @ ''-'' @ show_nat millis @ ''-'' @ show_nat seq @ ''.'' @ extension"

definition dataset_slug :: "string \<Rightarrow> string" where
  "dataset_slug dataset = last (split_on CHR ''.'' dataset)"

definition is_retained_quarantine_file :: "string \<Rightarrow> bool" where
  "is_retained_quarantine_file name \<longleftrightarrow>
     utf8_valid name \<and> starts_with ''rigsignal-'' name \<and> ends_with ''.quarantine'' name"

section \<open>Padding and publication\<close>

definition min_published_spool_bytes :: nat where "min_published_spool_bytes = 1024"

definition pad_spool_final :: "sys \<Rightarrow> string \<Rightarrow> (nat, 'z) io" where
  "pad_spool_final S path =
     io_bind (fs_len S path) (\<lambda>size.
       if min_published_spool_bytes \<le> size then io_return size
       else if size = 0 then io_fail PadEmpty
       else
         io_bind (fs_open S path) (\<lambda>content.
         io_bind (fs_touch S) (\<lambda>_.
         io_bind (fs_touch S) (\<lambda>_.
           if content ! (size - 1) \<noteq> CHR 0x0A then io_fail PadNoNewline
           else
             io_bind (fs_set_len S path (size - 1)) (\<lambda>_.
             io_bind (fs_touch S) (\<lambda>_.
             io_bind (fs_write S path (replicate (min_published_spool_bytes - size) CHR '' '')) (\<lambda>_.
             io_bind (fs_write S path [CHR 0x0A]) (\<lambda>_.
             io_return min_published_spool_bytes))))))))"

definition bump_seq :: "'z seq_fs_scheme \<Rightarrow> 'z seq_fs_scheme" where
  "bump_seq w = w\<lparr>next_seq := saturating_inc_u32 (next_seq w)\<rparr>"

fun publish_loop ::
    "nat \<Rightarrow> sys \<Rightarrow> string \<Rightarrow> string \<Rightarrow> string \<Rightarrow> nat \<Rightarrow> 'z seq_fs_scheme \<Rightarrow> (spool_error, string) result \<times> 'z seq_fs_scheme"
where
  "publish_loop 0 S source slug extension millis w = (Err NoResult, w)"
| "publish_loop (Suc n) S source slug extension millis w =
     (let target = target_name slug millis (next_seq w) extension in
      case fs_create_new S target w of
        (Inr _, w1) \<Rightarrow>
          (case fs_rename S source target w1 of
             (Inl e, w2) \<Rightarrow> (Err e, snd (remove_file_if_exists S target w2))
           | (Inr _, w2) \<Rightarrow> (Ok target, bump_seq w2))
      | (Inl e, w1) \<Rightarrow>
          (if e = AlreadyExists then publish_loop n S source slug extension millis (bump_seq w1)
           else (Err e, w1)))"

definition publish_closed_file ::
    "sys \<Rightarrow> string \<Rightarrow> string \<Rightarrow> string \<Rightarrow> 'z seq_fs_scheme \<Rightarrow> (spool_error, string) result \<times> 'z seq_fs_scheme" where
  "publish_closed_file S source slug extension =
     io_bind (unix_millis S) (\<lambda>millis. publish_loop (fuel S) S source slug extension millis)"

section \<open>Dataset writers\<close>

definition new_spool ::
    "sys \<Rightarrow> string \<Rightarrow> 'z spool_state_scheme \<Rightarrow> (spool_error, dataset_spool) result \<times> 'z spool_state_scheme" where
  "new_spool S slug =
     io_bind (fs_create_trunc S (active_name slug)) (\<lambda>_ w.
       (Ok \<lparr>ds_active = active_name slug, ds_buf = [], ds_bytes = 0, ds_started = mono S (tick w)\<rparr>, w))"

definition reopen_spool ::
    "sys \<Rightarrow> string \<Rightarrow> nat \<Rightarrow> nat \<Rightarrow> 'z spool_state_scheme \<Rightarrow> (spool_error, dataset_spool) result \<times> 'z spool_state_scheme" where
  "reopen_spool S path bytes started =
     io_bind (fs_open S path) (\<lambda>_. io_return \<lparr>ds_active = path, ds_buf = [], ds_bytes = bytes, ds_started = started\<rparr>)"

definition ensure_spool ::
    "sys \<Rightarrow> string \<Rightarrow> 'z spool_state_scheme \<Rightarrow> (spool_error, unit) result \<times> 'z spool_state_scheme" where
  "ensure_spool S slug st =
     (if sp_get slug st = None then io_bind (new_spool S slug) (\<lambda>d st. (Ok (), sp_insert slug d st)) st
      else (Ok (), st))"

text \<open>The end of \<open>close_publish_and_replace\<close>: a fresh active file, if one is wanted.\<close>

definition replace_spool ::
    "sys \<Rightarrow> string \<Rightarrow> bool \<Rightarrow> 'z spool_state_scheme \<Rightarrow> (spool_error, unit) result \<times> 'z spool_state_scheme" where
  "replace_spool S slug replace_active st =
     (if replace_active then io_bind (new_spool S slug) (\<lambda>d st. (Ok (), sp_insert slug d st)) st else (Ok (), st))"

text \<open>Re-opening for append after a failed step, which is then reported.\<close>

definition restore_spool ::
    "sys \<Rightarrow> string \<Rightarrow> string \<Rightarrow> nat \<Rightarrow> nat \<Rightarrow> spool_error \<Rightarrow> 'z spool_state_scheme
      \<Rightarrow> (spool_error, unit) result \<times> 'z spool_state_scheme" where
  "restore_spool S slug path bytes started e =
     io_bind (reopen_spool S path bytes started) (\<lambda>d st. (Err e, sp_insert slug d st))"

definition close_publish_and_replace ::
    "sys \<Rightarrow> string \<Rightarrow> dataset_spool \<Rightarrow> bool \<Rightarrow> 'z spool_state_scheme \<Rightarrow> (spool_error, unit) result \<times> 'z spool_state_scheme" where
  "close_publish_and_replace S slug spool replace_active st =
     (case bw_flush S (ds_active spool) (ds_buf spool) st of
        (Inl e, buf, st1) \<Rightarrow> (Err e, sp_insert slug (spool\<lparr>ds_buf := buf\<rparr>) st1)
      | (Inr _, _, st1) \<Rightarrow>
        (if ds_bytes spool = 0
         then io_bind (remove_file_if_exists S (ds_active spool)) (\<lambda>_. replace_spool S slug replace_active) st1
         else
           (case pad_spool_final S (ds_active spool) st1 of
              (Inl e, st2) \<Rightarrow> restore_spool S slug (ds_active spool) (ds_bytes spool) (ds_started spool) e st2
            | (Inr published, st2) \<Rightarrow>
              (case publish_closed_file S (ds_active spool) slug ''ndjson'' st2 of
                 (Inl e, st3) \<Rightarrow> restore_spool S slug (ds_active spool) published (ds_started spool) e st3
               | (Inr _, st3) \<Rightarrow> replace_spool S slug replace_active st3))))"

definition rotate_spool ::
    "sys \<Rightarrow> string \<Rightarrow> 'z spool_state_scheme \<Rightarrow> (spool_error, unit) result \<times> 'z spool_state_scheme" where
  "rotate_spool S slug st =
     (case sp_get slug st of
        None \<Rightarrow> (Err Panicked, st)
      | Some spool \<Rightarrow> close_publish_and_replace S slug spool True (sp_remove slug st))"

definition is_aged :: "sys \<Rightarrow> dataset_spool \<Rightarrow> 'z spool_state_scheme \<Rightarrow> bool" where
  "is_aged S spool st \<longleftrightarrow> max_file_age st * 1000 \<le> mono S (tick st) - ds_started spool"

definition rotate_if_needed ::
    "sys \<Rightarrow> string \<Rightarrow> 'z spool_state_scheme \<Rightarrow> (spool_error, unit) result \<times> 'z spool_state_scheme" where
  "rotate_if_needed S slug st =
     (case sp_get slug st of
        None \<Rightarrow> (Err Panicked, st)
      | Some spool \<Rightarrow>
        (if 0 < max_file_bytes st \<and> max_file_bytes st < ds_bytes spool \<or> 0 < max_file_age st \<and> is_aged S spool st
         then rotate_spool S slug st else (Ok (), st)))"

section \<open>Writing documents\<close>

definition doc_slug :: "json \<Rightarrow> string" where
  "doc_slug doc =
     (case do { ds \<leftarrow> get ''data_stream'' doc; d \<leftarrow> get ''dataset'' ds; as_str d } of
        Some dataset \<Rightarrow> dataset_slug dataset | None \<Rightarrow> ''unknown'')"

definition write_line ::
    "sys \<Rightarrow> string \<Rightarrow> bytes \<Rightarrow> 'z spool_state_scheme \<Rightarrow> (spool_error, unit) result \<times> 'z spool_state_scheme" where
  "write_line S slug line st =
     (case sp_get slug st of
        None \<Rightarrow> (Err Panicked, st)
      | Some sp \<Rightarrow>
        (case bw_write_all S (ds_active sp) line (ds_buf sp) st of
           (Inl e, buf1, st1) \<Rightarrow> (Err e, sp_insert slug (sp\<lparr>ds_buf := buf1\<rparr>) st1)
         | (Inr _, buf1, st1) \<Rightarrow>
           (case bw_write_all S (ds_active sp) [CHR 0x0A] buf1 st1 of
              (Inl e, buf2, st2) \<Rightarrow> (Err e, sp_insert slug (sp\<lparr>ds_buf := buf2\<rparr>) st2)
            | (Inr _, buf2, st2) \<Rightarrow>
                rotate_if_needed S slug
                  (sp_insert slug (sp\<lparr>ds_buf := buf2, ds_bytes := ds_bytes sp + length line + 1\<rparr>) st2))))"

fun write_group ::
    "sys \<Rightarrow> (json \<Rightarrow> bytes option) \<Rightarrow> string \<Rightarrow> json list \<Rightarrow> 'z spool_state_scheme
      \<Rightarrow> (spool_error, unit) result \<times> 'z spool_state_scheme" where
  "write_group S ser slug [] st = (Ok (), st)"
| "write_group S ser slug (doc # docs) st =
     (case ser doc of
        None \<Rightarrow> (Err Serialise, st)
      | Some line \<Rightarrow> io_bind (write_line S slug line) (\<lambda>_. write_group S ser slug docs) st)"

definition flush_spool ::
    "sys \<Rightarrow> string \<Rightarrow> 'z spool_state_scheme \<Rightarrow> (spool_error, unit) result \<times> 'z spool_state_scheme" where
  "flush_spool S slug st =
     (case sp_get slug st of
        None \<Rightarrow> (Err Panicked, st)
      | Some sp \<Rightarrow>
        (case bw_flush S (ds_active sp) (ds_buf sp) st of
           (r, buf, st1) \<Rightarrow> (r, sp_insert slug (sp\<lparr>ds_buf := buf\<rparr>) st1)))"

fun write_groups ::
    "sys \<Rightarrow> (json \<Rightarrow> bytes option) \<Rightarrow> json list \<Rightarrow> string list \<Rightarrow> 'z spool_state_scheme
      \<Rightarrow> (spool_error, unit) result \<times> 'z spool_state_scheme" where
  "write_groups S ser docs [] st = (Ok (), st)"
| "write_groups S ser docs (slug # slugs) st =
     io_bind (ensure_spool S slug) (\<lambda>_.
     io_bind (write_group S ser slug (filter (\<lambda>d. doc_slug d = slug) docs)) (\<lambda>_.
     io_bind (flush_spool S slug) (\<lambda>_.
     write_groups S ser docs slugs))) st"

definition write_docs ::
    "sys \<Rightarrow> (json \<Rightarrow> bytes option) \<Rightarrow> json list \<Rightarrow> 'z spool_state_scheme
      \<Rightarrow> (spool_error, unit) result \<times> 'z spool_state_scheme" where
  "write_docs S ser docs st =
     (if docs = [] then (Ok (), st)
      else write_groups S ser docs (order S (tick st) (remdups (map doc_slug docs))) st)"

section \<open>Pruning, stale rotation and finalisation\<close>

text \<open>\<open>metadata()?.modified().unwrap_or(now)\<close>, and the cutoff, both in milliseconds since the epoch.\<close>

definition entry_mtime :: "sys \<Rightarrow> nat \<Rightarrow> string \<Rightarrow> nat" where
  "entry_mtime S t name = (case modified S t name of Some m \<Rightarrow> m | None \<Rightarrow> (case wall S t of Some n \<Rightarrow> n | None \<Rightarrow> 0))"

definition retention_cutoff :: "sys \<Rightarrow> nat \<Rightarrow> nat \<Rightarrow> nat" where
  "retention_cutoff S t secs = (case wall S t of Some n \<Rightarrow> n - secs * 1000 | None \<Rightarrow> 0)"

fun prune_loop ::
    "sys \<Rightarrow> nat \<Rightarrow> nat \<Rightarrow> nat \<Rightarrow> 'z spool_state_scheme \<Rightarrow> (spool_error, unit) result \<times> 'z spool_state_scheme" where
  "prune_loop S cutoff 0 budget st = (Ok (), st)"
| "prune_loop S cutoff (Suc n) budget st =
     (case retention_scan st of
        None \<Rightarrow> (Err Panicked, st)
      | Some [] \<Rightarrow> (Ok (), st\<lparr>retention_scan := None\<rparr>)
      | Some (name # rest) \<Rightarrow>
          io_bind (fs_touch S) (\<lambda>_ st.
            if 0 < budget \<and> is_retained_quarantine_file name
            then io_bind (fs_touch S) (\<lambda>_ st.
                   if entry_mtime S (tick st) name < cutoff
                   then io_bind (remove_file_if_exists S name) (\<lambda>_. prune_loop S cutoff n (budget - 1)) st
                   else prune_loop S cutoff n budget st) st
            else prune_loop S cutoff n budget st) (st\<lparr>retention_scan := Some rest\<rparr>))"

definition prune_with_limits ::
    "sys \<Rightarrow> nat \<Rightarrow> nat \<Rightarrow> 'z spool_state_scheme \<Rightarrow> (spool_error, unit) result \<times> 'z spool_state_scheme" where
  "prune_with_limits S scan_batch prune_batch st =
     (if retention st = 0 then (Ok (), st)
      else io_bind (\<lambda>st. if retention_scan st = None
                         then io_bind (fs_read_dir S) (\<lambda>names st. (Ok (), st\<lparr>retention_scan := Some names\<rparr>)) st
                         else (Ok (), st))
             (\<lambda>_ st. prune_loop S (retention_cutoff S (tick st) (retention st)) scan_batch prune_batch st) st)"

definition retention_scan_batch :: nat where "retention_scan_batch = 1000"
definition retention_prune_batch :: nat where "retention_prune_batch = 1000"

definition prune_retained_quarantines ::
    "sys \<Rightarrow> 'z spool_state_scheme \<Rightarrow> (spool_error, unit) result \<times> 'z spool_state_scheme" where
  "prune_retained_quarantines S = prune_with_limits S retention_scan_batch retention_prune_batch"

fun rotate_all ::
    "sys \<Rightarrow> string list \<Rightarrow> 'z spool_state_scheme \<Rightarrow> (spool_error, unit) result \<times> 'z spool_state_scheme" where
  "rotate_all S [] st = (Ok (), st)"
| "rotate_all S (slug # slugs) st = io_bind (rotate_spool S slug) (\<lambda>_. rotate_all S slugs) st"

definition is_stale :: "sys \<Rightarrow> 'z spool_state_scheme \<Rightarrow> string \<Rightarrow> bool" where
  "is_stale S st slug \<longleftrightarrow>
     (case sp_get slug st of None \<Rightarrow> False | Some spool \<Rightarrow> 0 < ds_bytes spool \<and> is_aged S spool st)"

definition rotate_stale_files ::
    "sys \<Rightarrow> 'z spool_state_scheme \<Rightarrow> (spool_error, unit) result \<times> 'z spool_state_scheme" where
  "rotate_stale_files S =
     io_bind (prune_retained_quarantines S) (\<lambda>_ st.
       if max_file_age st = 0 then (Ok (), st)
       else rotate_all S (filter (is_stale S st) (order S (tick st) (map fst (spools st)))) st)"

fun finalize_loop ::
    "sys \<Rightarrow> string list \<Rightarrow> spool_error option \<Rightarrow> 'z spool_state_scheme
      \<Rightarrow> (spool_error, unit) result \<times> 'z spool_state_scheme" where
  "finalize_loop S [] first_error st =
     (case first_error of None \<Rightarrow> (Ok (), st) | Some e \<Rightarrow> (Err e, st))"
| "finalize_loop S (slug # slugs) first_error st =
     (case sp_get slug st of
        None \<Rightarrow> (Err Panicked, st)
      | Some spool \<Rightarrow>
        (case close_publish_and_replace S slug spool False (sp_remove slug st) of
           (Inl e, st1) \<Rightarrow> finalize_loop S slugs (if first_error = None then Some e else first_error) st1
         | (Inr _, st1) \<Rightarrow> finalize_loop S slugs first_error st1))"

definition finalize_all ::
    "sys \<Rightarrow> 'z spool_state_scheme \<Rightarrow> (spool_error, unit) result \<times> 'z spool_state_scheme" where
  "finalize_all S st = finalize_loop S (order S (tick st) (map fst (spools st))) None st"

section \<open>Field laws\<close>

lemma fget_update [simp]:
  "fget (w\<lparr>next_seq := k\<rparr>) m = fget w m" "fget (st\<lparr>spools := xs\<rparr>) m = fget st m"
  "fget (st\<lparr>retention_scan := r\<rparr>) m = fget st m"
  by (simp_all add: fget_def)

lemma bump_seq_simps [simp]:
  "fget (bump_seq w) m = fget w m" "renames (bump_seq w) = renames w" "seq_fs.more (bump_seq w) = seq_fs.more w"
  by (simp_all add: bump_seq_def)

lemma sp_simps [simp]:
  "sp_get s (sp_insert slug d st) = (if s = slug then Some d else sp_get s st)"
  "sp_get s (sp_remove slug st) = (if s = slug then None else sp_get s st)"
  "fget (sp_insert slug d st) m = fget st m" "fget (sp_remove slug st) m = fget st m"
  "renames (sp_insert slug d st) = renames st" "renames (sp_remove slug st) = renames st"
  by (simp_all add: sp_get_def sp_insert_def sp_remove_def fget_def map_of_filter_other)

lemma sp_get_scan [simp]: "sp_get s (st\<lparr>retention_scan := r\<rparr>) = sp_get s st"
  by (simp add: sp_get_def)

lemma spools_of_more: "seq_fs.more st' = seq_fs.more st \<Longrightarrow> sp_get s st' = sp_get s (st :: 'z spool_state_scheme)"
proof -
  assume *: "seq_fs.more st' = seq_fs.more st"
  have "spools x = spools (seq_fs.extend undefined (seq_fs.more x))" for x :: "'z spool_state_scheme"
    by (cases x) (simp add: seq_fs.defs)
  then show ?thesis by (metis * sp_get_def)
qed

lemma touches_spools: "touches N st st' \<Longrightarrow> sp_get s st' = sp_get s (st :: 'z spool_state_scheme)"
proof (rule spools_of_more)
  assume "touches N st st'"
  then have "fs.more st' = fs.more st" by (simp add: touches_def)
  moreover have "seq_fs.more x = seq_fs.more (fs.extend undefined (fs.more x))" for x :: "'z spool_state_scheme"
    by (cases x) (simp add: fs.defs)
  ultimately show "seq_fs.more st' = seq_fs.more st" by metis
qed

lemma touches_next_seq: "touches N w w' \<Longrightarrow> next_seq w' = next_seq (w :: 'z seq_fs_scheme)"
proof -
  assume "touches N w w'"
  then have "fs.more w' = fs.more w" by (simp add: touches_def)
  moreover have "next_seq x = next_seq (fs.extend undefined (fs.more x))" for x :: "'z seq_fs_scheme"
    by (cases x) (simp add: fs.defs)
  ultimately show ?thesis by metis
qed

section \<open>A concrete system\<close>

text \<open>A system without faults, a schedule with one, and a state with one published file, for the witnesses.\<close>

definition sample_sys :: sys where
  "sample_sys = \<lparr>fault = (\<lambda>_. None), wall = (\<lambda>_. Some 5), mono = (\<lambda>_. 0), order = (\<lambda>_ xs. xs),
     modified = (\<lambda>_ _. None), fuel = 9\<rparr>"

definition faulty_sys :: sys where
  "faulty_sys = sample_sys\<lparr>fault := (\<lambda>n. if n = 1 then Some 1 else None)\<rparr>"

definition sample_spool :: spool_state where
  "sample_spool = \<lparr>files = [(''a.ndjson'', ''x'')], tick = 0, renames = [], next_seq = 1, max_file_bytes = 0,
     max_file_age = 0, retention = 0, spools = [], retention_scan = None\<rparr>"

definition sample_ser :: "json \<Rightarrow> bytes option" where
  "sample_ser doc = Some ''{}''"

end
