(* ===== verification/Spool_Safety.thy ===== *)
theory Spool_Safety
  imports Spool
begin

text \<open>
  What the spool writer never does, for every schedule of I/O faults: change or remove a published file,
  or remove anything but old quarantined files when it prunes.  Each operation has one lemma saying that it is a
  safe step; the properties follow by rule induction on runs of the writer.
\<close>

section \<open>Published files are never changed\<close>

text \<open>A final file is one whose name the delivery side reads.\<close>

definition is_final :: "string \<Rightarrow> bool" where
  "is_final name \<longleftrightarrow> ends_with ''.ndjson'' name"

definition finals_kept :: "'z fs_scheme \<Rightarrow> 'y fs_scheme \<Rightarrow> bool" where
  "finals_kept w w' \<longleftrightarrow> (\<forall>m c. is_final m \<longrightarrow> fget w m = Some c \<longrightarrow> fget w' m = Some c)"

lemma finals_kept_refl [simp]: "finals_kept w w"
  by (simp add: finals_kept_def)

lemma finals_kept_trans: "finals_kept w w' \<Longrightarrow> finals_kept w' w'' \<Longrightarrow> finals_kept w w''"
  by (simp add: finals_kept_def)

lemma touches_finals: "touches N w w' \<Longrightarrow> (\<And>n. n \<in> N \<Longrightarrow> \<not> is_final n) \<Longrightarrow> finals_kept w w'"
  unfolding touches_def finals_kept_def by metis

lemma ends_with_append: "length q \<le> length p \<Longrightarrow> ends_with q (a @ p) \<longleftrightarrow> ends_with q p"
  by (simp add: ends_with_def)

lemma active_not_final [simp]: "\<not> is_final (active_name slug)"
proof -
  have "ends_with ''.ndjson'' (''rigsignal-'' @ slug @ ''.ndjson.tmp'') \<longleftrightarrow> ends_with ''.ndjson'' ''.ndjson.tmp''"
    using ends_with_append [of "''.ndjson''" "''.ndjson.tmp''" "''rigsignal-'' @ slug"] by simp
  then show ?thesis by (simp add: is_final_def active_name_def ends_with_def)
qed

lemma ends_with_last: "ends_with p n \<Longrightarrow> p \<noteq> [] \<Longrightarrow> n \<noteq> [] \<and> last n = last p"
  by (metis append_Nil2 append_take_drop_id ends_with_def last_appendR drop_Nil)

lemma quarantine_not_final: "is_retained_quarantine_file n \<Longrightarrow> \<not> is_final n"
  using ends_with_last [of "''.quarantine''" n] ends_with_last [of "''.ndjson''" n]
  by (auto simp: is_retained_quarantine_file_def is_final_def)

lemma fs_rename_finals:
  assumes "\<not> is_final s" "fget w t = None" "touches {t} w w1" "fs_rename S s t w1 = (r, w2)"
  shows "finals_kept w w2"
proof (cases r)
  case (Inl e)
  with assms(4) have "touches {} w1 w2" by (simp add: fs_rename_Err)
  with assms(2,3) show ?thesis unfolding touches_def finals_kept_def
    by (metis empty_iff option.distinct(1) singletonD)
next
  case (Inr x)
  obtain c where "\<And>m. fget w2 m = (if m = t then Some c else if m = s then None else fget w1 m)"
    using fs_rename_Ok [OF assms(4) [unfolded Inr]] by blast
  with assms(1-3) show ?thesis unfolding touches_def finals_kept_def
    by (metis option.distinct(1) singletonD)
qed

lemma publish_loop_finals:
  "\<not> is_final source \<Longrightarrow> finals_kept w (snd (publish_loop n S source slug extension millis w))"
proof (induction n arbitrary: w)
  case 0
  then show ?case by simp
next
  case (Suc n)
  let ?t = "target_name slug millis (next_seq w) extension"
  obtain r w1 where c: "fs_create_new S ?t w = (r, w1)" by fastforce
  with fs_create_new_touches [of ?t w S] have t1: "touches {?t} w w1" by simp
  show ?case
  proof (cases r)
    case (Inr x)
    with c have new: "fget w ?t = None" by (auto dest: fs_create_new_Ok)
    obtain r2 w2 where ren: "fs_rename S source ?t w1 = (r2, w2)" by fastforce
    have f2: "finals_kept w w2" by (rule fs_rename_finals [OF Suc.prems new t1 ren])
    show ?thesis
    proof (cases r2)
      case (Inl e)
      have "fget w1 ?t = fget w2 ?t" using fs_rename_Err [OF ren [unfolded Inl]] by (simp add: touches_def)
      have "touches {?t} w2 (snd (remove_file_if_exists S ?t w2))" by (rule remove_file_if_exists_touches)
      then have "finals_kept w (snd (remove_file_if_exists S ?t w2))"
        using new f2 unfolding touches_def finals_kept_def by (metis option.distinct(1) singletonD)
      with Inl Inr c ren show ?thesis by (simp add: Let_def)
    next
      case (Inr y)
      with f2 \<open>r = Inr x\<close> c ren show ?thesis by (simp add: Let_def finals_kept_def)
    qed
  next
    case (Inl e)
    show ?thesis
    proof (cases "e = AlreadyExists")
      case True
      have "w1 = tock w" using c Inl True by (auto simp: fs_create_new_def split: option.splits if_splits)
      then have "finals_kept w (bump_seq w1)" by (simp add: finals_kept_def)
      with Suc.IH [OF Suc.prems, of "bump_seq w1"] c Inl True show ?thesis
        by (auto simp: Let_def intro: finals_kept_trans)
    next
      case False
      have "w1 = tock w" using c Inl by (auto simp: fs_create_new_def split: option.splits if_splits)
      with c Inl False show ?thesis by (simp add: Let_def finals_kept_def)
    qed
  qed
qed

text \<open>One step of the writer keeps the names of its active files and every final file.\<close>

definition actives_ok :: "'z spool_state_scheme \<Rightarrow> bool" where
  "actives_ok st \<longleftrightarrow> (\<forall>slug d. sp_get slug st = Some d \<longrightarrow> ds_active d = active_name slug)"

definition safe_step :: "'z spool_state_scheme \<Rightarrow> 'z spool_state_scheme \<Rightarrow> bool" where
  "safe_step st st' \<longleftrightarrow> (actives_ok st \<longrightarrow> actives_ok st' \<and> finals_kept st st')"

named_theorems safe_rules

lemma safe_refl [simp, safe_rules]: "safe_step st st"
  by (simp add: safe_step_def)

lemma safe_trans: "safe_step st st' \<Longrightarrow> safe_step st' st'' \<Longrightarrow> safe_step st st''"
  by (auto simp: safe_step_def intro: finals_kept_trans)

lemma safe_bind:
  assumes "safe_step st (snd (m st))" "\<And>x st'. m st = (Inr x, st') \<Longrightarrow> safe_step st' (snd (f x st'))"
  shows "safe_step st (snd (io_bind m f st))"
  using assms by (cases "m st"; cases "fst (m st)") (auto simp: io_bind_def intro: safe_trans)

lemma safe_touches:
  assumes "touches N st st'" "\<And>n. n \<in> N \<Longrightarrow> \<not> is_final n"
  shows "safe_step st st'"
proof -
  have "finals_kept st st'" using assms by (rule touches_finals)
  moreover have "\<And>s. sp_get s st' = sp_get s st" using assms(1) by (rule touches_spools)
  ultimately show ?thesis by (simp add: safe_step_def actives_ok_def)
qed

lemma finals_kept_sp [simp]:
  "finals_kept w (sp_insert slug d st) = finals_kept w st" "finals_kept w (sp_remove slug st) = finals_kept w st"
  by (simp_all add: finals_kept_def)

lemma actives_ok_insert: "actives_ok st \<Longrightarrow> ds_active d = active_name slug \<Longrightarrow> actives_ok (sp_insert slug d st)"
  by (simp add: actives_ok_def)

lemma safe_insert: "safe_step st st' \<Longrightarrow> ds_active d = active_name slug \<Longrightarrow> safe_step st (sp_insert slug d st')"
  unfolding safe_step_def using actives_ok_insert [of st' d slug] by simp

lemma safe_remove: "safe_step st (sp_remove slug st)"
  by (simp add: safe_step_def actives_ok_def)

lemma safe_scan: "safe_step st (st\<lparr>retention_scan := r\<rparr>)"
  by (simp add: safe_step_def actives_ok_def finals_kept_def)

lemma pad_touches [touch_rules]: "touches {path} w (snd (pad_spool_final S path w))"
proof -
  note weak = touches_mono [OF _ empty_subsetI]
  have "touches {path} w (snd (fs_len S path w))" "touches {path} w (snd (fs_open S path w))"
    "touches {path} w (snd (fs_touch S w))" for w :: "'a fs_scheme"
    by (rule weak, rule touch_rules)+
  then show ?thesis
    by (simp add: pad_spool_final_def io_bind_touches fs_write_touches fs_set_len_touches)
qed

lemma safeI: "(actives_ok st \<Longrightarrow> safe_step st st') \<Longrightarrow> safe_step st st'"
  by (simp add: safe_step_def)

lemma safe_call: "touches {n} st st' \<Longrightarrow> \<not> is_final n \<Longrightarrow> safe_step st st'"
  by (rule safe_touches) auto

lemma safe_quiet: "touches {} st st' \<Longrightarrow> safe_step st st'"
  by (rule safe_touches) auto

lemma publish_closed_file_safe:
  assumes "\<not> is_final source"
  shows "safe_step st (snd (publish_closed_file S source slug extension st))"
  unfolding publish_closed_file_def
proof (rule safe_bind)
  show "safe_step st (snd (unix_millis S st))" by (rule safe_quiet, rule touch_rules)
  fix millis and w :: "'a spool_state_scheme"
  have more: "seq_fs.more (snd (publish_loop n S source slug extension millis w)) = seq_fs.more w" for n
  proof (induction n arbitrary: w)
    case (Suc n)
    have m1: "seq_fs.more (snd (fs_create_new S t w)) = seq_fs.more w" for t
      by (simp add: fs_create_new_def fput_def tock_def split: option.splits)
    have m2: "seq_fs.more (snd (fs_rename S source t w)) = seq_fs.more w" for t and w :: "'a spool_state_scheme"
      by (simp add: fs_rename_def fput_def fdel_def tock_def Let_def split: option.splits)
    have m3: "seq_fs.more (snd (remove_file_if_exists S t w)) = seq_fs.more w" for t and w :: "'a spool_state_scheme"
      by (simp add: remove_file_if_exists_def fs_remove_def fdel_def tock_def split: option.splits)
    show ?case
      using m1 m2 m3 Suc.IH
      by (auto simp: Let_def split: prod.splits sum.splits) (metis snd_conv bump_seq_simps(3))+
  qed simp
  have "finals_kept w (snd (publish_loop (fuel S) S source slug extension millis w))"
    using assms by (rule publish_loop_finals)
  then show "safe_step w (snd (publish_loop (fuel S) S source slug extension millis w))"
    using spools_of_more [OF more] by (simp add: safe_step_def actives_ok_def)
qed

lemma new_spool_safe: "safe_step st (snd (new_spool S slug st))"
  unfolding new_spool_def by (rule safe_bind) (auto intro: safe_call fs_create_trunc_touches)

lemma new_spool_active: "new_spool S slug st = (Inr d, st') \<Longrightarrow> ds_active d = active_name slug"
  by (auto simp: new_spool_def elim!: io_bind_OkE)

lemma replace_spool_safe: "safe_step st (snd (replace_spool S slug replace_active st))"
  unfolding replace_spool_def
  by (auto intro!: safe_bind new_spool_safe safe_insert dest: new_spool_active)

lemma ensure_spool_safe: "safe_step st (snd (ensure_spool S slug st))"
  unfolding ensure_spool_def
  by (auto intro!: safe_bind new_spool_safe safe_insert dest: new_spool_active)

lemma reopen_active: "reopen_spool S path b t st = (Inr d, st') \<Longrightarrow> ds_active d = path"
  by (auto simp: reopen_spool_def elim!: io_bind_OkE)

lemma restore_spool_safe: "safe_step st (snd (restore_spool S slug (active_name slug) b t e st))"
  unfolding restore_spool_def
proof (rule safe_bind)
  show "safe_step st (snd (reopen_spool S (active_name slug) b t st))"
    unfolding reopen_spool_def by (rule safe_bind) (auto intro: safe_quiet fs_open_touches)
qed (auto intro!: safe_insert dest: reopen_active)

lemma close_publish_and_replace_safe:
  assumes "ds_active spool = active_name slug"
  shows "safe_step st (snd (close_publish_and_replace S slug spool replace_active st))"
proof -
  obtain r buf st1 where f: "bw_flush S (active_name slug) (ds_buf spool) st = (r, buf, st1)" by (metis prod_cases3)
  with bw_flush_touches [of "active_name slug" st S "ds_buf spool"] have s1: "safe_step st st1"
    by (auto intro: safe_call)
  obtain rp st2 where p: "pad_spool_final S (active_name slug) st1 = (rp, st2)" by fastforce
  with pad_touches [of "active_name slug" st1 S] have s2: "safe_step st1 st2" by (auto intro: safe_call)
  obtain rq st3 where q: "publish_closed_file S (active_name slug) slug ''ndjson'' st2 = (rq, st3)" by fastforce
  with publish_closed_file_safe [of "active_name slug" st2 S slug "''ndjson''"] have s3: "safe_step st2 st3" by simp
  have rm: "safe_step st1 (snd (io_bind (remove_file_if_exists S (active_name slug)) (\<lambda>_. replace_spool S slug replace_active) st1))"
    by (rule safe_bind) (auto intro: safe_call remove_file_if_exists_touches replace_spool_safe)
  note steps = s1 safe_trans [OF s1 s2] safe_trans [OF safe_trans [OF s1 s2] s3]
  show ?thesis
  proof (cases r)
    case (Inl e)
    with f assms s1 show ?thesis by (auto simp: close_publish_and_replace_def intro: safe_insert)
  next
    case (Inr x)
    show ?thesis
    proof (cases "ds_bytes spool = 0")
      case True
      with Inr f assms safe_trans [OF s1 rm] show ?thesis by (simp add: close_publish_and_replace_def)
    next
      case False
      with Inr f p q assms show ?thesis
        by (cases rp; cases rq)
          (simp_all add: close_publish_and_replace_def safe_trans [OF steps(2) restore_spool_safe]
            safe_trans [OF steps(3) restore_spool_safe] safe_trans [OF steps(3) replace_spool_safe])
    qed
  qed
qed

lemma rotate_spool_safe: "safe_step st (snd (rotate_spool S slug st))"
proof (rule safeI)
  assume "actives_ok st"
  then show ?thesis
    by (auto simp: rotate_spool_def actives_ok_def split: option.splits
        intro: safe_trans [OF safe_remove close_publish_and_replace_safe])
qed

lemma rotate_if_needed_safe: "safe_step st (snd (rotate_if_needed S slug st))"
  by (simp add: rotate_if_needed_def rotate_spool_safe split: option.splits)

lemma write_line_safe: "safe_step st (snd (write_line S slug line st))"
proof (cases "sp_get slug st")
  case None
  then show ?thesis by (simp add: write_line_def)
next
  case (Some sp)
  show ?thesis
  proof (rule safeI)
    assume "actives_ok st"
    with Some have a: "ds_active sp = active_name slug" by (simp add: actives_ok_def)
    obtain r1 buf1 st1 where w1: "bw_write_all S (active_name slug) line (ds_buf sp) st = (r1, buf1, st1)"
      by (metis prod_cases3)
    with bw_write_all_touches [of "active_name slug" st S line "ds_buf sp"] have s1: "safe_step st st1"
      by (auto intro: safe_call)
    obtain r2 buf2 st2 where w2: "bw_write_all S (active_name slug) [CHR 0x0A] buf1 st1 = (r2, buf2, st2)"
      by (metis prod_cases3)
    with bw_write_all_touches [of "active_name slug" st1 S "[CHR 0x0A]" buf1] have "safe_step st1 st2"
      by (auto intro: safe_call)
    with s1 have s2: "safe_step st st2" by (rule safe_trans)
    have i: "safe_step st (snd (rotate_if_needed S slug (sp_insert slug (sp\<lparr>ds_buf := b, ds_bytes := n\<rparr>) st2)))" for b n
      by (rule safe_trans [OF safe_insert rotate_if_needed_safe]) (simp_all add: s2 a)
    show ?thesis using Some a w1 w2 s1 s2 i
      by (cases r1; cases r2) (auto simp: write_line_def intro: safe_insert)
  qed
qed

lemma write_group_safe: "safe_step st (snd (write_group S ser slug docs st))"
  by (induction docs arbitrary: st) (auto split: option.splits intro!: safe_bind write_line_safe)

lemma flush_spool_safe: "safe_step st (snd (flush_spool S slug st))"
proof (rule safeI)
  assume "actives_ok st"
  then show ?thesis
    using bw_flush_touches [of "active_name slug" st S]
    by (auto simp: flush_spool_def actives_ok_def split: option.splits prod.splits intro!: safe_insert)
      (metis active_not_final safe_call snd_conv)+
qed

lemma write_groups_safe: "safe_step st (snd (write_groups S ser docs slugs st))"
  by (induction slugs arbitrary: st) (auto intro!: safe_bind ensure_spool_safe write_group_safe flush_spool_safe)

lemma prune_loop_safe: "safe_step st (snd (prune_loop S cutoff n budget st))"
proof (induction n arbitrary: budget st)
  case (Suc n)
  have q: "safe_step st (snd (fs_touch S st))" for st by (rule safe_quiet, rule touch_rules)
  have rm: "safe_step st (snd (remove_file_if_exists S name st))" if "is_retained_quarantine_file name" for name st
    using remove_file_if_exists_touches quarantine_not_final [OF that] by (rule safe_call)
  show ?case
  proof (cases "retention_scan st")
    case None
    then show ?thesis by simp
  next
    case (Some names)
    show ?thesis
    proof (cases names)
      case Nil
      with Some show ?thesis by (simp add: safe_scan)
    next
      case (Cons name rest)
      let ?st = "st\<lparr>retention_scan := Some rest\<rparr>"
      have "safe_step ?st (snd (prune_loop S cutoff (Suc n) budget st))"
        using Some Cons by (auto simp: Let_def intro!: safe_bind q rm Suc.IH)
      then show ?thesis by (rule safe_trans [OF safe_scan])
    qed
  qed
qed simp

lemma prune_with_limits_safe: "safe_step st (snd (prune_with_limits S scan_batch prune_batch st))"
proof -
  have "safe_step st (snd (fs_read_dir S st))" for st by (rule safe_quiet, rule touch_rules)
  then show ?thesis
    by (auto simp: prune_with_limits_def Let_def intro!: safe_bind prune_loop_safe safe_scan)
qed

lemma rotate_all_safe: "safe_step st (snd (rotate_all S slugs st))"
  by (induction slugs arbitrary: st) (auto intro!: safe_bind rotate_spool_safe)

lemma rotate_stale_files_safe: "safe_step st (snd (rotate_stale_files S st))"
  by (auto simp: rotate_stale_files_def prune_retained_quarantines_def
      intro!: safe_bind prune_with_limits_safe rotate_all_safe)

lemma finalize_loop_safe: "safe_step st (snd (finalize_loop S slugs first st))"
proof (induction slugs arbitrary: first st)
  case (Cons slug slugs)
  show ?case
  proof (rule safeI)
    assume a: "actives_ok st"
    show ?thesis
    proof (cases "sp_get slug st")
      case (Some d)
      with a have "ds_active d = active_name slug" by (simp add: actives_ok_def)
      then have "safe_step st (snd (close_publish_and_replace S slug d False (sp_remove slug st)))"
        by (rule safe_trans [OF safe_remove close_publish_and_replace_safe])
      with Some Cons.IH show ?thesis by (auto split: prod.splits sum.splits intro: safe_trans)
    qed simp
  qed
qed (simp split: option.splits)

section \<open>What pruning removes\<close>

text \<open>\<open>st'\<close> lacks at most \<open>k\<close> files of \<open>st\<close>, all of them quarantined and older than \<open>cutoff\<close>, and has the rest.\<close>

definition pruned :: "sys \<Rightarrow> nat \<Rightarrow> nat \<Rightarrow> 'z spool_state_scheme \<Rightarrow> 'z spool_state_scheme \<Rightarrow> bool" where
  "pruned S cutoff k st st' \<longleftrightarrow>
     (\<exists>D. finite D \<and> card D \<le> k \<and> (\<forall>m \<in> D. is_retained_quarantine_file m \<and> (\<exists>t. entry_mtime S t m < cutoff))
        \<and> (\<forall>m. fget st' m = (if m \<in> D then None else fget st m)))"

lemma pruned_same: "(\<And>m. fget st' m = fget st m) \<Longrightarrow> pruned S cutoff k st st'"
  unfolding pruned_def by (rule exI [of _ "{}"]) simp

lemma pruned_pre:
  assumes "\<And>m. fget st' m = fget st m" "pruned S cutoff k st' st''"
  shows "pruned S cutoff k st st''"
proof -
  from assms(1) have "fget st' = fget st" by (rule ext)
  with assms(2) show ?thesis by (simp only: pruned_def)
qed

lemma pruned_remove:
  assumes "is_retained_quarantine_file name" "entry_mtime S t name < cutoff" "0 < k"
    "\<And>m. fget st1 m = (if m = name then None else fget st m)" "pruned S cutoff (k - 1) st1 st'"
  shows "pruned S cutoff k st st'"
proof -
  from assms(5) obtain D where D: "finite D" "card D \<le> k - 1"
    "\<forall>m \<in> D. is_retained_quarantine_file m \<and> (\<exists>t. entry_mtime S t m < cutoff)"
    "\<forall>m. fget st' m = (if m \<in> D then None else fget st1 m)" by (auto simp: pruned_def)
  have "card (insert name D) \<le> Suc (card D)" by (rule card_insert_le_m1) simp_all
  with D assms show ?thesis unfolding pruned_def by (intro exI [of _ "insert name D"]) auto
qed

lemma touches_quiet: "touches {} w w' \<Longrightarrow> fget w' m = fget w m"
  by (simp add: touches_def)

lemma remove_if_exists_get:
  "remove_file_if_exists S n w = (Inr u, w') \<Longrightarrow> fget w' m = (if m = n then None else fget w m)"
  "remove_file_if_exists S n w = (Inl e, w') \<Longrightarrow> fget w' m = fget w m"
  by (auto simp: remove_file_if_exists_def fs_remove_def split: option.splits if_splits)

lemma prune_loop_pruned: "pruned S cutoff budget st (snd (prune_loop S cutoff n budget st))"
proof (induction n arbitrary: budget st)
  case (Suc n)
  have q: "fget (snd (fs_touch S st)) m = fget st m" for st :: "'a spool_state_scheme" and m
    by (rule touches_quiet [OF fs_touch_touches])
  show ?case
  proof (cases "retention_scan st")
    case None
    then show ?thesis by (simp add: pruned_same)
  next
    case (Some names)
    show ?thesis
    proof (cases names)
      case Nil
      with Some show ?thesis by (simp add: pruned_same)
    next
      case (Cons name rest)
      let ?st = "st\<lparr>retention_scan := Some rest\<rparr>"
      obtain r1 s1 where t1: "fs_touch S ?st = (r1, s1)" by fastforce
      with q [of ?st] have g1: "fget s1 m = fget st m" for m by simp
      obtain r2 s2 where t2: "fs_touch S s1 = (r2, s2)" by fastforce
      with q [of s1] g1 have g2: "fget s2 m = fget st m" for m by simp
      obtain r3 s3 where t3: "remove_file_if_exists S name s2 = (r3, s3)" by fastforce
      note eval = Some Cons t1 t2 t3 io_bind_def
      have keep1: "pruned S cutoff budget st (snd (prune_loop S cutoff n budget s1))"
        and keep2: "pruned S cutoff budget st (snd (prune_loop S cutoff n budget s2))"
        using g1 g2 Suc.IH by (blast intro: pruned_pre)+
      have gone: "pruned S cutoff budget st (snd (prune_loop S cutoff n (budget - 1) s3))"
        if "is_retained_quarantine_file name" "entry_mtime S (tick s2) name < cutoff" "0 < budget" "r3 = Inr u" for u
        using that remove_if_exists_get(1) [OF t3 [unfolded that(4)]] g2 Suc.IH
        by (intro pruned_remove [of name S "tick s2" cutoff budget s3]) simp_all
      have err: "pruned S cutoff budget st s3" if "r3 = Inl e" for e
        using remove_if_exists_get(2) [OF t3 [unfolded that]] g2 by (intro pruned_same) simp
      show ?thesis
        using keep1 keep2 gone err pruned_same [of s1 st] pruned_same [of s2 st] g1 g2
        by (cases r1; cases r2; cases r3) (simp_all add: eval)
    qed
  qed
qed (simp add: pruned_same)

section \<open>Properties\<close>

text \<open>Any sequence of calls on the writer, each of which may fail.\<close>

inductive spool_run :: "sys \<Rightarrow> (json \<Rightarrow> bytes option) \<Rightarrow> 'z spool_state_scheme \<Rightarrow> 'z spool_state_scheme \<Rightarrow> bool"
  for S ser st where
  start: "spool_run S ser st st"
| wrote: "spool_run S ser st st' \<Longrightarrow> spool_run S ser st (snd (write_docs S ser docs st'))"
| stale: "spool_run S ser st st' \<Longrightarrow> spool_run S ser st (snd (rotate_stale_files S st'))"
| finalize: "spool_run S ser st st' \<Longrightarrow> spool_run S ser st (snd (finalize_all S st'))"

lemma spool_run_safe: "spool_run S ser st st' \<Longrightarrow> safe_step st st'"
proof (induction rule: spool_run.induct)
  case (wrote st' docs)
  have "safe_step st' (snd (write_docs S ser docs st'))" by (simp add: write_docs_def write_groups_safe)
  with wrote show ?case by (blast intro: safe_trans)
next
  case (stale st')
  then show ?case using rotate_stale_files_safe by (blast intro: safe_trans)
next
  case (finalize st')
  have "safe_step st' (snd (finalize_all S st'))" by (simp add: finalize_all_def finalize_loop_safe)
  with finalize show ?case by (blast intro: safe_trans)
qed simp

text \<open>C4: A published file is immutable for the producer: whatever calls the writer makes after a start with no
  open dataset, and whatever I/O faults occur in them, a file that once had a final name keeps its content.\<close>

theorem published_files_immutable:
  assumes "spools st0 = []" "spool_run S ser st0 st1" "spool_run S ser st1 st2"
    "ends_with ''.ndjson'' name" "fget st1 name = Some c"
  shows "fget st2 name = Some c"
proof -
  have "actives_ok st0" using assms(1) by (simp add: actives_ok_def sp_get_def)
  with spool_run_safe [OF assms(2)] have "actives_ok st1" by (simp add: safe_step_def)
  with spool_run_safe [OF assms(3)] have "finals_kept st1 st2" by (simp add: safe_step_def)
  with assms(4,5) show ?thesis by (simp add: finals_kept_def is_final_def)
qed

theorem published_files_immutable_witness:
  "fget (snd (write_docs faulty_sys sample_ser [JNull] sample_spool)) ''a.ndjson'' = Some ''x''"
proof (rule published_files_immutable [where S = faulty_sys and ser = sample_ser])
  show "spools sample_spool = []" "fget sample_spool ''a.ndjson'' = Some ''x''"
    by (simp_all add: sample_spool_def fget_def)
  show "spool_run faulty_sys sample_ser sample_spool sample_spool" by (rule start)
  then show "spool_run faulty_sys sample_ser sample_spool (snd (write_docs faulty_sys sample_ser [JNull] sample_spool))"
    by (rule wrote)
qed (simp add: ends_with_def)

text \<open>Pruning removes nothing but quarantined files older than the retention period, at most the batch limit of
  them per call, and leaves every other file unchanged, whatever faults occur.\<close>

theorem prune_only_old_quarantines:
  "\<exists>D t. finite D \<and> card D \<le> prune_batch
     \<and> (\<forall>m. fget (snd (prune_with_limits S scan_batch prune_batch st)) m = (if m \<in> D then None else fget st m))
     \<and> D \<subseteq> {m. is_retained_quarantine_file m \<and> (\<exists>t'. entry_mtime S t' m < retention_cutoff S t (retention st))}"
proof -
  let ?res = "snd (prune_with_limits S scan_batch prune_batch st)"
  have weaken: ?thesis if "pruned S (retention_cutoff S t (retention st)) prune_batch st ?res" for t
    using that unfolding pruned_def by blast
  show ?thesis
  proof (cases "retention st = 0")
    case True
    then have "pruned S (retention_cutoff S 0 (retention st)) prune_batch st ?res"
      by (simp add: prune_with_limits_def pruned_same)
    then show ?thesis by (rule weaken)
  next
    case False
    let ?m = "\<lambda>st. if retention_scan st = None
        then io_bind (fs_read_dir S) (\<lambda>names st. (Ok (), st\<lparr>retention_scan := Some names\<rparr>)) st else (Ok (), st)"
    obtain r s1 where m: "?m st = (r, s1)" by fastforce
    have g: "fget s1 x = fget st x" and ret: "retention s1 = retention st" for x
      using m by (auto simp: io_bind_def fs_read_dir_def tock_def fget_def split: if_splits option.splits)
    have "pruned S (retention_cutoff S (tick s1) (retention st)) prune_batch st ?res"
    proof (cases r)
      case (Inl e)
      with False m g show ?thesis by (simp add: prune_with_limits_def io_bind_def pruned_same)
    next
      case (Inr u)
      with False m have "?res = snd (prune_loop S (retention_cutoff S (tick s1) (retention st)) scan_batch prune_batch s1)"
        by (simp add: prune_with_limits_def io_bind_def ret)
      with prune_loop_pruned g show ?thesis by (metis pruned_pre)
    qed
    then show ?thesis by (rule weaken)
  qed
qed

end
