(* ===== verification/Spool_Stream.thy ===== *)
theory Spool_Stream
  imports Spool_Safety
begin

text \<open>
  What a successful call of the spool writer does.  The stream of a dataset is the sequence of records in the
  files published from its active file, in the active file and in the buffer; the lemmas show that
  each operation that reports success extends the streams by exactly the documents written.
  The search for a free file name is shown to end, and shown not to end once the sequence number saturates.
\<close>

section \<open>The records of a file\<close>

text \<open>The non-empty lines, without the spaces at their end that padding may have added.\<close>

definition rstrip :: "bytes \<Rightarrow> bytes" where
  "rstrip s = rev (dropWhile (\<lambda>c. c = CHR '' '') (rev s))"

definition records :: "bytes \<Rightarrow> bytes list" where
  "records c = filter (\<lambda>l. l \<noteq> []) (map rstrip (split_on CHR 0x0A c))"

definition nl_closed :: "bytes \<Rightarrow> bool" where
  "nl_closed c \<longleftrightarrow> c = [] \<or> last c = CHR 0x0A"

text \<open>What serde guarantees of a serialised document: no line break, no trailing space, not empty.\<close>

definition line_ok :: "bytes \<Rightarrow> bool" where
  "line_ok l \<longleftrightarrow> l \<noteq> [] \<and> CHR 0x0A \<notin> set l \<and> last l \<noteq> CHR '' ''"

lemma rstrip_Nil [simp]: "rstrip [] = []"
  by (simp add: rstrip_def)

lemma rstrip_id: "l \<noteq> [] \<Longrightarrow> last l \<noteq> CHR '' '' \<Longrightarrow> rstrip l = l"
  by (cases l rule: rev_cases) (simp_all add: rstrip_def)

lemma rstrip_spaces: "rstrip (l @ replicate n CHR '' '') = rstrip l"
proof -
  have "dropWhile (\<lambda>c. c = CHR '' '') (replicate n CHR '' '' @ r) = dropWhile (\<lambda>c. c = CHR '' '') r" for r
    by (induction n) simp_all
  then show ?thesis by (simp add: rstrip_def)
qed

lemma records_Nil [simp]: "records [] = []"
  by (simp add: records_def)

lemma records_append: "records (a @ CHR 0x0A # b) = records a @ records b"
  by (simp add: records_def split_on_append)

lemma records_closed_append: "nl_closed a \<Longrightarrow> records (a @ b) = records a @ records b"
proof (cases a rule: rev_cases)
  case (snoc a' x)
  assume "nl_closed a"
  with snoc have "a @ b = a' @ CHR 0x0A # b" "a = a' @ CHR 0x0A # []" by (simp_all add: nl_closed_def)
  then show ?thesis by (metis append.right_neutral records_Nil records_append)
qed simp

lemma records_line: "line_ok l \<Longrightarrow> records (l @ [CHR 0x0A]) = [l]"
  by (simp add: records_append) (simp add: records_def line_ok_def split_on_single rstrip_id)

text \<open>Splitting off the last line.\<close>

lemma last_line: "\<exists>a l. s = a @ l \<and> nl_closed a \<and> CHR 0x0A \<notin> set l"
proof (induction s rule: rev_induct)
  case Nil
  then show ?case by (auto simp: nl_closed_def)
next
  case (snoc x s)
  then obtain a l where s: "s = a @ l" "nl_closed a" "CHR 0x0A \<notin> set l" by blast
  show ?case
  proof (cases "x = CHR 0x0A")
    case True
    then have "s @ [x] = (s @ [x]) @ [] \<and> nl_closed (s @ [x]) \<and> CHR 0x0A \<notin> set []" by (simp add: nl_closed_def)
    then show ?thesis by blast
  next
    case False
    with s have "s @ [x] = a @ (l @ [x]) \<and> nl_closed a \<and> CHR 0x0A \<notin> set (l @ [x])" by simp
    then show ?thesis by blast
  qed
qed

definition padded :: "bytes \<Rightarrow> bytes" where
  "padded c = (if min_published_spool_bytes \<le> length c then c
               else butlast c @ replicate (min_published_spool_bytes - length c) CHR '' '' @ [CHR 0x0A])"

lemma records_padded: "nl_closed c \<Longrightarrow> c \<noteq> [] \<Longrightarrow> records (padded c) = records c"
proof -
  assume "nl_closed c" "c \<noteq> []"
  then have c: "c = butlast c @ CHR 0x0A # []" by (simp add: nl_closed_def) (metis append_butlast_last_id)
  obtain a l where al: "butlast c = a @ l" "nl_closed a" "CHR 0x0A \<notin> set l" using last_line by blast
  have "records (butlast c @ replicate n CHR '' '' @ [CHR 0x0A]) = records (butlast c @ [CHR 0x0A])" for n
  proof -
    have "CHR 0x0A \<notin> set (l @ replicate n CHR '' '')" using al(3) by simp
    from split_on_single [OF this] split_on_single [OF al(3)]
    have "records (l @ replicate n CHR '' '') = records l"
      by (simp only: records_def list.map rstrip_spaces)
    then show ?thesis
      using records_append [of "a @ l @ replicate n CHR '' ''" "[]"] records_append [of "a @ l" "[]"]
        records_closed_append [OF al(2)] al(1) by simp
  qed
  with c show ?thesis by (metis padded_def)
qed

lemma length_padded: "c \<noteq> [] \<Longrightarrow> length (padded c) = max min_published_spool_bytes (length c)"
  by (cases c) (auto simp: padded_def max_def)

lemma padded_closed: "nl_closed c \<Longrightarrow> nl_closed (padded c)"
  by (simp add: padded_def nl_closed_def)

section \<open>What padding and publishing do when they succeed\<close>

lemma pad_spool_final_Ok:
  assumes "pad_spool_final S path w = (Inr k, w')" "fget w path = Some c"
  shows "fget w' path = Some (padded c) \<and> k = length (padded c) \<and> c \<noteq> []
    \<and> (length c < min_published_spool_bytes \<longrightarrow> last c = CHR 0x0A)"
proof (cases "min_published_spool_bytes \<le> length c")
  case True
  then have "c \<noteq> []" by (auto simp: min_published_spool_bytes_def)
  with True assms show ?thesis by (auto simp: pad_spool_final_def padded_def ok_iff)
next
  case False
  with assms have "c \<noteq> []" "k = min_published_spool_bytes" "last c = CHR 0x0A" "fget w' path = Some (padded c)"
    by (auto simp: pad_spool_final_def padded_def ok_iff append_file_def butlast_conv_take last_conv_nth split: if_splits)
  with False length_padded [of c] show ?thesis by simp
qed

lemma publish_loop_Ok:
  assumes "publish_loop n S source slug extension millis w = (Inr target, w')" "fget w source = Some c"
  shows "\<exists>seq. target = target_name slug millis seq extension \<and> fget w target = None
    \<and> renames w' = renames w @ [(source, target, c)] \<and> seq_fs.more w' = seq_fs.more w
    \<and> (\<forall>m. fget w' m = (if m = target then Some c else if m = source then None else fget w m))"
  using assms
proof (induction n arbitrary: w)
  case (Suc n)
  let ?t = "target_name slug millis (next_seq w) extension"
  obtain r w1 where cr: "fs_create_new S ?t w = (r, w1)" by fastforce
  then have m1: "seq_fs.more w1 = seq_fs.more w"
    by (auto simp: fs_create_new_def fput_def tock_def split: option.splits if_splits)
  show ?case
  proof (cases r)
    case (Inr u)
    with cr have new: "fget w ?t = None" by (auto dest: fs_create_new_Ok)
    from fs_create_new_touches [of ?t w S] cr have t1: "touches {?t} w w1" by simp
    obtain r2 w2 where ren: "fs_rename S source ?t w1 = (r2, w2)" by fastforce
    with Suc.prems(1) cr Inr obtain v where r2: "r2 = Inr v" and res: "target = ?t" "w' = bump_seq w2"
      by (cases r2) (auto simp: Let_def)
    have "?t \<noteq> source" using new Suc.prems(2) by auto
    with t1 Suc.prems(2) have src: "fget w1 source = Some c" and other: "\<And>m. m \<noteq> ?t \<Longrightarrow> fget w1 m = fget w m"
      and rn: "renames w1 = renames w" by (auto simp: touches_def)
    have m2: "seq_fs.more w2 = seq_fs.more w1"
      using ren r2 by (auto simp: fs_rename_def fput_def fdel_def tock_def Let_def split: option.splits)
    from fs_rename_Ok [OF ren [unfolded r2]] src have 2: "renames w2 = renames w1 @ [(source, ?t, c)]"
      "\<And>m. fget w2 m = (if m = ?t then Some c else if m = source then None else fget w1 m)" by auto
    have "\<forall>m. fget w' m = (if m = target then Some c else if m = source then None else fget w m)"
      using 2(2) other by (auto simp: res)
    with 2(1) res new rn m1 m2 show ?thesis by auto
  next
    case (Inl e)
    with Suc.prems(1) cr have e: "e = AlreadyExists"
      and rest: "publish_loop n S source slug extension millis (bump_seq w1) = (Inr target, w')"
      by (auto simp: Let_def split: if_splits)
    from cr Inl have "w1 = tock w" by (auto simp: fs_create_new_def split: option.splits if_splits)
    with Suc.IH [OF rest] Suc.prems(2) m1 show ?thesis by simp
  qed
qed simp

section \<open>The stream of a dataset\<close>

text \<open>What belongs to one dataset: its writer, its active file, and the files published from it.\<close>

definition history :: "'z fs_scheme \<Rightarrow> string \<Rightarrow> (string \<times> string \<times> bytes) list" where
  "history w slug = filter (\<lambda>r. fst r = active_name slug) (renames w)"

definition same_view :: "string \<Rightarrow> 'z spool_state_scheme \<Rightarrow> 'z spool_state_scheme \<Rightarrow> bool" where
  "same_view s st st' \<longleftrightarrow> sp_get s st' = sp_get s st \<and> fget st' (active_name s) = fget st (active_name s)
     \<and> history st' s = history st s"

definition content :: "'z fs_scheme \<Rightarrow> string \<Rightarrow> bytes" where
  "content w n = (case fget w n of None \<Rightarrow> [] | Some c \<Rightarrow> c)"

definition buffered :: "string \<Rightarrow> 'z spool_state_scheme \<Rightarrow> bytes" where
  "buffered slug st = (case sp_get slug st of None \<Rightarrow> [] | Some d \<Rightarrow> ds_buf d)"

text \<open>The records of a dataset in order: published, in the active file, in the buffer.\<close>

definition stream :: "string \<Rightarrow> 'z spool_state_scheme \<Rightarrow> bytes list" where
  "stream slug st = concat (map (\<lambda>r. records (snd (snd r))) (history st slug))
     @ records (content st (active_name slug) @ buffered slug st)"

text \<open>A dataset is settled when its writer's file and buffer end at a record boundary and its byte count is
  exact; without a writer, no record is left in an active file.\<close>

definition settled :: "string \<Rightarrow> 'z spool_state_scheme \<Rightarrow> bool" where
  "settled slug st \<longleftrightarrow>
     (case sp_get slug st of
        None \<Rightarrow> records (content st (active_name slug)) = []
      | Some d \<Rightarrow> ds_active d = active_name slug
          \<and> (\<exists>c. fget st (active_name slug) = Some c \<and> nl_closed (c @ ds_buf d) \<and> ds_bytes d = length (c @ ds_buf d)))"

lemma same_view_refl [simp]: "same_view s st st"
  by (simp add: same_view_def)

lemma same_view_trans: "same_view s st st' \<Longrightarrow> same_view s st' st'' \<Longrightarrow> same_view s st st''"
  by (simp add: same_view_def)

lemma same_view_stream: "same_view s st st' \<Longrightarrow> stream s st' = stream s st"
  by (simp add: same_view_def stream_def content_def buffered_def)

lemma same_view_settled: "same_view s st st' \<Longrightarrow> settled s st' = settled s st"
  by (cases "sp_get s st") (simp_all add: same_view_def settled_def content_def)

lemma active_inj [simp]: "active_name s = active_name s' \<longleftrightarrow> s = s'"
  by (simp add: active_name_def)

lemma touches_same_view: "touches {active_name slug} st st' \<Longrightarrow> s \<noteq> slug \<Longrightarrow> same_view s st st'"
  using touches_spools [of "{active_name slug}" st st' s]
  by (simp add: touches_def same_view_def history_def)

lemma touches_history: "touches N st st' \<Longrightarrow> history st' s = history st s"
  by (simp add: touches_def history_def)

lemma history_sp [simp]: "history (sp_insert slug d st) s = history st s" "history (sp_remove slug st) s = history st s"
  by (simp_all add: history_def)

lemma content_sp [simp]: "content (sp_insert slug d st) n = content st n" "content (sp_remove slug st) n = content st n"
  by (simp_all add: content_def)

lemma same_view_insert: "s \<noteq> slug \<Longrightarrow> same_view s st st' \<Longrightarrow> same_view s st (sp_insert slug d st')"
  by (simp add: same_view_def)

lemma same_view_remove: "s \<noteq> slug \<Longrightarrow> same_view s st (sp_remove slug st)"
  by (simp add: same_view_def)

lemma target_not_active: "target_name slug millis seq ''ndjson'' \<noteq> active_name s"
proof -
  have "is_final (target_name slug millis seq ''ndjson'')"
    using ends_with_append [of "''.ndjson''" "''.ndjson''" "''rigsignal-'' @ slug @ ''-'' @ show_nat millis @ ''-'' @ show_nat seq"]
    by (simp add: is_final_def target_name_def ends_with_def)
  then show ?thesis by (metis active_not_final)
qed

text \<open>A fresh active file starts an empty stream end.\<close>

lemma replace_spool_Ok:
  assumes "replace_spool S slug replace_active st = (Inr u, st')" "fget st (active_name slug) = None"
    "sp_get slug st = None"
  shows "settled slug st' \<and> content st' (active_name slug) @ buffered slug st' = [] \<and> history st' slug = history st slug
    \<and> (\<forall>s. s \<noteq> slug \<longrightarrow> same_view s st st')"
proof (cases replace_active)
  case False
  with assms show ?thesis by (auto simp: replace_spool_def settled_def content_def buffered_def)
next
  case True
  with assms(1) obtain d st1 where n: "new_spool S slug st = (Inr d, st1)" and st': "st' = sp_insert slug d st1"
    by (auto simp: replace_spool_def ok_iff)
  then have d: "ds_active d = active_name slug" "ds_buf d = []" "ds_bytes d = 0" and st1: "st1 = fput (active_name slug) [] (tock st)"
    by (auto simp: new_spool_def ok_iff)
  have t: "touches {active_name slug} st st1" by (simp add: st1 touches_def)
  then have "same_view s st st'" if "s \<noteq> slug" for s
    unfolding st' using that by (intro same_view_insert touches_same_view)
  with d touches_history [OF t] show ?thesis
    by (auto simp: st' settled_def content_def buffered_def nl_closed_def st1)
qed

lemma close_publish_and_replace_Ok:
  assumes run: "close_publish_and_replace S slug d replace_active st = (Inr u, st')"
    and d: "ds_active d = active_name slug" and none: "sp_get slug st = None"
    and c: "fget st (active_name slug) = Some c" "nl_closed (c @ ds_buf d)" "ds_bytes d = length (c @ ds_buf d)"
  shows "settled slug st'"
    and "stream slug st' = concat (map (\<lambda>r. records (snd (snd r))) (history st slug)) @ records (c @ ds_buf d)"
    and "\<And>s. s \<noteq> slug \<Longrightarrow> same_view s st st'"
proof -
  let ?a = "active_name slug"
  obtain r buf st1 where f: "bw_flush S ?a (ds_buf d) st = (r, buf, st1)" by (metis prod_cases3)
  from run f d obtain x where r: "r = Inr x" by (cases r) (auto simp: close_publish_and_replace_def)
  have t1: "touches {?a} st st1" using bw_flush_touches [of ?a st S "ds_buf d"] f by simp
  have c1: "fget st1 ?a = Some (c @ ds_buf d)" using bw_flush_Ok [OF f [unfolded r] c(1)] by simp
  have none1: "sp_get slug st1 = None" using touches_spools [OF t1] none by simp
  have "settled slug st' \<and> stream slug st' = concat (map (\<lambda>r. records (snd (snd r))) (history st slug)) @ records (c @ ds_buf d)
      \<and> (\<forall>s. s \<noteq> slug \<longrightarrow> same_view s st st')"
  proof (cases "c @ ds_buf d = []")
    case True
    with c(3) have "ds_bytes d = 0" by simp
    with run f r d obtain v st2 where rm: "remove_file_if_exists S ?a st1 = (Inr v, st2)"
      and rep: "replace_spool S slug replace_active st2 = (Inr u, st')"
      by (auto simp: close_publish_and_replace_def ok_iff)
    have t2: "touches {?a} st1 st2" using remove_file_if_exists_touches [of ?a st1 S] rm by simp
    have gone: "fget st2 ?a = None"
      using rm by (auto simp: remove_file_if_exists_def fs_remove_def split: option.splits if_splits)
    have none2: "sp_get slug st2 = None" using touches_spools [OF t2] none1 by simp
    have "same_view s st st'" if "s \<noteq> slug" for s
      using that replace_spool_Ok [OF rep gone none2] t1 t2 by (meson same_view_trans touches_same_view)
    with replace_spool_Ok [OF rep gone none2] True touches_history [OF t1] touches_history [OF t2]
    show ?thesis by (simp add: stream_def)
  next
    case False
    with c(3) have "ds_bytes d \<noteq> 0" by simp
    with run f r d obtain k st2 target st3 where pad: "pad_spool_final S ?a st1 = (Inr k, st2)"
      and pub: "publish_closed_file S ?a slug ''ndjson'' st2 = (Inr target, st3)"
      and rep: "replace_spool S slug replace_active st3 = (Inr u, st')"
      by (auto simp: close_publish_and_replace_def restore_spool_def ok_iff split: prod.splits sum.splits)
    have t2: "touches {?a} st1 st2" using pad_touches [of ?a st1 S] pad by simp
    from pad_spool_final_Ok [OF pad c1] have c2: "fget st2 ?a = Some (padded (c @ ds_buf d))" by simp
    from pub obtain millis where loop: "publish_loop (fuel S) S ?a slug ''ndjson'' millis (tock st2) = (Inr target, st3)"
      by (auto simp: publish_closed_file_def ok_iff)
    from publish_loop_Ok [OF loop] c2 obtain seq where target: "target = target_name slug millis seq ''ndjson''"
      and ren: "renames st3 = renames st2 @ [(?a, target, padded (c @ ds_buf d))]"
      and more: "seq_fs.more st3 = seq_fs.more (tock st2)"
      and get: "\<And>m. fget st3 m = (if m = target then Some (padded (c @ ds_buf d)) else if m = ?a then None else fget st2 m)"
      by auto
    have na: "target \<noteq> active_name s" for s unfolding target by (rule target_not_active)
    have sp3: "sp_get s st3 = sp_get s st2" for s
      using spools_of_more [OF more] by (simp add: sp_get_def tock_def)
    have gone: "fget st3 ?a = None" using get [of ?a] na [of slug] by simp
    have none3: "sp_get slug st3 = None" using sp3 touches_spools [OF t2] none1 by simp
    have hist: "history st3 slug = history st slug @ [(?a, target, padded (c @ ds_buf d))]"
      using ren touches_history [OF t1, of slug] touches_history [OF t2, of slug] by (simp add: history_def)
    have "same_view s st2 st3" if "s \<noteq> slug" for s
      using that sp3 get na [of s] ren by (auto simp: same_view_def history_def)
    with replace_spool_Ok [OF rep gone none3] t1 t2
    have "same_view s st st'" if "s \<noteq> slug" for s
      using that by (meson same_view_trans touches_same_view)
    with replace_spool_Ok [OF rep gone none3] hist records_padded [OF c(2) False] show ?thesis
      by (auto simp: stream_def)
  qed
  then show "settled slug st'" "stream slug st' = concat (map (\<lambda>r. records (snd (snd r))) (history st slug)) @ records (c @ ds_buf d)"
    "\<And>s. s \<noteq> slug \<Longrightarrow> same_view s st st'" by auto
qed

text \<open>A call on one dataset that succeeds: the datasets stay settled, the others do not change, and this one
  gains the given records.\<close>

definition gains :: "string \<Rightarrow> bytes list \<Rightarrow> 'z spool_state_scheme \<Rightarrow> 'z spool_state_scheme \<Rightarrow> bool" where
  "gains slug new st st' \<longleftrightarrow>
     (settled slug st \<longrightarrow> settled slug st' \<and> stream slug st' = stream slug st @ new
        \<and> (\<forall>s. s \<noteq> slug \<longrightarrow> same_view s st st'))"

lemma gains_refl [simp]: "gains slug [] st st"
  by (simp add: gains_def)

lemma gains_trans: "gains slug xs st st' \<Longrightarrow> gains slug ys st' st'' \<Longrightarrow> gains slug (xs @ ys) st st''"
  by (auto simp: gains_def intro: same_view_trans)

lemma stream_Some:
  "sp_get slug st = Some d \<Longrightarrow> fget st (active_name slug) = Some c \<Longrightarrow>
   stream slug st = concat (map (\<lambda>r. records (snd (snd r))) (history st slug)) @ records (c @ ds_buf d)"
  by (simp add: stream_def content_def buffered_def)

lemma rotate_spool_gains:
  assumes "rotate_spool S slug st = (Inr u, st')"
  shows "gains slug [] st st'"
proof -
  from assms obtain d where d: "sp_get slug st = Some d"
    and run: "close_publish_and_replace S slug d True (sp_remove slug st) = (Inr u, st')"
    by (auto simp: rotate_spool_def split: option.splits)
  have none: "sp_get slug (sp_remove slug st) = None" by simp
  show ?thesis unfolding gains_def
  proof
    assume "settled slug st"
    with d obtain c where c: "ds_active d = active_name slug" "fget st (active_name slug) = Some c"
      "nl_closed (c @ ds_buf d)" "ds_bytes d = length (c @ ds_buf d)" by (auto simp: settled_def)
    have c': "fget (sp_remove slug st) (active_name slug) = Some c" using c(2) by simp
    note ok = close_publish_and_replace_Ok [OF run c(1) none c' c(3,4)]
    from ok stream_Some [OF d c(2)] same_view_remove [of _ slug st]
    show "settled slug st' \<and> stream slug st' = stream slug st @ [] \<and> (\<forall>s. s \<noteq> slug \<longrightarrow> same_view s st st')"
      by (simp add: same_view_trans [where st' = "sp_remove slug st"])
  qed
qed

lemma rotate_if_needed_gains: "rotate_if_needed S slug st = (Inr u, st') \<Longrightarrow> gains slug [] st st'"
  by (auto simp: rotate_if_needed_def dest: rotate_spool_gains split: option.splits if_splits)

lemma ensure_spool_gains:
  assumes "ensure_spool S slug st = (Inr u, st')"
  shows "gains slug [] st st'"
proof (cases "sp_get slug st")
  case (Some d)
  with assms show ?thesis by (auto simp: ensure_spool_def)
next
  case None
  let ?st = "fput (active_name slug) [] (tock st)"
  define d where "d = \<lparr>ds_active = active_name slug, ds_buf = [], ds_bytes = 0, ds_started = sys.mono S (tick ?st)\<rparr>"
  then have d: "ds_active d = active_name slug" "ds_buf d = []" "ds_bytes d = 0" by simp_all
  from None assms have st': "st' = sp_insert slug d ?st"
    by (auto simp: ensure_spool_def new_spool_def ok_iff d_def)
  have t: "touches {active_name slug} st (fput (active_name slug) [] (tock st))" by (simp add: touches_def)
  have "same_view s st st'" if "s \<noteq> slug" for s
    unfolding st' using that t by (intro same_view_insert touches_same_view)
  with None d touches_history [OF t] show ?thesis
    by (simp add: gains_def settled_def stream_def st' content_def buffered_def nl_closed_def)
qed

lemma flush_spool_gains:
  assumes "flush_spool S slug st = (Inr u, st')"
  shows "gains slug [] st st'"
proof -
  from assms obtain d buf st1 where d: "sp_get slug st = Some d"
    and f: "bw_flush S (ds_active d) (ds_buf d) st = (Inr u, buf, st1)" and st': "st' = sp_insert slug (d\<lparr>ds_buf := buf\<rparr>) st1"
    by (auto simp: flush_spool_def split: option.splits prod.splits)
  show ?thesis unfolding gains_def
  proof
    assume "settled slug st"
    with d obtain c where c: "ds_active d = active_name slug" "fget st (active_name slug) = Some c"
      "nl_closed (c @ ds_buf d)" "ds_bytes d = length (c @ ds_buf d)" by (auto simp: settled_def)
    have t: "touches {active_name slug} st st1" using bw_flush_touches [of "ds_active d" st S "ds_buf d"] f c(1) by simp
    have ok: "buf = []" "fget st1 (active_name slug) = Some (c @ ds_buf d)"
      using bw_flush_Ok [OF f [unfolded c(1)] c(2)] by auto
    have "same_view s st st'" if "s \<noteq> slug" for s
      unfolding st' using that t by (intro same_view_insert touches_same_view)
    with ok c touches_history [OF t] stream_Some [OF d c(2)]
    show "settled slug st' \<and> stream slug st' = stream slug st @ [] \<and> (\<forall>s. s \<noteq> slug \<longrightarrow> same_view s st st')"
      by (simp add: settled_def stream_def st' content_def buffered_def)
  qed
qed

lemma write_line_gains:
  assumes run: "write_line S slug line st = (Inr u, st')" and line: "line_ok line"
  shows "gains slug [line] st st'"
  unfolding gains_def
proof
  assume settled: "settled slug st"
  let ?a = "active_name slug"
  from run obtain d where d: "sp_get slug st = Some d" by (cases "sp_get slug st") (auto simp: write_line_def)
  with settled obtain c where c: "ds_active d = ?a" "fget st ?a = Some c" "nl_closed (c @ ds_buf d)"
    "ds_bytes d = length (c @ ds_buf d)" by (auto simp: settled_def)
  from run d c(1) obtain x1 b1 st1 x2 b2 st2 where w1: "bw_write_all S ?a line (ds_buf d) st = (Inr x1, b1, st1)"
    and w2: "bw_write_all S ?a [CHR 0x0A] b1 st1 = (Inr x2, b2, st2)"
    and rot: "rotate_if_needed S slug
        (sp_insert slug (d\<lparr>ds_buf := b2, ds_bytes := ds_bytes d + length line + 1\<rparr>) st2) = (Inr u, st')"
    by (auto simp: write_line_def split: prod.splits sum.splits)
  let ?d = "d\<lparr>ds_buf := b2, ds_bytes := ds_bytes d + length line + 1\<rparr>"
  let ?st = "sp_insert slug ?d st2"
  obtain c1 where c1: "fget st1 ?a = Some c1" "c1 @ b1 = c @ ds_buf d @ line" using bw_write_all_Ok [OF w1 c(2)] by blast
  obtain c2 where c2: "fget st2 ?a = Some c2" "c2 @ b2 = (c @ ds_buf d) @ line @ [CHR 0x0A]"
    using bw_write_all_Ok [OF w2 c1(1)] c1(2) by (metis append.assoc)
  have t: "touches {?a} st st2"
    using bw_write_all_touches [of ?a st S line "ds_buf d"] bw_write_all_touches [of ?a st1 S "[CHR 0x0A]" b1] w1 w2
    by (auto intro: touches_trans)
  have "length c2 + length b2 = ds_bytes d + length line + 1" using arg_cong [OF c2(2), of length] c(4) by simp
  then have st: "settled slug ?st"
    using c(1) c2(1) arg_cong [OF c2(2), of last] by (simp add: settled_def nl_closed_def)
  have "records (c2 @ b2) = records (c @ ds_buf d) @ [line]"
    using records_closed_append [OF c(3)] records_line [OF line] by (simp only: c2(2))
  then have str: "stream slug ?st = stream slug st @ [line]"
    using stream_Some [OF d c(2)] stream_Some [of slug ?st ?d c2] c2(1) touches_history [OF t] by simp
  have oth: "same_view s st ?st" if "s \<noteq> slug" for s
    using that t by (intro same_view_insert touches_same_view)
  from rotate_if_needed_gains [OF rot] st str oth
  show "settled slug st' \<and> stream slug st' = stream slug st @ [line] \<and> (\<forall>s. s \<noteq> slug \<longrightarrow> same_view s st st')"
    by (auto simp: gains_def intro: same_view_trans)
qed

lemma write_group_gains:
  assumes "write_group S ser slug docs st = (Inr u, st')" "\<And>d l. d \<in> set docs \<Longrightarrow> ser d = Some l \<Longrightarrow> line_ok l"
  shows "gains slug (map (\<lambda>d. the (ser d)) docs) st st'"
  using assms
proof (induction docs arbitrary: st)
  case (Cons doc docs)
  from Cons.prems(1) obtain l st1 where l: "ser doc = Some l" and w: "write_line S slug l st = (Inr (), st1)"
    and rest: "write_group S ser slug docs st1 = (Inr u, st')"
    by (auto simp: ok_iff split: option.splits)
  have "gains slug [l] st st1" using w Cons.prems(2) [of doc l] l by (intro write_line_gains) simp_all
  moreover have "gains slug (map (\<lambda>d. the (ser d)) docs) st1 st'" using Cons.prems(2) by (intro Cons.IH [OF rest]) auto
  ultimately have "gains slug ([l] @ map (\<lambda>d. the (ser d)) docs) st st'" by (rule gains_trans)
  with l show ?case by simp
qed simp

definition all_settled :: "'z spool_state_scheme \<Rightarrow> bool" where
  "all_settled st \<longleftrightarrow> (\<forall>s. settled s st)"

lemma gains_all:
  "gains slug new st st' \<Longrightarrow> all_settled st \<Longrightarrow>
   all_settled st' \<and> (\<forall>s. stream s st' = stream s st @ (if s = slug then new else []))"
  unfolding gains_def all_settled_def by (auto simp: same_view_settled same_view_stream)

lemma write_groups_gains:
  assumes "write_groups S ser docs slugs st = (Inr u, st')" "all_settled st" "distinct slugs"
    "\<And>d l. d \<in> set docs \<Longrightarrow> ser d = Some l \<Longrightarrow> line_ok l"
  shows "all_settled st' \<and> (\<forall>s. stream s st' = stream s st
    @ (if s \<in> set slugs then map (\<lambda>d. the (ser d)) (filter (\<lambda>d. doc_slug d = s) docs) else []))"
  using assms(1-3)
proof (induction slugs arbitrary: st)
  case (Cons slug slugs)
  let ?new = "map (\<lambda>d. the (ser d)) (filter (\<lambda>d. doc_slug d = slug) docs)"
  from Cons.prems(1) obtain s1 s2 s3 where e: "ensure_spool S slug st = (Inr (), s1)"
    and g: "write_group S ser slug (filter (\<lambda>d. doc_slug d = slug) docs) s1 = (Inr (), s2)"
    and f: "flush_spool S slug s2 = (Inr (), s3)" and rest: "write_groups S ser docs slugs s3 = (Inr u, st')"
    by (auto simp: ok_iff)
  have "gains slug ?new s1 s2" using assms(4) by (intro write_group_gains [OF g]) auto
  then have "gains slug ([] @ ?new @ []) st s3"
    using ensure_spool_gains [OF e] flush_spool_gains [OF f] by (intro gains_trans)
  from gains_all [OF this Cons.prems(2)] have 3: "all_settled s3"
    "\<And>s. stream s s3 = stream s st @ (if s = slug then ?new else [])" by auto
  from Cons.IH [OF rest 3(1)] Cons.prems(3) 3(2) show ?case by auto
qed simp

text \<open>Calls that leave every dataset as it is.\<close>

definition views_kept :: "'z spool_state_scheme \<Rightarrow> 'z spool_state_scheme \<Rightarrow> bool" where
  "views_kept st st' \<longleftrightarrow> (\<forall>s. same_view s st st')"

lemma views_kept_refl [simp]: "views_kept st st"
  by (simp add: views_kept_def)

lemma views_kept_trans: "views_kept st st' \<Longrightarrow> views_kept st' st'' \<Longrightarrow> views_kept st st''"
  by (auto simp: views_kept_def intro: same_view_trans)

lemma views_kept_touches:
  "touches N st st' \<Longrightarrow> (\<And>s. active_name s \<notin> N) \<Longrightarrow> views_kept st st'"
  using touches_spools [of N st st'] touches_history [of N st st'] by (simp add: views_kept_def same_view_def touches_def)

lemma views_kept_bind:
  assumes "views_kept st (snd (m st))" "\<And>x st'. m st = (Inr x, st') \<Longrightarrow> views_kept st' (snd (f x st'))"
  shows "views_kept st (snd (io_bind m f st))"
  using assms by (cases "m st"; cases "fst (m st)") (auto simp: io_bind_def intro: views_kept_trans)

lemma views_kept_scan: "views_kept st (st\<lparr>retention_scan := r\<rparr>)"
  by (simp add: views_kept_def same_view_def history_def)

lemma quarantine_not_active: "is_retained_quarantine_file n \<Longrightarrow> n \<noteq> active_name s"
  using ends_with_last [of "''.quarantine''" n] by (auto simp: is_retained_quarantine_file_def active_name_def)

lemma prune_loop_views: "views_kept st (snd (prune_loop S cutoff n budget st))"
proof (induction n arbitrary: budget st)
  case (Suc n)
  have q: "views_kept st (snd (fs_touch S st))" for st
    by (rule views_kept_touches [OF fs_touch_touches]) simp
  have rm: "views_kept st (snd (remove_file_if_exists S name st))" if "is_retained_quarantine_file name" for name st
    using quarantine_not_active [OF that] by (intro views_kept_touches [OF remove_file_if_exists_touches]) auto
  show ?case
  proof (cases "retention_scan st")
    case None
    then show ?thesis by simp
  next
    case (Some names)
    show ?thesis
    proof (cases names)
      case Nil
      with Some show ?thesis by (simp add: views_kept_scan)
    next
      case (Cons name rest)
      let ?st = "st\<lparr>retention_scan := Some rest\<rparr>"
      have "views_kept ?st (snd (prune_loop S cutoff (Suc n) budget st))"
        using Some Cons by (auto simp: Let_def intro!: views_kept_bind q rm Suc.IH)
      then show ?thesis by (rule views_kept_trans [OF views_kept_scan])
    qed
  qed
qed simp

lemma prune_with_limits_views: "views_kept st (snd (prune_with_limits S scan_batch prune_batch st))"
proof -
  have "views_kept st (snd (fs_read_dir S st))" for st by (rule views_kept_touches [OF fs_read_dir_touches]) simp
  then show ?thesis
    by (auto simp: prune_with_limits_def Let_def intro!: views_kept_bind prune_loop_views views_kept_scan)
qed

text \<open>Calls that keep the stream of every dataset.\<close>

definition streams_kept :: "'z spool_state_scheme \<Rightarrow> 'z spool_state_scheme \<Rightarrow> bool" where
  "streams_kept st st' \<longleftrightarrow> (all_settled st \<longrightarrow> all_settled st' \<and> (\<forall>s. stream s st' = stream s st))"

lemma views_streams: "views_kept st st' \<Longrightarrow> streams_kept st st'"
  unfolding views_kept_def streams_kept_def all_settled_def using same_view_settled same_view_stream by metis

lemma gains_streams: "gains slug [] st st' \<Longrightarrow> streams_kept st st'"
  unfolding streams_kept_def using gains_all [of slug "[]" st st'] by auto

lemma streams_kept_trans: "streams_kept st st' \<Longrightarrow> streams_kept st' st'' \<Longrightarrow> streams_kept st st''"
  by (simp add: streams_kept_def)

lemma rotate_all_streams: "rotate_all S slugs st = (Inr u, st') \<Longrightarrow> streams_kept st st'"
proof (induction slugs arbitrary: st)
  case Nil
  then show ?case by (simp add: streams_kept_def)
next
  case (Cons slug slugs)
  then obtain s1 where "rotate_spool S slug st = (Inr (), s1)" "rotate_all S slugs s1 = (Inr u, st')"
    by (auto simp: ok_iff)
  with Cons.IH show ?case by (blast intro: streams_kept_trans gains_streams rotate_spool_gains)
qed

lemma rotate_stale_files_streams:
  assumes "rotate_stale_files S st = (Inr u, st')"
  shows "streams_kept st st'"
proof -
  from assms obtain s1 where p: "prune_retained_quarantines S st = (Inr (), s1)"
    and r: "(if max_file_age s1 = 0 then (Inr (), s1)
      else rotate_all S (filter (is_stale S s1) (order S (tick s1) (map fst (spools s1)))) s1) = (Inr u, st')"
    by (auto simp: rotate_stale_files_def ok_iff)
  have "streams_kept st s1"
    using prune_with_limits_views [of st S retention_scan_batch retention_prune_batch] p
    by (auto simp: prune_retained_quarantines_def intro: views_streams)
  moreover have "streams_kept s1 st'"
    using r by (auto simp: streams_kept_def split: if_splits dest!: rotate_all_streams)
  ultimately show ?thesis by (rule streams_kept_trans)
qed

text \<open>Finalisation: every writer it walks is closed.\<close>

lemma finalize_loop_Some: "finalize_loop S slugs (Some e) st \<noteq> (Inr u, st')"
  by (induction slugs arbitrary: st) (auto split: option.splits prod.splits sum.splits)

lemma close_no_replace_sp:
  assumes "close_publish_and_replace S slug d False (sp_remove slug st) = (Inr u, st')"
    "ds_active d = active_name slug"
  shows "sp_get slug st' = None"
proof -
  let ?a = "active_name slug" and ?st = "sp_remove slug st"
  obtain r buf st1 where f: "bw_flush S ?a (ds_buf d) ?st = (r, buf, st1)" by (metis prod_cases3)
  have t1: "sp_get slug st1 = None"
    using touches_spools [OF bw_flush_touches [of ?a ?st S "ds_buf d"]] f by simp
  have pub: "sp_get slug st3 = sp_get slug st2" if "publish_closed_file S ?a slug ''ndjson'' st2 = (Inr t, st3)"
      "fget st2 ?a = Some c" for st2 st3 t c
  proof -
    from that obtain millis where "publish_loop (fuel S) S ?a slug ''ndjson'' millis (tock st2) = (Inr t, st3)"
      by (auto simp: publish_closed_file_def ok_iff)
    from publish_loop_Ok [OF this] that(2) have "seq_fs.more st3 = seq_fs.more (tock st2)" by auto
    from spools_of_more [OF this] show ?thesis by (simp add: sp_get_def tock_def)
  qed
  from assms f obtain x where r: "r = Inr x" by (cases r) (auto simp: close_publish_and_replace_def)
  show ?thesis
  proof (cases "ds_bytes d = 0")
    case True
    with assms f r obtain v where "remove_file_if_exists S ?a st1 = (Inr v, st')"
      by (auto simp: close_publish_and_replace_def replace_spool_def ok_iff)
    with touches_spools [OF remove_file_if_exists_touches [of ?a st1 S]] t1 show ?thesis by simp
  next
    case False
    with assms f r obtain k st2 t where pad: "pad_spool_final S ?a st1 = (Inr k, st2)"
      and p: "publish_closed_file S ?a slug ''ndjson'' st2 = (Inr t, st')"
      by (auto simp: close_publish_and_replace_def restore_spool_def replace_spool_def ok_iff split: prod.splits sum.splits)
    from pad obtain c where "fget st1 ?a = Some c" by (auto simp: pad_spool_final_def ok_iff)
    with pad_spool_final_Ok [OF pad] have "fget st2 ?a = Some (padded c)" by simp
    from pub [OF p this] touches_spools [OF pad_touches [of ?a st1 S]] pad t1 show ?thesis by simp
  qed
qed

lemma finalize_loop_streams:
  assumes "finalize_loop S slugs None st = (Inr u, st')" "all_settled st"
  shows "all_settled st' \<and> (\<forall>s. stream s st' = stream s st)
    \<and> (\<forall>s. sp_get s st' = (if s \<in> set slugs then None else sp_get s st))"
  using assms
proof (induction slugs arbitrary: st)
  case (Cons slug slugs)
  from Cons.prems(1) obtain d r st1 where d: "sp_get slug st = Some d"
    and cl: "close_publish_and_replace S slug d False (sp_remove slug st) = (r, st1)"
    by (cases "sp_get slug st") (auto split: prod.splits)
  with Cons.prems(1) obtain v where r: "r = Inr v"
    and rest: "finalize_loop S slugs None st1 = (Inr u, st')"
    using finalize_loop_Some [of S slugs _ st1 u st'] by (cases r) auto
  have "settled slug st" using Cons.prems(2) by (simp add: all_settled_def)
  with d obtain c where c: "ds_active d = active_name slug" "fget st (active_name slug) = Some c"
    "nl_closed (c @ ds_buf d)" "ds_bytes d = length (c @ ds_buf d)" by (auto simp: settled_def)
  have none: "sp_get slug (sp_remove slug st) = None" and c': "fget (sp_remove slug st) (active_name slug) = Some c"
    using c(2) by simp_all
  note ok = close_publish_and_replace_Ok [OF cl [unfolded r] c(1) none c' c(3,4)]
  have oth: "same_view s st st1" if "s \<noteq> slug" for s
    using ok(3) [OF that] same_view_remove [OF that] by (blast intro: same_view_trans)
  have "all_settled st1" "\<And>s. stream s st1 = stream s st"
    using ok(1,2) oth stream_Some [OF d c(2)] Cons.prems(2)
    by (auto simp: all_settled_def) (metis same_view_settled same_view_stream history_sp(2))+
  moreover have "sp_get s st1 = (if s = slug then None else sp_get s st)" for s
    using oth [of s] close_no_replace_sp [OF cl [unfolded r] c(1)] by (auto simp: same_view_def)
  ultimately show ?case using Cons.IH [OF rest] by auto
qed simp

section \<open>The search for a free name\<close>

lemma target_name_inj: "target_name slug millis m e = target_name slug millis n e \<longleftrightarrow> m = n"
  by (simp add: target_name_def)

text \<open>Without faults, the loop ends at the first free number.\<close>

lemma publish_loop_finds:
  assumes "\<And>n. fault S n = None" "fget w source = Some c"
    "fget w (target_name slug millis (next_seq w + k) extension) = None"
    "\<And>j. j < k \<Longrightarrow> fget w (target_name slug millis (next_seq w + j) extension) \<noteq> None"
    "next_seq w + k \<le> u32_max" "k < n"
  shows "\<exists>w'. publish_loop n S source slug extension millis w = (Inr (target_name slug millis (next_seq w + k) extension), w')"
  using assms
proof (induction k arbitrary: n w)
  case 0
  from "0.prems"(6) obtain n' where n: "n = Suc n'" by (cases n) auto
  let ?t = "target_name slug millis (next_seq w) extension"
  from "0.prems" have c: "fs_create_new S ?t w = (Inr (), fput ?t [] (tock w))"
    by (simp add: fs_create_new_def)
  have "?t \<noteq> source" using "0.prems"(2,3) by auto
  with "0.prems" show ?case unfolding n by (simp add: c Let_def fs_rename_def)
next
  case (Suc k)
  from Suc.prems(6) obtain n' where n: "n = Suc n'" by (cases n) auto
  let ?t = "target_name slug millis (next_seq w) extension" and ?w = "bump_seq (tock w)"
  have "fget w ?t \<noteq> None" using Suc.prems(4) [of 0] by simp
  with Suc.prems(1) have c: "fs_create_new S ?t w = (Inl AlreadyExists, tock w)" by (simp add: fs_create_new_def)
  have seq: "next_seq ?w = next_seq w + 1"
    using Suc.prems(5) by (simp add: bump_seq_def saturating_inc_u32_def tock_def)
  have "\<exists>w'. publish_loop n' S source slug extension millis ?w
      = (Inr (target_name slug millis (next_seq ?w + k) extension), w')"
  proof (rule Suc.IH)
    fix j assume "j < k"
    with Suc.prems(4) [of "Suc j"] show "fget ?w (target_name slug millis (next_seq ?w + j) extension) \<noteq> None"
      by (simp add: seq)
  qed (use Suc.prems n in \<open>simp_all add: seq\<close>)
  then show ?case unfolding n by (simp add: c Let_def seq)
qed

text \<open>One of the first \<open>length (files w) + 1\<close> numbers is free.\<close>

lemma free_number:
  "\<exists>k \<le> length (files w). fget w (target_name slug millis (q + k) extension) = None
     \<and> (\<forall>j < k. fget w (target_name slug millis (q + j) extension) \<noteq> None)"
proof -
  let ?P = "\<lambda>k. fget w (target_name slug millis (q + k) extension) = None"
  have "\<not> (\<forall>k. k \<le> length (files w) \<longrightarrow> \<not> ?P k)"
  proof
    assume none: "\<forall>k. k \<le> length (files w) \<longrightarrow> \<not> ?P k"
    let ?f = "\<lambda>k. target_name slug millis (q + k) extension"
    have "?f ` {..length (files w)} \<subseteq> fst ` set (files w)"
    proof
      fix m assume "m \<in> ?f ` {..length (files w)}"
      then obtain k where k: "k \<le> length (files w)" "m = ?f k" by auto
      have "fget w m \<noteq> None" unfolding k(2) by (rule none [rule_format, OF k(1)])
      then obtain c where "fget w m = Some c" by (cases "fget w m") simp_all
      then show "m \<in> fst ` set (files w)" unfolding fget_def by (metis domI dom_map_of_conv_image_fst)
    qed
    then have "card (?f ` {..length (files w)}) \<le> card (fst ` set (files w))" by (intro card_mono) simp_all
    also have "\<dots> \<le> card (set (files w))" by (rule card_image_le) simp
    also have "\<dots> \<le> length (files w)" by (rule card_length)
    finally have "card (?f ` {..length (files w)}) \<le> length (files w)" .
    moreover have "inj_on ?f {..length (files w)}" by (auto simp: inj_on_def target_name_inj)
    then have "card (?f ` {..length (files w)}) = Suc (length (files w))" by (simp add: card_image)
    ultimately show False by simp
  qed
  then have "\<exists>k. k \<le> length (files w) \<and> ?P k" by (simp only: not_all not_imp not_not)
  then obtain k where k: "k \<le> length (files w)" "?P k" by (elim exE conjE)
  have "?P (LEAST k. ?P k)" using k(2) by (rule LeastI [of ?P])
  moreover have "(LEAST k. ?P k) \<le> length (files w)" using Least_le [of ?P k, OF k(2)] k(1) by (rule order_trans)
  moreover have "\<not> ?P j" if "j < (LEAST k. ?P k)" for j using that by (rule not_less_Least [of _ ?P])
  ultimately show ?thesis by (intro exI [of _ "LEAST k. ?P k"] conjI allI impI)
qed

text \<open>With every number from the current one on taken, the loop goes round for ever.\<close>

lemma publish_loop_stuck:
  assumes "\<And>n. fault S n = None" "next_seq w = u32_max"
    "fget w (target_name slug millis u32_max extension) \<noteq> None"
  shows "fst (publish_loop n S source slug extension millis w) = Err NoResult"
  using assms
proof (induction n arbitrary: w)
  case (Suc n)
  from Suc.prems have c: "fs_create_new S (target_name slug millis u32_max extension) w = (Inl AlreadyExists, tock w)"
    by (simp add: fs_create_new_def)
  have "next_seq (bump_seq (tock w)) = u32_max" using Suc.prems(2) by (simp add: bump_seq_def saturating_inc_u32_def tock_def)
  with Suc.IH [of "bump_seq (tock w)"] Suc.prems c show ?case by (simp add: Let_def)
qed simp

section \<open>Properties\<close>

text \<open>The state after one document has been written and flushed.\<close>

definition written_spool :: spool_state where
  "written_spool = \<lparr>files = [(active_name ''unknown'', ''{}'' @ [CHR 0x0A]), (''a.ndjson'', ''x'')], tick = 2,
     renames = [], next_seq = 1, max_file_bytes = 0, max_file_age = 0, retention = 0,
     spools = [(''unknown'', \<lparr>ds_active = active_name ''unknown'', ds_buf = [], ds_bytes = 3, ds_started = 0\<rparr>)],
     retention_scan = None\<rparr>"

lemmas spool_eval = sp_get_def sp_insert_def sp_remove_def io_bind_def fget_def fput_def fdel_def tock_def append_file_def
  fs_create_trunc_def fs_create_new_def fs_len_def fs_open_def fs_touch_def fs_set_len_def fs_write_def fs_rename_def
  unix_millis_def bw_flush_def bw_write_all_def buf_capacity_def Let_def active_name_def

lemma sample_spool_settled: "all_settled sample_spool"
  by (simp add: all_settled_def settled_def sp_get_def sample_spool_def content_def fget_def active_name_def)

lemma sample_write: "write_docs sample_sys sample_ser [JNull] sample_spool = (Ok (), written_spool)"
  by (simp add: written_spool_def write_docs_def sample_spool_def sample_sys_def sample_ser_def doc_slug_def get_def
      ensure_spool_def new_spool_def write_line_def rotate_if_needed_def flush_spool_def spool_eval)

lemma sample_finalize: "\<exists>st'. finalize_all sample_sys written_spool = (Ok (), st')"
proof -
  let ?a = "active_name ''unknown''" and ?st = "sp_remove ''unknown'' written_spool"
  let ?t = "target_name ''unknown'' 5 1 ''ndjson''"
  have files: "fget ?st m = (if m = ?a then Some (''{}'' @ [CHR 0x0A]) else if m = ''a.ndjson'' then Some ''x'' else None)" for m
    by (simp add: written_spool_def sp_remove_def fget_def)
  have pad: "\<exists>s2. pad_spool_final sample_sys ?a ?st = (Inr 1024, s2)"
    using files [of ?a] by (simp add: pad_spool_final_def ok_iff sample_sys_def min_published_spool_bytes_def)
  then obtain s2 where s2: "pad_spool_final sample_sys ?a ?st = (Inr 1024, s2)" by blast
  have t2: "touches {?a} ?st s2" using pad_touches [of ?a ?st sample_sys] s2 by simp
  have seq: "next_seq s2 = 1" using touches_next_seq [OF t2] by (simp add: written_spool_def sp_remove_def)
  have "?t \<noteq> ?a" "?t \<noteq> ''a.ndjson''" by (rule target_not_active) (simp add: target_name_def)
  with t2 have free: "fget s2 ?t = None" using files [of ?t] by (simp add: touches_def)
  have src: "fget s2 ?a = Some (padded (''{}'' @ [CHR 0x0A]))" using pad_spool_final_Ok [OF s2] files [of ?a] by simp
  have tk: "next_seq (tock s2) = 1" using seq by (simp add: tock_def)
  have "\<exists>w'. publish_loop 9 sample_sys ?a ''unknown'' ''ndjson'' 5 (tock s2)
      = (Inr (target_name ''unknown'' 5 (next_seq (tock s2) + 0) ''ndjson''), w')"
    by (rule publish_loop_finds [where c = "padded (''{}'' @ [CHR 0x0A])"])
      (use free src in \<open>simp_all add: sample_sys_def tk u32_max_def\<close>)
  then obtain s3 where s3: "publish_closed_file sample_sys ?a ''unknown'' ''ndjson'' s2 = (Inr ?t, s3)"
    by (auto simp: publish_closed_file_def ok_iff sample_sys_def tk)
  let ?d = "\<lparr>ds_active = ?a, ds_buf = [], ds_bytes = 3, ds_started = 0\<rparr>"
  have "close_publish_and_replace sample_sys ''unknown'' ?d False ?st = (Inr (), s3)"
    using s2 s3 by (simp add: close_publish_and_replace_def bw_flush_def replace_spool_def)
  moreover have "sp_get ''unknown'' written_spool = Some ?d" by (simp add: written_spool_def sp_get_def)
  moreover have "order sample_sys (tick written_spool) (map fst (spools written_spool)) = [''unknown'']"
    by (simp add: sample_sys_def written_spool_def)
  ultimately show ?thesis by (simp add: finalize_all_def)
qed
lemma sample_order: "mset (order sample_sys n xs) = mset xs"
  by (simp add: sample_sys_def)

lemma sample_lines: "sample_ser d = Some l \<Longrightarrow> line_ok l"
  by (auto simp: sample_ser_def line_ok_def)

text \<open>C2: When \<open>write_docs\<close> reports success, every dataset's stream (its published files in order of
  publication, its active file, its buffer) has gained exactly the serialised documents routed to it, in
  order, and nothing else; rotation in the middle of the batch neither loses nor duplicates a record.\<close>

theorem write_docs_appends:
  assumes "write_docs S ser docs st = (Ok (), st')" "all_settled st"
    "\<And>n xs. mset (order S n xs) = mset xs" "\<And>d l. d \<in> set docs \<Longrightarrow> ser d = Some l \<Longrightarrow> line_ok l"
  shows "all_settled st' \<and>
    (\<forall>slug. stream slug st' = stream slug st @ map (\<lambda>d. the (ser d)) (filter (\<lambda>d. doc_slug d = slug) docs))"
proof (cases "docs = []")
  case True
  with assms show ?thesis by (simp add: write_docs_def)
next
  case False
  let ?slugs = "order S (tick st) (remdups (map doc_slug docs))"
  have m: "mset ?slugs = mset (remdups (map doc_slug docs))" by (rule assms(3))
  then have "distinct ?slugs" using mset_eq_imp_distinct_iff by fastforce
  moreover have set: "set ?slugs = doc_slug ` set docs" using mset_eq_setD [OF m] by simp
  ultimately have "all_settled st' \<and> (\<forall>s. stream s st' = stream s st
      @ (if s \<in> set ?slugs then map (\<lambda>d. the (ser d)) (filter (\<lambda>d. doc_slug d = s) docs) else []))"
    using assms(1) False by (intro write_groups_gains [OF _ assms(2) _ assms(4)]) (simp_all add: write_docs_def)
  moreover have "filter (\<lambda>d. doc_slug d = s) docs = []" if "s \<notin> set ?slugs" for s
    using that by (auto simp: set filter_empty_conv)
  ultimately show ?thesis by auto
qed

theorem write_docs_appends_witness:
  "write_docs sample_sys sample_ser [JNull] sample_spool = (Ok (), written_spool)
   \<and> stream ''unknown'' written_spool = stream ''unknown'' sample_spool @ [''{}'']"
proof -
  have "doc_slug JNull = ''unknown''" by (simp add: doc_slug_def get_def)
  with write_docs_appends [OF sample_write sample_spool_settled sample_order sample_lines] sample_write
  show ?thesis by (simp add: sample_ser_def)
qed

text \<open>C18: When \<open>finalize_all\<close> reports success, no writer is left open and no record is left in an active file: the
  published files of each dataset hold its whole stream in order.\<close>

theorem finalize_all_publishes:
  assumes "finalize_all S st = (Ok (), st')" "all_settled st" "\<And>n xs. mset (order S n xs) = mset xs"
  shows "(\<forall>slug. sp_get slug st' = None)
    \<and> (\<forall>slug. concat (map (\<lambda>r. records (snd (snd r))) (history st' slug)) = stream slug st
              \<and> records (content st' (active_name slug)) = [])"
proof -
  let ?slugs = "order S (tick st) (map fst (spools st))"
  have set: "set ?slugs = fst ` set (spools st)" using mset_eq_setD [OF assms(3)] by simp
  from finalize_loop_streams [OF assms(1) [unfolded finalize_all_def] assms(2)]
  have s: "all_settled st'" "\<And>s. stream s st' = stream s st"
    "\<And>s. sp_get s st' = (if s \<in> set ?slugs then None else sp_get s st)" by auto
  have none: "sp_get s st' = None" for s
    using s(3) [of s] by (auto simp: set sp_get_def map_of_eq_None_iff)
  then have "records (content st' (active_name s)) = []" for s
    using s(1) by (simp add: all_settled_def settled_def)
  with none s(2) show ?thesis by (auto simp: stream_def buffered_def)
qed

theorem finalize_all_publishes_witness:
  "\<exists>st'. finalize_all sample_sys written_spool = (Ok (), st')
     \<and> concat (map (\<lambda>r. records (snd (snd r))) (history st' ''unknown'')) = stream ''unknown'' written_spool"
proof -
  obtain st' where st': "finalize_all sample_sys written_spool = (Ok (), st')" using sample_finalize by blast
  have "active_name s \<noteq> ''a.ndjson''" for s by (simp add: active_name_def)
  then have "all_settled written_spool"
    by (simp add: all_settled_def settled_def sp_get_def written_spool_def content_def fget_def nl_closed_def records_def)
  from finalize_all_publishes [OF st' this sample_order] st' show ?thesis by blast
qed

text \<open>Rotation of stale files, pruning included, keeps every dataset's stream when it reports success.\<close>

theorem rotate_stale_files_keeps:
  assumes "rotate_stale_files S st = (Ok (), st')" "all_settled st"
  shows "all_settled st' \<and> (\<forall>slug. stream slug st' = stream slug st)"
  using rotate_stale_files_streams [OF assms(1)] assms(2) by (simp add: streams_kept_def)

theorem rotate_stale_files_keeps_witness:
  "\<exists>st'. rotate_stale_files sample_sys sample_spool = (Ok (), st') \<and> stream ''s'' st' = stream ''s'' sample_spool"
proof -
  have "rotate_stale_files sample_sys sample_spool = (Ok (), sample_spool)"
    by (simp add: rotate_stale_files_def prune_retained_quarantines_def prune_with_limits_def spool_eval sample_spool_def)
  with rotate_stale_files_keeps [OF this sample_spool_settled] show ?thesis by blast
qed

text \<open>Padding that succeeds brings the file to at least 1024 bytes by spaces before its final line break
  alone: the records are the same, the length is reported, other files are untouched, and padding again
  changes nothing.\<close>

theorem pad_spool_final_correct:
  assumes "pad_spool_final S path w = (Ok k, w')" "fget w path = Some c" "nl_closed c"
  shows "\<exists>c'. fget w' path = Some c' \<and> k = length c' \<and> k = max 1024 (length c) \<and> records c' = records c
    \<and> nl_closed c' \<and> padded c' = c' \<and> (\<forall>m. m \<noteq> path \<longrightarrow> fget w' m = fget w m)"
proof -
  from pad_spool_final_Ok [OF assms(1,2)] have p: "fget w' path = Some (padded c)" "k = length (padded c)" "c \<noteq> []" by auto
  have len: "length (padded c) = max 1024 (length c)" using length_padded [OF p(3)] by (simp add: min_published_spool_bytes_def)
  then have "padded (padded c) = padded c" by (simp add: padded_def [of "padded c"] min_published_spool_bytes_def)
  moreover have "\<forall>m. m \<noteq> path \<longrightarrow> fget w' m = fget w m"
    using pad_touches [of path w S] assms(1) by (simp add: touches_def)
  ultimately show ?thesis using p len records_padded [OF assms(3) p(3)] padded_closed [OF assms(3)] by simp
qed

theorem pad_spool_final_correct_witness:
  "\<exists>w' c'. pad_spool_final sample_sys ''b'' (fput ''b'' ([CHR ''1'', CHR 0x0A]) sample_spool) = (Ok 1024, w')
     \<and> fget w' ''b'' = Some c' \<and> length c' = 1024 \<and> records c' = [''1'']"
proof -
  let ?w = "fput ''b'' [CHR ''1'', CHR 0x0A] sample_spool"
  have "\<exists>w'. pad_spool_final sample_sys ''b'' ?w = (Ok 1024, w')"
    by (simp add: pad_spool_final_def ok_iff sample_sys_def min_published_spool_bytes_def)
  then obtain w' where w': "pad_spool_final sample_sys ''b'' ?w = (Ok 1024, w')" by blast
  have c: "fget ?w ''b'' = Some [CHR ''1'', CHR 0x0A]" by simp
  have "records [CHR ''1'', CHR 0x0A] = [''1'']" by code_simp
  moreover have "nl_closed [CHR ''1'', CHR 0x0A]" by (simp add: nl_closed_def)
  ultimately show ?thesis using pad_spool_final_correct [OF w' c] w' by auto
qed

text \<open>C23: The search for a free name ends.  Without faults, with the clock after the epoch, the source present
  and enough sequence numbers left before \<open>u32::MAX\<close>, publication succeeds within as many tries as there
  are files, under a name that was free.\<close>

theorem publish_closed_file_succeeds:
  assumes "\<And>n. fault S n = None" "wall S (tick w) = Some millis" "fget w source = Some c"
    "next_seq w + length (files w) \<le> u32_max" "length (files w) < fuel S"
  shows "\<exists>seq w'. publish_closed_file S source slug extension w = (Ok (target_name slug millis seq extension), w')
    \<and> fget w (target_name slug millis seq extension) = None"
proof -
  obtain k where k: "k \<le> length (files w)" "fget w (target_name slug millis (next_seq w + k) extension) = None"
    "\<And>j. j < k \<Longrightarrow> fget w (target_name slug millis (next_seq w + j) extension) \<noteq> None"
    using free_number [of w slug millis "next_seq w" extension] by blast
  have t: "next_seq (tock w) = next_seq w" by (simp add: tock_def)
  have "\<exists>w'. publish_loop (fuel S) S source slug extension millis (tock w)
      = (Inr (target_name slug millis (next_seq (tock w) + k) extension), w')"
    using assms k by (intro publish_loop_finds) (simp_all add: t)
  with assms(2) k(2) show ?thesis by (auto simp: publish_closed_file_def io_bind_def unix_millis_def t)
qed

theorem publish_closed_file_succeeds_witness:
  "\<exists>seq w'. publish_closed_file sample_sys ''a.ndjson'' ''s'' ''ndjson'' sample_spool
     = (Ok (target_name ''s'' 5 seq ''ndjson''), w')"
proof -
  have "wall sample_sys (tick sample_spool) = Some 5" "fget sample_spool ''a.ndjson'' = Some ''x''"
    "next_seq sample_spool + length (files sample_spool) \<le> u32_max" "length (files sample_spool) < fuel sample_sys"
    "\<And>n. fault sample_sys n = None"
    by (simp_all add: sample_sys_def sample_spool_def fget_def u32_max_def)
  with publish_closed_file_succeeds [of sample_sys sample_spool 5 "''a.ndjson''" "''x''" "''s''" "''ndjson''"]
  show ?thesis by blast
qed

text \<open>C27: The sequence number saturates: once it is \<open>u32::MAX\<close> and that name is taken, the search for a free name
  never ends, for any amount of fuel.\<close>

theorem publish_loop_never_returns:
  assumes "\<And>n. fault S n = None" "next_seq w = u32_max"
    "fget w (target_name slug millis u32_max extension) \<noteq> None"
  shows "\<forall>n. fst (publish_loop n S source slug extension millis w) = Err NoResult"
  using publish_loop_stuck [OF assms] by blast

theorem publish_loop_never_returns_witness:
  "fst (publish_loop 100 sample_sys ''t'' ''s'' ''ndjson'' 5
      (fput (target_name ''s'' 5 u32_max ''ndjson'') [] (sample_spool\<lparr>next_seq := u32_max\<rparr>))) = Err NoResult"
proof -
  let ?w = "fput (target_name ''s'' 5 u32_max ''ndjson'') [] (sample_spool\<lparr>next_seq := u32_max\<rparr>)"
  have "next_seq ?w = u32_max" "fget ?w (target_name ''s'' 5 u32_max ''ndjson'') \<noteq> None"
    "\<And>n. fault sample_sys n = None" by (simp_all add: fput_def sample_sys_def) (simp add: fget_def)
  with publish_loop_never_returns [of sample_sys ?w] show ?thesis by blast
qed

end
