(* ===== verification/Recovery.thy ===== *)
theory Recovery
  imports Spool_Stream
begin

text \<open>
  Model of the start of the spool writer of \<open>src/src/shipper.rs\<close>: the lock with its bounded retry, the bounded
  line reader, the recovery of one stranded active file through a staging file into a published file and,
  when anything was malformed or cut off, a quarantined copy of the input, the sweep over the
  directory, and \<open>SpoolWriter::new\<close>.  How reads cut a file into chunks and whether a line parses as JSON are
  parameters.  The lemmas show that the reader does not depend on the chunks, that a failure at any
  point leaves the source file as it was, that published files are not touched, and that after a successful
  start no record is left in an active file.
\<close>

section \<open>Lock with retry\<close>

text \<open>The three closures act on a state; \<open>try_lock\<close> answers \<open>None\<close> for success, \<open>Some True\<close> for contention and
  \<open>Some False\<close> for another error.  Times are in milliseconds.\<close>

record lock_retry_failure =
  lf_contended :: bool
  lf_attempts :: nat
  lf_elapsed :: nat
  lf_exhausted :: bool

fun lock_retry ::
    "('s \<Rightarrow> bool option \<times> 's) \<Rightarrow> ('s \<Rightarrow> nat \<times> 's) \<Rightarrow> (nat \<Rightarrow> 's \<Rightarrow> 's) \<Rightarrow> nat \<Rightarrow> nat \<Rightarrow> nat list \<Rightarrow> 's
      \<Rightarrow> (lock_retry_failure, unit) result \<times> 's" where
  "lock_retry try_lock elapsed sleep cap attempt backoffs s =
     (case try_lock s of
        (None, s1) \<Rightarrow> (Ok (), s1)
      | (Some retryable, s1) \<Rightarrow>
        (case backoffs of
           [] \<Rightarrow> (let (t, s2) = elapsed s1
                 in (Err \<lparr>lf_contended = retryable, lf_attempts = attempt, lf_elapsed = t, lf_exhausted = retryable\<rparr>, s2))
         | backoff # rest \<Rightarrow>
           (if \<not> retryable
            then (let (t, s2) = elapsed s1
                  in (Err \<lparr>lf_contended = False, lf_attempts = attempt, lf_elapsed = t, lf_exhausted = False\<rparr>, s2))
            else
              (let (t1, s2) = elapsed s1; remaining = cap - t1 in
               if remaining = 0
               then (let (t, s3) = elapsed s2
                     in (Err \<lparr>lf_contended = True, lf_attempts = attempt, lf_elapsed = t, lf_exhausted = True\<rparr>, s3))
               else
                 (let s3 = sleep (min backoff remaining) s2; (t2, s4) = elapsed s3 in
                  if cap \<le> t2
                  then (let (t, s5) = elapsed s4
                        in (Err \<lparr>lf_contended = True, lf_attempts = attempt, lf_elapsed = t, lf_exhausted = True\<rparr>, s5))
                  else lock_retry try_lock elapsed sleep cap (attempt + 1) rest s4)))))"

declare lock_retry.simps [simp del]

definition try_spool_lock_with_retry ::
    "('s \<Rightarrow> bool option \<times> 's) \<Rightarrow> ('s \<Rightarrow> nat \<times> 's) \<Rightarrow> (nat \<Rightarrow> 's \<Rightarrow> 's) \<Rightarrow> nat list \<Rightarrow> nat \<Rightarrow> 's
      \<Rightarrow> (lock_retry_failure, unit) result \<times> 's" where
  "try_spool_lock_with_retry try_lock elapsed sleep backoffs cap s = lock_retry try_lock elapsed sleep cap 1 backoffs s"

definition spool_lock_retry_cap :: nat where "spool_lock_retry_cap = 2000"
definition spool_lock_backoff_ms :: "nat list" where "spool_lock_backoff_ms = [5, 10, 20, 40, 80, 160, 320]"

section \<open>The line reader\<close>

definition recovery_max_line_bytes :: nat where "recovery_max_line_bytes = 1048576"

record recovery_line =
  rl_bytes :: bytes
  rl_terminated :: bool
  rl_oversize :: bool

text \<open>The reader is the list of what its next reads will deliver; an empty read is the end of the file.\<close>

type_synonym reader = "(spool_error, bytes) result list"

definition line_at_eof :: "bytes \<Rightarrow> bool \<Rightarrow> recovery_line option" where
  "line_at_eof line oversize =
     (if line = [] \<and> \<not> oversize then None
      else Some \<lparr>rl_bytes = line, rl_terminated = False, rl_oversize = oversize\<rparr>)"

fun read_recovery_line :: "reader \<Rightarrow> bytes \<Rightarrow> bool \<Rightarrow> (spool_error, recovery_line option) result \<times> reader" where
  "read_recovery_line [] line oversize = (Ok (line_at_eof line oversize), [])"
| "read_recovery_line (Inl e # rest) line oversize = (Err e, rest)"
| "read_recovery_line (Inr buffer # rest) line oversize =
     (if buffer = [] then (Ok (line_at_eof line oversize), [])
      else
        (let newline = CHR 0x0A \<in> set buffer;
             part = takeWhile (\<lambda>b. b \<noteq> CHR 0x0A) buffer;
             over = (oversize \<or> recovery_max_line_bytes < length line + length part);
             line' = (if over then line else line @ part)
         in if newline
            then (Ok (Some \<lparr>rl_bytes = line', rl_terminated = True, rl_oversize = over\<rparr>),
                  (let left = drop (length part + 1) buffer in if left = [] then rest else Inr left # rest))
            else read_recovery_line rest line' over))"

section \<open>Recovery of one file\<close>

definition staging_name :: "string \<Rightarrow> nat \<Rightarrow> nat \<Rightarrow> string \<Rightarrow> string" where
  "staging_name slug millis seq extension =
     ''.rigsignal-'' @ slug @ ''-'' @ show_nat millis @ ''-'' @ show_nat seq @ ''.'' @ extension @ ''.staging''"

definition create_recovery_stage ::
    "sys \<Rightarrow> string \<Rightarrow> nat \<Rightarrow> nat \<Rightarrow> string \<Rightarrow> (string, 'z) io" where
  "create_recovery_stage S slug millis seq extension =
     (let stage = staging_name slug millis seq extension
      in io_bind (fs_create_new S stage) (\<lambda>_. io_return stage))"

text \<open>\<open>final_stage\<close> and \<open>final_writer\<close> are set together: the staging file and the buffer of its writer.\<close>

record recovery_state =
  rs_stage :: "(string \<times> bytes) option"
  rs_malformed :: bool
  rs_partial :: bool

text \<open>Writing one valid record to the staging file, which is created on the first one.\<close>

definition stage_record ::
    "sys \<Rightarrow> string \<Rightarrow> nat \<Rightarrow> bytes \<Rightarrow> recovery_state \<Rightarrow> 'z seq_fs_scheme
      \<Rightarrow> (spool_error, unit) result \<times> recovery_state \<times> 'z seq_fs_scheme" where
  "stage_record S slug millis record rs w =
     (case (case rs_stage rs of
              Some (stage, buf) \<Rightarrow> (Ok (stage, buf), w)
            | None \<Rightarrow> (case create_recovery_stage S slug millis (next_seq w) ''ndjson'' w of
                        (Inl e, w1) \<Rightarrow> (Err e, w1) | (Inr stage, w1) \<Rightarrow> (Ok (stage, []), w1))) of
        (Inl e, w1) \<Rightarrow> (Err e, rs, w1)
      | (Inr (stage, buf), w1) \<Rightarrow>
        (case bw_write_all S stage record buf w1 of
           (Inl e, buf1, w2) \<Rightarrow> (Err e, rs\<lparr>rs_stage := Some (stage, buf1)\<rparr>, w2)
         | (Inr _, buf1, w2) \<Rightarrow>
           (case bw_write_all S stage [CHR 0x0A] buf1 w2 of
              (r, buf2, w3) \<Rightarrow> (r, rs\<lparr>rs_stage := Some (stage, buf2)\<rparr>, w3))))"

fun reader_bytes :: "reader \<Rightarrow> nat" where
  "reader_bytes [] = 0"
| "reader_bytes (Inl e # rest) = reader_bytes rest"
| "reader_bytes (Inr b # rest) = length b + reader_bytes rest"

lemma read_recovery_line_le:
  "read_recovery_line rd line over = (r, rd') \<Longrightarrow> reader_bytes rd' \<le> reader_bytes rd"
proof (induction rd arbitrary: line over)
  case (Cons c rest)
  show ?case
  proof (cases c)
    case (Inl e)
    with Cons.prems show ?thesis by simp
  next
    case (Inr b)
    then show ?thesis using Cons.prems Cons.IH [of _ _]
      by (auto simp: Let_def split: if_splits intro: trans_le_add2 le_add2)
  qed
qed simp

lemma read_recovery_line_bytes:
  assumes "read_recovery_line rd [] False = (Inr (Some l), rd')"
  shows "reader_bytes rd' < reader_bytes rd"
proof (cases rd)
  case Nil
  with assms show ?thesis by (simp add: line_at_eof_def)
next
  case (Cons c rest)
  with assms obtain b where c: "c = Inr b" "b \<noteq> []" by (cases c) (auto simp: line_at_eof_def split: if_splits)
  show ?thesis
  proof (cases "CHR 0x0A \<in> set b")
    case True
    with assms Cons c show ?thesis by (cases b) (auto simp: Let_def split: if_splits)
  next
    case False
    with assms Cons c have "reader_bytes rd' \<le> reader_bytes rest"
      by (auto simp: Let_def dest: read_recovery_line_le)
    with Cons c show ?thesis by (cases b) simp_all
  qed
qed

text \<open>The loop over the lines; the second component of the result is the state at the point it stopped.\<close>

function recover_lines ::
    "sys \<Rightarrow> (bytes \<Rightarrow> bool) \<Rightarrow> string \<Rightarrow> nat \<Rightarrow> reader \<Rightarrow> recovery_state \<Rightarrow> 'z seq_fs_scheme
      \<Rightarrow> (spool_error, unit) result \<times> recovery_state \<times> 'z seq_fs_scheme" where
  "recover_lines S json_ok slug millis rd rs w =
     (case read_recovery_line rd [] False of
        (Inl e, _) \<Rightarrow> (Err e, rs, w)
      | (Inr None, _) \<Rightarrow> (Ok (), rs, w)
      | (Inr (Some l), rd') \<Rightarrow>
        (if \<not> rl_terminated l
         then recover_lines S json_ok slug millis rd'
                (rs\<lparr>rs_malformed := rs_malformed rs \<or> rl_oversize l, rs_partial := True\<rparr>) w
         else if rl_oversize l \<or> rl_bytes l = []
         then recover_lines S json_ok slug millis rd' (rs\<lparr>rs_malformed := rs_malformed rs \<or> rl_oversize l\<rparr>) w
         else if json_ok (rl_bytes l)
         then (case stage_record S slug millis (rl_bytes l) rs w of
                 (Inl e, rs1, w1) \<Rightarrow> (Err e, rs1, w1)
               | (Inr _, rs1, w1) \<Rightarrow> recover_lines S json_ok slug millis rd' rs1 w1)
         else recover_lines S json_ok slug millis rd' (rs\<lparr>rs_malformed := True\<rparr>) w))"
  by pat_completeness auto
termination
  by (relation "measure (\<lambda>(S, json_ok, slug, millis, rd, rs, w). reader_bytes rd)")
    (auto dest: read_recovery_line_bytes [OF sym])

declare recover_lines.simps [simp del]

fun reserve_loop ::
    "nat \<Rightarrow> sys \<Rightarrow> string \<Rightarrow> string \<Rightarrow> nat \<Rightarrow> 'z seq_fs_scheme \<Rightarrow> (spool_error, string) result \<times> 'z seq_fs_scheme"
where
  "reserve_loop 0 S slug extension millis w = (Err NoResult, w)"
| "reserve_loop (Suc n) S slug extension millis w =
     (let target = target_name slug millis (next_seq w) extension in
      case fs_create_new S target w of
        (Inr _, w1) \<Rightarrow> (Ok target, bump_seq w1)
      | (Inl e, w1) \<Rightarrow>
          (if e = AlreadyExists then reserve_loop n S slug extension millis (bump_seq w1) else (Err e, w1)))"

definition reserve_name ::
    "sys \<Rightarrow> string \<Rightarrow> string \<Rightarrow> 'z seq_fs_scheme \<Rightarrow> (spool_error, string) result \<times> 'z seq_fs_scheme" where
  "reserve_name S slug extension = io_bind (unix_millis S) (\<lambda>millis. reserve_loop (fuel S) S slug extension millis)"

text \<open>\<open>RecoveryPublisher::publish\<close> is the loop of \<open>publish_closed_file\<close>.\<close>

definition recovery_publish ::
    "sys \<Rightarrow> string \<Rightarrow> string \<Rightarrow> string \<Rightarrow> 'z seq_fs_scheme \<Rightarrow> (spool_error, string) result \<times> 'z seq_fs_scheme" where
  "recovery_publish S source slug extension =
     io_bind (unix_millis S) (\<lambda>millis. publish_loop (fuel S) S source slug extension millis)"

definition remove_ignoring :: "sys \<Rightarrow> string option \<Rightarrow> 'z fs_scheme \<Rightarrow> 'z fs_scheme" where
  "remove_ignoring S n w = (case n of None \<Rightarrow> w | Some p \<Rightarrow> snd (remove_file_if_exists S p w))"

definition cleanup_stages :: "sys \<Rightarrow> string option \<Rightarrow> string option \<Rightarrow> 'z fs_scheme \<Rightarrow> 'z fs_scheme" where
  "cleanup_stages S first second w = remove_ignoring S second (remove_ignoring S first w)"

text \<open>Moving the source to its reserved quarantine name, or removing it.\<close>

definition dispose_source ::
    "sys \<Rightarrow> string \<Rightarrow> string option \<Rightarrow> (unit, 'z) io" where
  "dispose_source S source reservation w =
     (case reservation of
        None \<Rightarrow> remove_file_if_exists S source w
      | Some target \<Rightarrow>
        (case fs_rename S source target w of
           (Inl e, w1) \<Rightarrow> (Err e, snd (remove_file_if_exists S target w1))
         | (Inr _, w1) \<Rightarrow> (Ok (), w1)))"

text \<open>From the closed and padded staging file on; \<open>hook\<close> is the outcome of \<open>before_publish\<close>.\<close>

definition publish_and_dispose ::
    "sys \<Rightarrow> (nat \<Rightarrow> spool_error option) \<Rightarrow> string \<Rightarrow> string \<Rightarrow> string option \<Rightarrow> string option \<Rightarrow> 'z seq_fs_scheme
      \<Rightarrow> (spool_error, unit) result \<times> 'z seq_fs_scheme" where
  "publish_and_dispose S hook source slug stage reservation w =
     (case hook (tick w) of
        Some e \<Rightarrow> (Err e, cleanup_stages S stage reservation w)
      | None \<Rightarrow>
        (case stage of
           None \<Rightarrow> dispose_source S source reservation w
         | Some st \<Rightarrow>
           (case recovery_publish S st slug ''ndjson'' w of
              (Inl e, w1) \<Rightarrow> (Err e, cleanup_stages S stage reservation w1)
            | (Inr _, w1) \<Rightarrow> dispose_source S source reservation w1)))"

definition reserve_quarantine ::
    "sys \<Rightarrow> string \<Rightarrow> bool \<Rightarrow> 'z seq_fs_scheme \<Rightarrow> (spool_error, string option) result \<times> 'z seq_fs_scheme" where
  "reserve_quarantine S slug needed w =
     (if needed then (case reserve_name S slug ''quarantine'' w of
                        (Inl e, w1) \<Rightarrow> (Err e, w1) | (Inr t, w1) \<Rightarrow> (Ok (Some t), w1))
      else (Ok None, w))"

text \<open>Flushing, closing and padding the staging file, if there is one.\<close>

definition close_stage ::
    "sys \<Rightarrow> (string \<times> bytes) option \<Rightarrow> (unit, 'z) io" where
  "close_stage S stage w =
     (case stage of
        None \<Rightarrow> (Ok (), w)
      | Some (name, buf) \<Rightarrow>
        (case bw_flush S name buf w of
           (Inl e, buf1, w1) \<Rightarrow> (Err e, bw_drop S name buf1 w1)
         | (Inr _, _, w1) \<Rightarrow> io_bind (pad_spool_final S name) (\<lambda>_. io_return ()) w1))"

definition recover_stranded_file ::
    "sys \<Rightarrow> (bytes \<Rightarrow> reader) \<Rightarrow> (bytes \<Rightarrow> bool) \<Rightarrow> (nat \<Rightarrow> spool_error option) \<Rightarrow> string \<Rightarrow> string \<Rightarrow> 'z seq_fs_scheme
      \<Rightarrow> (spool_error, unit) result \<times> 'z seq_fs_scheme" where
  "recover_stranded_file S reads json_ok hook source slug =
     io_bind (fs_open S source) (\<lambda>file.
     io_bind (unix_millis S) (\<lambda>millis w.
       case recover_lines S json_ok slug millis (reads file)
              \<lparr>rs_stage = None, rs_malformed = False, rs_partial = False\<rparr> w of
         (Inl e, rs, w1) \<Rightarrow>
           (Err e, (case rs_stage rs of None \<Rightarrow> w1 | Some (name, buf) \<Rightarrow> bw_drop S name buf w1))
       | (Inr _, rs, w1) \<Rightarrow>
           (if rs_stage rs = None \<and> \<not> rs_malformed rs \<and> \<not> rs_partial rs then (Ok (), w1)
            else io_bind (close_stage S (rs_stage rs)) (\<lambda>_ w2.
                   case reserve_quarantine S slug (rs_malformed rs \<or> rs_partial rs) w2 of
                     (Inl e, w3) \<Rightarrow> (Err e, cleanup_stages S (map_option fst (rs_stage rs)) None w3)
                   | (Inr reservation, w3) \<Rightarrow>
                       publish_and_dispose S hook source slug (map_option fst (rs_stage rs)) reservation w3) w1)))"

section \<open>The sweep and the start\<close>

definition stranded_slug :: "string \<Rightarrow> string option" where
  "stranded_slug name =
     (if utf8_valid name then do { rest \<leftarrow> strip_prefix ''rigsignal-'' name; strip_suffix ''.ndjson.tmp'' rest } else None)"

definition is_recovery_staging_file :: "string \<Rightarrow> bool" where
  "is_recovery_staging_file name \<longleftrightarrow> utf8_valid name \<and> ends_with ''.staging'' name"

fun remove_staging :: "sys \<Rightarrow> string list \<Rightarrow> (unit, 'z) io" where
  "remove_staging S [] w = (Ok (), w)"
| "remove_staging S (name # names) w =
     io_bind (fs_touch S) (\<lambda>_.
     io_bind (\<lambda>w. if is_recovery_staging_file name then remove_file_if_exists S name w else (Ok (), w)) (\<lambda>_.
     remove_staging S names)) w"

fun recover_each ::
    "sys \<Rightarrow> (bytes \<Rightarrow> reader) \<Rightarrow> (bytes \<Rightarrow> bool) \<Rightarrow> (nat \<Rightarrow> spool_error option) \<Rightarrow> string list \<Rightarrow> 'z seq_fs_scheme
      \<Rightarrow> (spool_error, unit) result \<times> 'z seq_fs_scheme" where
  "recover_each S reads json_ok hook [] w = (Ok (), w)"
| "recover_each S reads json_ok hook (name # names) w =
     io_bind (fs_touch S) (\<lambda>_.
     io_bind (\<lambda>w. case stranded_slug name of
                    None \<Rightarrow> (Ok (), w)
                  | Some slug \<Rightarrow> recover_stranded_file S reads json_ok hook name slug w) (\<lambda>_.
     recover_each S reads json_ok hook names)) w"

definition recover_stranded_files ::
    "sys \<Rightarrow> (bytes \<Rightarrow> reader) \<Rightarrow> (bytes \<Rightarrow> bool) \<Rightarrow> (nat \<Rightarrow> spool_error option) \<Rightarrow> 'z seq_fs_scheme
      \<Rightarrow> (spool_error, unit) result \<times> 'z seq_fs_scheme" where
  "recover_stranded_files S reads json_ok hook =
     io_bind (fs_read_dir S) (\<lambda>names.
     io_bind (remove_staging S names) (\<lambda>_.
     io_bind (fs_read_dir S) (\<lambda>names.
     recover_each S reads json_ok hook names)))"

text \<open>\<open>create(true).truncate(false)\<close>\<close>

definition fs_create_keep :: "sys \<Rightarrow> string \<Rightarrow> (unit, 'z) io" where
  "fs_create_keep S n w =
     (case fault S (tick w) of Some _ \<Rightarrow> (Err IoError, tock w)
      | None \<Rightarrow> (Ok (), if fget w n = None then fput n [] (tock w) else tock w))"

definition lock_name :: string where "lock_name = ''.rigsignal-spool.lock''"

definition u64_max :: nat where "u64_max = 18446744073709551615"

text \<open>\<open>lock n\<close> is the answer of the lock call number \<open>n\<close>, as for \<open>try_lock\<close> above.\<close>

definition acquire_lock :: "sys \<Rightarrow> (nat \<Rightarrow> bool option) \<Rightarrow> (unit, 'z) io" where
  "acquire_lock S lock w =
     (let started = mono S (tick w) in
      case try_spool_lock_with_retry (\<lambda>w. (lock (tick w), tock w)) (\<lambda>w. (mono S (tick w) - started, tock w))
             (\<lambda>_. tock) spool_lock_backoff_ms spool_lock_retry_cap w of
        (Inl _, w1) \<Rightarrow> (Err LockFailed, w1)
      | (Inr _, w1) \<Rightarrow> (Ok (), w1))"

definition new_spool_writer ::
    "sys \<Rightarrow> (nat \<Rightarrow> bool option) \<Rightarrow> (bytes \<Rightarrow> reader) \<Rightarrow> (bytes \<Rightarrow> bool) \<Rightarrow> nat \<Rightarrow> nat \<Rightarrow> nat \<Rightarrow> seq_fs
      \<Rightarrow> (spool_error, spool_state) result \<times> seq_fs" where
  "new_spool_writer S lock reads json_ok bytes age hours =
     io_bind (fs_touch S) (\<lambda>_.
     io_bind (fs_create_keep S lock_name) (\<lambda>_.
     io_bind (acquire_lock S lock) (\<lambda>_ w.
     io_bind (recover_stranded_files S reads json_ok (\<lambda>_. None)) (\<lambda>_ w.
       (Ok (seq_fs.extend (seq_fs.truncate w)
              \<lparr>max_file_bytes = bytes, max_file_age = age, retention = min (hours * 3600) u64_max, spools = [],
               retention_scan = None\<rparr>), w)) (w\<lparr>next_seq := 1\<rparr>))))"

section \<open>The reader does not depend on the chunks\<close>

text \<open>A reader that delivers a file in chunks without an error.\<close>

definition delivers :: "reader \<Rightarrow> bytes \<Rightarrow> bool" where
  "delivers rd file \<longleftrightarrow> (\<exists>cs. rd = map Inr cs \<and> [] \<notin> set cs \<and> concat cs = file)"

lemma delivers_Nil: "delivers [] file \<longleftrightarrow> file = []"
  by (auto simp: delivers_def)

lemma delivers_Cons: "delivers (c # rd) file \<longleftrightarrow> (\<exists>b rest. c = Inr b \<and> b \<noteq> [] \<and> file = b @ rest \<and> delivers rd rest)"
proof
  assume "delivers (c # rd) file"
  then obtain cs where "c # rd = map Inr cs" "[] \<notin> set cs" "concat cs = file"
    unfolding delivers_def by (elim exE conjE)
  then show "\<exists>b rest. c = Inr b \<and> b \<noteq> [] \<and> file = b @ rest \<and> delivers rd rest"
    by (cases cs) (auto simp: delivers_def)
next
  assume "\<exists>b rest. c = Inr b \<and> b \<noteq> [] \<and> file = b @ rest \<and> delivers rd rest"
  then obtain b rest cs where "c = Inr b" "b \<noteq> []" "file = b @ rest" "rd = map Inr cs" "[] \<notin> set cs" "concat cs = rest"
    by (auto simp: delivers_def)
  then show "delivers (c # rd) file" unfolding delivers_def by (intro exI [of _ "b # cs"]) simp
qed

lemma read_step:
  assumes "b \<noteq> []" "CHR 0x0A \<notin> set b"
  shows "read_recovery_line (Inr b # rd) line over =
    read_recovery_line rd (if over \<or> recovery_max_line_bytes < length line + length b then line else line @ b)
      (over \<or> recovery_max_line_bytes < length line + length b)"
proof -
  have tk: "takeWhile (\<lambda>x. x \<noteq> CHR 0x0A) b = b" using assms(2) by (auto simp: takeWhile_eq_all_conv)
  show ?thesis unfolding read_recovery_line.simps Let_def tk using assms by simp
qed

lemma read_hit:
  assumes "CHR 0x0A \<notin> set p"
  shows "read_recovery_line (Inr (p @ CHR 0x0A # q) # rd) line over =
    (let o' = (over \<or> recovery_max_line_bytes < length line + length p)
     in (Ok (Some \<lparr>rl_bytes = (if o' then line else line @ p), rl_terminated = True, rl_oversize = o'\<rparr>),
         if q = [] then rd else Inr q # rd))"
proof -
  have tk: "takeWhile (\<lambda>x. x \<noteq> CHR 0x0A) (p @ CHR 0x0A # q) = p"
    using assms by (auto simp: takeWhile_tail takeWhile_eq_all_conv)
  show ?thesis unfolding read_recovery_line.simps Let_def tk by simp
qed

lemma read_line_terminated:
  assumes "delivers rd (part @ CHR 0x0A # rest)" "CHR 0x0A \<notin> set part"
  shows "\<exists>rd' b. read_recovery_line rd line over =
      (Ok (Some \<lparr>rl_bytes = b, rl_terminated = True,
                rl_oversize = (over \<or> recovery_max_line_bytes < length line + length part)\<rparr>), rd')
    \<and> delivers rd' rest
    \<and> (\<not> (over \<or> recovery_max_line_bytes < length line + length part) \<longrightarrow> b = line @ part)"
  using assms
proof (induction rd arbitrary: line over part)
  case Nil
  then show ?case by (simp add: delivers_Nil)
next
  case (Cons c rd)
  then obtain b tl where b: "c = Inr b" "b \<noteq> []" "part @ CHR 0x0A # rest = b @ tl" "delivers rd tl"
    by (auto simp: delivers_Cons)
  show ?case
  proof (cases "CHR 0x0A \<in> set b")
    case True
    then obtain p q where p: "b = p @ CHR 0x0A # q" "CHR 0x0A \<notin> set p" by (meson split_list_first)
    with b(3) Cons.prems(2) have eq: "part = p" "rest = q @ tl"
      by (auto simp: append_eq_append_conv2 Cons_eq_append_conv append_eq_Cons_conv)
    have "delivers (if q = [] then rd else Inr q # rd) rest" using b(4) eq(2) by (auto simp: delivers_Cons)
    then show ?thesis unfolding b(1) p(1) read_hit [OF p(2)] Let_def eq(1) by auto
  next
    case False
    with b(3) obtain part' where eq: "part = b @ part'" "tl = part' @ CHR 0x0A # rest"
      by (auto simp: append_eq_append_conv2 Cons_eq_append_conv append_eq_Cons_conv)
    let ?over = "over \<or> recovery_max_line_bytes < length line + length b"
    let ?line = "if ?over then line else line @ b"
    let ?o = "?over \<or> recovery_max_line_bytes < length ?line + length part'"
    have "CHR 0x0A \<notin> set part'" using Cons.prems(2) eq(1) by simp
    from Cons.IH [OF b(4) [unfolded eq(2)] this, of ?line ?over]
    obtain rd' x where IH: "read_recovery_line rd ?line ?over =
        (Ok (Some \<lparr>rl_bytes = x, rl_terminated = True, rl_oversize = ?o\<rparr>), rd')"
      "delivers rd' rest" "\<not> ?o \<longrightarrow> x = ?line @ part'" by blast
    have o: "?o = (over \<or> recovery_max_line_bytes < length line + length part)" using eq(1) by auto
    have "\<not> (over \<or> recovery_max_line_bytes < length line + length part) \<longrightarrow> x = line @ part"
      using IH(3) unfolding o using eq(1) by auto
    with IH(1,2) show ?thesis unfolding b(1) read_step [OF b(2) False] o by blast
  qed
qed

lemma read_line_tail:
  assumes "delivers rd tx" "CHR 0x0A \<notin> set tx"
  shows "\<exists>b. read_recovery_line rd line over =
      (Ok (if line = [] \<and> tx = [] \<and> \<not> over then None
           else Some \<lparr>rl_bytes = b, rl_terminated = False,
                  rl_oversize = (over \<or> recovery_max_line_bytes < length line + length tx \<and> tx \<noteq> [])\<rparr>), [])"
  using assms
proof (induction rd arbitrary: line over tx)
  case Nil
  then show ?case by (simp add: delivers_Nil line_at_eof_def)
next
  case (Cons c rd)
  then obtain b tl where b: "c = Inr b" "b \<noteq> []" "tx = b @ tl" "delivers rd tl" by (auto simp: delivers_Cons)
  with Cons.prems(2) have nb: "CHR 0x0A \<notin> set b" by auto
  let ?over = "over \<or> recovery_max_line_bytes < length line + length b"
  let ?line = "if ?over then line else line @ b"
  have step: "read_recovery_line (c # rd) line over = read_recovery_line rd ?line ?over"
    unfolding b(1) by (rule read_step [OF b(2) nb])
  have "CHR 0x0A \<notin> set tl" using b(3) Cons.prems(2) by simp
  from Cons.IH [OF b(4) this, of ?line ?over] obtain x where IH:
    "read_recovery_line rd ?line ?over =
      (Ok (if ?line = [] \<and> tl = [] \<and> \<not> ?over then None
           else Some \<lparr>rl_bytes = x, rl_terminated = False,
                  rl_oversize = (?over \<or> recovery_max_line_bytes < length ?line + length tl \<and> tl \<noteq> [])\<rparr>), [])" by blast
  have "(?over \<or> recovery_max_line_bytes < length ?line + length tl \<and> tl \<noteq> [])
      = (over \<or> recovery_max_line_bytes < length line + length tx \<and> tx \<noteq> [])" using b(2,3) by auto
  moreover have "(?line = [] \<and> tl = [] \<and> \<not> ?over) = False" "(line = [] \<and> tx = [] \<and> \<not> over) = False"
    using b(2,3) by auto
  ultimately show ?case unfolding step IH by (simp only: if_False) blast
qed

section \<open>Which files recovery touches\<close>

definition is_tmp :: "string \<Rightarrow> bool" where
  "is_tmp n \<longleftrightarrow> ends_with ''.tmp'' n"

text \<open>Outside \<open>X\<close>, existing files are unchanged and new ones are not active files.\<close>

definition frame :: "string set \<Rightarrow> 'z fs_scheme \<Rightarrow> 'y fs_scheme \<Rightarrow> bool" where
  "frame X w w' \<longleftrightarrow> (\<forall>m. m \<notin> X \<longrightarrow> fget w' m = fget w m \<or> fget w m = None \<and> \<not> is_tmp m)"

lemma frame_refl [simp]: "frame X w w"
  by (simp add: frame_def)

lemma frame_trans: "frame X w w' \<Longrightarrow> frame X w' w'' \<Longrightarrow> frame X w w''"
  unfolding frame_def by metis

lemma frame_mono: "frame X w w' \<Longrightarrow> X \<subseteq> Y \<Longrightarrow> frame Y w w'"
  by (auto simp: frame_def)

lemma frame_shrink: "frame (insert n X) w w' \<Longrightarrow> fget w n = None \<Longrightarrow> \<not> is_tmp n \<Longrightarrow> frame X w w'"
  unfolding frame_def by (metis insertE)

lemma touches_frame: "touches N w w' \<Longrightarrow> frame N w w'"
  by (simp add: touches_def frame_def)

lemma touches_frame_empty: "touches {} w w' \<Longrightarrow> frame X w w'"
  by (rule frame_mono [OF touches_frame [of "{}"]]) simp_all

lemma frame_bump [simp]: "frame X w (bump_seq w') = frame X w w'"
  by (simp add: frame_def)

lemma frame_fresh: "touches {n} w w' \<Longrightarrow> fget w n = None \<Longrightarrow> \<not> is_tmp n \<Longrightarrow> frame X w w'"
  by (rule frame_mono [OF frame_shrink [of n "{}", OF touches_frame]]) simp_all

lemma names_not_tmp [simp]:
  "\<not> is_tmp (staging_name slug millis seq extension)"
  "\<not> is_tmp (target_name slug millis seq ''ndjson'')" "\<not> is_tmp (target_name slug millis seq ''quarantine'')"
  by (auto simp: is_tmp_def staging_name_def target_name_def dest!: ends_with_last)

definition stages :: "recovery_state \<Rightarrow> string set" where
  "stages rs = fst ` set_option (rs_stage rs)"

text \<open>A step of the line loop: it touches the staging file alone, and that file was free if the step made it.\<close>

definition staging_step :: "recovery_state \<Rightarrow> 'z fs_scheme \<Rightarrow> recovery_state \<Rightarrow> 'z fs_scheme \<Rightarrow> bool" where
  "staging_step rs w rs' w' \<longleftrightarrow> touches (stages rs') w w' \<and> stages rs \<subseteq> stages rs'
     \<and> (\<forall>n \<in> stages rs'. n \<in> stages rs \<or> fget w n = None \<and> \<not> is_tmp n \<and> \<not> is_final n)"

lemma staging_step_refl [simp]: "stages rs' = stages rs \<Longrightarrow> staging_step rs w rs' w"
  by (simp add: staging_step_def)

lemma stages_Some: "n \<in> stages rs \<longleftrightarrow> (\<exists>b. rs_stage rs = Some (n, b))"
  by (cases "rs_stage rs") (auto simp: stages_def)

lemma stages_unique: "n \<in> stages rs \<Longrightarrow> m \<in> stages rs \<Longrightarrow> n = m"
  by (auto simp: stages_Some)

lemma staging_step_trans:
  assumes "staging_step rs w rs' w'" "staging_step rs' w' rs'' w''"
  shows "staging_step rs w rs'' w''"
proof -
  have t: "touches (stages rs'') w w''"
    using assms touches_mono touches_trans unfolding staging_step_def by blast
  have "n \<in> stages rs \<or> fget w n = None \<and> \<not> is_tmp n \<and> \<not> is_final n" if "n \<in> stages rs''" for n
  proof (cases "n \<in> stages rs'")
    case True
    with assms(1) show ?thesis by (simp add: staging_step_def)
  next
    case False
    with assms(2) that have n: "fget w' n = None" "\<not> is_tmp n" "\<not> is_final n" by (auto simp: staging_step_def)
    moreover have "fget w' n = fget w n" using assms(1) False by (simp add: staging_step_def touches_def)
    ultimately show ?thesis by simp
  qed
  with t assms show ?thesis unfolding staging_step_def by blast
qed

lemma staging_not_final: "\<not> is_final (staging_name slug millis seq extension)"
  by (auto simp: is_final_def staging_name_def dest!: ends_with_last)

lemma stage_record_step:
  assumes "stage_record S slug millis rec rs w = (r, rs', w')"
  shows "staging_step rs w rs' w'"
proof -
  have put: "staging_step rs1 w1 (rs1\<lparr>rs_stage := Some (n, b2)\<rparr>) w2"
    if "rs_stage rs1 = Some (n, b)" "touches {n} w1 w2" for rs1 :: recovery_state and n b b2 and w1 w2 :: "'a seq_fs_scheme"
    using that by (simp add: staging_step_def stages_def)
  have wr: "touches {n} w1 w3" if "bw_write_all S n rec b w1 = (x, b1, w2)" "bw_write_all S n [CHR 0x0A] b1 w2 = (y, b2, w3)"
    for n b w1 x b1 w2 y b2 and w3 :: "'a seq_fs_scheme"
    using bw_write_all_touches [of n w1 S rec b] bw_write_all_touches [of n w2 S "[CHR 0x0A]" b1] that
    by (auto intro: touches_trans)
  have wr1: "touches {n} w1 w2" if "bw_write_all S n rec b w1 = (x, b1, w2)" for n b w1 x b1 and w2 :: "'a seq_fs_scheme"
    using bw_write_all_touches [of n w1 S rec b] that by simp
  show ?thesis
  proof (cases "rs_stage rs")
    case (Some nb)
    obtain n b where nb: "nb = (n, b)" by (cases nb)
    from assms Some nb show ?thesis
      by (auto simp: stage_record_def split: prod.splits sum.splits intro!: put intro: wr wr1)
  next
    case None
    let ?n = "staging_name slug millis (next_seq w) ''ndjson''"
    obtain q w1 where cr: "fs_create_new S ?n w = (q, w1)" by fastforce
    have t1: "touches {?n} w w1" using fs_create_new_touches [of ?n w S] cr by simp
    show ?thesis
    proof (cases q)
      case (Inl e)
      with cr have "touches {} w w1" by (auto simp: fs_create_new_def split: option.splits if_splits)
      with assms None cr Inl show ?thesis
        by (simp add: stage_record_def create_recovery_stage_def io_bind_def Let_def staging_step_def stages_def)
    next
      case (Inr u)
      let ?rs = "rs\<lparr>rs_stage := Some (?n, [])\<rparr>"
      have "fget w ?n = None" using cr Inr by (auto dest: fs_create_new_Ok)
      then have 1: "staging_step rs w ?rs w1"
        using t1 None by (simp add: staging_step_def stages_def staging_not_final)
      have 2: "staging_step ?rs w1 rs' w'"
        using assms None cr Inr
        by (auto simp: stage_record_def create_recovery_stage_def io_bind_def Let_def staging_step_def stages_def
            split: prod.splits sum.splits intro: wr wr1)
      from 1 2 show ?thesis by (rule staging_step_trans)
    qed
  qed
qed

lemma recover_lines_step:
  "recover_lines S json_ok slug millis rd rs w = (r, rs', w') \<Longrightarrow> staging_step rs w rs' w'"
proof (induction S json_ok slug millis rd rs w rule: recover_lines.induct)
  case (1 S json_ok slug millis rd rs w)
  note IH = "1.IH" and run = "1.prems" [unfolded recover_lines.simps [of S json_ok slug millis rd rs w]]
  obtain x rd' where rl: "read_recovery_line rd [] False = (x, rd')" by fastforce
  show ?case
  proof (cases "\<exists>l. x = Inr (Some l)")
    case False
    with run rl show ?thesis by (auto split: sum.splits option.splits)
  next
    case True
    then obtain l where x: "x = Inr (Some l)" by blast
    have up: "staging_step rs w rs' w'" if "staging_step rs1 w rs' w'" "stages rs1 = stages rs" for rs1
      using that by (simp add: staging_step_def)
    note IH = IH [OF rl [symmetric] x refl]
    show ?thesis
    proof (cases "rl_terminated l \<and> \<not> rl_oversize l \<and> rl_bytes l \<noteq> [] \<and> json_ok (rl_bytes l)")
      case True
      obtain y rs1 w1 where sr: "stage_record S slug millis (rl_bytes l) rs w = (y, rs1, w1)" by (metis prod_cases3)
      have s1: "staging_step rs w rs1 w1" by (rule stage_record_step [OF sr])
      show ?thesis
      proof (cases y)
        case (Inl e)
        with run rl x True sr s1 show ?thesis by simp
      next
        case (Inr u)
        with run rl x True sr have "recover_lines S json_ok slug millis rd' rs1 w1 = (r, rs', w')" by simp
        with IH(3) True sr Inr have "staging_step rs1 w1 rs' w'" by auto
        with s1 show ?thesis by (rule staging_step_trans)
      qed
    next
      case False
      with run rl x IH show ?thesis
        by (auto split: if_splits intro!: up simp: stages_def)
    qed
  qed
qed

section \<open>What the line loop collects\<close>

definition nl_lines :: "bytes \<Rightarrow> bytes list" where
  "nl_lines input = split_on CHR 0x0A input"

text \<open>The complete lines that parse, whether anything complete was malformed or too long, and the last line.\<close>

definition valid_lines :: "(bytes \<Rightarrow> bool) \<Rightarrow> bytes \<Rightarrow> bytes list" where
  "valid_lines json_ok input =
     filter (\<lambda>l. length l \<le> recovery_max_line_bytes \<and> l \<noteq> [] \<and> json_ok l) (butlast (nl_lines input))"

definition has_malformed :: "(bytes \<Rightarrow> bool) \<Rightarrow> bytes \<Rightarrow> bool" where
  "has_malformed json_ok input \<longleftrightarrow>
     (\<exists>l \<in> set (butlast (nl_lines input)). recovery_max_line_bytes < length l \<or> l \<noteq> [] \<and> \<not> json_ok l)
     \<or> recovery_max_line_bytes < length (last (nl_lines input))"

definition has_partial :: "bytes \<Rightarrow> bool" where
  "has_partial input \<longleftrightarrow> last (nl_lines input) \<noteq> []"

lemma nl_lines_step:
  "CHR 0x0A \<notin> set part \<Longrightarrow> nl_lines (part @ CHR 0x0A # rest) = part # nl_lines rest"
  by (simp add: nl_lines_def split_on_append split_on_single)

lemma nl_lines_ne [simp]: "nl_lines x \<noteq> []"
  by (simp add: nl_lines_def)

lemma lines_step:
  assumes "CHR 0x0A \<notin> set part"
  shows "valid_lines ok (part @ CHR 0x0A # rest) =
      (if length part \<le> recovery_max_line_bytes \<and> part \<noteq> [] \<and> ok part then [part] else []) @ valid_lines ok rest"
    "has_malformed ok (part @ CHR 0x0A # rest) \<longleftrightarrow>
      recovery_max_line_bytes < length part \<or> part \<noteq> [] \<and> \<not> ok part \<or> has_malformed ok rest"
    "has_partial (part @ CHR 0x0A # rest) \<longleftrightarrow> has_partial rest"
  using nl_lines_step [OF assms, of rest]
  by (auto simp: valid_lines_def has_malformed_def has_partial_def)

lemma lines_tail:
  assumes "CHR 0x0A \<notin> set tx"
  shows "valid_lines ok tx = []" "has_malformed ok tx \<longleftrightarrow> recovery_max_line_bytes < length tx" "has_partial tx \<longleftrightarrow> tx \<noteq> []"
  using split_on_single [OF assms] by (simp_all add: valid_lines_def has_malformed_def has_partial_def nl_lines_def)

definition staged :: "recovery_state \<Rightarrow> 'z fs_scheme \<Rightarrow> bytes" where
  "staged rs w = (case rs_stage rs of None \<Rightarrow> [] | Some (n, b) \<Rightarrow> content w n @ b)"

definition staged_ok :: "recovery_state \<Rightarrow> 'z fs_scheme \<Rightarrow> bool" where
  "staged_ok rs w \<longleftrightarrow> (\<forall>n \<in> stages rs. fget w n \<noteq> None)"

definition as_lines :: "bytes list \<Rightarrow> bytes" where
  "as_lines ls = concat (map (\<lambda>l. l @ [CHR 0x0A]) ls)"

lemma as_lines_simps [simp]: "as_lines [] = []" "as_lines (l # ls) = l @ CHR 0x0A # as_lines ls"
  by (simp_all add: as_lines_def)

lemma stage_record_Ok:
  assumes "stage_record S slug millis record rs w = (Inr u, rs', w')" "staged_ok rs w"
  shows "staged rs' w' = staged rs w @ record @ [CHR 0x0A] \<and> staged_ok rs' w' \<and> rs_stage rs' \<noteq> None
    \<and> rs_malformed rs' = rs_malformed rs \<and> rs_partial rs' = rs_partial rs"
proof -
  have two: "\<exists>c3. fget w3 n = Some c3 \<and> c3 @ b2 = c @ b @ record @ [CHR 0x0A]"
    if h: "bw_write_all S n record b w1 = (Inr x, b1, w2)" "bw_write_all S n [CHR 0x0A] b1 w2 = (Inr y, b2, w3)"
      "fget w1 n = Some c" for n b x b1 y b2 c w1 w2 and w3 :: "'a seq_fs_scheme"
  proof -
    obtain c1 where c1: "fget w2 n = Some c1" "c1 @ b1 = c @ b @ record" using bw_write_all_Ok [OF h(1,3)] by blast
    obtain c2 where "fget w3 n = Some c2" "c2 @ b2 = c1 @ b1 @ [CHR 0x0A]" using bw_write_all_Ok [OF h(2) c1(1)] by blast
    with c1(2) show ?thesis by (metis append.assoc)
  qed
  show ?thesis
  proof (cases "rs_stage rs")
    case (Some nb)
    obtain n b where nb: "nb = (n, b)" by (cases nb)
    with Some assms(2) obtain c where c: "fget w n = Some c" by (auto simp: staged_ok_def stages_def)
    from assms(1) Some nb obtain x b1 w2 b2 where w: "bw_write_all S n record b w = (Inr x, b1, w2)"
      "bw_write_all S n [CHR 0x0A] b1 w2 = (Inr u, b2, w')" "rs' = rs\<lparr>rs_stage := Some (n, b2)\<rparr>"
      by (auto simp: stage_record_def split: prod.splits sum.splits)
    obtain c3 where "fget w' n = Some c3" "c3 @ b2 = c @ b @ record @ [CHR 0x0A]" using two [OF w(1,2) c] by blast
    with c w(3) Some nb show ?thesis by (simp add: staged_def staged_ok_def stages_def content_def)
  next
    case None
    let ?n = "staging_name slug millis (next_seq w) ''ndjson''"
    from assms(1) None obtain v w1 x b1 w2 b2 where cr: "fs_create_new S ?n w = (Inr v, w1)"
      and w: "bw_write_all S ?n record [] w1 = (Inr x, b1, w2)"
      "bw_write_all S ?n [CHR 0x0A] b1 w2 = (Inr u, b2, w')" "rs' = rs\<lparr>rs_stage := Some (?n, b2)\<rparr>"
      by (auto simp: stage_record_def create_recovery_stage_def Let_def io_bind_def split: prod.splits sum.splits)
    have "fget w1 ?n = Some []" using fs_create_new_Ok [OF cr] by simp
    from two [OF w(1,2) this] w(3) None show ?thesis by (auto simp: staged_def staged_ok_def stages_def content_def)
  qed
qed

lemma recover_lines_Ok:
  assumes "recover_lines S json_ok slug millis rd rs w = (Inr u, rs', w')" "delivers rd input" "staged_ok rs w"
  shows "staged rs' w' = staged rs w @ as_lines (valid_lines json_ok input) \<and> staged_ok rs' w'
    \<and> rs_malformed rs' = (rs_malformed rs \<or> has_malformed json_ok input)
    \<and> rs_partial rs' = (rs_partial rs \<or> has_partial input)
    \<and> (rs_stage rs' = None \<longleftrightarrow> rs_stage rs = None \<and> valid_lines json_ok input = [])"
  using assms
proof (induction "length input" arbitrary: input rd rs w rule: less_induct)
  case less
  note run = less.prems(1) [unfolded recover_lines.simps [of S json_ok slug millis rd rs w]]
  show ?case
  proof (cases "CHR 0x0A \<in> set input")
    case False
    obtain b where rl: "read_recovery_line rd [] False = (Ok (if input = [] then None
        else Some \<lparr>rl_bytes = b, rl_terminated = False, rl_oversize = (recovery_max_line_bytes < length input)\<rparr>), [])"
      using read_line_tail [OF less.prems(2) False, of "[]" False] by (auto split: if_splits)
    note tail = lines_tail [OF False]
    show ?thesis
    proof (cases "input = []")
      case True
      with run rl have "rs' = rs" "w' = w" by simp_all
      with True tail less.prems(3) show ?thesis by simp
    next
      case ne: False
      have "recover_lines S json_ok slug millis []
          (rs\<lparr>rs_malformed := rs_malformed rs \<or> recovery_max_line_bytes < length input, rs_partial := True\<rparr>) w = (Inr u, rs', w')"
        using run rl ne by simp
      then have "rs' = rs\<lparr>rs_malformed := rs_malformed rs \<or> recovery_max_line_bytes < length input, rs_partial := True\<rparr>" "w' = w"
        by (simp_all add: recover_lines.simps [of S json_ok slug millis "[]"] line_at_eof_def)
      with ne tail less.prems(3) show ?thesis by (simp add: staged_def staged_ok_def stages_def)
    qed
  next
    case True
    then obtain part rest where input: "input = part @ CHR 0x0A # rest" "CHR 0x0A \<notin> set part" by (meson split_list_first)
    let ?over = "recovery_max_line_bytes < length part"
    obtain rd' b where rl: "read_recovery_line rd [] False =
        (Ok (Some \<lparr>rl_bytes = b, rl_terminated = True, rl_oversize = ?over\<rparr>), rd')"
      "delivers rd' rest" "\<not> ?over \<longrightarrow> b = part"
      using read_line_terminated [OF less.prems(2) [unfolded input(1)] input(2), of "[]" False] by auto
    note step = lines_step [OF input(2), where rest = rest, folded input(1)]
    have len: "length rest < length input" using input(1) by simp
    consider (skip) "?over \<or> b = []" | (bad) "\<not> ?over" "b \<noteq> []" "\<not> json_ok b" | (good) "\<not> ?over" "b \<noteq> []" "json_ok b" by blast
    then show ?thesis
    proof cases
      case skip
      with run rl(1) have r: "recover_lines S json_ok slug millis rd' (rs\<lparr>rs_malformed := rs_malformed rs \<or> ?over\<rparr>) w = (Inr u, rs', w')"
        by simp
      have "staged_ok (rs\<lparr>rs_malformed := rs_malformed rs \<or> ?over\<rparr>) w" using less.prems(3) by (simp add: staged_ok_def stages_def)
      from less.hyps [OF len r rl(2) this] skip rl(3) step show ?thesis by (auto simp: staged_def)
    next
      case bad
      with run rl(1) have r: "recover_lines S json_ok slug millis rd' (rs\<lparr>rs_malformed := True\<rparr>) w = (Inr u, rs', w')" by simp
      have "staged_ok (rs\<lparr>rs_malformed := True\<rparr>) w" using less.prems(3) by (simp add: staged_ok_def stages_def)
      from less.hyps [OF len r rl(2) this] bad rl(3) step show ?thesis by (auto simp: staged_def)
    next
      case good
      with run rl(1) obtain v rs1 w1 where sr: "stage_record S slug millis b rs w = (Inr v, rs1, w1)"
        and r: "recover_lines S json_ok slug millis rd' rs1 w1 = (Inr u, rs', w')"
        by (auto split: prod.splits sum.splits)
      note s1 = stage_record_Ok [OF sr less.prems(3)]
      from s1 have ok1: "staged_ok rs1 w1" by simp
      from less.hyps [OF len r rl(2) ok1] s1 good rl(3) step show ?thesis by auto
    qed
  qed
qed


end
