(* ===== verification/Recovery_Safety.thy ===== *)
theory Recovery_Safety
  imports Recovery
begin

text \<open>
  What the recovery of \<open>src/src/shipper.rs\<close> guarantees: for every pattern of faults it keeps every file but the
  one it recovers, and that one too when it fails; when it succeeds, the valid records are published, the
  input is quarantined exactly when something in it was malformed or cut off, and after a successful start no
  record is left in an active file.
\<close>

section \<open>Recovery of one file keeps every other file\<close>

text \<open>Calls on names that were free at the start keep every file of the start.\<close>

definition fresh :: "'z fs_scheme \<Rightarrow> string set \<Rightarrow> bool" where
  "fresh w N \<longleftrightarrow> (\<forall>n \<in> N. fget w n = None \<and> \<not> is_tmp n)"

lemma fresh_simps [simp]: "fresh w {}" "fresh w (insert n N) \<longleftrightarrow> fget w n = None \<and> \<not> is_tmp n \<and> fresh w N"
  by (auto simp: fresh_def)

lemma frame_fresh_trans: "frame {} w0 w \<Longrightarrow> frame N w w' \<Longrightarrow> fresh w0 N \<Longrightarrow> frame {} w0 w'"
  unfolding frame_def fresh_def by (metis empty_iff)

lemma frame_touch: "frame {} w0 w \<Longrightarrow> touches N w w' \<Longrightarrow> fresh w0 N \<Longrightarrow> frame {} w0 w'"
  by (blast intro: frame_fresh_trans touches_frame)

lemma frame_get: "frame {} w0 w \<Longrightarrow> fget w0 m = Some c \<Longrightarrow> fget w m = Some c"
  unfolding frame_def by (metis empty_iff option.distinct(1))

lemma frame_None: "frame {} w0 w \<Longrightarrow> fget w m = None \<Longrightarrow> fget w0 m = None"
  unfolding frame_def by (metis empty_iff)

lemma remove_ignoring_touches: "touches (set_option n) w (remove_ignoring S n w)"
  by (cases n) (auto simp: remove_ignoring_def remove_file_if_exists_touches)

lemma cleanup_stages_touches: "touches (set_option a \<union> set_option b) w (cleanup_stages S a b w)"
  unfolding cleanup_stages_def
  by (rule touches_trans) (auto intro: touches_mono remove_ignoring_touches)

lemma create_new_Err: "fs_create_new S n w = (Inl e, w') \<Longrightarrow> w' = tock w"
  by (auto simp: fs_create_new_def split: option.splits if_splits)

lemma frame_tock [simp]: "frame X w (tock w') = frame X w w'"
  by (simp add: frame_def)

lemma frame_from_tock [simp]: "frame X (tock w) w' = frame X w w'" "frame X (bump_seq v) w' = frame X v w'"
  by (simp_all add: frame_def)

lemma publish_loop_frame:
  assumes "\<And>seq. \<not> is_tmp (target_name slug millis seq extension)"
  shows "frame {source} w (snd (publish_loop n S source slug extension millis w))"
proof (induction n arbitrary: w)
  case (Suc n)
  let ?t = "target_name slug millis (next_seq w) extension"
  obtain r w1 where c: "fs_create_new S ?t w = (r, w1)" by fastforce
  show ?case
  proof (cases r)
    case (Inl e)
    with c Suc [of "bump_seq w1"] show ?thesis by (auto simp: Let_def dest!: create_new_Err)
  next
    case (Inr x)
    with c have new: "fget w ?t = None" by (auto dest: fs_create_new_Ok)
    have t1: "frame {?t} w w1" using fs_create_new_touches [of ?t w S] c by (simp add: touches_frame)
    obtain r2 w2 where ren: "fs_rename S source ?t w1 = (r2, w2)" by fastforce
    have "frame (insert ?t {source}) w1 w2"
      using ren by (cases r2) (auto simp: frame_def touches_def dest!: fs_rename_Ok fs_rename_Err)
    then have t2: "frame (insert ?t {source}) w w2" using frame_mono [OF t1] frame_trans by blast
    have "frame (insert ?t {source}) w2 (snd (remove_file_if_exists S ?t w2))"
      by (rule frame_mono [OF touches_frame [OF remove_file_if_exists_touches]]) simp
    with t2 have t3: "frame (insert ?t {source}) w (snd (remove_file_if_exists S ?t w2))" by (rule frame_trans)
    note shrink = frame_shrink [OF _ new assms]
    from shrink [OF t2] shrink [OF t3] c Inr ren show ?thesis by (cases r2) (simp_all add: Let_def)
  qed
qed simp

lemma reserve_loop_frame:
  assumes "\<And>seq. \<not> is_tmp (target_name slug millis seq extension)"
  shows "frame {} w (snd (reserve_loop n S slug extension millis w))"
proof (induction n arbitrary: w)
  case (Suc n)
  let ?t = "target_name slug millis (next_seq w) extension"
  obtain r w1 where c: "fs_create_new S ?t w = (r, w1)" by fastforce
  show ?case
  proof (cases r)
    case (Inl e)
    with c Suc [of "bump_seq w1"] show ?thesis by (auto simp: Let_def dest!: create_new_Err)
  next
    case (Inr x)
    with c have new: "fget w ?t = None" by (auto dest: fs_create_new_Ok)
    have "touches {?t} w w1" using fs_create_new_touches [of ?t w S] c by simp
    from frame_fresh [OF this new assms] c Inr show ?thesis by (simp add: Let_def)
  qed
qed simp

lemma reserve_loop_Ok:
  assumes "reserve_loop n S slug extension millis w = (Inr target, w')"
  shows "(\<exists>seq. target = target_name slug millis seq extension) \<and> fget w target = None \<and> renames w' = renames w
    \<and> (\<forall>m. fget w' m = (if m = target then Some [] else fget w m))"
  using assms
proof (induction n arbitrary: w)
  case (Suc n)
  let ?t = "target_name slug millis (next_seq w) extension"
  obtain r w1 where c: "fs_create_new S ?t w = (r, w1)" by fastforce
  show ?case
  proof (cases r)
    case (Inl e)
    with c Suc.prems have "reserve_loop n S slug extension millis (bump_seq w1) = (Inr target, w')"
      by (auto simp: Let_def split: if_splits)
    from Suc.IH [OF this] c Inl show ?thesis by (auto dest!: create_new_Err)
  next
    case (Inr x)
    with c Suc.prems have "target = ?t" "w' = bump_seq w1" by (auto simp: Let_def)
    moreover have "touches {?t} w w1" using fs_create_new_touches [of ?t w S] c by simp
    ultimately show ?thesis using c Inr fs_create_new_Ok [of S ?t w x w1] by (auto simp: touches_def)
  qed
qed simp


text \<open>The part after the line loop, up to the disposal of the source.\<close>

lemma frame_via:
  assumes "frame {} w0 w" "touches N w w'" "\<And>n. n \<in> N \<Longrightarrow> fresh w0 {n}"
  shows "frame {} w0 w'"
  using assms frame_touch [of w0 w N w'] by (simp add: fresh_def)

lemma close_stage_touches: "touches (fst ` set_option stage) w (snd (close_stage S stage w))"
proof (cases stage)
  case (Some nb)
  obtain n b where nb: "nb = (n, b)" by (cases nb)
  obtain r b1 w1 where f: "bw_flush S n b w = (r, b1, w1)" by (metis prod_cases3)
  with bw_flush_touches [of n w S b] have t1: "touches {n} w w1" by simp
  have "touches {n} w1 (snd (io_bind (pad_spool_final S n) (\<lambda>_. io_return ()) w1))"
    by (rule io_bind_touches [OF pad_touches]) simp
  with touches_trans [OF t1] touches_trans [OF t1 bw_drop_touches] Some nb f show ?thesis
    by (cases r) (simp_all add: close_stage_def)
qed (simp add: close_stage_def)

lemma reserve_quarantine_frame: "frame {} w (snd (reserve_quarantine S slug needed w))"
proof -
  have "frame {} w (snd (reserve_name S slug ''quarantine'' w))"
    using reserve_loop_frame [where extension = "''quarantine''" and w = "tock w"]
    by (simp add: reserve_name_def io_bind_def unix_millis_def split: option.splits)
  then show ?thesis by (auto simp: reserve_quarantine_def split: prod.splits sum.splits)
qed

lemma reserve_quarantine_Ok:
  assumes "reserve_quarantine S slug needed w = (Inr r, w')"
  shows "(r \<noteq> None \<longleftrightarrow> needed) \<and> renames w' = renames w
    \<and> (\<forall>t \<in> set_option r. (\<exists>millis seq. t = target_name slug millis seq ''quarantine'') \<and> fget w t = None)
    \<and> (\<forall>m. fget w' m = (if Some m = r then Some [] else fget w m))"
proof (cases needed)
  case True
  with assms obtain t millis where "r = Some t" "reserve_loop (fuel S) S slug ''quarantine'' millis (tock w) = (Inr t, w')"
    by (auto simp: reserve_quarantine_def reserve_name_def ok_iff split: prod.splits sum.splits)
  with True reserve_loop_Ok [OF this(2)] show ?thesis by auto
qed (use assms in \<open>auto simp: reserve_quarantine_def\<close>)

lemma recovery_publish_frame: "frame {st} w (snd (recovery_publish S st slug ''ndjson'' w))"
  using publish_loop_frame [where extension = "''ndjson''" and w = "tock w"]
  by (simp add: recovery_publish_def io_bind_def unix_millis_def split: option.splits)

text \<open>\<open>w0\<close> is the state before recovery: everything it has is kept, but the source only if an error is reported.\<close>

definition source_safe :: "string \<Rightarrow> 'z fs_scheme \<Rightarrow> (spool_error, unit) result \<times> 'z fs_scheme \<Rightarrow> bool" where
  "source_safe source w0 res \<longleftrightarrow> frame {source} w0 (snd res) \<and> (\<forall>e. fst res = Inl e \<longrightarrow> fget (snd res) source = fget w0 source)"

lemma source_safe_frame: "frame {} w0 w' \<Longrightarrow> fget w0 source \<noteq> None \<Longrightarrow> source_safe source w0 (r, w')"
  unfolding source_safe_def by (auto intro: frame_mono dest: frame_get)

lemma dispose_source_safe:
  assumes "frame {} w0 w" "fget w0 source \<noteq> None" "\<And>t. reservation = Some t \<Longrightarrow> fresh w0 {t}"
  shows "source_safe source w0 (dispose_source S source reservation w)"
proof (cases reservation)
  case None
  obtain r w' where d: "remove_file_if_exists S source w = (r, w')" by fastforce
  have "frame {source} w w'" using remove_file_if_exists_touches [of source w S] d by (simp add: touches_frame)
  with assms(1) have 1: "frame {source} w0 w'" by (meson empty_subsetI frame_mono frame_trans)
  have "fget w' source = fget w0 source" if "r = Inl e" for e
    using d that assms(1,2) remove_if_exists_get(2) [of S source w e w' source] by (auto dest: frame_get)
  with 1 d None show ?thesis by (simp add: source_safe_def dispose_source_def)
next
  case (Some t)
  with assms(3) have t: "fget w0 t = None" "\<not> is_tmp t" by simp_all
  obtain r w1 where ren: "fs_rename S source t w = (r, w1)" by fastforce
  show ?thesis
  proof (cases r)
    case (Inl e)
    have "frame {} w0 w1" using assms(1) fs_rename_Err [OF ren [unfolded Inl]] by (rule frame_touch) simp
    then have "frame {} w0 (snd (remove_file_if_exists S t w1))"
      by (rule frame_touch [OF _ remove_file_if_exists_touches]) (use t in simp)
    with Some ren Inl assms(2) show ?thesis by (simp add: dispose_source_def source_safe_frame)
  next
    case (Inr u)
    have "frame {t, source} w w1" using fs_rename_Ok [OF ren [unfolded Inr]] by (auto simp: frame_def)
    with assms(1) have "frame {t, source} w0 w1" by (meson empty_subsetI frame_mono frame_trans)
    from frame_shrink [OF this t] Some ren Inr show ?thesis by (simp add: dispose_source_def source_safe_def)
  qed
qed

lemma publish_and_dispose_safe:
  assumes "frame {} w0 w" "fget w0 source \<noteq> None" "\<And>t. reservation = Some t \<Longrightarrow> fresh w0 {t}"
    "\<And>t. stage = Some t \<Longrightarrow> fresh w0 {t}"
  shows "source_safe source w0 (publish_and_dispose S hook source slug stage reservation w)"
proof -
  have clean: "source_safe source w0 (r, cleanup_stages S stage reservation w')" if "frame {} w0 w'" for r w'
    using frame_via [OF that cleanup_stages_touches [of stage reservation w' S]] assms by (auto intro!: source_safe_frame)
  show ?thesis
  proof (cases stage)
    case None
    with clean [OF assms(1)] dispose_source_safe [OF assms(1-3)] show ?thesis
      by (simp add: publish_and_dispose_def split: option.splits)
  next
    case (Some st)
    obtain r w1 where p: "recovery_publish S st slug ''ndjson'' w = (r, w1)" by fastforce
    have f1: "frame {} w0 w1"
      using frame_fresh_trans [OF assms(1) recovery_publish_frame [of st w S slug] assms(4) [OF Some]] p by simp
    from clean [OF assms(1)] clean [OF f1] dispose_source_safe [OF f1 assms(2,3)] Some p show ?thesis
      by (cases r) (auto simp: publish_and_dispose_def split: option.splits)
  qed
qed

text \<open>What follows the line loop, as a function of its outcome.\<close>

definition finish_recovery where
  "finish_recovery S hook source slug outcome =
     (case outcome of
        (Inl e, rs, w1) \<Rightarrow> (Err e, (case rs_stage rs of None \<Rightarrow> w1 | Some (name, buf) \<Rightarrow> bw_drop S name buf w1))
      | (Inr (_ :: unit), rs, w1) \<Rightarrow>
           (if rs_stage rs = None \<and> \<not> rs_malformed rs \<and> \<not> rs_partial rs then (Ok (), w1)
            else io_bind (close_stage S (rs_stage rs)) (\<lambda>_ w2.
                   case reserve_quarantine S slug (rs_malformed rs \<or> rs_partial rs) w2 of
                     (Inl e, w3) \<Rightarrow> (Err e, cleanup_stages S (map_option fst (rs_stage rs)) None w3)
                   | (Inr reservation, w3) \<Rightarrow>
                       publish_and_dispose S hook source slug (map_option fst (rs_stage rs)) reservation w3) w1))"

definition no_lines :: recovery_state where
  "no_lines = \<lparr>rs_stage = None, rs_malformed = False, rs_partial = False\<rparr>"

lemma recover_stranded_file_finish:
  "recover_stranded_file S reads json_ok hook source slug =
     io_bind (fs_open S source) (\<lambda>file. io_bind (unix_millis S) (\<lambda>millis w.
       finish_recovery S hook source slug (recover_lines S json_ok slug millis (reads file) no_lines w)))"
  unfolding recover_stranded_file_def finish_recovery_def no_lines_def ..

lemma finish_recovery_safe:
  assumes "frame {} w0 w" "fget w0 source \<noteq> None" "fresh w0 (stages rs)"
  shows "source_safe source w0 (finish_recovery S hook source slug (r, rs, w))"
proof -
  note frame = source_safe_frame [OF _ assms(2)]
  have stage: "fresh w0 {t}" if "map_option fst (rs_stage rs) = Some t" for t
    using assms(3) that by (auto simp: stages_def)
  have drop: "frame {} w0 (bw_drop S n b w)" if "rs_stage rs = Some (n, b)" for n b
    using frame_via [OF assms(1) bw_drop_touches [of n w S b]] assms(3) that by (simp add: stages_def)
  obtain r2 w2 where cl: "close_stage S (rs_stage rs) w = (r2, w2)" by fastforce
  have f2: "frame {} w0 w2"
    using frame_touch [OF assms(1) close_stage_touches [of "rs_stage rs" w S]] cl assms(3) by (simp add: stages_def)
  obtain r3 w3 where rq: "reserve_quarantine S slug (rs_malformed rs \<or> rs_partial rs) w2 = (r3, w3)" by fastforce
  have f3: "frame {} w0 w3" using frame_trans [OF f2] reserve_quarantine_frame [of w2 S slug "rs_malformed rs \<or> rs_partial rs"] rq by simp
  have f4: "frame {} w0 (cleanup_stages S (map_option fst (rs_stage rs)) None w3)"
    by (rule frame_via [OF f3 cleanup_stages_touches]) (use stage in auto)
  have res: "fresh w0 {t}" if "r3 = Inr (Some t)" for t
    using reserve_quarantine_Ok [OF rq [unfolded that]] f2 by (auto dest: frame_None)
  have pd: "source_safe source w0 (publish_and_dispose S hook source slug (map_option fst (rs_stage rs)) q w3)"
    if "r3 = Inr q" for q
    by (rule publish_and_dispose_safe [OF f3 assms(2)]) (use that res stage in auto)
  have "source_safe source w0 (case r3 of Inl e \<Rightarrow> (Err e, cleanup_stages S (map_option fst (rs_stage rs)) None w3)
      | Inr q \<Rightarrow> publish_and_dispose S hook source slug (map_option fst (rs_stage rs)) q w3)"
    using pd frame [OF f4] by (cases r3) simp_all
  with frame [OF drop] frame [OF assms(1)] frame [OF f2] cl rq show ?thesis
    by (cases r; cases r2; cases "rs_stage rs") (auto simp: finish_recovery_def io_bind_def split: sum.splits)
qed

lemma recover_stranded_file_safe: "source_safe source w (recover_stranded_file S reads json_ok hook source slug w)"
proof -
  have "source_safe source w (finish_recovery S hook source slug (recover_lines S json_ok slug millis rd no_lines (tock (tock w))))"
    if "fget w source \<noteq> None" for millis rd
  proof -
    obtain r rs w3 where rl: "recover_lines S json_ok slug millis rd no_lines (tock (tock w)) = (r, rs, w3)" by (metis prod_cases3)
    have "staging_step no_lines (tock (tock w)) rs w3" by (rule recover_lines_step [OF rl])
    then have fr: "fresh w (stages rs)" and t3: "touches (stages rs) (tock (tock w)) w3"
      by (auto simp: staging_step_def stages_def fresh_def no_lines_def)
    have "frame {} w w3" using frame_touch [OF _ t3 fr] by simp
    from finish_recovery_safe [OF this that fr] rl show ?thesis by simp
  qed
  then show ?thesis
    by (auto simp: recover_stranded_file_finish io_bind_def fs_open_def unix_millis_def source_safe_def split: option.splits)
qed

section \<open>What a successful recovery has done\<close>

lemma as_lines_eq_Nil [simp]: "as_lines ls = [] \<longleftrightarrow> ls = []"
  by (cases ls) simp_all

lemma close_stage_Ok:
  assumes "close_stage S (Some (n, b)) w = (Inr u, w')" "fget w n = Some c"
  shows "fget w' n = Some (padded (c @ b)) \<and> c @ b \<noteq> []"
proof -
  from assms(1) obtain v b1 w1 k where "bw_flush S n b w = (Inr v, b1, w1)" and p: "pad_spool_final S n w1 = (Inr k, w')"
    by (auto simp: close_stage_def ok_iff split: prod.splits sum.splits)
  with assms(2) have "fget w1 n = Some (c @ b)" by (auto dest: bw_flush_Ok)
  from pad_spool_final_Ok [OF p this] show ?thesis by simp
qed

lemma recovery_publish_Ok:
  assumes "recovery_publish S st slug ''ndjson'' w = (Inr target, w')" "fget w st = Some c"
  shows "(\<exists>millis seq. target = target_name slug millis seq ''ndjson'') \<and> fget w target = None
    \<and> renames w' = renames w @ [(st, target, c)]
    \<and> (\<forall>m. fget w' m = (if m = target then Some c else if m = st then None else fget w m))"
proof -
  from assms(1) obtain millis where "publish_loop (fuel S) S st slug ''ndjson'' millis (tock w) = (Inr target, w')"
    by (auto simp: recovery_publish_def ok_iff)
  from publish_loop_Ok [OF this, of c] assms(2) show ?thesis by auto
qed

lemma dispose_source_Ok:
  assumes "dispose_source S source reservation w = (Inr u, w')" "fget w source = Some c"
  shows "renames w' = renames w @ (case reservation of None \<Rightarrow> [] | Some t \<Rightarrow> [(source, t, c)])
    \<and> (\<forall>m. fget w' m = (if Some m = reservation then Some c else if m = source then None else fget w m))"
proof (cases reservation)
  case None
  then have r: "remove_file_if_exists S source w = (Inr u, w')" using assms(1) by (simp add: dispose_source_def)
  have "touches {source} w w'" using remove_file_if_exists_touches [of source w S] r by simp
  with None remove_if_exists_get(1) [OF r] show ?thesis by (simp add: touches_def)
next
  case (Some t)
  with assms(1) have "fs_rename S source t w = (Inr u, w')"
    by (auto simp: dispose_source_def split: prod.splits sum.splits)
  from fs_rename_Ok [OF this] Some assms(2) show ?thesis by auto
qed

text \<open>The input \<open>c\<close> of \<open>source\<close> has been taken: its valid lines \<open>ls\<close> are in a new published file, the input itself in
  a new quarantine file if \<open>q\<close>, and nothing else has changed.\<close>

definition taken :: "string \<Rightarrow> string \<Rightarrow> bytes \<Rightarrow> bytes list \<Rightarrow> bool \<Rightarrow> 'z fs_scheme \<Rightarrow> 'z fs_scheme \<Rightarrow> bool" where
  "taken source slug c ls q w w' \<longleftrightarrow>
     (\<exists>pub quar. (pub \<noteq> None \<longleftrightarrow> ls \<noteq> []) \<and> (quar \<noteq> None \<longleftrightarrow> q)
       \<and> (\<forall>s t. pub = Some (s, t) \<longrightarrow> (\<exists>millis seq. t = target_name slug millis seq ''ndjson'') \<and> fget w t = None)
       \<and> (\<forall>t. quar = Some t \<longrightarrow> (\<exists>millis seq. t = target_name slug millis seq ''quarantine'') \<and> fget w t = None)
       \<and> renames w' = renames w @ (case pub of None \<Rightarrow> [] | Some (s, t) \<Rightarrow> [(s, t, padded (as_lines ls))])
            @ (case quar of None \<Rightarrow> [] | Some t \<Rightarrow> [(source, t, c)])
       \<and> (\<forall>m. fget w' m = (if Some m = quar then Some c
                          else if Some m = map_option snd pub then Some (padded (as_lines ls))
                          else if m = source then None else fget w m)))"

lemma takenI:
  assumes "\<And>t. quar = Some t \<Longrightarrow> (\<exists>millis seq. t = target_name slug millis seq ''quarantine'') \<and> fget w t = None"
    "\<And>s t. pub = Some (s, t) \<Longrightarrow> (\<exists>millis seq. t = target_name slug millis seq ''ndjson'') \<and> fget w t = None"
    "quar \<noteq> None \<longleftrightarrow> q" "pub \<noteq> None \<longleftrightarrow> ls \<noteq> []"
    "renames w' = renames w @ (case pub of None \<Rightarrow> [] | Some (s, t) \<Rightarrow> [(s, t, padded (as_lines ls))])
       @ (case quar of None \<Rightarrow> [] | Some t \<Rightarrow> [(source, t, c)])"
    "\<And>m. fget w' m = (if Some m = quar then Some c else if Some m = map_option snd pub then Some (padded (as_lines ls))
        else if m = source then None else fget w m)"
  shows "taken source slug c ls q w w'"
  unfolding taken_def using assms by (intro exI [of _ pub] exI [of _ quar]) simp

lemma finish_recovery_Ok:
  assumes run: "finish_recovery S hook source slug (Inr v, rs, w) = (Inr u, w')"
    and src: "fget w0 source = Some c" and w0: "\<And>m. m \<notin> stages rs \<Longrightarrow> fget w m = fget w0 m" "renames w = renames w0"
    and fr: "fresh w0 (stages rs)" and stg: "staged rs w = as_lines ls" "staged_ok rs w" "rs_stage rs = None \<longleftrightarrow> ls = []"
  shows "if ls = [] \<and> \<not> (rs_malformed rs \<or> rs_partial rs) then w' = w
    else taken source slug c ls (rs_malformed rs \<or> rs_partial rs) w0 w'"
proof (cases "ls = [] \<and> \<not> (rs_malformed rs \<or> rs_partial rs)")
  case True
  with run stg(3) show ?thesis by (auto simp: finish_recovery_def)
next
  case False
  let ?q = "rs_malformed rs \<or> rs_partial rs" and ?st = "map_option fst (rs_stage rs)"
  from run False stg(3) obtain x w1 where cl: "close_stage S (rs_stage rs) w = (Inr x, w1)"
    and rest: "(case reserve_quarantine S slug ?q w1 of
        (Inl e, w3) \<Rightarrow> (Err e, cleanup_stages S ?st None w3)
      | (Inr q, w3) \<Rightarrow> publish_and_dispose S hook source slug ?st q w3) = (Inr u, w')"
    by (auto simp: finish_recovery_def ok_iff)
  from rest obtain q w2 where rq: "reserve_quarantine S slug ?q w1 = (Inr q, w2)"
    and pd: "publish_and_dispose S hook source slug ?st q w2 = (Inr u, w')"
    by (auto split: prod.splits sum.splits)
  note q = reserve_quarantine_Ok [OF rq]
  have t1: "touches (stages rs) w w1" using close_stage_touches [of "rs_stage rs" w S] cl by (simp add: stages_def)
  have ns: "source \<notin> stages rs" using fr src by (auto simp: fresh_def)
  have g1: "fget w1 m = fget w0 m" if "m \<notin> stages rs" for m using t1 w0(1) that by (simp add: touches_def)
  have r1: "renames w1 = renames w0" using t1 w0(2) by (simp add: touches_def)
  have quar: "fget w0 t = None \<and> t \<notin> stages rs" if "q = Some t" for t
  proof -
    have "fget w1 t = None" using q that by simp
    moreover have "fget w1 n \<noteq> None" if n: "n \<in> stages rs" for n
    proof -
      obtain b cn where "rs_stage rs = Some (n, b)" "fget w n = Some cn"
        using n stg(2) [unfolded staged_ok_def, rule_format, OF n] unfolding stages_Some by (elim exE) auto
      with cl close_stage_Ok [of S n b w x w1 cn] show ?thesis by simp
    qed
    ultimately show ?thesis using g1 by metis
  qed
  have src2: "fget w2 source = Some c" using q g1 [OF ns] src quar by auto
  have quar_name: "(\<exists>millis seq. t = target_name slug millis seq ''quarantine'') \<and> fget w0 t = None" if "q = Some t" for t
    using q quar that by auto
  show ?thesis
  proof (cases "rs_stage rs")
    case None
    with pd have "dispose_source S source q w2 = (Inr u, w')" by (auto simp: publish_and_dispose_def split: option.splits)
    note d = dispose_source_Ok [OF this src2]
    have "ls = []" "stages rs = {}" using None stg(3) by (simp_all add: stages_def)
    with d q g1 r1 False quar_name have "taken source slug c ls ?q w0 w'"
      by (intro takenI [of q _ _ None]) auto
    with False show ?thesis by auto
  next
    case (Some nb)
    obtain n b where nb: "rs_stage rs = Some (n, b)" using Some by (cases nb) auto
    then have st: "stages rs = {n}" by (simp add: stages_def)
    obtain cn where "fget w n = Some cn" "cn @ b = as_lines ls" using stg(1,2) nb
      by (auto simp: staged_def staged_ok_def stages_def content_def)
    with cl nb close_stage_Ok [of S n b w x w1 cn] have n1: "fget w1 n = Some (padded (as_lines ls))" by simp
    have n2: "fget w2 n = Some (padded (as_lines ls))" using q n1 quar st by auto
    from pd nb obtain pub w3 where pb: "recovery_publish S n slug ''ndjson'' w2 = (Inr pub, w3)"
      and ds: "dispose_source S source q w3 = (Inr u, w')"
      by (auto simp: publish_and_dispose_def split: option.splits prod.splits sum.splits)
    note p = recovery_publish_Ok [OF pb n2]
    obtain mp sp where pub: "pub = target_name slug mp sp ''ndjson''" using p by blast
    have pne: "pub \<noteq> n" "pub \<noteq> source" "q \<noteq> Some pub" using p n2 src2 q by (auto split: if_splits)
    have "fget w1 pub = None" using p q pne(3) by (metis option.distinct(1))
    then have pub0: "fget w0 pub = None" using g1 st pne(1) by simp
    have src3: "fget w3 source = Some c" using p src2 ns st pne(2) by auto
    note d = dispose_source_Ok [OF ds src3]
    have n0: "fget w0 n = None" using fr st by simp
    have lsne: "ls \<noteq> []" using stg(3) nb by simp
    have "fget w' m = (if Some m = q then Some c else if m = pub then Some (padded (as_lines ls))
        else if m = source then None else fget w0 m)" for m
      using d p q g1 [of m] st n0 pne quar by (auto split: if_splits)
    moreover have "renames w' = renames w0 @ [(n, pub, padded (as_lines ls))] @ (case q of None \<Rightarrow> [] | Some t \<Rightarrow> [(source, t, c)])"
      using d p q r1 by simp
    ultimately have "taken source slug c ls ?q w0 w'" using pub pub0 quar_name lsne q
      by (intro takenI [of q _ _ "Some (n, pub)"]) auto
    with False show ?thesis by auto
  qed
qed

lemma recover_stranded_file_Ok:
  assumes "recover_stranded_file S reads json_ok hook source slug w = (Inr u, w')" "fget w source = Some c"
    "delivers (reads c) c"
  shows "if valid_lines json_ok c = [] \<and> \<not> (has_malformed json_ok c \<or> has_partial c) then \<forall>m. fget w' m = fget w m
    else taken source slug c (valid_lines json_ok c) (has_malformed json_ok c \<or> has_partial c) w w'"
proof -
  from assms(1,2) obtain millis where
    fin: "finish_recovery S hook source slug (recover_lines S json_ok slug millis (reads c) no_lines (tock (tock w))) = (Inr u, w')"
    by (auto simp: recover_stranded_file_finish ok_iff)
  obtain r rs w1 where rl: "recover_lines S json_ok slug millis (reads c) no_lines (tock (tock w)) = (r, rs, w1)" by (metis prod_cases3)
  with fin obtain v where r: "r = Inr v" by (cases r) (auto simp: finish_recovery_def)
  have step: "staging_step no_lines (tock (tock w)) rs w1" by (rule recover_lines_step [OF rl])
  have "staged_ok no_lines (tock (tock w))" by (simp add: staged_ok_def stages_def no_lines_def)
  note ok = recover_lines_Ok [OF rl [unfolded r] assms(3) this]
  have fr: "fresh w (stages rs)" using step by (auto simp: staging_step_def stages_def fresh_def no_lines_def)
  have t: "m \<notin> stages rs \<Longrightarrow> fget w1 m = fget w m" "renames w1 = renames w" for m
    using step by (auto simp: staging_step_def touches_def)
  have flags: "rs_malformed rs = has_malformed json_ok c" "rs_partial rs = has_partial c"
    using ok by (simp_all add: no_lines_def)
  have "if valid_lines json_ok c = [] \<and> \<not> (has_malformed json_ok c \<or> has_partial c) then w' = w1
      else taken source slug c (valid_lines json_ok c) (has_malformed json_ok c \<or> has_partial c) w w'"
    using finish_recovery_Ok [OF fin [unfolded rl r] assms(2) t fr, of "valid_lines json_ok c"] ok
    unfolding flags by (simp add: staged_def no_lines_def)
  moreover have "\<forall>m. fget w1 m = fget w m" if "valid_lines json_ok c = []"
    using ok that t(1) by (simp add: no_lines_def stages_def)
  ultimately show ?thesis by (auto split: if_splits)
qed

section \<open>The sweep leaves no record behind\<close>

definition clean :: "'z fs_scheme \<Rightarrow> string \<Rightarrow> bool" where
  "clean w n \<longleftrightarrow> records (content w n) = []"

lemma no_lines_no_records:
  assumes "valid_lines json_ok c = []" "\<not> has_malformed json_ok c" "\<not> has_partial c"
  shows "records c = []"
proof -
  have "l = []" if "l \<in> set (butlast (nl_lines c))" for l
    using assms(1,2) that by (force simp: valid_lines_def has_malformed_def filter_empty_conv)
  moreover have "last (nl_lines c) = []" using assms(3) by (simp add: has_partial_def)
  moreover have "set (nl_lines c) = insert (last (nl_lines c)) (set (butlast (nl_lines c)))"
    by (metis append_butlast_last_id list.simps(15) nl_lines_ne rotate1.simps(2) set_rotate1 set_append list.set(1) Un_insert_right sup_bot_right)
  ultimately have "l = []" if "l \<in> set (split_on CHR 0x0A c)" for l using that by (auto simp: nl_lines_def)
  then have "\<forall>l \<in> set (split_on CHR 0x0A c). rstrip l = []" by force
  then show ?thesis by (simp add: records_def filter_empty_conv)
qed

lemma taken_source:
  assumes t: "taken source slug c ls q w w'" and c: "fget w source = Some c'"
  shows "fget w' source = None"
proof -
  from t obtain pub :: "(string \<times> string) option" and quar where p: "\<forall>s t. pub = Some (s, t) \<longrightarrow> (\<exists>millis seq. t = target_name slug millis seq ''ndjson'') \<and> fget w t = None"
    and q: "\<forall>t. quar = Some t \<longrightarrow> (\<exists>millis seq. t = target_name slug millis seq ''quarantine'') \<and> fget w t = None"
    and g: "\<forall>m. fget w' m = (if Some m = quar then Some c
      else if Some m = map_option snd pub then Some (padded (as_lines ls)) else if m = source then None else fget w m)"
    unfolding taken_def by (elim exE conjE) (rule that)
  have "Some source \<noteq> quar" using q [rule_format, of source] c by auto
  moreover have "Some source \<noteq> map_option snd pub" using p [rule_format, of _ source] c by (cases pub) auto
  ultimately show ?thesis using g [rule_format, of source] by simp
qed

lemma recover_stranded_file_clean:
  assumes run: "recover_stranded_file S reads json_ok hook source slug w = (Inr u, w')" and rd: "\<And>c. delivers (reads c) c"
    and tmp: "is_tmp source"
  shows "clean w' source" "is_tmp m \<Longrightarrow> clean w m \<Longrightarrow> clean w' m"
proof -
  from run obtain c where c: "fget w source = Some c" by (auto simp: recover_stranded_file_def ok_iff)
  have "records c = []" "fget w' source = Some c"
    if "valid_lines json_ok c = [] \<and> \<not> (has_malformed json_ok c \<or> has_partial c)"
    using recover_stranded_file_Ok [OF run c rd] that c no_lines_no_records by auto
  moreover note taken_source [OF _ c]
  ultimately show 1: "clean w' source"
    using recover_stranded_file_Ok [OF run c rd] by (auto simp: clean_def content_def split: if_splits)
  have "frame {source} w w'" using recover_stranded_file_safe [of source w S reads json_ok hook slug] run by (simp add: source_safe_def)
  then show "is_tmp m \<Longrightarrow> clean w m \<Longrightarrow> clean w' m"
    using 1 by (cases "m = source") (auto simp: frame_def clean_def content_def)
qed

lemma stranded_slug_iff: "stranded_slug name = Some slug \<longleftrightarrow> utf8_valid name \<and> name = active_name slug"
  by (auto simp: stranded_slug_def active_name_def strip_prefix_Some strip_suffix_Some bind_eq_Some_conv)

lemma active_tmp [simp]: "is_tmp (active_name slug)"
  using ends_with_append [of "''.tmp''" "''.ndjson.tmp''" "''rigsignal-'' @ slug"]
  by (simp add: is_tmp_def active_name_def ends_with_def)

lemma staging_not_tmp: "is_recovery_staging_file n \<Longrightarrow> \<not> is_tmp n"
  by (auto simp: is_recovery_staging_file_def is_tmp_def dest!: ends_with_last)

lemma remove_staging_clean: "remove_staging S names w = (Inr u, w') \<Longrightarrow> is_tmp m \<Longrightarrow> fget w' m = fget w m"
proof (induction names arbitrary: w)
  case (Cons n names)
  from Cons.prems(1) obtain v w1 where rm: "(if is_recovery_staging_file n then remove_file_if_exists S n (tock w) else (Ok (), tock w)) = (Inr v, w1)"
    and rest: "remove_staging S names w1 = (Inr u, w')" by (auto simp: ok_iff)
  have "fget w1 m = fget w m"
    using rm Cons.prems(2) staging_not_tmp [of n] by (auto split: if_splits dest: remove_if_exists_get(1) [where m = m])
  with Cons.IH [OF rest Cons.prems(2)] show ?case by simp
qed simp

lemma recover_each_clean:
  assumes "recover_each S reads json_ok hook names w = (Inr u, w')" "\<And>c. delivers (reads c) c" "utf8_valid (active_name slug)"
    "clean w (active_name slug) \<or> active_name slug \<in> set names"
  shows "clean w' (active_name slug)"
  using assms(1,4)
proof (induction names arbitrary: w)
  case (Cons n names)
  from Cons.prems(1) obtain v w1 where rec: "(case stranded_slug n of None \<Rightarrow> (Ok (), tock w)
        | Some slug \<Rightarrow> recover_stranded_file S reads json_ok hook n slug (tock w)) = (Inr v, w1)"
    and rest: "recover_each S reads json_ok hook names w1 = (Inr u, w')" by (auto simp: ok_iff)
  have tk: "clean (tock w) m = clean w m" for m by (simp add: clean_def content_def)
  have "clean w1 (active_name slug) \<or> active_name slug \<in> set names"
  proof (cases "stranded_slug n")
    case None
    then have "n \<noteq> active_name slug" using assms(3) stranded_slug_iff [of n slug] by auto
    with None rec Cons.prems(2) tk show ?thesis by auto
  next
    case (Some s)
    then have n: "n = active_name s" by (simp add: stranded_slug_iff)
    from Some rec have r: "recover_stranded_file S reads json_ok hook (active_name s) s (tock w) = (Inr v, w1)" using n by simp
    show ?thesis using recover_stranded_file_clean [OF r assms(2)] Cons.prems(2) n tk by (cases "s = slug") auto
  qed
  then show ?case by (rule Cons.IH [OF rest])
qed simp

lemma fget_files: "fget w n \<noteq> None \<Longrightarrow> n \<in> set (map fst (files w))"
  using map_of_eq_None_iff [of "files w" n] by (auto simp: fget_def)

lemma recover_stranded_files_clean:
  assumes "recover_stranded_files S reads json_ok hook w = (Inr u, w')" "\<And>c. delivers (reads c) c"
    "\<And>t xs. set (order S t xs) = set xs" "utf8_valid (active_name slug)"
  shows "clean w' (active_name slug)"
proof -
  from assms(1) obtain names w1 w2 names' w3 where rd: "fs_read_dir S w2 = (Inr names', w3)"
    and each: "recover_each S reads json_ok hook names' w3 = (Inr u, w')"
    by (auto simp: recover_stranded_files_def ok_iff)
  have "w3 = tock w2" and nm: "names' = order S (tick w2) (map fst (files w2))"
    using rd by (simp_all add: fs_read_dir_def split: option.splits)
  have "set names' = set (map fst (files w2))" unfolding nm by (rule assms(3))
  with \<open>w3 = tock w2\<close> have "clean w3 (active_name slug) \<or> active_name slug \<in> set names'"
    using fget_files [of w2 "active_name slug"] by (cases "fget w2 (active_name slug)") (auto simp: clean_def content_def)
  from recover_each_clean [OF each assms(2,4) this] show ?thesis .
qed

lemma new_spool_writer_settled:
  assumes "new_spool_writer S lock reads json_ok bytes age hours w = (Inr st, w')" "\<And>c. delivers (reads c) c"
    "\<And>t xs. set (order S t xs) = set xs" "utf8_valid (active_name slug)"
  shows "settled slug st \<and> spools st = []"
proof -
  from assms(1) obtain w1 where w1: "recover_stranded_files S reads json_ok (\<lambda>_. None) w1 = (Inr (), w')"
    and st: "st = seq_fs.extend (seq_fs.truncate w') \<lparr>max_file_bytes = bytes, max_file_age = age,
      retention = min (hours * 3600) u64_max, spools = [], retention_scan = None\<rparr>"
    by (auto simp: new_spool_writer_def ok_iff)
  have sp: "spools st = []" "files st = files w'" unfolding st by (cases w', simp add: seq_fs.defs)+
  from recover_stranded_files_clean [OF w1 assms(2-4)] sp show ?thesis
    by (simp add: settled_def sp_get_def clean_def content_def fget_def)
qed

section \<open>The lock is tried a bounded number of times\<close>

text \<open>A state for the three closures: \<open>answers i\<close> is the outcome of attempt \<open>i\<close> and \<open>late i\<close> how much longer than
  asked sleep \<open>i\<close> took.\<close>

record lock_clock =
  lc_tries :: nat
  lc_now :: nat
  lc_slept :: "nat list"

definition clock_try :: "(nat \<Rightarrow> bool option) \<Rightarrow> lock_clock \<Rightarrow> bool option \<times> lock_clock" where
  "clock_try answers c = (answers (lc_tries c), c\<lparr>lc_tries := lc_tries c + 1\<rparr>)"

definition clock_sleep :: "(nat \<Rightarrow> nat) \<Rightarrow> nat \<Rightarrow> lock_clock \<Rightarrow> lock_clock" where
  "clock_sleep late d c = c\<lparr>lc_now := lc_now c + d + late (lc_tries c), lc_slept := lc_slept c @ [d]\<rparr>"

definition clock_elapsed :: "lock_clock \<Rightarrow> nat \<times> lock_clock" where
  "clock_elapsed c = (lc_now c, c)"

lemma lock_retry_clock:
  assumes "lock_retry (clock_try answers) clock_elapsed (clock_sleep late) cap (lc_tries c + 1) backoffs c = (r, c')"
    "sum_list (lc_slept c) \<le> lc_now c" "sum_list (lc_slept c) \<le> cap"
  shows "lc_tries c < lc_tries c' \<and> lc_tries c' \<le> lc_tries c + length backoffs + 1
    \<and> sum_list (lc_slept c') \<le> cap \<and> sum_list (lc_slept c') \<le> sum_list (lc_slept c) + sum_list backoffs
    \<and> (\<forall>i. lc_tries c \<le> i \<longrightarrow> i < lc_tries c' - 1 \<longrightarrow> answers i = Some True)
    \<and> (case r of Inr _ \<Rightarrow> answers (lc_tries c' - 1) = None
       | Inl f \<Rightarrow> lf_attempts f = lc_tries c' \<and> answers (lc_tries c' - 1) = Some (lf_contended f)
           \<and> (lf_exhausted f \<longleftrightarrow> lf_contended f)
           \<and> (lf_exhausted f \<longrightarrow> cap \<le> lf_elapsed f \<or> lc_tries c' = lc_tries c + length backoffs + 1))"
  using assms
proof (induction backoffs arbitrary: c)
  case Nil
  then show ?case
    by (auto simp: lock_retry.simps [of _ _ _ _ _ "[]"] clock_try_def clock_elapsed_def split: option.splits)
next
  case (Cons b backoffs)
  let ?c = "c\<lparr>lc_tries := Suc (lc_tries c)\<rparr>"
  let ?d = "min b (cap - lc_now c)"
  let ?s = "clock_sleep late ?d ?c"
  show ?case
  proof (cases "answers (lc_tries c) = Some True \<and> lc_now c < cap \<and> lc_now ?s < cap")
    case False
    with Cons.prems show ?thesis
      by (auto simp: lock_retry.simps [of _ _ _ _ _ "b # backoffs"] clock_try_def clock_elapsed_def clock_sleep_def Let_def
          less_Suc_eq split: option.splits if_splits)
  next
    case True
    have next_c: "lc_tries ?s = lc_tries c + 1" "lc_slept ?s = lc_slept c @ [?d]" "lc_now ?s = lc_now c + ?d + late (lc_tries c + 1)"
      by (simp_all add: clock_sleep_def)
    have tr: "clock_try answers c = (Some True, ?c)" using True by (simp add: clock_try_def)
    have el: "clock_elapsed x = (lc_now x, x)" for x by (simp add: clock_elapsed_def)
    have r: "lock_retry (clock_try answers) clock_elapsed (clock_sleep late) cap (lc_tries ?s + 1) backoffs ?s = (r, c')"
      using Cons.prems(1) True next_c tr
      by (simp add: lock_retry.simps [of _ _ _ _ _ "b # backoffs"] el [of ?c] el [of ?s] Let_def split: if_splits)
    have "sum_list (lc_slept ?s) \<le> lc_now ?s" "sum_list (lc_slept ?s) \<le> cap" using Cons.prems(2,3) True next_c by auto
    note IH = Cons.IH [OF r this]
    have "answers i = Some True" if "lc_tries c \<le> i" "i < lc_tries c' - 1" for i
      using that IH True next_c(1) by (cases "i = lc_tries c") auto
    with IH next_c show ?thesis by (auto split: sum.splits)
  qed
qed

section \<open>Properties\<close>

text \<open>A directory with one stranded file holding a complete and a cut off record.\<close>

definition sample_stranded :: seq_fs where
  "sample_stranded = \<lparr>files = [(''rigsignal-s.ndjson.tmp'', [CHR ''1'', CHR 0x0A, CHR ''2''])], tick = 0, renames = [], next_seq = 1\<rparr>"

definition one_read :: "bytes \<Rightarrow> reader" where
  "one_read c = (if c = [] then [] else [Inr c])"

lemma one_read_delivers: "delivers (one_read c) c"
  by (simp add: one_read_def delivers_Nil delivers_Cons)

lemma small_digits: "show_nat 5 = ''5''" "show_nat (Suc 0) = ''1''" "show_nat 2 = ''2''" "show_nat (Suc (Suc 0)) = ''2''"
  by code_simp+

lemmas fuel_nine = reserve_loop.simps(2) [of 8, simplified] publish_loop.simps(2) [of 8, simplified]

lemmas recovery_eval = small_digits fuel_nine recover_stranded_file_def recover_lines.simps one_read_def line_at_eof_def recovery_max_line_bytes_def
  stage_record_def create_recovery_stage_def staging_name_def close_stage_def pad_spool_final_def min_published_spool_bytes_def
  reserve_quarantine_def reserve_name_def publish_and_dispose_def recovery_publish_def dispose_source_def target_name_def
  bump_seq_def saturating_inc_u32_def u32_max_def cleanup_stages_def remove_ignoring_def remove_file_if_exists_def
  fs_remove_def fs_read_dir_def stranded_slug_def strip_prefix_def strip_suffix_def sample_stranded_def spool_eval

text \<open>C26: Recovery of a stranded file, for every pattern of system and read errors and every outcome of the hook
  before publication, keeps every other file of the directory, and keeps the stranded file itself whenever it
  reports an error.\<close>

theorem recovery_keeps_files:
  assumes "recover_stranded_file S reads json_ok hook source slug w = (r, w')"
  shows "(\<forall>m. m \<noteq> source \<longrightarrow> fget w m \<noteq> None \<longrightarrow> fget w' m = fget w m)
    \<and> (\<forall>e. r = Err e \<longrightarrow> fget w' source = fget w source)"
proof -
  have s: "source_safe source w (r, w')" using recover_stranded_file_safe [of source w S reads json_ok hook slug] assms by simp
  then have "frame {source} w w'" "\<forall>e. r = Err e \<longrightarrow> fget w' source = fget w source" by (simp_all add: source_safe_def)
  then show ?thesis unfolding frame_def by (metis singletonD)
qed

definition late_fault :: sys where
  "late_fault = sample_sys\<lparr>fault := (\<lambda>n. if n = 3 then Some 0 else None)\<rparr>"

theorem recovery_keeps_files_witness:
  "fst (recover_stranded_file late_fault one_read (\<lambda>_. True) (\<lambda>_. None) ''rigsignal-s.ndjson.tmp'' ''s'' sample_stranded) = Err IoError
   \<and> fget (snd (recover_stranded_file late_fault one_read (\<lambda>_. True) (\<lambda>_. None) ''rigsignal-s.ndjson.tmp'' ''s'' sample_stranded))
       ''rigsignal-s.ndjson.tmp'' = Some [CHR ''1'', CHR 0x0A, CHR ''2'']"
proof -
  let ?res = "recover_stranded_file late_fault one_read (\<lambda>_. True) (\<lambda>_. None) ''rigsignal-s.ndjson.tmp'' ''s'' sample_stranded"
  have e: "fst ?res = Err IoError" by (simp add: recovery_eval late_fault_def sample_sys_def)
  have "fget (snd ?res) ''rigsignal-s.ndjson.tmp'' = fget sample_stranded ''rigsignal-s.ndjson.tmp''"
    using recovery_keeps_files [OF prod.collapse [symmetric, of ?res]] e by blast
  with e show ?thesis by (simp add: sample_stranded_def fget_def)
qed

text \<open>C6: What a recovery that succeeds has done, however the reads cut the file.  A file of empty lines stays.
  Otherwise the file is gone; its complete lines that parse are, in order and padded, one new published file, if
  there is any; the input is moved whole to a new quarantine file exactly when a line was malformed, too long or
  cut off; and no other file has changed.\<close>

theorem recover_stranded_file_outcome:
  assumes "recover_stranded_file S reads json_ok hook source slug w = (Ok (), w')" "fget w source = Some c"
    "delivers (reads c) c"
  shows "if valid_lines json_ok c = [] \<and> \<not> (has_malformed json_ok c \<or> has_partial c) then \<forall>m. fget w' m = fget w m
    else taken source slug c (valid_lines json_ok c) (has_malformed json_ok c \<or> has_partial c) w w'"
  by (rule recover_stranded_file_Ok [OF assms])

lemma sample_recovery:
  "\<exists>w'. recover_stranded_file sample_sys one_read (\<lambda>_. True) (\<lambda>_. None) ''rigsignal-s.ndjson.tmp'' ''s'' sample_stranded = (Ok (), w')"
  by (simp add: recovery_eval sample_sys_def)

theorem recover_stranded_file_outcome_witness:
  "\<exists>w'. taken ''rigsignal-s.ndjson.tmp'' ''s'' [CHR ''1'', CHR 0x0A, CHR ''2''] [''1''] True sample_stranded w'"
proof -
  let ?c = "[CHR ''1'', CHR 0x0A, CHR ''2'']"
  obtain w' where r: "recover_stranded_file sample_sys one_read (\<lambda>_. True) (\<lambda>_. None) ''rigsignal-s.ndjson.tmp'' ''s''
      sample_stranded = (Ok (), w')" using sample_recovery by blast
  have c: "fget sample_stranded ''rigsignal-s.ndjson.tmp'' = Some ?c" by (simp add: sample_stranded_def fget_def)
  have "valid_lines (\<lambda>_. True) ?c = [''1'']" "has_partial ?c"
    by (simp_all add: valid_lines_def has_partial_def nl_lines_def recovery_max_line_bytes_def)
  with recover_stranded_file_outcome [OF r c one_read_delivers] show ?thesis by auto
qed

text \<open>After a successful start of the writer no dataset has a record left in an active file and no writer is
  open, so the laws of writing and finalising hold from the start on.\<close>

theorem new_spool_writer_settles:
  assumes "new_spool_writer S lock reads json_ok bytes age hours w = (Ok st, w')" "\<And>c. delivers (reads c) c"
    "\<And>t xs. set (order S t xs) = set xs" "utf8_valid (active_name slug)"
  shows "settled slug st \<and> spools st = [] \<and> records (content st (active_name slug)) = []"
proof -
  from new_spool_writer_settled [OF assms] have "settled slug st" "spools st = []" by simp_all
  then show ?thesis by (simp add: settled_def sp_get_def)
qed

lemma sample_start:
  "\<exists>st w'. new_spool_writer sample_sys (\<lambda>_. None) one_read (\<lambda>_. True) 10 10 10 sample_stranded = (Ok st, w')"
  by (simp add: recovery_eval sample_sys_def new_spool_writer_def fs_create_keep_def lock_name_def acquire_lock_def
      try_spool_lock_with_retry_def lock_retry.simps recover_stranded_files_def is_recovery_staging_file_def
      ends_with_def)

theorem new_spool_writer_settles_witness:
  "\<exists>st w'. new_spool_writer sample_sys (\<lambda>_. None) one_read (\<lambda>_. True) 10 10 10 sample_stranded = (Ok st, w')
     \<and> records (content st (active_name ''s'')) = []"
proof -
  obtain st w' where st: "new_spool_writer sample_sys (\<lambda>_. None) one_read (\<lambda>_. True) 10 10 10 sample_stranded = (Ok st, w')"
    using sample_start by blast
  have "set (order sample_sys t xs) = set xs" for t xs by (simp add: sample_sys_def)
  moreover have "utf8_valid (active_name ''s'')" by code_simp
  ultimately show ?thesis using new_spool_writer_settles [OF st one_read_delivers] st by blast
qed

text \<open>The lock is tried at most once more than there are waits; the waits together are bounded by the cap and by
  the sum of the configured waits, even if sleeps take longer than asked; every attempt before the last met
  contention, success means that the last one got the lock, and only contention is reported as exhaustion.\<close>

theorem spool_lock_retry_bounded:
  assumes "try_spool_lock_with_retry (clock_try answers) clock_elapsed (clock_sleep late) backoffs cap
      \<lparr>lc_tries = 0, lc_now = 0, lc_slept = []\<rparr> = (r, c)"
  shows "1 \<le> lc_tries c \<and> lc_tries c \<le> length backoffs + 1
    \<and> sum_list (lc_slept c) \<le> min cap (sum_list backoffs)
    \<and> (\<forall>i < lc_tries c - 1. answers i = Some True)
    \<and> (case r of Inr _ \<Rightarrow> answers (lc_tries c - 1) = None
       | Inl f \<Rightarrow> lf_attempts f = lc_tries c \<and> answers (lc_tries c - 1) = Some (lf_contended f)
           \<and> (lf_exhausted f \<longleftrightarrow> lf_contended f)
           \<and> (lf_exhausted f \<longrightarrow> cap \<le> lf_elapsed f \<or> lc_tries c = length backoffs + 1))"
  using lock_retry_clock [of answers late cap "\<lparr>lc_tries = 0, lc_now = 0, lc_slept = []\<rparr>" backoffs r c] assms
  by (auto simp: try_spool_lock_with_retry_def split: sum.splits)

theorem spool_lock_retry_bounded_witness:
  "\<exists>r c. try_spool_lock_with_retry (clock_try (\<lambda>_. Some True)) clock_elapsed (clock_sleep (\<lambda>_. 3)) spool_lock_backoff_ms
      spool_lock_retry_cap \<lparr>lc_tries = 0, lc_now = 0, lc_slept = []\<rparr> = (r, c) \<and> lc_tries c \<le> 8 \<and> sum_list (lc_slept c) \<le> 635"
proof -
  obtain r c where rc: "try_spool_lock_with_retry (clock_try (\<lambda>_. Some True)) clock_elapsed (clock_sleep (\<lambda>_. 3))
      spool_lock_backoff_ms spool_lock_retry_cap \<lparr>lc_tries = 0, lc_now = 0, lc_slept = []\<rparr> = (r, c)" by fastforce
  from spool_lock_retry_bounded [OF this] have "lc_tries c \<le> 8" "sum_list (lc_slept c) \<le> 635"
    by (simp_all add: spool_lock_backoff_ms_def)
  with rc show ?thesis by blast
qed

end
