(* ===== verification/Bulk.thy ===== *)
theory Bulk
  imports Preflight Log_Safe "HOL-Library.List_Lexorder" "HOL-Library.Char_ord"
begin

text \<open>
  Model of the delivery part of \<open>src/src/shipper.rs\<close>: the client and its credentials, the connectivity check, the
  bulk request and the reading of its answer, and the transform trigger.  The network, the file read for the
  certificates, the JSON writer and the text of a status code are parameters; every call returns its result
  with the requests it sent and the lines it logged.  The lemmas show that the hand-written Base64 encoder
  agrees with a decoder of RFC 4648, which request \<open>ship_documents\<close> sends and which documents it counts as
  delivered, and that no failure message can forge a log line.
\<close>

unbundle bit_operations_syntax

section \<open>Client and credentials\<close>

record es_config =
  es_endpoint :: string
  es_api_key :: "string option"
  es_username :: "string option"
  es_password :: "string option"
  es_ca_cert :: "path option"

datatype ship_error = ClientError | ConnectError string | StatusError string | BadDocument string
  | SerialiseError | SendError | ParseError

datatype http_method = HttpGet | HttpPost

record http_request =
  rq_method :: http_method
  rq_url :: string
  rq_headers :: "(string \<times> string) list"
  rq_body :: "string option"

text \<open>What the peer answers: the status, the body as text and the body as JSON, if it can be read as such.\<close>

record http_response =
  rsp_status :: nat
  rsp_text :: "string option"
  rsp_json :: "json option"

record 'cert net =
  net_libs :: "'cert libs"
  net_read :: "path \<Rightarrow> bytes option"
  net_send :: "'cert list \<Rightarrow> http_request \<Rightarrow> http_response option"
  to_json :: "json \<Rightarrow> string option"
  status_text :: "nat \<Rightarrow> string"

record effects =
  fx_sent :: "http_request list"
  fx_log :: "string list"

abbreviation quiet :: effects where "quiet \<equiv> \<lparr>fx_sent = [], fx_log = []\<rparr>"

definition build_client :: "'cert net \<Rightarrow> es_config \<Rightarrow> 'cert list option" where
  "build_client N config =
     do { certificates \<leftarrow> (case es_ca_cert config of
                            None \<Rightarrow> Some []
                          | Some p \<Rightarrow> do { pem \<leftarrow> net_read N p; ca_certificate_bundle (net_libs N) pem });
          if client_builds (net_libs N) certificates then Some certificates else None }"

definition base64_alphabet :: string where
  "base64_alphabet = ''ABCDEFGHIJKLMNOPQRSTUVWXYZabcdefghijklmnopqrstuvwxyz0123456789+/''"

fun chunks3 :: "'a list \<Rightarrow> 'a list list" where
  "chunks3 (a # b # c # d # rest) = [a, b, c] # chunks3 (d # rest)"
| "chunks3 [] = []"
| "chunks3 chunk = [chunk]"

definition encode_chunk :: "bytes \<Rightarrow> string" where
  "encode_chunk chunk =
     (let b0 = word_of_nat (byte (chunk ! 0)) :: u32;
          b1 = (if 1 < length chunk then word_of_nat (byte (chunk ! 1)) else 0) :: u32;
          b2 = (if 2 < length chunk then word_of_nat (byte (chunk ! 2)) else 0) :: u32;
          n = push_bit 16 b0 OR push_bit 8 b1 OR b2
      in [base64_alphabet ! unat (drop_bit 18 n),
          base64_alphabet ! unat (drop_bit 12 n AND 0x3F),
          if 1 < length chunk then base64_alphabet ! unat (drop_bit 6 n AND 0x3F) else CHR ''='',
          if 2 < length chunk then base64_alphabet ! unat (n AND 0x3F) else CHR ''=''])"

definition encode_base64 :: "bytes \<Rightarrow> string" where
  "encode_base64 input = concat (map encode_chunk (chunks3 input))"

definition auth_header :: "es_config \<Rightarrow> string option" where
  "auth_header config =
     (case es_api_key config of
        Some key \<Rightarrow> Some (''ApiKey '' @ key)
      | None \<Rightarrow>
        (case (es_username config, es_password config) of
           (Some user, Some pass) \<Rightarrow> Some (''Basic '' @ encode_base64 (user @ '':'' @ pass))
         | _ \<Rightarrow> None))"

text \<open>\<open>trim_end_matches('/')\<close>\<close>

definition trim_slashes :: "string \<Rightarrow> string" where
  "trim_slashes s = rev (dropWhile (\<lambda>c. c = CHR ''/'') (rev s))"

definition auth_headers :: "es_config \<Rightarrow> (string \<times> string) list" where
  "auth_headers config = (case auth_header config of None \<Rightarrow> [] | Some a \<Rightarrow> [(''Authorization'', a)])"

section \<open>Messages\<close>

definition ping_failure_message :: "'cert net \<Rightarrow> nat \<Rightarrow> string \<Rightarrow> string" where
  "ping_failure_message N status body =
     ''ES ping returned '' @ status_text N status @ '': '' @ escape_for_log (truncate_chars body 200)"

definition bulk_failure_message :: "'cert net \<Rightarrow> nat \<Rightarrow> string \<Rightarrow> string" where
  "bulk_failure_message N status body =
     ''ES bulk returned '' @ status_text N status @ '': '' @ escape_for_log (truncate_chars body 500)"

text \<open>The apostrophe is written by its code.\<close>

definition transform_failure_message :: "'cert net \<Rightarrow> string \<Rightarrow> nat \<Rightarrow> string \<Rightarrow> string" where
  "transform_failure_message N transform_id status body =
     ''transform '' @ [CHR 0x27] @ escape_for_log transform_id @ [CHR 0x27] @ '' schedule_now returned ''
       @ status_text N status @ '': '' @ escape_for_log (truncate_chars body 200)"

definition is_success :: "nat \<Rightarrow> bool" where
  "is_success status \<longleftrightarrow> 200 \<le> status \<and> status < 300"

definition is_server_error :: "nat \<Rightarrow> bool" where
  "is_server_error status \<longleftrightarrow> 500 \<le> status \<and> status < 600"

section \<open>The connectivity check\<close>

definition em_dash :: string where "em_dash = [CHR 0xE2, CHR 0x80, CHR 0x94]"

definition ping :: "'cert net \<Rightarrow> es_config \<Rightarrow> (ship_error, unit) result \<times> effects" where
  "ping N config =
     (case build_client N config of
        None \<Rightarrow> (Err ClientError, quiet)
      | Some client \<Rightarrow>
        (let endpoint = trim_slashes (es_endpoint config);
             req = \<lparr>rq_method = HttpGet, rq_url = endpoint @ ''/_cluster/health'', rq_headers = auth_headers config,
                    rq_body = None\<rparr>
         in case net_send N client req of
              None \<Rightarrow>
                (Err (ConnectError (case endpoint_origin (net_libs N) endpoint of
                                      Some origin \<Rightarrow> ''connecting to Elasticsearch at '' @ origin
                                    | None \<Rightarrow> ''connecting to Elasticsearch'')), \<lparr>fx_sent = [req], fx_log = []\<rparr>)
            | Some resp \<Rightarrow>
                (if is_server_error (rsp_status resp)
                 then (Err (StatusError (ping_failure_message N (rsp_status resp)
                              (case rsp_text resp of Some b \<Rightarrow> b | None \<Rightarrow> []))), \<lparr>fx_sent = [req], fx_log = []\<rparr>)
                 else if is_success (rsp_status resp)
                 then (let body = (case rsp_json resp of Some b \<Rightarrow> b | None \<Rightarrow> JNull);
                           cluster_status = (case do { s \<leftarrow> get ''status'' body; as_str s } of
                                               Some s \<Rightarrow> s | None \<Rightarrow> ''unknown'')
                       in (Ok (), \<lparr>fx_sent = [req], fx_log =
                             [''Elasticsearch reachable '' @ em_dash @ '' cluster status: '' @ cluster_status]\<rparr>))
                 else (Ok (), \<lparr>fx_sent = [req], fx_log =
                             [''Elasticsearch reachable (HTTP '' @ status_text N (rsp_status resp) @ '')'']\<rparr>))))"

section \<open>The bulk request\<close>

record ship_result =
  sr_attempted :: nat
  sr_succeeded :: nat
  sr_failed :: nat

record ship_document =
  sd_document :: json
  sd_id :: "string option"

text \<open>\<open>serde_json::Map\<close> is ordered by key.\<close>

fun map_insert :: "string \<Rightarrow> 'v \<Rightarrow> (string \<times> 'v) list \<Rightarrow> (string \<times> 'v) list" where
  "map_insert k v [] = [(k, v)]"
| "map_insert k v ((k', v') # rest) =
     (if k = k' then (k, v) # rest
      else if k < k' then (k, v) # (k', v') # rest
      else (k', v') # map_insert k v rest)"

definition bulk_action :: "json \<Rightarrow> string option \<Rightarrow> (ship_error, json) result" where
  "bulk_action document key =
     and_then (ok_or (BadDocument ''data_stream'') (do { d \<leftarrow> get ''data_stream'' document; as_object d })) (\<lambda>data_stream.
     and_then (ok_or (BadDocument ''data_stream.type'') (do { t \<leftarrow> map_of data_stream ''type''; as_str t })) (\<lambda>stream_type.
     if stream_type \<noteq> ''metrics'' \<and> stream_type \<noteq> ''logs'' then Err (BadDocument stream_type)
     else
       and_then (ok_or (BadDocument ''data_stream.dataset'') (do { d \<leftarrow> map_of data_stream ''dataset''; as_str d })) (\<lambda>dataset.
       let create = map_insert ''_index'' (JString (stream_type @ ''-'' @ dataset @ ''-default'')) [];
           create = (case key of Some i \<Rightarrow> map_insert ''_id'' (JString i) create | None \<Rightarrow> create)
       in Ok (JObject [(''create'', JObject create)]))))"

definition bulk_item_success :: "string option \<Rightarrow> json option \<Rightarrow> bool" where
  "bulk_item_success key item =
     (let status = do { action \<leftarrow> item; s \<leftarrow> get ''status'' action; as_u64 s }
      in if key \<noteq> None \<and> status = Some 201 then True
         else if key \<noteq> None \<and> status = Some 409
           \<and> do { action \<leftarrow> item; e \<leftarrow> get ''error'' action; t \<leftarrow> get ''type'' e; as_str t }
               = Some ''version_conflict_engine_exception'' then True
         else key = None \<and> do { action \<leftarrow> item; get ''error'' action } = None)"

fun bulk_body :: "(json \<Rightarrow> string option) \<Rightarrow> ship_document list \<Rightarrow> (ship_error, string) result" where
  "bulk_body ser [] = Ok []"
| "bulk_body ser (doc # docs) =
     and_then (bulk_action (sd_document doc) (sd_id doc)) (\<lambda>action.
     and_then (ok_or SerialiseError (ser action)) (\<lambda>action_line.
     and_then (ok_or SerialiseError (ser (sd_document doc))) (\<lambda>doc_line.
     and_then (bulk_body ser docs) (\<lambda>rest.
     Ok (action_line @ [CHR 0x0A] @ doc_line @ [CHR 0x0A] @ rest)))))"

text \<open>The item answered at \<open>position\<close>, and whether it counts as delivered.\<close>

definition item_action :: "json \<Rightarrow> json option" where
  "item_action item = or_else (get ''create'' item) (get ''index'' item)"

definition item_delivered :: "bool \<Rightarrow> ship_document list \<Rightarrow> nat \<Rightarrow> json \<Rightarrow> bool" where
  "item_delivered has_errors docs position item =
     (let keyed = do { doc \<leftarrow> list_get docs position; sd_id doc }
      in if keyed \<noteq> None then bulk_item_success keyed (item_action item)
         else \<not> has_errors \<or> bulk_item_success keyed (item_action item))"

text \<open>The \<open>Display\<close> of an error value and the \<open>Debug\<close> of \<open>Option<u64>\<close>.\<close>

definition item_warning :: "(json \<Rightarrow> string option) \<Rightarrow> json \<Rightarrow> string" where
  "item_warning ser item =
     (case do { action \<leftarrow> item_action item; get ''error'' action } of
        Some err \<Rightarrow> ''bulk item error: '' @ (case ser err of Some t \<Rightarrow> t | None \<Rightarrow> [])
      | None \<Rightarrow> ''bulk item returned unexpected status '' @
          (case do { action \<leftarrow> item_action item; s \<leftarrow> get ''status'' action; as_u64 s } of
             Some n \<Rightarrow> ''Some('' @ show_nat n @ '')'' | None \<Rightarrow> ''None''))"

fun count_failed ::
    "(json \<Rightarrow> string option) \<Rightarrow> bool \<Rightarrow> ship_document list \<Rightarrow> nat \<Rightarrow> json list \<Rightarrow> nat \<times> string list" where
  "count_failed ser has_errors docs position [] = (0, [])"
| "count_failed ser has_errors docs position (item # items) =
     (let (n, log) = count_failed ser has_errors docs (position + 1) items
      in if item_delivered has_errors docs position item then (n, log)
         else (n + 1, item_warning ser item # log))"

text \<open>\<open>attempted - failed\<close> on \<open>usize\<close>, as a build without overflow checks computes it.\<close>

definition usize_sub :: "nat \<Rightarrow> nat \<Rightarrow> nat" where
  "usize_sub a b = unat (word_of_nat a - word_of_nat b :: u64)"

definition errors_flag :: "json \<Rightarrow> bool" where
  "errors_flag resp_body = (case do { e \<leftarrow> get ''errors'' resp_body; as_bool e } of Some b \<Rightarrow> b | None \<Rightarrow> False)"

definition ship_outcome :: "(json \<Rightarrow> string option) \<Rightarrow> ship_document list \<Rightarrow> json \<Rightarrow> ship_result \<times> string list" where
  "ship_outcome ser docs resp_body =
     (let attempted = length docs;
          has_errors = errors_flag resp_body;
          (failed, log) =
            (if has_errors \<or> (\<exists>doc \<in> set docs. sd_id doc \<noteq> None)
             then (case do { i \<leftarrow> get ''items'' resp_body; as_array i } of
                     Some items \<Rightarrow> count_failed ser has_errors docs 0 items
                   | None \<Rightarrow> (attempted, []))
             else (0, []))
      in (\<lparr>sr_attempted = attempted, sr_succeeded = usize_sub attempted failed, sr_failed = failed\<rparr>, log))"

definition ship_documents :: "'cert net \<Rightarrow> es_config \<Rightarrow> ship_document list \<Rightarrow> (ship_error, ship_result) result \<times> effects" where
  "ship_documents N config docs =
     (if docs = [] then (Ok \<lparr>sr_attempted = 0, sr_succeeded = 0, sr_failed = 0\<rparr>, quiet)
      else case build_client N config of
        None \<Rightarrow> (Err ClientError, quiet)
      | Some client \<Rightarrow>
        (case bulk_body (to_json N) docs of
           Inl e \<Rightarrow> (Err e, quiet)
         | Inr body \<Rightarrow>
           (let req = \<lparr>rq_method = HttpPost, rq_url = trim_slashes (es_endpoint config) @ ''/_bulk'',
                       rq_headers = (''Content-Type'', ''application/x-ndjson'') # auth_headers config,
                       rq_body = Some body\<rparr>
            in case net_send N client req of
                 None \<Rightarrow> (Err SendError, \<lparr>fx_sent = [req], fx_log = []\<rparr>)
               | Some resp \<Rightarrow>
                 (if \<not> is_success (rsp_status resp)
                  then (Err (StatusError (bulk_failure_message N (rsp_status resp)
                               (case rsp_text resp of Some b \<Rightarrow> b | None \<Rightarrow> []))), \<lparr>fx_sent = [req], fx_log = []\<rparr>)
                  else case rsp_json resp of
                    None \<Rightarrow> (Err ParseError, \<lparr>fx_sent = [req], fx_log = []\<rparr>)
                  | Some resp_body \<Rightarrow>
                      (let (r, log) = ship_outcome (to_json N) docs resp_body
                       in (Ok r, \<lparr>fx_sent = [req], fx_log = log\<rparr>))))))"

definition ship :: "'cert net \<Rightarrow> es_config \<Rightarrow> json list \<Rightarrow> (ship_error, ship_result) result \<times> effects" where
  "ship N config docs = ship_documents N config (map (\<lambda>document. \<lparr>sd_document = document, sd_id = None\<rparr>) docs)"

definition trigger_transform_sync :: "'cert net \<Rightarrow> es_config \<Rightarrow> string \<Rightarrow> (ship_error, unit) result \<times> effects" where
  "trigger_transform_sync N config transform_id =
     (case build_client N config of
        None \<Rightarrow> (Err ClientError, quiet)
      | Some client \<Rightarrow>
        (let req = \<lparr>rq_method = HttpPost,
                    rq_url = trim_slashes (es_endpoint config) @ ''/_transform/'' @ transform_id @ ''/_schedule_now'',
                    rq_headers = auth_headers config, rq_body = None\<rparr>
         in case net_send N client req of
              None \<Rightarrow> (Err SendError, \<lparr>fx_sent = [req], fx_log = []\<rparr>)
            | Some resp \<Rightarrow>
                (Ok (), \<lparr>fx_sent = [req], fx_log =
                   [if is_success (rsp_status resp)
                    then ''transform '' @ [CHR 0x27] @ escape_for_log transform_id @ [CHR 0x27] @ '' schedule_now accepted''
                    else transform_failure_message N transform_id (rsp_status resp)
                           (case rsp_text resp of Some b \<Rightarrow> b | None \<Rightarrow> [])]\<rparr>)))"

section \<open>Base64\<close>

text \<open>A decoder after RFC 4648: groups of four characters, padding in the last one only.\<close>

definition index_of :: "'a \<Rightarrow> 'a list \<Rightarrow> nat option" where
  "index_of x xs = (if x \<in> set xs then Some (length (takeWhile (\<lambda>y. y \<noteq> x) xs)) else None)"

fun decode_base64 :: "string \<Rightarrow> bytes option" where
  "decode_base64 [] = Some []"
| "decode_base64 [a, b, c, d] =
     (if c = CHR ''='' \<and> d = CHR ''='' then
        do { i \<leftarrow> index_of a base64_alphabet; j \<leftarrow> index_of b base64_alphabet;
             if j mod 16 = 0 then Some [char_of (i * 4 + j div 16)] else None }
      else if d = CHR ''='' then
        do { i \<leftarrow> index_of a base64_alphabet; j \<leftarrow> index_of b base64_alphabet; k \<leftarrow> index_of c base64_alphabet;
             if k mod 4 = 0 then Some [char_of (i * 4 + j div 16), char_of (j mod 16 * 16 + k div 4)] else None }
      else
        do { i \<leftarrow> index_of a base64_alphabet; j \<leftarrow> index_of b base64_alphabet; k \<leftarrow> index_of c base64_alphabet;
             l \<leftarrow> index_of d base64_alphabet;
             Some [char_of (i * 4 + j div 16), char_of (j mod 16 * 16 + k div 4), char_of (k mod 4 * 64 + l)] })"
| "decode_base64 (a # b # c # d # rest) =
     do { i \<leftarrow> index_of a base64_alphabet; j \<leftarrow> index_of b base64_alphabet; k \<leftarrow> index_of c base64_alphabet;
          l \<leftarrow> index_of d base64_alphabet; tl \<leftarrow> decode_base64 rest;
          Some (char_of (i * 4 + j div 16) # char_of (j mod 16 * 16 + k div 4) # char_of (k mod 4 * 64 + l) # tl) }"
| "decode_base64 _ = None"

lemma alphabet_length: "length base64_alphabet = 64"
  by (simp add: base64_alphabet_def)

lemma alphabet_distinct: "distinct base64_alphabet"
  by (simp add: base64_alphabet_def)

lemma index_of_nth: "distinct xs \<Longrightarrow> i < length xs \<Longrightarrow> index_of (xs ! i) xs = Some i"
proof -
  assume d: "distinct xs" and i: "i < length xs"
  have "takeWhile (\<lambda>y. y \<noteq> xs ! i) xs = take i xs"
    using d i by (intro takeWhile_eq_take_P_nth) (auto simp: nth_eq_iff_index_eq)
  with i show ?thesis by (simp add: index_of_def)
qed

lemma index_alphabet [simp]: "i < 64 \<Longrightarrow> index_of (base64_alphabet ! i) base64_alphabet = Some i"
  by (rule index_of_nth [OF alphabet_distinct]) (simp add: alphabet_length)

lemma alphabet_not_pad [simp]: "i < 64 \<Longrightarrow> base64_alphabet ! i \<noteq> CHR ''=''"
proof -
  assume "i < 64"
  then have "base64_alphabet ! i \<in> set base64_alphabet" by (simp add: alphabet_length)
  moreover have "CHR ''='' \<notin> set base64_alphabet" by (simp add: base64_alphabet_def)
  ultimately show ?thesis by metis
qed

text \<open>The 24 bits of a group as a number, and its four digits.\<close>

lemma or_low:
  assumes "x < 2 ^ k"
  shows "push_bit k y OR x = y * 2 ^ k + (x :: nat)"
proof -
  have x: "x = take_bit k x" using assms by (simp add: take_bit_nat_eq_self)
  have "push_bit k y OR take_bit k x = push_bit k y + take_bit k x"
    by (rule disjunctive_add_eq_or [symmetric]) (auto simp: bit_eq_iff bit_simps)
  then show ?thesis unfolding x [symmetric] by (simp add: push_bit_eq_mult)
qed

lemma group_bits:
  assumes "b < 256" "c < 256"
  shows "push_bit 16 (word_of_nat a) OR push_bit 8 (word_of_nat b) OR word_of_nat c
    = (word_of_nat (a * 65536 + b * 256 + c) :: u32)"
proof -
  have 1: "push_bit 8 b OR c = b * 256 + c" using assms or_low [of c 8 b] by simp
  have 2: "push_bit 16 a OR (b * 256 + c) = a * 65536 + (b * 256 + c)" using assms or_low [of "b * 256 + c" 16 a] by simp
  have "push_bit 16 (word_of_nat a) OR push_bit 8 (word_of_nat b) OR word_of_nat c
      = (word_of_nat (push_bit 16 a OR (push_bit 8 b OR c)) :: u32)"
    by (simp add: of_nat_or_eq push_bit_of_nat or.assoc)
  then show ?thesis unfolding 1 2 by (simp add: add.assoc)
qed

lemma digit_of:
  assumes "x = (p * 64 + q) * k + r" "r < k" "q < 64"
  shows "x div k mod 64 = (q :: nat)"
  using assms by simp

lemma group_digits:
  assumes "a < 256" "b < 256" "c < 256"
  defines "n \<equiv> word_of_nat (a * 65536 + b * 256 + c) :: u32"
  shows "unat (drop_bit 18 n) = a div 4" "unat (drop_bit 12 n AND 0x3F) = a mod 4 * 16 + b div 16"
    "unat (drop_bit 6 n AND 0x3F) = b mod 16 * 4 + c div 64" "unat (n AND 0x3F) = c mod 64"
proof -
  have n: "unat n = a * 65536 + b * 256 + c" unfolding n_def using assms(1-3)
    by (simp only: unsigned_of_nat) (simp add: take_bit_nat_eq_self)
  have m: "unat (w AND 0x3F) = unat w mod 64" for w :: u32
  proof -
    have "w AND 0x3F = take_bit 6 w" by (simp add: take_bit_eq_mask mask_eq_exp_minus_1)
    then show ?thesis by (simp only: unsigned_take_bit_eq) (simp add: take_bit_eq_mod)
  qed
  have d: "unat (drop_bit k w) = unat w div 2 ^ k" for k and w :: u32
    by (simp only: unat_drop_bit_eq) (simp add: drop_bit_eq_div)
  show "unat (drop_bit 18 n) = a div 4" unfolding d n using assms(2,3) by simp
  obtain a1 a0 b1 b0 c1 c0 where e: "a = a1 * 4 + a0" "a0 < 4" "b = b1 * 16 + b0" "b0 < 16" "c = c1 * 64 + c0" "c0 < 64"
    by (metis div_mult_mod_eq mod_less_divisor zero_less_numeral)
  with assms(1-3) have hi: "b1 < 16" "c1 < 4" by simp_all
  have parts: "a mod 4 = a0" "b div 16 = b1" "b mod 16 = b0" "c div 64 = c1" "c mod 64 = c0" using e by simp_all
  have "(a * 65536 + b * 256 + c) div 4096 mod 64 = a0 * 16 + b1"
    by (rule digit_of [of _ a1 _ _ "b0 * 256 + c"]) (use e hi assms(3) in simp_all)
  then show "unat (drop_bit 12 n AND 0x3F) = a mod 4 * 16 + b div 16" unfolding m d n parts by simp
  have "(a * 65536 + b * 256 + c) div 64 mod 64 = b0 * 4 + c1"
    by (rule digit_of [of _ "a * 16 + b1" _ _ c0]) (use e hi in simp_all)
  then show "unat (drop_bit 6 n AND 0x3F) = b mod 16 * 4 + c div 64" unfolding m d n parts by simp
  have "(a * 65536 + b * 256 + c) div 1 mod 64 = c0"
    by (rule digit_of [of _ "a * 1024 + b * 4 + c1" _ _ 0]) (use e in simp_all)
  then show "unat (n AND 0x3F) = c mod 64" unfolding m n parts by simp
qed

lemma encode_chunk_3:
  "encode_chunk [x, y, z] =
     [base64_alphabet ! (byte x div 4), base64_alphabet ! (byte x mod 4 * 16 + byte y div 16),
      base64_alphabet ! (byte y mod 16 * 4 + byte z div 64), base64_alphabet ! (byte z mod 64)]"
  unfolding encode_chunk_def Let_def by (simp add: group_bits group_digits del: of_nat_add of_nat_mult)

lemma encode_chunk_2:
  "encode_chunk [x, y] =
     [base64_alphabet ! (byte x div 4), base64_alphabet ! (byte x mod 4 * 16 + byte y div 16),
      base64_alphabet ! (byte y mod 16 * 4), CHR ''='']"
  using group_bits [of "byte y" 0 "byte x"] group_digits [of "byte x" "byte y" 0]
  unfolding encode_chunk_def Let_def by (simp del: of_nat_add of_nat_mult)

lemma encode_chunk_1:
  "encode_chunk [x] =
     [base64_alphabet ! (byte x div 4), base64_alphabet ! (byte x mod 4 * 16), CHR ''='', CHR ''='']"
  using group_bits [of 0 0 "byte x"] group_digits [of "byte x" 0 0]
  unfolding encode_chunk_def Let_def by (simp del: of_nat_add of_nat_mult)

lemma base64_nibbles: "byte y div 16 < 16" "byte z div 64 < 4" "byte x div 4 < 64"
  by (simp_all add: less_mult_imp_div_less)

lemma base64_nibbles_simps [simp]:
  "byte y div 16 div 16 = 0" "byte y div 16 mod 16 = byte y div 16" "byte z div 64 div 4 = 0" "byte z div 64 mod 4 = byte z div 64"
  using base64_nibbles(1) [of y] base64_nibbles(2) [of z] by simp_all

lemma digit_bounds [simp]:
  "byte x div 4 < 64" "byte x mod 4 * 16 + byte y div 16 < 64" "byte y mod 16 * 4 + byte z div 64 < 64"
  "byte x mod 4 * 16 < 64" "byte y mod 16 * 4 < 64"
proof -
  have "byte x mod 4 < 4" "byte y mod 16 < 16" by simp_all
  with base64_nibbles(1) [of y] base64_nibbles(2) [of z] base64_nibbles(3) [of x] show "byte x div 4 < 64" "byte x mod 4 * 16 + byte y div 16 < 64"
    "byte y mod 16 * 4 + byte z div 64 < 64" "byte x mod 4 * 16 < 64" "byte y mod 16 * 4 < 64" by linarith+
qed

lemma chunk_cons:
  "decode_base64 (encode_chunk [x, y, z] @ rest) = map_option (\<lambda>tl. x # y # z # tl) (decode_base64 rest)"
proof (cases rest)
  case Nil
  then show ?thesis by (simp add: encode_chunk_3 div_mult_mod_eq)
next
  case (Cons r rs)
  then show ?thesis by (cases "decode_base64 rest") (simp_all add: encode_chunk_3 div_mult_mod_eq)
qed

lemma base64_decode_encode: "decode_base64 (encode_base64 bs) = Some bs"
proof (induction bs rule: chunks3.induct)
  case (1 a b c d rest)
  then show ?case by (simp add: encode_base64_def chunk_cons)
next
  case "3_1"
  then show ?case by (simp add: encode_base64_def encode_chunk_1 div_mult_mod_eq)
next
  case "3_2"
  then show ?case by (simp add: encode_base64_def encode_chunk_2 div_mult_mod_eq)
next
  case "3_3"
  then show ?case by (simp add: encode_base64_def encode_chunk_3 div_mult_mod_eq)
qed (simp add: encode_base64_def)

lemma length_encode_base64: "length (encode_base64 bs) = (length bs + 2) div 3 * 4"
proof (induction bs rule: chunks3.induct)
  case (1 a b c d rest)
  have "(6 + n) div 3 = Suc ((3 + n) div 3)" for n :: nat by simp
  with 1 show ?case by (simp add: encode_base64_def encode_chunk_3)
qed (simp_all add: encode_base64_def encode_chunk_1 encode_chunk_2 encode_chunk_3)

lemma encode_base64_alphabet: "set (encode_base64 bs) \<subseteq> insert CHR ''='' (set base64_alphabet)"
proof -
  have "base64_alphabet ! i \<in> set base64_alphabet" if "i < 64" for i using that by (simp add: alphabet_length)
  then have "set (encode_chunk [x]) \<subseteq> insert CHR ''='' (set base64_alphabet)"
    "set (encode_chunk [x, y]) \<subseteq> insert CHR ''='' (set base64_alphabet)"
    "set (encode_chunk [x, y, z]) \<subseteq> insert CHR ''='' (set base64_alphabet)" for x y z
    by (simp_all add: encode_chunk_1 encode_chunk_2 encode_chunk_3)
  then show ?thesis by (induction bs rule: chunks3.induct) (simp_all add: encode_base64_def)
qed

section \<open>What a bulk request carries and how its answer is counted\<close>

definition doc_stream :: "json \<Rightarrow> (string \<times> string) option" where
  "doc_stream doc =
     do { d \<leftarrow> get ''data_stream'' doc; t \<leftarrow> get ''type'' d; ty \<leftarrow> as_str t; s \<leftarrow> get ''dataset'' d; ds \<leftarrow> as_str s;
          if ty = ''metrics'' \<or> ty = ''logs'' then Some (ty, ds) else None }"

text \<open>The action line of a document: its data stream, and its key as the create identifier.\<close>

definition action_of :: "string \<times> string \<Rightarrow> string option \<Rightarrow> json" where
  "action_of stream key =
     JObject [(''create'', JObject ((case key of None \<Rightarrow> [] | Some k \<Rightarrow> [(''_id'', JString k)])
       @ [(''_index'', JString (fst stream @ ''-'' @ snd stream @ ''-default''))]))]"

lemma bulk_action_iff: "bulk_action doc key = Ok a \<longleftrightarrow> (\<exists>s. doc_stream doc = Some s \<and> a = action_of s key)"
proof (cases "do { d \<leftarrow> get ''data_stream'' doc; as_object d }")
  case None
  then have "doc_stream doc = None"
    by (auto simp: doc_stream_def bind_eq_None_conv get_def as_object_def split: json.splits)
  with None show ?thesis by (simp add: bulk_action_def)
next
  case (Some m)
  then obtain v where v: "get ''data_stream'' doc = Some v" "as_object v = Some m" by (auto simp: bind_eq_Some_conv)
  then have d: "get ''data_stream'' doc = Some (JObject m)" by (cases v) (simp_all add: as_object_def)
  have g: "get k (JObject m) = map_of m k" for k by (simp add: get_def)
  have ins: "map_insert ''_id'' x [(''_index'', y)] = [(''_id'', x), (''_index'', y)]" for x y :: json
    by (simp add: less_char_def)
  show ?thesis
  proof (cases "do { t \<leftarrow> map_of m ''type''; as_str t }")
    case None
    then have "doc_stream doc = None" by (auto simp: doc_stream_def d g bind_eq_None_conv)
    with None Some show ?thesis by (simp add: bulk_action_def)
  next
    case ty: (Some ty)
    show ?thesis
    proof (cases "do { t \<leftarrow> map_of m ''dataset''; as_str t }")
      case None
      then have "doc_stream doc = None" by (auto simp: doc_stream_def d g bind_eq_None_conv)
      with None ty Some show ?thesis by (simp add: bulk_action_def)
    next
      case ds: (Some ds)
      have "doc_stream doc = (if ty = ''metrics'' \<or> ty = ''logs'' then Some (ty, ds) else None)"
        using ty ds by (auto simp: doc_stream_def d g bind_eq_Some_conv)
      with ty ds Some show ?thesis
        by (cases key; cases "ty = ''metrics'' \<or> ty = ''logs''") (auto simp: bulk_action_def action_of_def Let_def ins)
    qed
  qed
qed

definition request_lines :: "(json \<Rightarrow> string option) \<Rightarrow> ship_document \<Rightarrow> string list" where
  "request_lines ser d = [the (ser (action_of (the (doc_stream (sd_document d))) (sd_id d))), the (ser (sd_document d))]"

lemma bulk_body_lines:
  assumes "bulk_body ser docs = Ok body" "\<And>v t. ser v = Some t \<Longrightarrow> CHR 0x0A \<notin> set t"
  shows "split_on CHR 0x0A body = concat (map (request_lines ser) docs) @ [[]]
    \<and> (\<forall>d \<in> set docs. doc_stream (sd_document d) \<noteq> None)"
  using assms(1)
proof (induction docs arbitrary: body)
  case (Cons d docs)
  from Cons.prems obtain s al dl rest where s: "doc_stream (sd_document d) = Some s"
    and l: "ser (action_of s (sd_id d)) = Some al" "ser (sd_document d) = Some dl" "bulk_body ser docs = Ok rest"
    and body: "body = al @ CHR 0x0A # dl @ CHR 0x0A # rest"
    by (auto simp: and_then_eq_Inr bulk_action_iff)
  have "split_on CHR 0x0A body = al # dl # split_on CHR 0x0A rest"
    unfolding body using split_on_append [of "CHR 0x0A" al] split_on_append [of "CHR 0x0A" dl] assms(2) l
    by (simp add: split_on_single)
  with Cons.IH [OF l(3)] s l show ?case by (simp add: request_lines_def)
qed simp

text \<open>What counts as an acknowledgement of one document.\<close>

definition acknowledged :: "bool \<Rightarrow> ship_document \<Rightarrow> json \<Rightarrow> bool" where
  "acknowledged has_errors d item =
     (let act = item_action item; status = do { a \<leftarrow> act; s \<leftarrow> get ''status'' a; as_u64 s };
          error = do { a \<leftarrow> act; get ''error'' a }
      in if sd_id d = None then \<not> has_errors \<or> error = None
         else status = Some 201 \<or> status = Some 409
           \<and> do { e \<leftarrow> error; t \<leftarrow> get ''type'' e; as_str t } = Some ''version_conflict_engine_exception'')"

lemma item_delivered_iff: "i < length docs \<Longrightarrow> item_delivered he docs i item \<longleftrightarrow> acknowledged he (docs ! i) item"
  by (cases "item_action item"; cases "sd_id (docs ! i)")
    (auto simp: item_delivered_def acknowledged_def bulk_item_success_def list_get_def Let_def)

lemma count_failed_card:
  "fst (count_failed ser he docs p items) = card {i. i < length items \<and> \<not> item_delivered he docs (p + i) (items ! i)}"
proof (induction items arbitrary: p)
  case (Cons item items)
  let ?A = "{i. i < length items \<and> \<not> item_delivered he docs (Suc p + i) (items ! i)}"
  have "{i. i < length (item # items) \<and> \<not> item_delivered he docs (p + i) ((item # items) ! i)}
      = (if item_delivered he docs p item then {} else {0}) \<union> Suc ` ?A"
    by (auto simp: image_iff less_Suc_eq_0_disj split: if_splits)
  then have "card {i. i < length (item # items) \<and> \<not> item_delivered he docs (p + i) ((item # items) ! i)}
      = (if item_delivered he docs p item then 0 else 1) + card ?A"
    by (simp add: card_image)
  with Cons.IH [of "Suc p"] show ?case by (cases "count_failed ser he docs (Suc p) items") auto
qed simp

lemma usize_sub_le: "b \<le> a \<Longrightarrow> a < 2 ^ 64 \<Longrightarrow> usize_sub a b = a - b"
proof -
  assume *: "b \<le> a" "a < 2 ^ 64"
  then have "word_of_nat a - word_of_nat b = (word_of_nat (a - b) :: u64)" by (simp add: of_nat_diff)
  with * show ?thesis unfolding usize_sub_def by (simp only: unsigned_of_nat) (simp add: take_bit_nat_eq_self)
qed

lemma ship_outcome_counts:
  assumes "ship_outcome ser docs rj = (r, log)" "length docs < 2 ^ 64" "get ''items'' rj = Some (JArray items)"
    "length items \<le> length docs"
  defines "he \<equiv> get ''errors'' rj = Some (JBool True)"
  shows "sr_attempted r = length docs \<and> sr_succeeded r + sr_failed r = length docs
    \<and> sr_failed r = card {i. i < length items \<and> \<not> acknowledged he (docs ! i) (items ! i)}"
proof -
  have he: "errors_flag rj = he"
    unfolding he_def errors_flag_def by (cases "get ''errors'' rj") (auto simp: as_bool_def split: json.splits)
  let ?A = "{i. i < length items \<and> \<not> acknowledged he (docs ! i) (items ! i)}"
  have A: "{i. i < length items \<and> \<not> item_delivered he docs (0 + i) (items ! i)} = ?A"
    using assms(4) by (auto simp: item_delivered_iff)
  have le: "card ?A \<le> length docs"
    using card_mono [of "{..<length items}" ?A] assms(4) by fastforce
  have f: "sr_failed r = card ?A"
  proof (cases "he \<or> (\<exists>doc \<in> set docs. sd_id doc \<noteq> None)")
    case True
    obtain n lg where cf: "count_failed ser he docs 0 items = (n, lg)" by fastforce
    with True assms(1,3) he have "sr_failed r = n" by (auto simp: ship_outcome_def Let_def as_array_def)
    with cf count_failed_card [of ser he docs 0 items] A show ?thesis by simp
  next
    case False
    then have "acknowledged he (docs ! i) (items ! i)" if "i < length items" for i
      using that assms(4) nth_mem [of i docs] by (auto simp: acknowledged_def Let_def)
    then have "?A = {}" by blast
    with False assms(1) he show ?thesis by (auto simp: ship_outcome_def Let_def split: prod.splits)
  qed
  have "sr_attempted r = length docs" "sr_succeeded r = usize_sub (length docs) (sr_failed r)"
    using assms(1) by (auto simp: ship_outcome_def Let_def split: prod.splits)
  with f le usize_sub_le [OF le assms(2)] show ?thesis by simp
qed

section \<open>Properties\<close>


text \<open>C12: When \<open>ship_documents\<close> reports a result for a batch, it has sent exactly one request, a POST to the bulk
  endpoint with the configured credentials, whose body is for every document in order its action line, with
  its data stream and its key, and its own line.  If the answer has no more items than documents, the counts
  add up and the failed ones are exactly the items not acknowledged: a keyed document by 201 or by the
  version conflict that says it is already stored, another one by the absence of an error.\<close>

theorem ship_documents_accounts:
  assumes "ship_documents N config docs = (Ok r, fx)" "docs \<noteq> []" "length docs < 2 ^ 64"
    "\<forall>v t. to_json N v = Some t \<longrightarrow> CHR 0x0A \<notin> set t"
  shows "\<exists>req client body resp rj. fx_sent fx = [req] \<and> rq_method req = HttpPost
    \<and> rq_url req = trim_slashes (es_endpoint config) @ ''/_bulk''
    \<and> rq_headers req = (''Content-Type'', ''application/x-ndjson'') # auth_headers config
    \<and> rq_body req = Some body \<and> split_on CHR 0x0A body = concat (map (request_lines (to_json N)) docs) @ [[]]
    \<and> net_send N client req = Some resp \<and> is_success (rsp_status resp) \<and> rsp_json resp = Some rj
    \<and> sr_attempted r = length docs
    \<and> (\<forall>items. get ''items'' rj = Some (JArray items) \<longrightarrow> length items \<le> length docs \<longrightarrow>
         sr_succeeded r + sr_failed r = length docs
         \<and> sr_failed r = card {i. i < length items
             \<and> \<not> acknowledged (get ''errors'' rj = Some (JBool True)) (docs ! i) (items ! i)})"
proof -
  from assms(1,2) obtain client body where c: "build_client N config = Some client" "bulk_body (to_json N) docs = Ok body"
    by (auto simp: ship_documents_def split: option.splits sum.splits)
  define req where "req = \<lparr>rq_method = HttpPost, rq_url = trim_slashes (es_endpoint config) @ ''/_bulk'',
    rq_headers = (''Content-Type'', ''application/x-ndjson'') # auth_headers config, rq_body = Some body\<rparr>"
  from assms(1,2) c obtain resp rj log where r: "net_send N client req = Some resp" "is_success (rsp_status resp)"
    "rsp_json resp = Some rj" "ship_outcome (to_json N) docs rj = (r, log)" "fx_sent fx = [req]"
    by (auto simp: ship_documents_def req_def Let_def split: option.splits if_splits prod.splits)
  have att: "sr_attempted r = length docs" using r(4) by (auto simp: ship_outcome_def Let_def split: prod.splits)
  have lines: "split_on CHR 0x0A body = concat (map (request_lines (to_json N)) docs) @ [[]]"
    using bulk_body_lines [OF c(2)] assms(4) by blast
  have counts: "\<forall>items. get ''items'' rj = Some (JArray items) \<longrightarrow> length items \<le> length docs \<longrightarrow>
      sr_succeeded r + sr_failed r = length docs
      \<and> sr_failed r = card {i. i < length items \<and> \<not> acknowledged (get ''errors'' rj = Some (JBool True)) (docs ! i) (items ! i)}"
    by (intro allI impI) (rule ship_outcome_counts [OF r(4) assms(3), THEN conjunct2]; assumption)
  have fields: "rq_method req = HttpPost" "rq_url req = trim_slashes (es_endpoint config) @ ''/_bulk''"
    "rq_headers req = (''Content-Type'', ''application/x-ndjson'') # auth_headers config" "rq_body req = Some body"
    by (simp_all add: req_def)
  show ?thesis by (intro exI conjI) (rule r(5) fields lines r(1-3) att counts)+
qed

definition sample_net :: "nat net" where
  "sample_net = \<lparr>net_libs = sample_libs, net_read = (\<lambda>_. None),
     net_send = (\<lambda>_ _. Some \<lparr>rsp_status = 200, rsp_text = None, rsp_json = Some (JObject
       [(''errors'', JBool True), (''items'', JArray
          [JObject [(''create'', JObject [(''status'', JNumber (PosInt 409)),
             (''error'', JObject [(''type'', JString ''version_conflict_engine_exception'')])])],
           JObject [(''create'', JObject [(''status'', JNumber (PosInt 400)), (''error'', JObject [])])]])])\<rparr>),
     to_json = (\<lambda>_. Some ''{}''), status_text = (\<lambda>_. ''200 OK'')\<rparr>"

definition sample_es :: es_config where
  "sample_es = \<lparr>es_endpoint = ''http://h/'', es_api_key = None, es_username = Some ''u'', es_password = Some ''p'', es_ca_cert = None\<rparr>"

definition sample_metric :: json where
  "sample_metric = JObject [(''data_stream'', JObject [(''type'', JString ''metrics''), (''dataset'', JString ''d'')])]"

lemma sample_ship:
  "\<exists>fx. ship_documents sample_net sample_es [\<lparr>sd_document = sample_metric, sd_id = Some ''k''\<rparr>, \<lparr>sd_document = sample_metric, sd_id = None\<rparr>]
     = (Ok \<lparr>sr_attempted = 2, sr_succeeded = 1, sr_failed = 1\<rparr>, fx)"
proof -
  have "usize_sub (Suc (Suc 0)) (Suc 0) = Suc 0" by (simp add: usize_sub_le)
  moreover have "doc_stream sample_metric = Some (''metrics'', ''d'')"
    by (simp add: doc_stream_def sample_metric_def get_def as_str_def)
  then have "bulk_action sample_metric k = Ok (action_of (''metrics'', ''d'') k)" for k by (simp add: bulk_action_iff)
  ultimately show ?thesis
    by (simp add: ship_documents_def build_client_def sample_net_def sample_es_def sample_libs_def is_success_def ship_outcome_def
        errors_flag_def get_def as_bool_def as_array_def item_delivered_def list_get_def item_action_def bulk_item_success_def
        as_u64_def as_str_def Let_def)
qed

theorem ship_documents_accounts_witness:
  "\<exists>r fx req. ship_documents sample_net sample_es
       [\<lparr>sd_document = sample_metric, sd_id = Some ''k''\<rparr>, \<lparr>sd_document = sample_metric, sd_id = None\<rparr>] = (Ok r, fx)
     \<and> fx_sent fx = [req] \<and> rq_url req = trim_slashes ''http://h/'' @ ''/_bulk'' \<and> sr_failed r = 1"
proof -
  obtain fx where fx: "ship_documents sample_net sample_es
      [\<lparr>sd_document = sample_metric, sd_id = Some ''k''\<rparr>, \<lparr>sd_document = sample_metric, sd_id = None\<rparr>]
      = (Ok \<lparr>sr_attempted = 2, sr_succeeded = 1, sr_failed = 1\<rparr>, fx)" using sample_ship by blast
  have ser: "\<forall>v t. to_json sample_net v = Some t \<longrightarrow> CHR 0x0A \<notin> set t" by (simp add: sample_net_def)
  have len: "length [\<lparr>sd_document = sample_metric, sd_id = Some ''k''\<rparr>, \<lparr>sd_document = sample_metric, sd_id = None\<rparr>] < 2 ^ 64" by simp
  obtain req where "fx_sent fx = [req]" "rq_url req = trim_slashes (es_endpoint sample_es) @ ''/_bulk''"
    using ship_documents_accounts [OF fx list.distinct(2) len ser] by (elim exE conjE) (rule that; assumption)
  with fx show ?thesis by (auto simp: sample_es_def)
qed

definition log_line_ok :: "string \<Rightarrow> bool" where
  "log_line_ok s \<longleftrightarrow> utf8_valid s \<and> (\<forall>d \<in> set (chars s). needs_escape d \<longrightarrow> d = 0x5C)"

lemma log_line_append: "log_line_ok s \<Longrightarrow> log_line_ok t \<Longrightarrow> log_line_ok (s @ t)"
  by (auto simp: log_line_ok_def utf8_valid_append chars_append)

lemma log_line_escaped: "utf8_valid s \<Longrightarrow> log_line_ok (escape_for_log s)"
  by (auto simp: log_line_ok_def escape_for_log_valid dest: escape_output_safe)

lemma truncate_valid: "utf8_valid s \<Longrightarrow> utf8_valid (truncate_chars s n)"
proof -
  assume s: "utf8_valid s"
  obtain k where "truncate_chars s n = str_of_chars (take k (chars s))" using truncate_chars_valid [OF s] by blast
  moreover have "list_all is_scalar (take k (chars s))"
    using utf8_valid_chars [OF s] by (auto simp: list_all_iff dest: in_set_takeD)
  ultimately show ?thesis by (simp add: utf8_valid_str_of_chars)
qed

lemma log_line_ascii: "list_all (\<lambda>c. 0x20 \<le> byte c \<and> byte c < 0x7F \<and> byte c \<noteq> 0x5C) s \<Longrightarrow> log_line_ok s"
proof -
  assume a: "list_all (\<lambda>c. 0x20 \<le> byte c \<and> byte c < 0x7F \<and> byte c \<noteq> 0x5C) s"
  then have 1: "str_of_chars (map of_char s) = s" by (intro str_of_chars_bytes) (auto simp: list_all_iff)
  have 2: "list_all is_scalar (map of_char s)" using a by (auto simp: list_all_iff is_scalar_def)
  have "chars s = map of_char s" using chars_str_of_chars [OF 2] 1 by simp
  with a 1 utf8_valid_str_of_chars [OF 2] show ?thesis
    by (auto simp: log_line_ok_def list_all_iff needs_escape_def)
qed

lemma message_parts:
  "log_line_ok ''ES ping returned ''" "log_line_ok ''ES bulk returned ''" "log_line_ok '': ''" "log_line_ok ''transform ''"
  "log_line_ok [CHR 0x27]" "log_line_ok '' schedule_now returned ''"
  by (rule log_line_ascii, simp)+

text \<open>No failure message of the delivery can forge or break a log line, whatever the peer's body or the transform
  name holds.\<close>

theorem failure_messages_single_line:
  assumes "utf8_valid body" "utf8_valid transform_id" "log_line_ok (status_text N status)"
  shows "log_line_ok (ping_failure_message N status body) \<and> log_line_ok (bulk_failure_message N status body)
    \<and> log_line_ok (transform_failure_message N transform_id status body)"
  unfolding ping_failure_message_def bulk_failure_message_def transform_failure_message_def
  by (intro conjI log_line_append message_parts log_line_escaped truncate_valid assms)

theorem failure_messages_single_line_witness:
  "log_line_ok (bulk_failure_message sample_net 200 [CHR ''a'', CHR 0x0A])"
proof -
  have "utf8_valid [CHR ''a'', CHR 0x0A]" "utf8_valid ''t''"
    by (simp_all add: utf8_valid.simps [of "_ # _"] utf8_valid.simps [of "[]"] utf8_next_def)
  moreover have "log_line_ok (status_text sample_net 200)" by (rule log_line_ascii) (simp add: sample_net_def)
  ultimately show ?thesis using failure_messages_single_line by blast
qed

text \<open>The status of the cluster is logged as the peer sent it: a line break in it starts a new log line.\<close>

definition forging_net :: "nat net" where
  "forging_net = sample_net\<lparr>net_send := (\<lambda>_ _. Some \<lparr>rsp_status = 200, rsp_text = None,
     rsp_json = Some (JObject [(''status'', JString [CHR ''x'', CHR 0x0A, CHR ''y''])])\<rparr>)\<rparr>"

lemma ping_logs_raw_status: "\<exists>fx. ping forging_net sample_es = (Ok (), fx) \<and> (\<exists>l \<in> set (fx_log fx). CHR 0x0A \<in> set l)"
  by (simp add: ping_def build_client_def forging_net_def sample_net_def sample_es_def sample_libs_def is_success_def
      is_server_error_def get_def as_str_def Let_def)

text \<open>An answer with more failed items than documents: the count of delivered documents wraps around.\<close>

lemma usize_sub_wraps: "usize_sub (Suc 0) (Suc (Suc 0)) = 18446744073709551615"
  by (simp add: usize_sub_def unsigned_minus_1_eq_mask mask_eq_exp_minus_1)

lemma ship_count_wraps:
  "sr_succeeded (fst (ship_outcome ser [\<lparr>sd_document = d, sd_id = None\<rparr>] (JObject [(''errors'', JBool True), (''items'', JArray
     [JObject [(''create'', JObject [(''error'', JNull)])], JObject [(''create'', JObject [(''error'', JNull)])]])]))) = 2 ^ 64 - 1"
  by (simp add: ship_outcome_def errors_flag_def get_def as_bool_def as_array_def item_delivered_def list_get_def item_action_def
      bulk_item_success_def Let_def usize_sub_wraps)

end
