(* ===== verification/Contract.thy ===== *)
theory Contract
  imports Json_Scan Complex_Main
begin

text \<open>
  Model of \<open>src/src/detectors/contract.rs\<close>: the diagnosis every detector returns, the checks that
  \<open>Diagnosis::build\<close> makes, the not-applicable outcome, and the printing of an outcome with its exit code.  A
  floating point number is its value or one of the values that are not finite; its text and the JSON writer are
  parameters.  Deserialisation is the work of code that serde derives, apart from the three functions given
  to it by name.  The lemmas say which field sets build a diagnosis and what the exit code of a run tells.
\<close>

section \<open>Data\<close>

datatype f64 = NaN | Infinite bool | Finite rat

record detector_contract =
  dc_detector_id :: string
  dc_rule_version :: string
  dc_error_prefix :: string

datatype disposition = NonFinding | Finding

record diagnosis =
  dg_timestamp :: string
  dg_detector_id :: string
  dg_rule_version :: string
  dg_verdict :: string
  dg_confidence :: f64
  dg_confidence_basis :: string
  dg_evidence :: "string list"
  dg_plain_language :: string
  dg_suggested_fixes :: "string list"
  dg_falsifier :: string
  dg_host :: "string option"
  dg_supported_scope :: "string list"
  dg_missing_evidence :: "string list"
  dg_nearest_alternative :: string
  dg_disposition :: disposition

record diagnosis_fields =
  df_disposition :: disposition
  df_verdict :: string
  df_confidence :: f64
  df_confidence_basis :: string
  df_evidence :: "string list"
  df_plain_language :: string
  df_suggested_fixes :: "string list"
  df_falsifier :: string
  df_supported_scope :: "string list"
  df_missing_evidence :: "string list"
  df_nearest_alternative :: string
  df_host :: "string option"

record not_applicable =
  na_outcome :: string
  na_verdict :: string
  na_explanation :: string
  na_evidence :: "string list"
  na_disposition :: disposition

datatype outcome = Diagnosis diagnosis | NotApplicable not_applicable

section \<open>Building\<close>

text \<open>\<open>(0.0..=1.0).contains\<close>\<close>

definition in_unit :: "f64 \<Rightarrow> bool" where
  "in_unit x = (case x of Finite q \<Rightarrow> 0 \<le> q \<and> q \<le> 1 | _ \<Rightarrow> False)"

definition validate :: "diagnosis \<Rightarrow> detector_contract \<Rightarrow> (string, unit) result" where
  "validate d contract =
     (if \<not> in_unit (dg_confidence d)
      then Err (dc_error_prefix contract @ '' diagnosis confidence must be in [0,1]'')
      else if dg_evidence d = [] \<or> dg_plain_language d = [] \<or> dg_falsifier d = [] \<or> dg_confidence_basis d = []
        \<or> dg_supported_scope d = [] \<or> dg_nearest_alternative d = []
      then Err (dc_error_prefix contract @ '' diagnosis contract requires evidence, plain language, confidence basis, falsifier, supported scope, and nearest alternative'')
      else if dg_disposition d = Finding \<and> dg_suggested_fixes d = []
      then Err (dc_error_prefix contract @ '' real findings require suggested fixes'')
      else Ok ())"

text \<open>\<open>now\<close> is the text of the current time.\<close>

definition build :: "string \<Rightarrow> detector_contract \<Rightarrow> diagnosis_fields \<Rightarrow> (string, diagnosis) result" where
  "build now contract flds =
     (let result = \<lparr>dg_timestamp = now, dg_detector_id = dc_detector_id contract, dg_rule_version = dc_rule_version contract,
           dg_verdict = df_verdict flds, dg_confidence = df_confidence flds,
           dg_confidence_basis = df_confidence_basis flds, dg_evidence = df_evidence flds,
           dg_plain_language = df_plain_language flds, dg_suggested_fixes = df_suggested_fixes flds,
           dg_falsifier = df_falsifier flds, dg_host = df_host flds, dg_supported_scope = df_supported_scope flds,
           dg_missing_evidence = df_missing_evidence flds, dg_nearest_alternative = df_nearest_alternative flds,
           dg_disposition = df_disposition flds\<rparr>
      in and_then (validate result contract) (\<lambda>_. Ok result))"

definition new_not_applicable :: "string \<Rightarrow> string list \<Rightarrow> not_applicable" where
  "new_not_applicable explanation evidence =
     \<lparr>na_outcome = ''not-applicable'', na_verdict = ''not-applicable'', na_explanation = explanation,
      na_evidence = evidence, na_disposition = NonFinding\<rparr>"

definition deserialize_not_applicable_outcome :: "json \<Rightarrow> string option" where
  "deserialize_not_applicable_outcome v =
     do { outcome \<leftarrow> as_str v; if outcome = ''not-applicable'' then Some outcome else None }"

definition deserialize_not_applicable_verdict :: "json \<Rightarrow> string option" where
  "deserialize_not_applicable_verdict v =
     do { verdict \<leftarrow> as_str v; if verdict = ''not-applicable'' then Some verdict else None }"

definition deserialize_ignored_disposition :: "json \<Rightarrow> disposition" where
  "deserialize_ignored_disposition v = NonFinding"

definition outcome_disposition :: "outcome \<Rightarrow> disposition" where
  "outcome_disposition outcome =
     (case outcome of Diagnosis d \<Rightarrow> dg_disposition d | NotApplicable n \<Rightarrow> na_disposition n)"

definition with_disposition :: "disposition \<Rightarrow> outcome \<Rightarrow> outcome" where
  "with_disposition disposition outcome =
     (case outcome of
        Diagnosis d \<Rightarrow> Diagnosis (d\<lparr>dg_disposition := disposition\<rparr>)
      | NotApplicable n \<Rightarrow> NotApplicable (n\<lparr>na_disposition := disposition\<rparr>))"

section \<open>Printing\<close>

record texts =
  f64_display :: "f64 \<Rightarrow> string"
  f64_number :: "f64 \<Rightarrow> json"
  ser_json :: "json \<Rightarrow> string option"

definition print_human :: "texts \<Rightarrow> outcome \<Rightarrow> string list" where
  "print_human X outcome =
     (case outcome of
        Diagnosis d \<Rightarrow>
          [''detector_id: '' @ dg_detector_id d, ''rule_version: '' @ dg_rule_version d, ''verdict: '' @ dg_verdict d,
           ''confidence: '' @ f64_display X (dg_confidence d), ''confidence_basis: '' @ dg_confidence_basis d]
          @ map (\<lambda>item. ''evidence: '' @ item) (dg_evidence d)
          @ [''plain_language: '' @ dg_plain_language d]
          @ map (\<lambda>fix. ''suggested_fix: '' @ fix) (dg_suggested_fixes d)
          @ [''falsifier: '' @ dg_falsifier d]
          @ map (\<lambda>scope. ''supported_scope: '' @ scope) (dg_supported_scope d)
          @ (if dg_missing_evidence d = [] then [''missing_evidence: []'']
             else map (\<lambda>missing. ''missing_evidence: '' @ missing) (dg_missing_evidence d))
          @ [''nearest_alternative: '' @ dg_nearest_alternative d]
      | NotApplicable n \<Rightarrow>
          [''outcome: not-applicable'', ''verdict: not-applicable'', ''explanation: '' @ na_explanation n]
          @ map (\<lambda>item. ''evidence: '' @ item) (na_evidence n))"

text \<open>The members in declaration order, without the disposition, and without the host if there is none.\<close>

definition outcome_json :: "texts \<Rightarrow> outcome \<Rightarrow> json" where
  "outcome_json X outcome =
     (let strings = \<lambda>xs. JArray (map JString xs) in
      case outcome of
        Diagnosis d \<Rightarrow> JObject
          ([(''@timestamp'', JString (dg_timestamp d)), (''detector_id'', JString (dg_detector_id d)),
            (''rule_version'', JString (dg_rule_version d)), (''verdict'', JString (dg_verdict d)),
            (''confidence'', f64_number X (dg_confidence d)), (''confidence_basis'', JString (dg_confidence_basis d)),
            (''evidence'', strings (dg_evidence d)), (''plain_language'', JString (dg_plain_language d)),
            (''suggested_fixes'', strings (dg_suggested_fixes d)), (''falsifier'', JString (dg_falsifier d))]
           @ (case dg_host d of None \<Rightarrow> [] | Some h \<Rightarrow> [(''host'', JString h)])
           @ [(''supported_scope'', strings (dg_supported_scope d)), (''missing_evidence'', strings (dg_missing_evidence d)),
              (''nearest_alternative'', JString (dg_nearest_alternative d))])
      | NotApplicable n \<Rightarrow> JObject
          [(''outcome'', JString (na_outcome n)), (''verdict'', JString (na_verdict n)),
           (''explanation'', JString (na_explanation n)), (''evidence'', strings (na_evidence n))])"

definition json_output_line :: "texts \<Rightarrow> outcome \<Rightarrow> string option" where
  "json_output_line X outcome = map_option (\<lambda>line. line @ [CHR 0x0A]) (ser_json X (outcome_json X outcome))"

text \<open>The exit code, and what was written to standard output.\<close>

definition emit :: "texts \<Rightarrow> (string, outcome) result \<Rightarrow> bool \<Rightarrow> nat \<times> string" where
  "emit X result json =
     (case result of
        Inr outcome \<Rightarrow>
          (let code = (case outcome_disposition outcome of NonFinding \<Rightarrow> 0 | Finding \<Rightarrow> 1) in
           if json
           then (case json_output_line X outcome of None \<Rightarrow> (2, []) | Some line \<Rightarrow> (code, line))
           else (code, concat (map (\<lambda>l. l @ [CHR 0x0A]) (print_human X outcome))))
      | Inl error \<Rightarrow> (2, []))"

section \<open>Lemmas\<close>

definition fields_complete :: "diagnosis_fields \<Rightarrow> bool" where
  "fields_complete f \<longleftrightarrow>
     (\<exists>q. df_confidence f = Finite q \<and> 0 \<le> q \<and> q \<le> 1)
     \<and> df_evidence f \<noteq> [] \<and> df_plain_language f \<noteq> [] \<and> df_falsifier f \<noteq> [] \<and> df_confidence_basis f \<noteq> []
     \<and> df_supported_scope f \<noteq> [] \<and> df_nearest_alternative f \<noteq> []
     \<and> (df_disposition f = Finding \<longrightarrow> df_suggested_fixes f \<noteq> [])"

lemma in_unit_iff: "in_unit x \<longleftrightarrow> (\<exists>q. x = Finite q \<and> 0 \<le> q \<and> q \<le> 1)"
  by (cases x) (simp_all add: in_unit_def)

lemma build_Ok_iff: "(\<exists>d. build now contract f = Ok d) \<longleftrightarrow> fields_complete f"
  by (auto simp: build_def validate_def fields_complete_def Let_def in_unit_iff and_then_eq_Inr)

lemma build_fields:
  "build now contract f = Ok d \<Longrightarrow>
     dg_timestamp d = now \<and> dg_detector_id d = dc_detector_id contract \<and> dg_rule_version d = dc_rule_version contract
     \<and> dg_verdict d = df_verdict f \<and> dg_confidence d = df_confidence f \<and> dg_confidence_basis d = df_confidence_basis f
     \<and> dg_evidence d = df_evidence f \<and> dg_plain_language d = df_plain_language f
     \<and> dg_suggested_fixes d = df_suggested_fixes f \<and> dg_falsifier d = df_falsifier f \<and> dg_host d = df_host f
     \<and> dg_supported_scope d = df_supported_scope f \<and> dg_missing_evidence d = df_missing_evidence f
     \<and> dg_nearest_alternative d = df_nearest_alternative f \<and> dg_disposition d = df_disposition f"
  by (auto simp: build_def Let_def and_then_eq_Inr)

lemma with_disposition_laws [simp]:
  "outcome_disposition (with_disposition p r) = p" "with_disposition p (with_disposition q r) = with_disposition p r"
  "with_disposition (outcome_disposition r) r = r" "outcome_json X (with_disposition p r) = outcome_json X r"
  by (cases r; simp add: with_disposition_def outcome_disposition_def outcome_json_def Let_def)+

section \<open>Properties\<close>

text \<open>A diagnosis is built exactly from a complete set of fields: a confidence in the unit interval, evidence, an
  explanation, a basis, a falsifier, a scope and an alternative, and fixes for a finding; it then carries the
  fields unchanged under the identity of the contract.\<close>

theorem diagnosis_build_iff:
  "build now contract f = Ok d \<longleftrightarrow> fields_complete f
     \<and> d = \<lparr>dg_timestamp = now, dg_detector_id = dc_detector_id contract, dg_rule_version = dc_rule_version contract,
           dg_verdict = df_verdict f, dg_confidence = df_confidence f, dg_confidence_basis = df_confidence_basis f,
           dg_evidence = df_evidence f, dg_plain_language = df_plain_language f, dg_suggested_fixes = df_suggested_fixes f,
           dg_falsifier = df_falsifier f, dg_host = df_host f, dg_supported_scope = df_supported_scope f,
           dg_missing_evidence = df_missing_evidence f, dg_nearest_alternative = df_nearest_alternative f,
           dg_disposition = df_disposition f\<rparr>"
  by (auto simp: build_def validate_def fields_complete_def Let_def in_unit_iff and_then_eq_Inr)

text \<open>The exit code tells the outcome: 2 exactly when there is no outcome or it cannot be written, 1 exactly for a
  finding that was written, 0 otherwise; and the text written never depends on the disposition.\<close>

theorem emit_exit_code:
  "(fst (emit X result json) = 2 \<longleftrightarrow>
      (\<exists>e. result = Err e) \<or> json \<and> (\<exists>r. result = Ok r \<and> json_output_line X r = None))
   \<and> (fst (emit X result json) = 1 \<longleftrightarrow>
      (\<exists>r. result = Ok r \<and> outcome_disposition r = Finding \<and> (if json then json_output_line X r \<noteq> None else True)))
   \<and> fst (emit X result json) \<in> {0, 1, 2}
   \<and> snd (emit X (Ok (with_disposition p r')) json) = snd (emit X (Ok r') json)"
proof -
  have "print_human X (with_disposition p r') = print_human X r'"
    by (cases r') (simp_all add: print_human_def with_disposition_def)
  then have "snd (emit X (Ok (with_disposition p r')) json) = snd (emit X (Ok r') json)"
    by (auto simp: emit_def json_output_line_def Let_def split: option.splits)
  then show ?thesis
    by (cases result) (auto simp: emit_def Let_def split: option.splits disposition.splits if_splits)
qed

end
