(* ===== verification/Jcs.thy ===== *)
theory Jcs
  imports Json_Scan Complex_Main "HOL-Library.List_Lexorder" "HOL-Library.Multiset"
begin

text \<open>
  Model of the canonical JSON writer of \<open>src/src/detectors/contract/diagnosis_event.rs\<close> (RFC 8785).  The quoting of a
  string and the floating point value of a number text belong to serde_json and are parameters.  The lemmas
  show that the text of a value does not depend on the order of its members, which stand in the order of
  their UTF-16 code units, and that the rewriting of a floating point text keeps its value and has the shape
  the standard asks for.
\<close>

record jcs_libs =
  json_string :: "string \<Rightarrow> string"
  as_f64 :: "string \<Rightarrow> rat"

section \<open>Numbers\<close>

text \<open>\<open>str::parse::<i32>\<close>\<close>

definition parse_i32 :: "string \<Rightarrow> int option" where
  "parse_i32 s =
     (let (neg, ds) = (case s of [] \<Rightarrow> (False, [])
                       | c # cs \<Rightarrow> if c = CHR ''-'' then (True, cs) else if c = CHR ''+'' then (False, cs) else (False, s))
      in if ds = [] \<or> \<not> list_all is_digit ds then None
         else (let v = (if neg then - int (digits_value 10 0 ds) else int (digits_value 10 0 ds))
               in if - (2 ^ 31) \<le> v \<and> v < 2 ^ 31 then Some v else None))"

definition is_exp :: "char \<Rightarrow> bool" where
  "is_exp c \<longleftrightarrow> c = CHR ''e'' \<or> c = CHR ''E''"

text \<open>The value \<open>None\<close> is the panic of \<open>expect\<close> or of a slice out of range.\<close>

definition split_number :: "string \<Rightarrow> (string \<times> int) option" where
  "split_number raw =
     (if list_ex is_exp raw
      then do { e \<leftarrow> parse_i32 (tl (dropWhile (\<lambda>c. \<not> is_exp c) raw)); Some (takeWhile (\<lambda>c. \<not> is_exp c) raw, e) }
      else Some (raw, 0))"

definition decimal_index :: "string \<Rightarrow> nat" where
  "decimal_index plain = length (takeWhile (\<lambda>c. c \<noteq> CHR ''.'') plain)"

definition without_dot :: "string \<Rightarrow> string" where
  "without_dot plain = filter (\<lambda>c. c \<noteq> CHR ''.'') plain"

definition trim_end_char :: "char \<Rightarrow> string \<Rightarrow> string" where
  "trim_end_char c s = rev (dropWhile (\<lambda>x. x = c) (rev s))"

definition place_point :: "string \<Rightarrow> int \<Rightarrow> string" where
  "place_point digits decimal_at =
     (if decimal_at \<le> 0 then ''0.'' @ replicate (nat (- decimal_at)) CHR ''0'' @ digits
      else if length digits \<le> nat decimal_at then digits @ replicate (nat decimal_at - length digits) CHR ''0''
      else take (nat decimal_at) digits @ ''.'' @ drop (nat decimal_at) digits)"

definition expand_jcs_decimal :: "string \<Rightarrow> string option" where
  "expand_jcs_decimal raw =
     do { (mantissa, exponent) \<leftarrow> split_number raw;
          let negative = starts_with ''-'' mantissa;
          let plain = dropWhile (\<lambda>c. c = CHR ''-'') mantissa;
          let digits = without_dot plain;
          let decimal_at = int (if CHR ''.'' \<in> set plain then decimal_index plain else length digits) + exponent;
          let rendered = place_point digits decimal_at;
          let rendered = (if CHR ''.'' \<in> set rendered then trim_end_char CHR ''.'' (trim_end_char CHR ''0'' rendered) else rendered);
          Some (if negative then ''-'' @ rendered else rendered) }"

text \<open>\<open>Display\<close> of a signed integer.\<close>

definition show_int :: "int \<Rightarrow> string" where
  "show_int i = (if i < 0 then ''-'' @ show_nat (nat (- i)) else show_nat (nat i))"

definition jcs_scientific :: "string \<Rightarrow> string option" where
  "jcs_scientific raw =
     do { (mantissa, exponent) \<leftarrow> split_number raw;
          let negative = starts_with ''-'' mantissa;
          let plain = dropWhile (\<lambda>c. c = CHR ''-'') mantissa;
          let decimal_at = int (if CHR ''.'' \<in> set plain then decimal_index plain else length plain) + exponent;
          let digits = without_dot plain;
          let leading_zeroes = length (takeWhile (\<lambda>c. c = CHR ''0'') digits);
          let significant = drop leading_zeroes digits;
          let exponent = decimal_at - 1 - int leading_zeroes;
          significand \<leftarrow> (if length significant = 1 then Some significant
                          else if significant = [] then None
                          else Some (take 1 significant @ ''.'' @ drop 1 significant));
          Some ((if negative then ''-'' else []) @ significand @ ''e'' @ (if 0 \<le> exponent then ''+'' else []) @ show_int exponent) }"

definition jcs_number :: "jcs_libs \<Rightarrow> jnum \<Rightarrow> string option" where
  "jcs_number L v =
     (case v of
        PosInt n \<Rightarrow> Some (show_nat n)
      | NegInt i \<Rightarrow> Some (show_int i)
      | JFloat raw \<Rightarrow>
          (let number = as_f64 L raw in
           if number = 0 then Some ''0''
           else if 1 / 10 ^ 6 \<le> \<bar>number\<bar> \<and> \<bar>number\<bar> < 10 ^ 21 then expand_jcs_decimal raw
           else jcs_scientific raw))"

section \<open>Values\<close>

definition encode_utf16_char :: "nat \<Rightarrow> nat list" where
  "encode_utf16_char c =
     (if c < 0x10000 then [c] else [0xD800 + (c - 0x10000) div 0x400, 0xDC00 + (c - 0x10000) mod 0x400])"

definition encode_utf16 :: "string \<Rightarrow> nat list" where
  "encode_utf16 s = concat (map encode_utf16_char (chars s))"

fun sequence_opt :: "'a option list \<Rightarrow> 'a list option" where
  "sequence_opt [] = Some []"
| "sequence_opt (x # xs) = do { y \<leftarrow> x; ys \<leftarrow> sequence_opt xs; Some (y # ys) }"

lemma size_elem: "v \<in> set vs \<Longrightarrow> size v < Suc (size_list size vs)"
  using size_list_estimation' [of v vs "size v" size] by simp

lemma size_member: "(k, v) \<in> set m \<Longrightarrow> size v < Suc (size_list (size_prod (\<lambda>_. 0) size) m)"
  using size_list_estimation' [of "(k, v)" m "size v" "size_prod (\<lambda>_. 0) size"] by simp

function jcs_value :: "jcs_libs \<Rightarrow> json \<Rightarrow> string option" where
  "jcs_value L JNull = Some ''null''"
| "jcs_value L (JBool b) = Some (if b then ''true'' else ''false'')"
| "jcs_value L (JNumber n) = jcs_number L n"
| "jcs_value L (JString s) = Some (json_string L s)"
| "jcs_value L (JArray vs) =
     do { texts \<leftarrow> sequence_opt (map (\<lambda>v. jcs_value L v) vs); Some (''['' @ join_with '','' texts @ '']'') }"
| "jcs_value L (JObject m) =
     do { texts \<leftarrow> sequence_opt (map (\<lambda>(k, v). map_option (\<lambda>t. json_string L k @ '':'' @ t) (jcs_value L v))
                                  (sort_key (\<lambda>e. encode_utf16 (fst e)) m));
          Some (''{'' @ join_with '','' texts @ ''}'') }"
  by pat_completeness auto
termination
  by (relation "measure (\<lambda>(L, v). size v)") (auto simp: size_elem dest: size_member)

section \<open>Member order does not matter\<close>

lemma utf16_char_head:
  assumes "is_scalar c" "is_scalar d" "encode_utf16_char c @ x = encode_utf16_char d @ y"
  shows "c = d \<and> x = y"
proof -
  have hi: "(c - 0x10000) div 0x400 < 0x400" if "is_scalar c" for c
  proof -
    have "c - 0x10000 < 0x400 * 0x400" using that by (auto simp: is_scalar_def)
    then show ?thesis by (rule less_mult_imp_div_less)
  qed
  have rec: "c = 0x10000 + (c - 0x10000) div 0x400 * 0x400 + (c - 0x10000) mod 0x400" if "\<not> c < 0x10000" for c :: nat
    using that by simp
  consider "c < 0x10000" "d < 0x10000" | "\<not> c < 0x10000" "\<not> d < 0x10000" | "(c < 0x10000) \<noteq> (d < 0x10000)" by blast
  then show ?thesis
  proof cases
    case 2
    with assms(3) have "(c - 0x10000) div 0x400 = (d - 0x10000) div 0x400" "(c - 0x10000) mod 0x400 = (d - 0x10000) mod 0x400" "x = y"
      by (simp_all add: encode_utf16_char_def)
    with rec [OF 2(1)] rec [OF 2(2)] show ?thesis by metis
  next
    case 3
    with assms hi [of c] hi [of d] show ?thesis by (auto simp: encode_utf16_char_def is_scalar_def)
  qed (use assms(3) in \<open>simp add: encode_utf16_char_def\<close>)
qed

lemma utf16_inj_chars:
  "list_all is_scalar cs \<Longrightarrow> list_all is_scalar ds \<Longrightarrow>
   concat (map encode_utf16_char cs) = concat (map encode_utf16_char ds) \<Longrightarrow> cs = ds"
proof (induction cs arbitrary: ds)
  case Nil
  then show ?case by (cases ds) (auto simp: encode_utf16_char_def split: if_splits)
next
  case (Cons c cs)
  show ?case
  proof (cases ds)
    case Nil
    with Cons.prems show ?thesis by (auto simp: encode_utf16_char_def split: if_splits)
  next
    case ds: (Cons d ds')
    with Cons.prems utf16_char_head [of c d] have "c = d" "concat (map encode_utf16_char cs) = concat (map encode_utf16_char ds')" by auto
    with Cons.IH [of ds'] Cons.prems ds show ?thesis by simp
  qed
qed

lemma encode_utf16_inj: "utf8_valid s \<Longrightarrow> utf8_valid t \<Longrightarrow> encode_utf16 s = encode_utf16 t \<Longrightarrow> s = t"
  unfolding encode_utf16_def using utf16_inj_chars utf8_valid_chars by metis

text \<open>Two values that differ in the order of object members only.\<close>

inductive same_value :: "json \<Rightarrow> json \<Rightarrow> bool" where
  same_refl: "same_value v v"
| same_array: "list_all2 same_value vs ws \<Longrightarrow> same_value (JArray vs) (JArray ws)"
| same_object: "distinct (map fst m) \<Longrightarrow> list_all utf8_valid (map fst m) \<Longrightarrow>
    list_all2 (\<lambda>e e'. fst e = fst e' \<and> same_value (snd e) (snd e')) m m2 \<Longrightarrow> mset m2 = mset m' \<Longrightarrow>
    same_value (JObject m) (JObject m')"

lemma sort_members_perm:
  assumes "distinct (map fst m)" "list_all utf8_valid (map fst m)" "mset m = mset m'"
  shows "sort_key (\<lambda>e. encode_utf16 (fst e)) m = sort_key (\<lambda>e. encode_utf16 (fst e)) m'"
proof (rule sort_key_inj_key_eq)
  show "mset m = mset (sort_key (\<lambda>e. encode_utf16 (fst e)) m')" using assms(3) by simp
  show "inj_on (\<lambda>e. encode_utf16 (fst e)) (set m)"
  proof (rule inj_onI)
    fix e e' assume e: "e \<in> set m" "e' \<in> set m" "encode_utf16 (fst e) = encode_utf16 (fst e')"
    then have "fst e = fst e'" using assms(2) by (intro encode_utf16_inj) (auto simp: list_all_iff)
    with e assms(1) show "e = e'" by (simp add: distinct_map inj_on_def)
  qed
qed simp

lemma insort_key_related:
  "list_all2 R xs ys \<Longrightarrow> R x y \<Longrightarrow> (\<And>a b. R a b \<Longrightarrow> f a = g b) \<Longrightarrow> list_all2 R (insort_key f x xs) (insort_key g y ys)"
proof (induction rule: list_all2_induct)
  case (Cons a as b bs)
  from Cons.prems(2) [OF Cons.prems(1)] Cons.prems(2) [OF Cons.hyps(1)] Cons show ?case by auto
qed simp

lemma sort_key_related:
  "list_all2 R xs ys \<Longrightarrow> (\<And>a b. R a b \<Longrightarrow> f a = g b) \<Longrightarrow> list_all2 R (sort_key f xs) (sort_key g ys)"
  by (induction rule: list_all2_induct) (auto simp: insort_key_related)

lemma map_related: "list_all2 R xs ys \<Longrightarrow> (\<And>a b. R a b \<Longrightarrow> f a = g b) \<Longrightarrow> map f xs = map g ys"
  by (induction rule: list_all2_induct) auto

lemma jcs_same_value: "same_value v w \<Longrightarrow> jcs_value L v = jcs_value L w"
proof (induction rule: same_value.induct)
  case (same_array vs ws)
  have "map (\<lambda>v. jcs_value L v) vs = map (\<lambda>v. jcs_value L v) ws" by (rule map_related [OF same_array]) blast
  then show ?case by simp
next
  case (same_object m m2 m')
  let ?key = "\<lambda>e :: string \<times> json. encode_utf16 (fst e)"
  let ?text = "\<lambda>(k, v). map_option (\<lambda>t. json_string L k @ '':'' @ t) (jcs_value L v)"
  let ?R = "\<lambda>e e'. fst e = fst e' \<and> same_value (snd e) (snd e') \<and> jcs_value L (snd e) = jcs_value L (snd e')"
  have r: "list_all2 ?R m m2" using same_object.IH by (simp add: list_all2_mono)
  then have "map fst m = map fst m2" by (rule map_related) simp
  then have perm: "sort_key ?key m2 = sort_key ?key m'"
    using sort_members_perm [OF _ _ same_object.hyps(3)] same_object.hyps(1,2) by simp
  have "list_all2 ?R (sort_key ?key m) (sort_key ?key m2)" by (rule sort_key_related [OF r]) simp
  then have "map ?text (sort_key ?key m) = map ?text (sort_key ?key m2)" by (rule map_related) auto
  then show ?case unfolding jcs_value.simps perm by simp
qed simp

section \<open>Number texts keep their value\<close>

text \<open>A decimal text and its value: sign, digits before and after the point, exponent.\<close>

definition read_mantissa :: "string \<Rightarrow> (bool \<times> string \<times> string) option" where
  "read_mantissa s =
     (let neg = (s \<noteq> [] \<and> hd s = CHR ''-''); u = (if neg then tl s else s);
          (ip, fp) = (case split_once CHR ''.'' u of None \<Rightarrow> (u, []) | Some p \<Rightarrow> p)
      in if ip \<noteq> [] \<and> list_all is_digit (ip @ fp) then Some (neg, ip, fp) else None)"

definition decimal_value :: "bool \<Rightarrow> string \<Rightarrow> int \<Rightarrow> rat" where
  "decimal_value neg ds e = (if neg then - 1 else 1) * of_nat (digits_value 10 0 ds) * 10 powi e"

definition read_decimal :: "string \<Rightarrow> rat option" where
  "read_decimal s =
     (case split_once CHR ''e'' s of
        None \<Rightarrow> do { (neg, ip, fp) \<leftarrow> read_mantissa s; Some (decimal_value neg (ip @ fp) (- int (length fp))) }
      | Some (m, x) \<Rightarrow> do { e \<leftarrow> parse_i32 x; (neg, ip, fp) \<leftarrow> read_mantissa m;
                            Some (decimal_value neg (ip @ fp) (e - int (length fp))) })"

text \<open>The text with the given parts.\<close>

definition mantissa_text :: "bool \<Rightarrow> string \<Rightarrow> string \<Rightarrow> string" where
  "mantissa_text neg ip fp = (if neg then ''-'' else []) @ ip @ (if fp = [] then [] else ''.'' @ fp)"

lemma digit_not_special [simp]:
  "is_digit c \<Longrightarrow> c \<noteq> CHR ''.''" "is_digit c \<Longrightarrow> c \<noteq> CHR ''-''" "is_digit c \<Longrightarrow> c \<noteq> CHR ''e''" "is_digit c \<Longrightarrow> c \<noteq> CHR ''E''"
  "is_digit c \<Longrightarrow> c \<noteq> CHR ''+''"
  by (auto simp: is_digit_def)

lemma digits_no_special:
  "list_all is_digit ds \<Longrightarrow> CHR ''.'' \<notin> set ds \<and> CHR ''-'' \<notin> set ds \<and> CHR ''e'' \<notin> set ds \<and> CHR ''E'' \<notin> set ds \<and> CHR ''+'' \<notin> set ds"
  by (auto simp: list_all_iff is_digit_def)

lemma hd_digit: "list_all is_digit ds \<Longrightarrow> ds \<noteq> [] \<Longrightarrow> hd ds \<noteq> CHR ''-'' \<and> hd ds \<noteq> CHR ''+''"
  using digits_no_special [of ds] hd_in_set [of ds] by metis

lemma digits_value_append: "digits_value b acc (xs @ ys) = digits_value b (digits_value b acc xs) ys"
  by (induction xs arbitrary: acc) simp_all

lemma digit_value_zero [simp]: "digit_value 10 CHR ''0'' = Some 0"
  by (simp add: digit_value_def)

lemma digits_value_zeros: "digits_value 10 acc (replicate n CHR ''0'') = acc * 10 ^ n"
  by (induction n arbitrary: acc) simp_all

lemma digits_value_lead: "digits_value 10 0 (replicate n CHR ''0'' @ ds) = digits_value 10 0 ds"
  by (simp add: digits_value_append digits_value_zeros)

lemma decimal_value_zeros: "decimal_value neg (ds @ replicate n CHR ''0'') (e - int n) = decimal_value neg ds e"
  by (simp add: decimal_value_def digits_value_append digits_value_zeros power_int_diff)

lemma read_mantissa_text:
  assumes "ip \<noteq> []" "list_all is_digit (ip @ fp)"
  shows "read_mantissa (mantissa_text neg ip fp) = Some (neg, ip, fp)"
proof -
  let ?u = "ip @ (if fp = [] then [] else ''.'' @ fp)"
  have "CHR ''.'' \<notin> set ip" using assms(2) digits_no_special [of ip] by simp
  then have sp: "(case split_once CHR ''.'' ?u of None \<Rightarrow> (?u, []) | Some p \<Rightarrow> p) = (ip, fp)"
    using split_once_append [of "CHR ''.''" ip fp] split_once_None [of "CHR ''.''" ip] by auto
  have "hd ip \<noteq> CHR ''-''" using hd_digit [of ip] assms by simp
  then have neg: "(mantissa_text neg ip fp \<noteq> [] \<and> hd (mantissa_text neg ip fp) = CHR ''-'') = neg"
    and u: "(if neg then tl (mantissa_text neg ip fp) else mantissa_text neg ip fp) = ?u"
    using assms(1) by (auto simp: mantissa_text_def)
  show ?thesis unfolding read_mantissa_def Let_def neg u sp using assms by simp
qed

lemma read_mantissa_Some:
  assumes "read_mantissa s = Some (neg, ip, fp)"
  shows "ip \<noteq> []" "list_all is_digit (ip @ fp)" "s = (if neg then ''-'' else []) @ ip @ (if CHR ''.'' \<in> set s then ''.'' @ fp else [])"
    "CHR ''.'' \<notin> set s \<longrightarrow> fp = []"
proof -
  let ?u = "if neg then tl s else s"
  from assms have neg: "(s \<noteq> [] \<and> hd s = CHR ''-'') = neg"
    and sp: "(case split_once CHR ''.'' ?u of None \<Rightarrow> (?u, []) | Some p \<Rightarrow> p) = (ip, fp)"
    and ok: "ip \<noteq> []" "list_all is_digit (ip @ fp)"
    by (auto simp: read_mantissa_def Let_def split: prod.splits if_splits)
  show "ip \<noteq> []" "list_all is_digit (ip @ fp)" using ok by simp_all
  have s: "s = (if neg then ''-'' else []) @ ?u" using neg by (cases s) auto
  have dot: "CHR ''.'' \<in> set s \<longleftrightarrow> CHR ''.'' \<in> set ?u" using neg by (cases s) auto
  have u: "?u = ip @ (if CHR ''.'' \<in> set ?u then ''.'' @ fp else []) \<and> (CHR ''.'' \<notin> set ?u \<longrightarrow> fp = [])"
  proof (cases "split_once CHR ''.'' ?u")
    case None
    then have "?u = ip" "fp = []" using sp by simp_all
    then show ?thesis using None by (simp add: split_once_None)
  next
    case (Some p)
    then show ?thesis using sp split_once_Some [of "CHR ''.''" ?u ip fp] by auto
  qed
  from u s show "s = (if neg then ''-'' else []) @ ip @ (if CHR ''.'' \<in> set s then ''.'' @ fp else [])" unfolding dot by metis
  from u show "CHR ''.'' \<notin> set s \<longrightarrow> fp = []" unfolding dot by simp
qed

lemma mantissa_no_exp:
  assumes "read_mantissa m = Some (neg, ip, fp)"
  shows "CHR ''e'' \<notin> set m \<and> CHR ''E'' \<notin> set m"
proof -
  note m = read_mantissa_Some [OF assms]
  have d: "CHR ''e'' \<notin> set (ip @ fp)" "CHR ''E'' \<notin> set (ip @ fp)" using digits_no_special [OF m(2)] by simp_all
  have "set m \<subseteq> insert CHR ''-'' (insert CHR ''.'' (set (ip @ fp)))" by (subst m(3)) auto
  with d show ?thesis by auto
qed

lemma takeWhile_before: "(\<And>x. x \<in> set a \<Longrightarrow> P x) \<Longrightarrow> \<not> P c \<Longrightarrow> takeWhile P (a @ c # b) = a \<and> dropWhile P (a @ c # b) = c # b"
  by (simp add: takeWhile_append2 dropWhile_append2)

lemma split_number_read:
  assumes "read_decimal raw = Some v"
  obtains m e neg ip fp where "split_number raw = Some (m, e)" "read_mantissa m = Some (neg, ip, fp)"
    "v = decimal_value neg (ip @ fp) (e - int (length fp))"
proof (cases "split_once CHR ''e'' raw")
  case None
  with assms obtain neg ip fp where r: "read_mantissa raw = Some (neg, ip, fp)" "v = decimal_value neg (ip @ fp) (- int (length fp))"
    by (auto simp: read_decimal_def bind_eq_Some_conv)
  have "\<not> list_ex is_exp raw" using mantissa_no_exp [OF r(1)] by (auto simp: list_ex_iff is_exp_def)
  with r that [of raw 0 neg ip fp] show ?thesis by (simp add: split_number_def)
next
  case (Some p)
  obtain m x where p: "p = (m, x)" by (cases p)
  with assms Some obtain e neg ip fp where r: "parse_i32 x = Some e" "read_mantissa m = Some (neg, ip, fp)"
    "v = decimal_value neg (ip @ fp) (e - int (length fp))" by (auto simp: read_decimal_def bind_eq_Some_conv)
  have raw: "raw = m @ CHR ''e'' # x" using split_once_Some Some p by metis
  have "takeWhile (\<lambda>c. \<not> is_exp c) raw = m \<and> dropWhile (\<lambda>c. \<not> is_exp c) raw = CHR ''e'' # x"
    unfolding raw using mantissa_no_exp [OF r(2)] by (intro takeWhile_before) (auto simp: is_exp_def)
  moreover have "list_ex is_exp raw" by (simp add: raw is_exp_def)
  ultimately show ?thesis using r that by (simp add: split_number_def)
qed

lemma without_dot_id: "CHR ''.'' \<notin> set s \<Longrightarrow> without_dot s = s"
  unfolding without_dot_def filter_id_conv by metis

lemma mantissa_parts:
  assumes "read_mantissa m = Some (neg, ip, fp)"
  defines "plain \<equiv> dropWhile (\<lambda>c. c = CHR ''-'') m"
  shows "starts_with ''-'' m = neg" "without_dot plain = ip @ fp"
    "(if CHR ''.'' \<in> set plain then decimal_index plain else length plain) = length ip"
proof -
  note m = read_mantissa_Some [OF assms(1)]
  have d: "CHR ''.'' \<notin> set ip" "CHR ''.'' \<notin> set fp" "hd ip \<noteq> CHR ''-''"
    using digits_no_special [of ip] digits_no_special [of fp] hd_digit [of ip] m(1,2) by simp_all
  let ?t = "ip @ (if CHR ''.'' \<in> set m then ''.'' @ fp else [])"
  have plain: "plain = ?t" unfolding plain_def by (subst m(3)) (use m(1) d(3) in \<open>cases ip; simp\<close>)
  show "starts_with ''-'' m = neg"
    by (subst m(3)) (use m(1) d(3) in \<open>cases ip; simp add: starts_with_def\<close>)
  have f: "filter (\<lambda>c. c \<noteq> CHR ''.'') ip = ip" "filter (\<lambda>c. c \<noteq> CHR ''.'') fp = fp" using d by (auto simp: filter_id_conv)
  show "without_dot plain = ip @ fp" unfolding plain without_dot_def using f m(4) by auto
  have "decimal_index (ip @ CHR ''.'' # fp) = length ip"
    unfolding decimal_index_def using d(1) takeWhile_before [of ip "\<lambda>c. c \<noteq> CHR ''.''" "CHR ''.''" fp] by (metis (mono_tags, lifting))
  then show "(if CHR ''.'' \<in> set plain then decimal_index plain else length plain) = length ip"
    unfolding plain using d by (cases "CHR ''.'' \<in> set m") simp_all
qed

lemma place_point_text:
  assumes "ds \<noteq> []" "list_all is_digit ds"
  obtains ip fp where "place_point ds p = mantissa_text False ip fp" "ip \<noteq> []" "list_all is_digit (ip @ fp)"
    "decimal_value neg (ip @ fp) (- int (length fp)) = decimal_value neg ds (p - int (length ds))"
proof -
  have z: "list_all is_digit (replicate n CHR ''0'')" for n by (simp add: list_all_iff is_digit_def)
  consider "p \<le> 0" | "0 < p" "length ds \<le> nat p" | "0 < p" "nat p < length ds" by linarith
  then show ?thesis
  proof cases
    case 1
    let ?fp = "replicate (nat (- p)) CHR ''0'' @ ds"
    have "decimal_value neg (''0'' @ ?fp) (- int (length ?fp)) = decimal_value neg ds (p - int (length ds))"
      using digits_value_lead [of "Suc (nat (- p))" ds] 1 by (simp add: decimal_value_def)
    with 1 assms z show ?thesis by (intro that [of "''0''" ?fp]) (simp_all add: place_point_def mantissa_text_def is_digit_def)
  next
    case 2
    let ?n = "nat p - length ds"
    have "decimal_value neg (ds @ replicate ?n CHR ''0'') 0 = decimal_value neg ds (p - int (length ds))"
      using decimal_value_zeros [of neg ds ?n "p - int (length ds)"] 2 by simp
    with 2 assms z show ?thesis
      by (intro that [of "ds @ replicate ?n CHR ''0''" "[]"]) (simp_all add: place_point_def mantissa_text_def)
  next
    case 3
    have "int (length (drop (nat p) ds)) = int (length ds) - p" using 3 by simp
    with 3 assms show ?thesis
      by (intro that [of "take (nat p) ds" "drop (nat p) ds"])
        (auto simp: place_point_def mantissa_text_def list_all_iff dest: in_set_takeD in_set_dropD)
  qed
qed

lemma trim_end_char_append: "\<exists>n. s = trim_end_char c s @ replicate n c"
proof -
  have "rev s = takeWhile (\<lambda>x. x = c) (rev s) @ dropWhile (\<lambda>x. x = c) (rev s)" by simp
  moreover have "takeWhile (\<lambda>x. x = c) (rev s) = replicate (length (takeWhile (\<lambda>x. x = c) (rev s))) c"
    by (rule replicate_length_same [symmetric]) (auto dest: set_takeWhileD)
  ultimately have "s = rev (dropWhile (\<lambda>x. x = c) (rev s)) @ replicate (length (takeWhile (\<lambda>x. x = c) (rev s))) c"
    by (metis rev_append rev_replicate rev_rev_ident)
  then show ?thesis unfolding trim_end_char_def by blast
qed

lemma trim_end_char_id: "s = [] \<or> last s \<noteq> c \<Longrightarrow> trim_end_char c s = s"
  by (cases s rule: rev_cases) (simp_all add: trim_end_char_def)

lemma trim_end_char_last: "trim_end_char c s = [] \<or> last (trim_end_char c s) \<noteq> c"
  using hd_dropWhile [of "\<lambda>x. x = c" "rev s"] by (auto simp: trim_end_char_def last_rev)

lemma trim_end_char_replicate: "trim_end_char c (a @ replicate n c) = trim_end_char c a"
proof -
  have "dropWhile (\<lambda>x. x = c) (replicate n c @ r) = dropWhile (\<lambda>x. x = c) r" for r by (induction n) simp_all
  then show ?thesis by (simp add: trim_end_char_def)
qed

lemma trim_fraction:
  assumes "ip \<noteq> []" "list_all is_digit (ip @ fp)" "fp \<noteq> []"
  shows "trim_end_char CHR ''.'' (trim_end_char CHR ''0'' (mantissa_text False ip fp))
      = mantissa_text False ip (trim_end_char CHR ''0'' fp)
    \<and> decimal_value neg (ip @ trim_end_char CHR ''0'' fp) (- int (length (trim_end_char CHR ''0'' fp)))
      = decimal_value neg (ip @ fp) (- int (length fp)) \<and> list_all is_digit (ip @ trim_end_char CHR ''0'' fp)"
proof -
  let ?t = "trim_end_char CHR ''0'' fp"
  obtain n where fp: "fp = ?t @ replicate n CHR ''0''" using trim_end_char_append by blast
  have whole: "mantissa_text False ip fp = (ip @ ''.'' @ ?t) @ replicate n CHR ''0''"
    using assms(3) fp by (simp add: mantissa_text_def)
  have digits: "list_all is_digit (ip @ ?t)" using assms(2) fp by (metis list_all_append)
  have last_digit: "last ds \<noteq> CHR ''.''" if "ds \<noteq> []" "list_all is_digit ds" for ds
    using last_in_set [OF that(1)] that(2) by (metis digit_not_special(1) list_all_iff)
  have "last ip \<noteq> CHR ''.''" using last_digit [of ip] assms(1,2) by simp
  moreover have "?t \<noteq> [] \<Longrightarrow> last ?t \<noteq> CHR ''.'' \<and> last ?t \<noteq> CHR ''0''"
    using digits last_digit [of ?t] trim_end_char_last [of "CHR ''0''" fp] by auto
  ultimately have "trim_end_char CHR ''.'' (trim_end_char CHR ''0'' (ip @ ''.'' @ ?t)) = mantissa_text False ip ?t"
    using assms(1) trim_end_char_replicate [of "CHR ''.''" ip 1]
    by (cases "?t = []") (simp_all add: trim_end_char_id mantissa_text_def)
  moreover have "decimal_value neg (ip @ fp) (- int (length fp)) = decimal_value neg (ip @ ?t) (- int (length ?t))"
    using decimal_value_zeros [of neg "ip @ ?t" n "- int (length ?t)"] fp
    by (metis add_uminus_conv_diff append.assoc length_append length_replicate minus_add_distrib of_nat_add)
  ultimately show ?thesis using digits unfolding whole trim_end_char_replicate by simp
qed

lemma read_plain:
  assumes "ip \<noteq> []" "list_all is_digit (ip @ fp)"
  shows "read_decimal (mantissa_text neg ip fp) = Some (decimal_value neg (ip @ fp) (- int (length fp)))"
proof -
  note r = read_mantissa_text [OF assms, of neg]
  have "split_once CHR ''e'' (mantissa_text neg ip fp) = None" using mantissa_no_exp [OF r] by (simp add: split_once_None)
  with r show ?thesis by (simp add: read_decimal_def)
qed

lemma expand_jcs_decimal_value:
  assumes "read_decimal raw = Some v"
  shows "\<exists>neg ip fp. expand_jcs_decimal raw = Some (mantissa_text neg ip fp) \<and> ip \<noteq> [] \<and> list_all is_digit (ip @ fp)
    \<and> (fp = [] \<or> last fp \<noteq> CHR ''0'') \<and> read_decimal (mantissa_text neg ip fp) = Some v"
proof -
  obtain m e neg ip fp where r: "split_number raw = Some (m, e)" "read_mantissa m = Some (neg, ip, fp)"
    "v = decimal_value neg (ip @ fp) (e - int (length fp))" using split_number_read [OF assms] by blast
  let ?ds = "ip @ fp" and ?p = "int (length ip) + e"
  note m = read_mantissa_Some [OF r(2)] and parts = mantissa_parts [OF r(2)]
  have v: "v = decimal_value neg ?ds (?p - int (length ?ds))" using r(3) by simp
  obtain ip' fp' where pp: "place_point ?ds ?p = mantissa_text False ip' fp'" "ip' \<noteq> []" "list_all is_digit (ip' @ fp')"
    "decimal_value neg (ip' @ fp') (- int (length fp')) = v"
    using place_point_text [of ?ds ?p neg] m(1,2) unfolding v by blast
  define fq where "fq = (if fp' = [] then [] else trim_end_char CHR ''0'' fp')"
  let ?dot = "\<lambda>t. if CHR ''.'' \<in> set t then trim_end_char CHR ''.'' (trim_end_char CHR ''0'' t) else t"
  have nd: "CHR ''.'' \<notin> set ip'" using pp(3) digits_no_special [of ip'] by simp
  have dot: "?dot (mantissa_text False ip' fp') = mantissa_text False ip' fq"
    using trim_fraction [OF pp(2,3)] nd by (auto simp: fq_def mantissa_text_def)
  have q: "list_all is_digit (ip' @ fq)" "decimal_value neg (ip' @ fq) (- int (length fq)) = v" "fq = [] \<or> last fq \<noteq> CHR ''0''"
    using trim_fraction [OF pp(2,3)] pp(3,4) trim_end_char_last [of "CHR ''0''" fp'] by (auto simp: fq_def)
  have "mantissa_text neg ip' fq = (if neg then ''-'' @ mantissa_text False ip' fq else mantissa_text False ip' fq)"
    by (simp add: mantissa_text_def)
  moreover have "(if CHR ''.'' \<in> set (dropWhile (\<lambda>c. c = CHR ''-'') m) then decimal_index (dropWhile (\<lambda>c. c = CHR ''-'') m)
      else length (without_dot (dropWhile (\<lambda>c. c = CHR ''-'') m))) = length ip"
    using parts(3) by (cases "CHR ''.'' \<in> set (dropWhile (\<lambda>c. c = CHR ''-'') m)") (simp_all add: without_dot_id)
  ultimately have "expand_jcs_decimal raw = Some (mantissa_text neg ip' fq)"
    unfolding expand_jcs_decimal_def Let_def r(1) using parts(1,2) pp(1) dot
    by (cases "CHR ''.'' \<in> set (mantissa_text False ip' fp')") simp_all
  with q pp(2) read_plain [OF pp(2) q(1), of neg] show ?thesis by auto
qed

lemma parse_i32_show:
  assumes "- (2 ^ 31) \<le> i" "i < 2 ^ 31"
  shows "parse_i32 ((if 0 \<le> i then ''+'' else []) @ show_int i) = Some i"
proof -
  have d: "list_all is_digit (show_nat n)" for n using show_nat_is_digit by (auto simp: list_all_iff)
  have v: "digits_value 10 0 (show_nat n) = n" for n by (simp add: show_nat_def digits_value_show)
  show ?thesis using assms d v by (auto simp: parse_i32_def show_int_def)
qed

lemma jcs_scientific_value:
  assumes "read_decimal raw = Some v" "v \<noteq> 0" "\<And>m e. split_number raw = Some (m, e) \<Longrightarrow> \<bar>e\<bar> + int (length m) < 2 ^ 31"
  shows "\<exists>neg d fp x. jcs_scientific raw = Some (mantissa_text neg [d] fp @ ''e'' @ (if 0 \<le> x then ''+'' else []) @ show_int x)
    \<and> d \<noteq> CHR ''0'' \<and> list_all is_digit (d # fp)
    \<and> read_decimal (mantissa_text neg [d] fp @ ''e'' @ (if 0 \<le> x then ''+'' else []) @ show_int x) = Some v"
proof -
  obtain m e neg ip fp where r: "split_number raw = Some (m, e)" "read_mantissa m = Some (neg, ip, fp)"
    "v = decimal_value neg (ip @ fp) (e - int (length fp))" using split_number_read [OF assms(1)] by blast
  note m = read_mantissa_Some [OF r(2)] and parts = mantissa_parts [OF r(2)]
  let ?ds = "ip @ fp"
  define z where "z = length (takeWhile (\<lambda>c. c = CHR ''0'') ?ds)"
  define sig where "sig = drop z ?ds"
  have ds: "?ds = replicate z CHR ''0'' @ sig"
  proof -
    have "takeWhile (\<lambda>c. c = CHR ''0'') ?ds = replicate z CHR ''0''"
      unfolding z_def by (rule replicate_length_same [symmetric]) (auto dest: set_takeWhileD)
    then show ?thesis unfolding sig_def z_def by (metis append_take_drop_id takeWhile_eq_take)
  qed
  have val: "digits_value 10 0 ?ds = digits_value 10 0 sig" unfolding ds by (rule digits_value_lead)
  with assms(2) r(3) have "sig \<noteq> []" by (auto simp: decimal_value_def)
  then obtain d rest where sig: "sig = d # rest" by (cases sig) auto
  have d0: "d \<noteq> CHR ''0''"
  proof -
    have "dropWhile (\<lambda>c. c = CHR ''0'') ?ds = d # rest" using sig unfolding sig_def z_def by (simp add: dropWhile_eq_drop)
    then show ?thesis using hd_dropWhile [of "\<lambda>c. c = CHR ''0''" ?ds] by simp
  qed
  have dig: "list_all is_digit (d # rest)" using m(2) unfolding ds sig by simp
  define x where "x = int (length ip) + e - 1 - int z"
  have len: "length ?ds = z + Suc (length rest)" unfolding ds sig by simp
  have v: "v = decimal_value neg ([d] @ rest) (x - int (length rest))"
  proof -
    have "e - int (length fp) = x - int (length rest)" using len unfolding x_def by simp
    with r(3) val sig show ?thesis unfolding decimal_value_def by simp
  qed
  have "length ?ds \<le> length m"
    using arg_cong [OF m(3), of length] m(4) by (auto split: if_splits)
  then have x: "- (2 ^ 31) \<le> x" "x < 2 ^ 31" using assms(3) [OF r(1)] len unfolding x_def by simp_all
  let ?t = "mantissa_text neg [d] rest @ ''e'' @ (if 0 \<le> x then ''+'' else []) @ show_int x"
  have run: "jcs_scientific raw = Some ?t"
    unfolding jcs_scientific_def Let_def r(1) Option.bind.bind_lunit prod.case parts z_def [symmetric] sig_def [symmetric]
      x_def [symmetric] sig
    by (cases rest) (simp_all add: mantissa_text_def)
  have rm: "read_mantissa (mantissa_text neg [d] rest) = Some (neg, [d], rest)"
    by (rule read_mantissa_text) (use dig in simp_all)
  have "split_once CHR ''e'' ?t = Some (mantissa_text neg [d] rest, (if 0 \<le> x then ''+'' else []) @ show_int x)"
    using split_once_append [of "CHR ''e''" "mantissa_text neg [d] rest"] mantissa_no_exp [OF rm] by simp
  then have "read_decimal ?t = Some v" using parse_i32_show [OF x] rm v by (simp add: read_decimal_def)
  with run d0 dig show ?thesis by blast
qed

section \<open>Properties\<close>

text \<open>The canonical text of a value does not depend on the order in which objects, at any depth, hold their
  members: objects with the same members and valid UTF-8 names give the same bytes.\<close>

theorem jcs_value_canonical:
  assumes "same_value v w"
  shows "jcs_value L v = jcs_value L w"
  by (rule jcs_same_value [OF assms])

definition sample_jcs :: jcs_libs where
  "sample_jcs = \<lparr>json_string = (\<lambda>s. [CHR 0x22] @ s @ [CHR 0x22]), as_f64 = (\<lambda>_. 1 / 2)\<rparr>"

theorem jcs_value_canonical_witness:
  "jcs_value sample_jcs (JArray [JObject [(''b'', JNull), (''a'', JBool True)]])
   = jcs_value sample_jcs (JArray [JObject [(''a'', JBool True), (''b'', JNull)]])"
proof -
  have "same_value (JObject [(''b'', JNull), (''a'', JBool True)]) (JObject [(''a'', JBool True), (''b'', JNull)])"
    by (rule same_object [of _ "[(''b'', JNull), (''a'', JBool True)]"]) (simp_all add: ascii_valid same_refl)
  then have "same_value (JArray [JObject [(''b'', JNull), (''a'', JBool True)]]) (JArray [JObject [(''a'', JBool True), (''b'', JNull)]])"
    by (intro same_array) simp
  then show ?thesis by (rule jcs_value_canonical)
qed

text \<open>The rewriting of a floating point text keeps its value.  For a text with a value other than zero and an
  exponent in range, the result exists and reads back as the same number; between \<open>1e-6\<close> and \<open>1e21\<close> it is a plain
  decimal without a trailing zero after the point, elsewhere one digit other than zero, a fraction and a signed exponent.\<close>

theorem jcs_number_value:
  assumes "read_decimal raw = Some v" "v \<noteq> 0" "as_f64 L raw \<noteq> 0"
    "\<forall>m e. split_number raw = Some (m, e) \<longrightarrow> \<bar>e\<bar> + int (length m) < 2 ^ 31"
  shows "\<exists>t neg ip fp. jcs_number L (JFloat raw) = Some t \<and> read_decimal t = Some v \<and> list_all is_digit (ip @ fp)
    \<and> (if 1 / 10 ^ 6 \<le> \<bar>as_f64 L raw\<bar> \<and> \<bar>as_f64 L raw\<bar> < 10 ^ 21
       then t = mantissa_text neg ip fp \<and> ip \<noteq> [] \<and> (fp = [] \<or> last fp \<noteq> CHR ''0'')
       else \<exists>d x. ip = [d] \<and> d \<noteq> CHR ''0''
         \<and> t = mantissa_text neg ip fp @ ''e'' @ (if 0 \<le> x then ''+'' else []) @ show_int x)"
proof (cases "1 / 10 ^ 6 \<le> \<bar>as_f64 L raw\<bar> \<and> \<bar>as_f64 L raw\<bar> < 10 ^ 21")
  case True
  then have "jcs_number L (JFloat raw) = expand_jcs_decimal raw" using assms(3) by (simp add: jcs_number_def Let_def)
  with True expand_jcs_decimal_value [OF assms(1)] show ?thesis by auto
next
  case False
  then have j: "jcs_number L (JFloat raw) = jcs_scientific raw" using assms(3) by (auto simp: jcs_number_def Let_def)
  obtain neg d fp x where "jcs_scientific raw = Some (mantissa_text neg [d] fp @ ''e'' @ (if 0 \<le> x then ''+'' else []) @ show_int x)"
    "d \<noteq> CHR ''0''" "list_all is_digit (d # fp)"
    "read_decimal (mantissa_text neg [d] fp @ ''e'' @ (if 0 \<le> x then ''+'' else []) @ show_int x) = Some v"
    using jcs_scientific_value [OF assms(1,2)] assms(4) by blast
  with j False show ?thesis
    by (intro exI [of _ "mantissa_text neg [d] fp @ ''e'' @ (if 0 \<le> x then ''+'' else []) @ show_int x"]
        exI [of _ neg] exI [of _ "[d]"] exI [of _ fp]) auto
qed

theorem jcs_number_value_witness:
  "\<exists>t. jcs_number sample_jcs (JFloat ''5e-1'') = Some t \<and> read_decimal t = Some (1 / 2)"
proof -
  have r: "read_decimal ''5e-1'' = Some (1 / 2)"
    by (simp add: read_decimal_def read_mantissa_def parse_i32_def is_digit_def digit_value_def decimal_value_def Let_def
        power_int_minus)
  have s: "\<forall>m e. split_number ''5e-1'' = Some (m, e) \<longrightarrow> \<bar>e\<bar> + int (length m) < 2 ^ 31"
    by (simp add: split_number_def is_exp_def parse_i32_def is_digit_def digit_value_def Let_def)
  have "(1 / 2 :: rat) \<noteq> 0" "as_f64 sample_jcs ''5e-1'' \<noteq> 0" by (simp_all add: sample_jcs_def)
  from jcs_number_value [OF r this s] show ?thesis by blast
qed

end
