(* ===== verification/Diagnosis_Event.thy ===== *)
theory Diagnosis_Event
  imports Contract Jcs
begin

text \<open>
  Model of \<open>src/src/detectors/contract/diagnosis_event.rs\<close>: the validation of a detector outcome and its translation into
  the versioned event with its canonical bytes.  The UUID and timestamp parsers, the Unicode lower case table and
  the text of a floating point number are parameters.  The lemmas give the exact condition under which an
  outcome becomes an event and which event it becomes, and show which errors a diagnosis that passed
  \<open>Diagnosis::build\<close> can still meet.
\<close>

section \<open>Data\<close>

definition event_schema_version :: nat where "event_schema_version = 1"
definition max_array_elements :: nat where "max_array_elements = 50"
definition max_array_element_chars :: nat where "max_array_element_chars = 4096"
definition max_display_chars :: nat where "max_display_chars = 8192"
definition max_keyword_chars :: nat where "max_keyword_chars = 1024"
definition max_diagnosis_event_bytes :: nat where "max_diagnosis_event_bytes = 1048576"

datatype input_mode = Live | Offline | Fixture

record event_context =
  ec_event_id :: string
  ec_enqueue_timestamp :: string
  ec_local_host_name :: string
  ec_contract :: detector_contract
  ec_input_mode :: input_mode

datatype validation_error =
    EmptyEvidence
  | EmptyPlainLanguage
  | EmptyRequiredField string
  | EmptySuggestedFixes
  | MissingDetectorContractIdentity
  | ConfidenceOutOfRange
  | InvalidTimestamp string
  | InvalidEventId
  | LimitExceeded string nat
  | DetectorContractMismatch string string string
  | EventBytesLimitExceeded nat nat
  | EventPanic

record diagnosis_payload =
  dp_schema_version :: nat
  dp_outcome :: string
  dp_detector_id :: string
  dp_rule_version :: string
  dp_input_mode :: input_mode
  dp_disposition :: string
  dp_evidence :: "string list"
  dp_evidence_display :: string
  dp_plain_language :: string
  dp_verdict :: "string option"
  dp_confidence :: "f64 option"
  dp_confidence_basis :: "string option"
  dp_suggested_fixes :: "string list option"
  dp_suggested_fixes_display :: "string option"
  dp_falsifier :: "string option"
  dp_supported_scope :: "string list option"
  dp_missing_evidence :: "string list option"
  dp_nearest_alternative :: "string option"

record diagnosis_event =
  de_timestamp :: string
  de_event_id :: string
  de_host_name :: string
  de_diagnosis :: diagnosis_payload

record validated_event =
  ve_event :: diagnosis_event
  ve_canonical_bytes :: bytes

record event_libs =
  el_jcs :: jcs_libs
  uuid_version :: "string \<Rightarrow> nat option"
  rfc3339_ok :: "string \<Rightarrow> bool"
  to_lowercase :: "string \<Rightarrow> string"
  f64_text :: "rat \<Rightarrow> string"

section \<open>Field checks\<close>

definition validate_non_empty :: "string \<Rightarrow> string \<Rightarrow> (validation_error, unit) result" where
  "validate_non_empty field value = (if value = [] then Err (EmptyRequiredField field) else Ok ())"

definition validate_keyword :: "string \<Rightarrow> string \<Rightarrow> (validation_error, unit) result" where
  "validate_keyword field value =
     (if max_keyword_chars < length (chars value) then Err (LimitExceeded field max_keyword_chars) else Ok ())"

definition validate_display :: "string \<Rightarrow> string \<Rightarrow> (validation_error, unit) result" where
  "validate_display field value =
     (if max_display_chars < length (chars value) then Err (LimitExceeded field max_display_chars) else Ok ())"

definition validate_array :: "string \<Rightarrow> string list \<Rightarrow> (validation_error, unit) result" where
  "validate_array field values =
     (if max_array_elements < length values then Err (LimitExceeded field max_array_elements)
      else if list_ex (\<lambda>value. max_array_element_chars < length (chars value)) values
      then Err (LimitExceeded field max_array_element_chars)
      else Ok ())"

definition validate_arrays ::
    "string list \<Rightarrow> string list \<Rightarrow> string list \<Rightarrow> string list \<Rightarrow> (validation_error, unit) result" where
  "validate_arrays evidence suggested_fixes supported_scope missing_evidence =
     and_then (validate_array ''evidence'' evidence) (\<lambda>_.
     and_then (validate_array ''suggested_fixes'' suggested_fixes) (\<lambda>_.
     and_then (validate_array ''supported_scope'' supported_scope) (\<lambda>_.
     validate_array ''missing_evidence'' missing_evidence)))"

definition validate_timestamp :: "event_libs \<Rightarrow> string \<Rightarrow> string \<Rightarrow> (validation_error, unit) result" where
  "validate_timestamp E field value = (if rfc3339_ok E value then Ok () else Err (InvalidTimestamp field))"

definition validate_context :: "event_libs \<Rightarrow> event_context \<Rightarrow> (validation_error, unit) result" where
  "validate_context E ctx =
     (if dc_detector_id (ec_contract ctx) = [] \<or> dc_rule_version (ec_contract ctx) = []
      then Err MissingDetectorContractIdentity
      else
        and_then (validate_non_empty ''event_id'' (ec_event_id ctx)) (\<lambda>_.
        and_then (validate_keyword ''event_id'' (ec_event_id ctx)) (\<lambda>_.
        and_then (ok_or InvalidEventId (uuid_version E (ec_event_id ctx))) (\<lambda>version.
        if version \<noteq> 7 then Err InvalidEventId
        else
          and_then (validate_non_empty ''host_name'' (ec_local_host_name ctx)) (\<lambda>_.
          and_then (validate_keyword ''host_name'' (ec_local_host_name ctx)) (\<lambda>_.
          and_then (validate_keyword ''detector_id'' (dc_detector_id (ec_contract ctx))) (\<lambda>_.
          and_then (validate_keyword ''rule_version'' (dc_rule_version (ec_contract ctx))) (\<lambda>_.
          validate_timestamp E ''enqueue_timestamp'' (ec_enqueue_timestamp ctx)))))))))"

definition validate_evidence_and_plain_language :: "string list \<Rightarrow> string \<Rightarrow> (validation_error, unit) result" where
  "validate_evidence_and_plain_language evidence plain_language =
     (if evidence = [] then Err EmptyEvidence
      else if plain_language = [] then Err EmptyPlainLanguage
      else Ok ())"

definition validate_required_diagnosis_fields ::
    "event_libs \<Rightarrow> diagnosis \<Rightarrow> disposition \<Rightarrow> (validation_error, unit) result" where
  "validate_required_diagnosis_fields E d disposition =
     and_then (validate_non_empty ''confidence_basis'' (dg_confidence_basis d)) (\<lambda>_.
     and_then (validate_non_empty ''falsifier'' (dg_falsifier d)) (\<lambda>_.
     if dg_supported_scope d = [] then Err (EmptyRequiredField ''supported_scope'')
     else
       and_then (validate_non_empty ''nearest_alternative'' (dg_nearest_alternative d)) (\<lambda>_.
       if disposition = Finding \<and> dg_suggested_fixes d = [] then Err EmptySuggestedFixes
       else validate_timestamp E ''timestamp'' (dg_timestamp d))))"

definition normalized_host_name :: "event_libs \<Rightarrow> string \<Rightarrow> (validation_error, string) result" where
  "normalized_host_name E value =
     (let normalized = to_lowercase E value in
      and_then (validate_non_empty ''host_name'' normalized) (\<lambda>_.
      and_then (validate_keyword ''host_name'' normalized) (\<lambda>_.
      Ok normalized)))"

definition render_display :: "string list \<Rightarrow> string" where
  "render_display values =
     join_with [CHR 0x0A] (map (\<lambda>(index, value). show_nat (index + 1) @ ''. '' @ value) (enumerate 0 values))"

definition disposition_name :: "disposition \<Rightarrow> string" where
  "disposition_name disposition = (case disposition of Finding \<Rightarrow> ''finding'' | NonFinding \<Rightarrow> ''non_finding'')"

definition saturate_event_byte_count :: "nat \<Rightarrow> nat" where
  "saturate_event_byte_count actual = min actual u32_max"

definition is_accepted_schema_version :: "nat \<Rightarrow> string list \<Rightarrow> bool" where
  "is_accepted_schema_version compiled accepted = list_ex (\<lambda>version. version = show_nat compiled) accepted"

section \<open>Serialisation\<close>

definition input_mode_name :: "input_mode \<Rightarrow> string" where
  "input_mode_name mode = (case mode of Live \<Rightarrow> ''live'' | Offline \<Rightarrow> ''offline'' | Fixture \<Rightarrow> ''fixture'')"

definition optional_member :: "string \<Rightarrow> ('a \<Rightarrow> json) \<Rightarrow> 'a option \<Rightarrow> (string \<times> json) list" where
  "optional_member name f v = (case v of None \<Rightarrow> [] | Some x \<Rightarrow> [(name, f x)])"

text \<open>\<open>to_value\<close> of an \<open>f64\<close>: a value that is not finite becomes null.\<close>

definition f64_value :: "event_libs \<Rightarrow> f64 \<Rightarrow> json" where
  "f64_value E x = (case x of Finite q \<Rightarrow> JNumber (JFloat (f64_text E q)) | _ \<Rightarrow> JNull)"

definition strings_value :: "string list \<Rightarrow> json" where
  "strings_value xs = JArray (map JString xs)"

definition payload_value :: "event_libs \<Rightarrow> diagnosis_payload \<Rightarrow> json" where
  "payload_value E p = JObject
     ([(''schema_version'', JNumber (PosInt (dp_schema_version p))), (''outcome'', JString (dp_outcome p)),
       (''detector_id'', JString (dp_detector_id p)), (''rule_version'', JString (dp_rule_version p)),
       (''input_mode'', JString (input_mode_name (dp_input_mode p))), (''disposition'', JString (dp_disposition p)),
       (''evidence'', strings_value (dp_evidence p)), (''evidence_display'', JString (dp_evidence_display p)),
       (''plain_language'', JString (dp_plain_language p))]
      @ optional_member ''verdict'' JString (dp_verdict p)
      @ optional_member ''confidence'' (f64_value E) (dp_confidence p)
      @ optional_member ''confidence_basis'' JString (dp_confidence_basis p)
      @ optional_member ''suggested_fixes'' strings_value (dp_suggested_fixes p)
      @ optional_member ''suggested_fixes_display'' JString (dp_suggested_fixes_display p)
      @ optional_member ''falsifier'' JString (dp_falsifier p)
      @ optional_member ''supported_scope'' strings_value (dp_supported_scope p)
      @ optional_member ''missing_evidence'' strings_value (dp_missing_evidence p)
      @ optional_member ''nearest_alternative'' JString (dp_nearest_alternative p))"

definition event_value :: "event_libs \<Rightarrow> diagnosis_event \<Rightarrow> json" where
  "event_value E event = JObject
     [(''@timestamp'', JString (de_timestamp event)),
      (''event'', JObject [(''id'', JString (de_event_id event))]),
      (''host'', JObject [(''name'', JString (de_host_name event))]),
      (''rigsignal'', JObject [(''diagnosis'', payload_value E (de_diagnosis event))])]"

definition serialize_diagnosis_event_jcs :: "event_libs \<Rightarrow> diagnosis_event \<Rightarrow> bytes option" where
  "serialize_diagnosis_event_jcs E event = jcs_value (el_jcs E) (event_value E event)"

section \<open>From outcome to event\<close>

definition diagnosis_parts ::
    "event_libs \<Rightarrow> event_context \<Rightarrow> diagnosis \<Rightarrow> disposition \<Rightarrow> (validation_error, string \<times> string \<times> diagnosis_payload) result" where
  "diagnosis_parts E ctx d disposition =
     (let contract = ec_contract ctx in
      if dg_detector_id d \<noteq> dc_detector_id contract
      then Err (DetectorContractMismatch ''detector_id'' (dc_detector_id contract) (dg_detector_id d))
      else if dg_rule_version d \<noteq> dc_rule_version contract
      then Err (DetectorContractMismatch ''rule_version'' (dc_rule_version contract) (dg_rule_version d))
      else
        and_then (validate_non_empty ''verdict'' (dg_verdict d)) (\<lambda>_.
        and_then (validate_keyword ''verdict'' (dg_verdict d)) (\<lambda>_.
        if \<not> in_unit (dg_confidence d) then Err ConfidenceOutOfRange
        else
          and_then (validate_evidence_and_plain_language (dg_evidence d) (dg_plain_language d)) (\<lambda>_.
          and_then (validate_arrays (dg_evidence d) (dg_suggested_fixes d) (dg_supported_scope d) (dg_missing_evidence d)) (\<lambda>_.
          and_then (validate_required_diagnosis_fields E d disposition) (\<lambda>_.
          let evidence_display = render_display (dg_evidence d) in
          and_then (validate_display ''evidence_display'' evidence_display) (\<lambda>_.
          let suggested_fixes_display = (if dg_suggested_fixes d = [] then None else Some (render_display (dg_suggested_fixes d))) in
          and_then (case suggested_fixes_display of
                      None \<Rightarrow> Ok () | Some display \<Rightarrow> validate_display ''suggested_fixes_display'' display) (\<lambda>_.
          and_then (normalized_host_name E (case dg_host d of Some h \<Rightarrow> h | None \<Rightarrow> ec_local_host_name ctx)) (\<lambda>host_name.
          Ok (dg_timestamp d, host_name,
            \<lparr>dp_schema_version = event_schema_version, dp_outcome = ''diagnosis'', dp_detector_id = dc_detector_id contract,
             dp_rule_version = dc_rule_version contract, dp_input_mode = ec_input_mode ctx,
             dp_disposition = disposition_name disposition, dp_evidence = dg_evidence d,
             dp_evidence_display = evidence_display, dp_plain_language = dg_plain_language d,
             dp_verdict = Some (dg_verdict d), dp_confidence = Some (dg_confidence d),
             dp_confidence_basis = Some (dg_confidence_basis d), dp_suggested_fixes = Some (dg_suggested_fixes d),
             dp_suggested_fixes_display = suggested_fixes_display, dp_falsifier = Some (dg_falsifier d),
             dp_supported_scope = Some (dg_supported_scope d), dp_missing_evidence = Some (dg_missing_evidence d),
             dp_nearest_alternative = Some (dg_nearest_alternative d)\<rparr>))))))))))"

definition not_applicable_parts ::
    "event_libs \<Rightarrow> event_context \<Rightarrow> not_applicable \<Rightarrow> (validation_error, string \<times> string \<times> diagnosis_payload) result" where
  "not_applicable_parts E ctx n =
     and_then (validate_evidence_and_plain_language (na_evidence n) (na_explanation n)) (\<lambda>_.
     and_then (validate_array ''evidence'' (na_evidence n)) (\<lambda>_.
     let evidence_display = render_display (na_evidence n) in
     and_then (validate_display ''evidence_display'' evidence_display) (\<lambda>_.
     and_then (normalized_host_name E (ec_local_host_name ctx)) (\<lambda>host_name.
     Ok (ec_enqueue_timestamp ctx, host_name,
       \<lparr>dp_schema_version = event_schema_version, dp_outcome = ''not_applicable'',
        dp_detector_id = dc_detector_id (ec_contract ctx), dp_rule_version = dc_rule_version (ec_contract ctx),
        dp_input_mode = ec_input_mode ctx, dp_disposition = ''non_finding'', dp_evidence = na_evidence n,
        dp_evidence_display = evidence_display, dp_plain_language = na_explanation n, dp_verdict = None,
        dp_confidence = None, dp_confidence_basis = None, dp_suggested_fixes = None, dp_suggested_fixes_display = None,
        dp_falsifier = None, dp_supported_scope = None, dp_missing_evidence = None, dp_nearest_alternative = None\<rparr>)))))"

text \<open>The check that a not-applicable outcome is no finding is a debug assertion only.\<close>

definition try_from_outcome :: "event_libs \<Rightarrow> outcome \<Rightarrow> event_context \<Rightarrow> (validation_error, validated_event) result" where
  "try_from_outcome E outcome ctx =
     and_then (validate_context E ctx) (\<lambda>_.
     and_then (case outcome of
                 Diagnosis d \<Rightarrow> diagnosis_parts E ctx d (outcome_disposition outcome)
               | NotApplicable n \<Rightarrow> not_applicable_parts E ctx n) (\<lambda>(timestamp, host_name, payload).
     let event = \<lparr>de_timestamp = timestamp, de_event_id = ec_event_id ctx, de_host_name = host_name, de_diagnosis = payload\<rparr> in
     case serialize_diagnosis_event_jcs E event of
       None \<Rightarrow> Err EventPanic
     | Some canonical_bytes \<Rightarrow>
         (let actual = length canonical_bytes in
          if max_diagnosis_event_bytes < actual
          then Err (EventBytesLimitExceeded max_diagnosis_event_bytes (saturate_event_byte_count actual))
          else Ok \<lparr>ve_event = event, ve_canonical_bytes = canonical_bytes\<rparr>)))"

section \<open>The condition as one predicate\<close>

definition short :: "nat \<Rightarrow> string \<Rightarrow> bool" where
  "short n s \<longleftrightarrow> length (chars s) \<le> n"

definition array_ok :: "string list \<Rightarrow> bool" where
  "array_ok xs \<longleftrightarrow> length xs \<le> max_array_elements \<and> (\<forall>x \<in> set xs. short max_array_element_chars x)"

definition keyword_ok :: "string \<Rightarrow> bool" where
  "keyword_ok s \<longleftrightarrow> s \<noteq> [] \<and> short max_keyword_chars s"

definition context_ok :: "event_libs \<Rightarrow> event_context \<Rightarrow> bool" where
  "context_ok E ctx \<longleftrightarrow> keyword_ok (dc_detector_id (ec_contract ctx)) \<and> keyword_ok (dc_rule_version (ec_contract ctx))
     \<and> keyword_ok (ec_event_id ctx) \<and> uuid_version E (ec_event_id ctx) = Some 7
     \<and> keyword_ok (ec_local_host_name ctx) \<and> rfc3339_ok E (ec_enqueue_timestamp ctx)"

definition diagnosis_ok :: "event_libs \<Rightarrow> event_context \<Rightarrow> diagnosis \<Rightarrow> bool" where
  "diagnosis_ok E ctx d \<longleftrightarrow>
     dg_detector_id d = dc_detector_id (ec_contract ctx) \<and> dg_rule_version d = dc_rule_version (ec_contract ctx)
     \<and> keyword_ok (dg_verdict d) \<and> in_unit (dg_confidence d) \<and> dg_evidence d \<noteq> [] \<and> dg_plain_language d \<noteq> []
     \<and> array_ok (dg_evidence d) \<and> array_ok (dg_suggested_fixes d) \<and> array_ok (dg_supported_scope d) \<and> array_ok (dg_missing_evidence d)
     \<and> dg_confidence_basis d \<noteq> [] \<and> dg_falsifier d \<noteq> [] \<and> dg_supported_scope d \<noteq> [] \<and> dg_nearest_alternative d \<noteq> []
     \<and> (dg_disposition d = Finding \<longrightarrow> dg_suggested_fixes d \<noteq> []) \<and> rfc3339_ok E (dg_timestamp d)
     \<and> short max_display_chars (render_display (dg_evidence d))
     \<and> (dg_suggested_fixes d \<noteq> [] \<longrightarrow> short max_display_chars (render_display (dg_suggested_fixes d)))
     \<and> keyword_ok (to_lowercase E (case dg_host d of Some h \<Rightarrow> h | None \<Rightarrow> ec_local_host_name ctx))"

definition not_applicable_ok :: "event_libs \<Rightarrow> event_context \<Rightarrow> not_applicable \<Rightarrow> bool" where
  "not_applicable_ok E ctx n \<longleftrightarrow> na_evidence n \<noteq> [] \<and> na_explanation n \<noteq> [] \<and> array_ok (na_evidence n)
     \<and> short max_display_chars (render_display (na_evidence n)) \<and> keyword_ok (to_lowercase E (ec_local_host_name ctx))"

text \<open>The event an outcome stands for.\<close>

definition diagnosis_event_of :: "event_libs \<Rightarrow> event_context \<Rightarrow> diagnosis \<Rightarrow> diagnosis_event" where
  "diagnosis_event_of E ctx d =
     \<lparr>de_timestamp = dg_timestamp d, de_event_id = ec_event_id ctx,
      de_host_name = to_lowercase E (case dg_host d of Some h \<Rightarrow> h | None \<Rightarrow> ec_local_host_name ctx),
      de_diagnosis = \<lparr>dp_schema_version = 1, dp_outcome = ''diagnosis'', dp_detector_id = dg_detector_id d,
         dp_rule_version = dg_rule_version d, dp_input_mode = ec_input_mode ctx,
         dp_disposition = disposition_name (dg_disposition d), dp_evidence = dg_evidence d,
         dp_evidence_display = render_display (dg_evidence d), dp_plain_language = dg_plain_language d,
         dp_verdict = Some (dg_verdict d), dp_confidence = Some (dg_confidence d),
         dp_confidence_basis = Some (dg_confidence_basis d), dp_suggested_fixes = Some (dg_suggested_fixes d),
         dp_suggested_fixes_display = (if dg_suggested_fixes d = [] then None else Some (render_display (dg_suggested_fixes d))),
         dp_falsifier = Some (dg_falsifier d), dp_supported_scope = Some (dg_supported_scope d),
         dp_missing_evidence = Some (dg_missing_evidence d), dp_nearest_alternative = Some (dg_nearest_alternative d)\<rparr>\<rparr>"

definition not_applicable_event_of :: "event_libs \<Rightarrow> event_context \<Rightarrow> not_applicable \<Rightarrow> diagnosis_event" where
  "not_applicable_event_of E ctx n =
     \<lparr>de_timestamp = ec_enqueue_timestamp ctx, de_event_id = ec_event_id ctx,
      de_host_name = to_lowercase E (ec_local_host_name ctx),
      de_diagnosis = \<lparr>dp_schema_version = 1, dp_outcome = ''not_applicable'', dp_detector_id = dc_detector_id (ec_contract ctx),
         dp_rule_version = dc_rule_version (ec_contract ctx), dp_input_mode = ec_input_mode ctx,
         dp_disposition = ''non_finding'', dp_evidence = na_evidence n,
         dp_evidence_display = render_display (na_evidence n), dp_plain_language = na_explanation n, dp_verdict = None,
         dp_confidence = None, dp_confidence_basis = None, dp_suggested_fixes = None, dp_suggested_fixes_display = None,
         dp_falsifier = None, dp_supported_scope = None, dp_missing_evidence = None, dp_nearest_alternative = None\<rparr>\<rparr>"

named_theorems checks

lemma validate_non_empty_Ok [checks]: "validate_non_empty f s = Ok u \<longleftrightarrow> s \<noteq> []"
  by (simp add: validate_non_empty_def)

lemma validate_keyword_Ok [checks]: "validate_keyword f s = Ok u \<longleftrightarrow> short max_keyword_chars s"
  by (simp add: validate_keyword_def short_def not_less)

lemma validate_display_Ok [checks]: "validate_display f s = Ok u \<longleftrightarrow> short max_display_chars s"
  by (simp add: validate_display_def short_def not_less)

lemma validate_array_Ok [checks]: "validate_array f xs = Ok u \<longleftrightarrow> array_ok xs"
  by (auto simp: validate_array_def array_ok_def short_def list_ex_iff simp flip: not_le)

lemma validate_arrays_Ok [checks]:
  "validate_arrays a b c d = Ok u \<longleftrightarrow> array_ok a \<and> array_ok b \<and> array_ok c \<and> array_ok d"
  by (simp add: validate_arrays_def and_then_eq_Inr checks)

lemma validate_timestamp_Ok [checks]: "validate_timestamp E f s = Ok u \<longleftrightarrow> rfc3339_ok E s"
  by (simp add: validate_timestamp_def)

lemma validate_evidence_Ok [checks]: "validate_evidence_and_plain_language ev pl = Ok u \<longleftrightarrow> ev \<noteq> [] \<and> pl \<noteq> []"
  by (simp add: validate_evidence_and_plain_language_def)

lemma normalized_host_name_Ok [checks]:
  "normalized_host_name E s = Ok h \<longleftrightarrow> keyword_ok (to_lowercase E s) \<and> h = to_lowercase E s"
  by (auto simp: normalized_host_name_def Let_def and_then_eq_Inr checks keyword_ok_def)

lemma validate_context_Ok [checks]: "validate_context E ctx = Ok u \<longleftrightarrow> context_ok E ctx"
  by (auto simp: validate_context_def and_then_eq_Inr checks context_ok_def keyword_ok_def)

lemma validate_required_Ok [checks]:
  "validate_required_diagnosis_fields E d p = Ok u \<longleftrightarrow> dg_confidence_basis d \<noteq> [] \<and> dg_falsifier d \<noteq> []
     \<and> dg_supported_scope d \<noteq> [] \<and> dg_nearest_alternative d \<noteq> [] \<and> (p = Finding \<longrightarrow> dg_suggested_fixes d \<noteq> [])
     \<and> rfc3339_ok E (dg_timestamp d)"
  by (auto simp: validate_required_diagnosis_fields_def and_then_eq_Inr checks)

lemma diagnosis_parts_Ok:
  "diagnosis_parts E ctx d (dg_disposition d) = Ok p \<longleftrightarrow> diagnosis_ok E ctx d
     \<and> p = (de_timestamp (diagnosis_event_of E ctx d), de_host_name (diagnosis_event_of E ctx d), de_diagnosis (diagnosis_event_of E ctx d))"
  by (cases "dg_suggested_fixes d = []")
    (auto simp: diagnosis_parts_def Let_def and_then_eq_Inr checks diagnosis_ok_def diagnosis_event_of_def keyword_ok_def event_schema_version_def)

lemma not_applicable_parts_Ok:
  "not_applicable_parts E ctx n = Ok p \<longleftrightarrow> not_applicable_ok E ctx n
     \<and> p = (de_timestamp (not_applicable_event_of E ctx n), de_host_name (not_applicable_event_of E ctx n), de_diagnosis (not_applicable_event_of E ctx n))"
  by (auto simp: not_applicable_parts_def Let_def and_then_eq_Inr checks not_applicable_ok_def not_applicable_event_of_def event_schema_version_def)

lemma event_of_rebuild [simp]:
  "\<lparr>de_timestamp = de_timestamp (diagnosis_event_of E ctx d), de_event_id = ec_event_id ctx,
     de_host_name = de_host_name (diagnosis_event_of E ctx d), de_diagnosis = de_diagnosis (diagnosis_event_of E ctx d)\<rparr>
   = diagnosis_event_of E ctx d"
  "\<lparr>de_timestamp = de_timestamp (not_applicable_event_of E ctx n), de_event_id = ec_event_id ctx,
     de_host_name = de_host_name (not_applicable_event_of E ctx n), de_diagnosis = de_diagnosis (not_applicable_event_of E ctx n)\<rparr>
   = not_applicable_event_of E ctx n"
  by (simp_all add: diagnosis_event_of_def not_applicable_event_of_def)

section \<open>Errors a built diagnosis can still meet\<close>

lemma and_then_eq_Inl: "and_then r f = Inl e \<longleftrightarrow> r = Inl e \<or> (\<exists>a. r = Inr a \<and> f a = Inl e)"
  by (cases r) simp_all

definition late_error :: "validation_error \<Rightarrow> bool" where
  "late_error err \<longleftrightarrow>
     (case err of
        EmptyRequiredField field \<Rightarrow> field \<in> {''event_id'', ''host_name'', ''verdict''}
      | LimitExceeded _ _ \<Rightarrow> True
      | InvalidTimestamp _ \<Rightarrow> True
      | InvalidEventId \<Rightarrow> True
      | MissingDetectorContractIdentity \<Rightarrow> True
      | EventBytesLimitExceeded _ _ \<Rightarrow> True
      | EventPanic \<Rightarrow> True
      | _ \<Rightarrow> False)"

lemma field_errors:
  "validate_non_empty f s = Err e \<longleftrightarrow> s = [] \<and> e = EmptyRequiredField f"
  "validate_keyword f s = Err e \<Longrightarrow> late_error e" "validate_display f s = Err e \<Longrightarrow> late_error e"
  "validate_array f xs = Err e \<Longrightarrow> late_error e" "validate_timestamp E f s = Err e \<Longrightarrow> late_error e"
  "normalized_host_name E s = Err e \<Longrightarrow> late_error e"
  by (auto simp: validate_non_empty_def validate_keyword_def validate_display_def validate_array_def validate_timestamp_def
      normalized_host_name_def Let_def and_then_eq_Inl late_error_def split: if_splits)

lemma validate_arrays_fails: "validate_arrays a b c d = Err e \<Longrightarrow> late_error e"
  by (auto simp: validate_arrays_def and_then_eq_Inl dest: field_errors(2-))

lemma validate_context_fails: "validate_context E ctx = Err e \<Longrightarrow> late_error e"
  by (auto simp: validate_context_def and_then_eq_Inl field_errors(1) split: if_splits dest: field_errors(2,5))
    (auto simp: late_error_def ok_or_def split: option.splits)

lemma diagnosis_parts_fails:
  assumes "build now contract f = Ok d" "ec_contract ctx = contract" "diagnosis_parts E ctx d (dg_disposition d) = Err e"
  shows "late_error e"
proof -
  note b = build_fields [OF assms(1)]
  have c: "fields_complete f" using build_Ok_iff assms(1) by blast
  have "in_unit (dg_confidence d)" "dg_evidence d \<noteq> []" "dg_plain_language d \<noteq> []" "dg_falsifier d \<noteq> []" "dg_confidence_basis d \<noteq> []"
    "dg_supported_scope d \<noteq> []" "dg_nearest_alternative d \<noteq> []" "dg_disposition d = Finding \<longrightarrow> dg_suggested_fixes d \<noteq> []"
    "dg_detector_id d = dc_detector_id (ec_contract ctx)" "dg_rule_version d = dc_rule_version (ec_contract ctx)"
    using b c assms(2) by (simp_all add: fields_complete_def in_unit_iff)
  then show ?thesis using assms(3)
    by (auto simp: diagnosis_parts_def Let_def and_then_eq_Inl field_errors(1) validate_required_diagnosis_fields_def
        validate_evidence_and_plain_language_def split: option.splits if_splits dest: field_errors(2-) validate_arrays_fails)
      (auto simp: late_error_def)
qed

section \<open>Properties\<close>

text \<open>C25: An outcome becomes an event exactly when the context, the required fields, the limits on every text and list
  and the limit on the canonical bytes hold; the event then carries the outcome unchanged, under the contract's
  identity, with the lower case host name and, for a not-applicable outcome, always as no finding, and the
  bytes kept are its canonical serialisation.\<close>

theorem try_from_outcome_iff:
  "try_from_outcome E outcome ctx = Ok v \<longleftrightarrow>
     context_ok E ctx
     \<and> (case outcome of
          Diagnosis d \<Rightarrow> diagnosis_ok E ctx d \<and> ve_event v = diagnosis_event_of E ctx d
        | NotApplicable n \<Rightarrow> not_applicable_ok E ctx n \<and> ve_event v = not_applicable_event_of E ctx n)
     \<and> serialize_diagnosis_event_jcs E (ve_event v) = Some (ve_canonical_bytes v)
     \<and> length (ve_canonical_bytes v) \<le> max_diagnosis_event_bytes"
proof -
  have fin: "(let event = ev in case serialize_diagnosis_event_jcs E event of None \<Rightarrow> Err EventPanic
      | Some bs \<Rightarrow> let actual = length bs in if max_diagnosis_event_bytes < actual
          then Err (EventBytesLimitExceeded max_diagnosis_event_bytes (saturate_event_byte_count actual))
          else Ok \<lparr>ve_event = event, ve_canonical_bytes = bs\<rparr>) = Ok v
    \<longleftrightarrow> ve_event v = ev \<and> serialize_diagnosis_event_jcs E ev = Some (ve_canonical_bytes v)
      \<and> length (ve_canonical_bytes v) \<le> max_diagnosis_event_bytes" for ev
    by (cases v) (auto simp: Let_def not_less split: option.splits)
  show ?thesis
  proof (cases outcome)
    case (Diagnosis d)
    have "outcome_disposition (Diagnosis d) = dg_disposition d" by (simp add: outcome_disposition_def)
    with Diagnosis show ?thesis unfolding try_from_outcome_def and_then_eq_Inr
      by (auto simp: checks diagnosis_parts_Ok fin)
  next
    case (NotApplicable n)
    then show ?thesis unfolding try_from_outcome_def and_then_eq_Inr
      by (auto simp: checks not_applicable_parts_Ok fin)
  qed
qed

text \<open>A diagnosis that \<open>Diagnosis::build\<close> has accepted can fail the event boundary, under the same contract, for a
  length or size limit, a timestamp, the identity of the context, or an empty verdict or host name only: never
  for missing evidence, an explanation, a confidence out of range, missing fixes, another required field or a
  contract mismatch.\<close>

theorem built_diagnosis_fails_late:
  assumes "build now contract f = Ok d" "ec_contract ctx = contract" "try_from_outcome E (Diagnosis d) ctx = Err e"
  shows "late_error e"
proof -
  have "outcome_disposition (Diagnosis d) = dg_disposition d" by (simp add: outcome_disposition_def)
  with assms(3) consider "validate_context E ctx = Err e" | "diagnosis_parts E ctx d (dg_disposition d) = Err e"
    | "late_error e"
    by (auto simp: try_from_outcome_def and_then_eq_Inl Let_def late_error_def split: option.splits if_splits)
  then show ?thesis using validate_context_fails diagnosis_parts_fails [OF assms(1,2)] by cases blast+
qed

definition sample_fields :: diagnosis_fields where
  "sample_fields = \<lparr>df_disposition = NonFinding, df_verdict = ''ok'', df_confidence = Finite (1 / 2), df_confidence_basis = ''b'',
     df_evidence = [''e''], df_plain_language = ''p'', df_suggested_fixes = [], df_falsifier = ''f'',
     df_supported_scope = [''s''], df_missing_evidence = [], df_nearest_alternative = ''n'', df_host = None\<rparr>"

definition sample_contract :: detector_contract where
  "sample_contract = \<lparr>dc_detector_id = ''D3'', dc_rule_version = ''d3.1'', dc_error_prefix = ''D3''\<rparr>"

definition sample_context :: event_context where
  "sample_context = \<lparr>ec_event_id = ''x'', ec_enqueue_timestamp = ''t'', ec_local_host_name = ''h'', ec_contract = sample_contract,
     ec_input_mode = Live\<rparr>"

definition sample_event_libs :: event_libs where
  "sample_event_libs = \<lparr>el_jcs = sample_jcs, uuid_version = (\<lambda>_. None), rfc3339_ok = (\<lambda>_. True), to_lowercase = (\<lambda>s. s),
     f64_text = (\<lambda>_. ''0.5'')\<rparr>"

theorem built_diagnosis_fails_late_witness:
  "\<exists>d. build ''t'' sample_contract sample_fields = Ok d
     \<and> try_from_outcome sample_event_libs (Diagnosis d) sample_context = Err InvalidEventId \<and> late_error InvalidEventId"
proof -
  obtain d where d: "build ''t'' sample_contract sample_fields = Ok d"
  proof -
    have "\<exists>q. df_confidence sample_fields = Finite q \<and> 0 \<le> q \<and> q \<le> 1"
      by (rule exI [of _ "1 / 2"]) (simp add: sample_fields_def)
    then have "fields_complete sample_fields" by (simp add: fields_complete_def sample_fields_def)
    with build_Ok_iff show ?thesis using that by blast
  qed
  have "ec_contract sample_context = sample_contract" by (simp add: sample_context_def)
  have ch: "chars ''x'' = [120]" by (simp add: chars.simps [of "_ # _"] utf8_next_def)
  have e: "try_from_outcome sample_event_libs (Diagnosis d) sample_context = Err InvalidEventId"
    by (simp add: try_from_outcome_def validate_context_def sample_context_def sample_contract_def validate_non_empty_def
        validate_keyword_def ch max_keyword_chars_def sample_event_libs_def)
  from built_diagnosis_fails_late [OF d \<open>ec_contract sample_context = sample_contract\<close> e] d e show ?thesis by blast
qed

end
