(* ===== verification/Paths.thy ===== *)
theory Paths
  imports Rust_Str
begin

text \<open>
  The parts of \<open>std::path::Path\<close> the components share: parents, joining, the last component and its extension.  Paths
  are byte strings.
\<close>

text \<open>\<open>position\<close>, and \<open>rfind\<close> of a character\<close>

fun position :: "('a \<Rightarrow> bool) \<Rightarrow> 'a list \<Rightarrow> nat option" where
  "position p [] = None"
| "position p (x # xs) = (if p x then Some 0 else map_option Suc (position p xs))"

definition rposition :: "('a \<Rightarrow> bool) \<Rightarrow> 'a list \<Rightarrow> nat option" where
  "rposition p xs = map_option (\<lambda>i. length xs - 1 - i) (position p (rev xs))"

text \<open>
  A file is named by its path, written without doubled or trailing separators.  The parent of a bare file name
  is the empty path.
\<close>

definition parent_dir :: "string \<Rightarrow> string option" where
  "parent_dir path =
     (if path = [] \<or> path = ''/'' then None
      else case rposition (\<lambda>c. c = CHR ''/'') path of
        None \<Rightarrow> Some [] | Some i \<Rightarrow> Some (if i = 0 then ''/'' else take i path))"

definition path_join :: "string \<Rightarrow> string \<Rightarrow> string" where
  "path_join dir name = (if dir = [] then name else if last dir = CHR ''/'' then dir @ name else dir @ ''/'' @ name)"

definition beside :: "string \<Rightarrow> string \<Rightarrow> string" where
  "beside path name = path_join (case parent_dir path of Some d \<Rightarrow> d | None \<Rightarrow> ''.'') name"

text \<open>\<open>Path::file_name\<close>: empty components and single dots do not count, and two dots are not a name.\<close>

definition file_name :: "string \<Rightarrow> string option" where
  "file_name path =
     (let parts = filter (\<lambda>p. p \<noteq> [] \<and> p \<noteq> ''.'') (split_on CHR ''/'' path)
      in if parts = [] \<or> last parts = ''..'' then None else Some (last parts))"

text \<open>\<open>Path::file_stem\<close> and \<open>Path::extension\<close> of a file name: a leading dot does not start an extension.\<close>

definition split_name :: "string \<Rightarrow> string \<times> string option" where
  "split_name name =
     (case rposition (\<lambda>c. c = CHR ''.'') name of
        None \<Rightarrow> (name, None)
      | Some i \<Rightarrow> if i = 0 \<or> name = ''..'' then (name, None) else (take i name, Some (drop (i + 1) name)))"

definition with_file_name :: "string \<Rightarrow> string \<Rightarrow> string" where
  "with_file_name path name = (case file_name path of None \<Rightarrow> path_join path name | Some _ \<Rightarrow> beside path name)"

lemma path_join_suffix: "\<exists>d. path_join dir name = d @ name"
  unfolding path_join_def by (metis append.assoc append_Nil)

lemma beside_suffix: "\<exists>d. beside path name = d @ name"
  by (simp add: beside_def path_join_suffix)

end
