(* ===== verification/D3_Pci.thy ===== *)
theory D3_Pci
  imports Paths
begin

text \<open>
  Model of the inputs of the GPU boot detector \<open>src/src/detectors/d3.rs\<close>: boot identifiers, PCI addresses and
  identities, the parser of the PCI topology snapshot, and the boot inventory.  The messages of the errors are
  the constructors of \<open>d3_error\<close>, which carry what the texts interpolate.  The lemmas show that
  an accepted snapshot holds distinct canonical devices whose upstream bridges are rows of the snapshot.
\<close>

section \<open>Data\<close>

datatype row_error = InvalidBdf | MalformedField | UnknownField string | LacksPath | LacksVendor | LacksDevice
  | LacksClass | InvalidIdentity | NoPathBdf | LeafMismatch | LacksBdf

datatype d3_error =
    LacksBootId | InvalidBootId string | Row nat row_error | NoDevices | DuplicateBdfs | UpstreamAbsent string
  | NoBootIds | FixtureNeedsOffline | LearnAndReset | ResetWithSlot | NeedsSnapshot | NeedsStateFile | NeedsBoot
  | Inspect string | NotRegular string | TooLong string | CannotRead string
  | PairNoInventory | InventoryTime | NoWindow string | NoStamps string | NotPaired string
  | PairSnapshot | PairInventory | LearnExists | LearnNoSlot | LearnAbsent | LearnAmbiguous | Contradiction
  | StateInspect | StateNotRegular | StateTooLong | StateOpen | StateParse | StateVersion nat | PendingNoBaseline
  | NonCanonicalBaseline | InvalidPending | StateDir | StateLockOpen | Permissions | LockContention | StateClock
  | StateCreate | StateWrite | StateReplace | BuildFailed string
  | SysfsEnumerate | SysfsNoDevices | SysfsEntry | SysfsIdentity string | SysfsResolve string

record pci_device =
  pd_bdf :: string
  pd_vendor :: string
  pd_device :: string
  pd_class :: string
  pd_parent_path :: string
  pd_upstream_bridge :: "string option"

record pci_snapshot =
  ps_boot_id :: string
  ps_devices :: "pci_device list"

section \<open>Identifiers\<close>

text \<open>On valid UTF-8 the tests on characters are tests on bytes: no byte of a longer character is a
  hexadecimal digit or a hyphen.\<close>

definition normalize_boot_id :: "string \<Rightarrow> (d3_error, string) result" where
  "normalize_boot_id value =
     (let compact = filter (\<lambda>c. c \<noteq> CHR ''-'') value in
      if length compact \<noteq> 32 \<or> \<not> list_all is_hexdigit compact then Err (InvalidBootId value)
      else Ok (to_ascii_lowercase compact))"

definition valid_bdf :: "string \<Rightarrow> bool" where
  "valid_bdf bs \<longleftrightarrow>
     length bs = 12 \<and> bs ! 4 = CHR '':'' \<and> bs ! 7 = CHR '':'' \<and> bs ! 10 = CHR ''.''
     \<and> list_all (\<lambda>(i, b). i = 4 \<or> i = 7 \<or> i = 10 \<or> is_hexdigit b) (enumerate 0 bs)"

definition valid_hex_field :: "string \<Rightarrow> nat \<Rightarrow> bool" where
  "valid_hex_field value width \<longleftrightarrow>
     length value = width + 2 \<and> starts_with ''0x'' value \<and> list_all is_hexdigit (drop 2 value)"

definition canonical_boot_id :: "string \<Rightarrow> bool" where
  "canonical_boot_id value = (case normalize_boot_id value of Inr normalized \<Rightarrow> normalized = value | Inl _ \<Rightarrow> False)"

definition canonical_bdf :: "string \<Rightarrow> bool" where
  "canonical_bdf value \<longleftrightarrow> valid_bdf value \<and> value = to_ascii_lowercase value"

definition canonical_hex_field :: "string \<Rightarrow> nat \<Rightarrow> bool" where
  "canonical_hex_field value width \<longleftrightarrow> valid_hex_field value width \<and> value = to_ascii_lowercase value"

definition is_bridge :: "pci_device \<Rightarrow> bool" where
  "is_bridge d = (case strip_prefix ''0x'' (pd_class d) of Some c \<Rightarrow> starts_with ''06'' c | None \<Rightarrow> False)"

section \<open>The snapshot parser\<close>

fun find_map :: "('a \<Rightarrow> 'b option) \<Rightarrow> 'a list \<Rightarrow> 'b option" where
  "find_map f [] = None"
| "find_map f (x # xs) = (case f x of None \<Rightarrow> find_map f xs | Some y \<Rightarrow> Some y)"

definition boot_raw :: "string \<Rightarrow> string option" where
  "boot_raw source =
     do { tail \<leftarrow> find_map (\<lambda>line. map_option (\<lambda>at. drop (at + length ''boot_id='') line) (find_str ''boot_id='' line))
                    (lines source);
          case split_whitespace tail of [] \<Rightarrow> None | w # _ \<Rightarrow> Some w }"

record row_fields =
  rf_path :: "string option"
  rf_vendor :: "string option"
  rf_device :: "string option"
  rf_class :: "string option"

text \<open>The loop over the words after the address; a repeated key overwrites.\<close>

fun row_loop :: "string list \<Rightarrow> row_fields \<Rightarrow> (row_error, row_fields) result" where
  "row_loop [] r = Ok r"
| "row_loop (f # fs) r =
     (case split_once CHR ''='' f of
        None \<Rightarrow> Err MalformedField
      | Some (key, value) \<Rightarrow>
          if key = ''path'' then row_loop fs (r\<lparr>rf_path := Some value\<rparr>)
          else if key = ''vendor'' then row_loop fs (r\<lparr>rf_vendor := Some value\<rparr>)
          else if key = ''device'' then row_loop fs (r\<lparr>rf_device := Some value\<rparr>)
          else if key = ''class'' then row_loop fs (r\<lparr>rf_class := Some value\<rparr>)
          else Err (UnknownField key))"

text \<open>The addresses in a path, and the last but one of them.\<close>

definition bdf_chain :: "string \<Rightarrow> string list" where
  "bdf_chain path = filter valid_bdf (split_on CHR ''/'' path)"

definition upstream_of :: "string list \<Rightarrow> string option" where
  "upstream_of chain = map_option to_ascii_lowercase (list_get (rev chain) 1)"

definition parse_row :: "string \<Rightarrow> (row_error, pci_device) result" where
  "parse_row line =
     (case split_whitespace line of
        [] \<Rightarrow> Err LacksBdf
      | bdf # flds \<Rightarrow>
          if \<not> valid_bdf bdf then Err InvalidBdf
          else and_then (row_loop flds \<lparr>rf_path = None, rf_vendor = None, rf_device = None, rf_class = None\<rparr>) (\<lambda>r.
            and_then (ok_or LacksPath (rf_path r)) (\<lambda>path.
            and_then (ok_or LacksVendor (rf_vendor r)) (\<lambda>vendor.
            and_then (ok_or LacksDevice (rf_device r)) (\<lambda>device.
            and_then (ok_or LacksClass (rf_class r)) (\<lambda>cls.
            if \<not> valid_hex_field vendor 4 \<or> \<not> valid_hex_field device 4 \<or> \<not> valid_hex_field cls 6
            then Err InvalidIdentity
            else let chain = bdf_chain path in
              if chain = [] then Err NoPathBdf
              else if \<not> eq_ignore_ascii_case (last chain) bdf then Err LeafMismatch
              else Ok \<lparr>pd_bdf = to_ascii_lowercase bdf, pd_vendor = to_ascii_lowercase vendor,
                     pd_device = to_ascii_lowercase device, pd_class = to_ascii_lowercase cls,
                     pd_parent_path = path, pd_upstream_bridge = upstream_of chain\<rparr>))))))"

fun parse_rows :: "nat \<Rightarrow> string list \<Rightarrow> (d3_error, pci_device list) result" where
  "parse_rows n [] = Ok []"
| "parse_rows n (l # ls) =
     (let line = trim l in
      if line = [] \<or> starts_with ''#'' line then parse_rows (n + 1) ls
      else (case parse_row line of
              Inl e \<Rightarrow> Err (Row n e)
            | Inr d \<Rightarrow> and_then (parse_rows (n + 1) ls) (\<lambda>ds. Ok (d # ds))))"

definition upstream_missing :: "pci_device list \<Rightarrow> pci_device \<Rightarrow> bool" where
  "upstream_missing devices d =
     (case pd_upstream_bridge d of Some bridge \<Rightarrow> bridge \<notin> set (map pd_bdf devices) | None \<Rightarrow> False)"

definition parse_pci_snapshot :: "string \<Rightarrow> (d3_error, pci_snapshot) result" where
  "parse_pci_snapshot source =
     and_then (ok_or LacksBootId (boot_raw source)) (\<lambda>raw.
     and_then (normalize_boot_id raw) (\<lambda>boot_id.
     and_then (parse_rows 1 (lines source)) (\<lambda>devices.
       if devices = [] then Err NoDevices
       else if \<not> distinct (map pd_bdf devices) then Err DuplicateBdfs
       else (case List.find (upstream_missing devices) devices of
               Some d \<Rightarrow> Err (UpstreamAbsent (pd_bdf d))
             | None \<Rightarrow> Ok \<lparr>ps_boot_id = boot_id, ps_devices = devices\<rparr>))))"

section \<open>The boot inventory\<close>

definition line_boot_id :: "string \<Rightarrow> string option" where
  "line_boot_id line =
     find_map (\<lambda>w. case normalize_boot_id w of Inr b \<Rightarrow> Some b | Inl _ \<Rightarrow> None) (split_whitespace line)"

text \<open>The \<open>BootInventory\<close> is the list of its identifiers.\<close>

definition parse_boot_inventory :: "string \<Rightarrow> (d3_error, string list) result" where
  "parse_boot_inventory source =
     (let boot_ids = List.map_filter line_boot_id (lines source) in
      if boot_ids = [] then Err NoBootIds else Ok boot_ids)"

definition prior_for :: "string list \<Rightarrow> string \<Rightarrow> string option" where
  "prior_for boot_ids current =
     do { i \<leftarrow> position (\<lambda>b. b = current) boot_ids;
          j \<leftarrow> (if 1 \<le> i then Some (i - 1) else None);
          list_get boot_ids j }"

section \<open>Lemmas\<close>

lemma normalize_boot_id_Ok:
  "normalize_boot_id v = Ok b \<longleftrightarrow>
     b = to_ascii_lowercase (filter (\<lambda>c. c \<noteq> CHR ''-'') v) \<and> length b = 32 \<and> list_all is_hexdigit b"
  unfolding normalize_boot_id_def Let_def by (auto simp: list.pred_map comp_def)

lemma hexdigit_not_hyphen: "is_hexdigit c \<Longrightarrow> c \<noteq> CHR ''-''"
  by (auto simp: is_hexdigit_def is_digit_def)

lemma normalize_boot_id_canonical: "normalize_boot_id v = Ok b \<Longrightarrow> canonical_boot_id b"
proof -
  assume n: "normalize_boot_id v = Ok b"
  then have l: "to_ascii_lowercase b = b" and h: "list_all is_hexdigit b" "length b = 32"
    by (auto simp: normalize_boot_id_Ok)
  then have "filter (\<lambda>c. c \<noteq> CHR ''-'') b = b"
    by (auto simp: filter_id_conv list_all_iff hexdigit_not_hyphen)
  with l h show ?thesis by (simp add: canonical_boot_id_def normalize_boot_id_def)
qed

lemma canonical_boot_id_normalize: "canonical_boot_id b \<longleftrightarrow> normalize_boot_id b = Ok b"
  by (auto simp: canonical_boot_id_def split: sum.splits)

lemma ascii_lower_punct [simp]: "ascii_lower CHR '':'' = CHR '':''" "ascii_lower CHR ''.'' = CHR ''.''"
  by (simp_all add: ascii_lower_def)

lemma enumerate_map: "enumerate n (map f xs) = map (\<lambda>(i, x). (i, f x)) (enumerate n xs)"
  by (induction xs arbitrary: n) simp_all

lemma valid_bdf_lower: "valid_bdf b \<Longrightarrow> canonical_bdf (to_ascii_lowercase b)"
  by (auto simp: canonical_bdf_def valid_bdf_def enumerate_map list.pred_map comp_def case_prod_unfold)

lemma starts_with_lower: "starts_with p s \<Longrightarrow> to_ascii_lowercase p = p \<Longrightarrow> starts_with p (to_ascii_lowercase s)"
  by (metis starts_with_def length_map take_map)

lemma valid_hex_lower: "valid_hex_field v n \<Longrightarrow> canonical_hex_field (to_ascii_lowercase v) n"
  using starts_with_lower [of "''0x''" v]
  by (auto simp: canonical_hex_field_def valid_hex_field_def drop_map list.pred_map comp_def ascii_lower_def [of "CHR ''0''"]
      ascii_lower_def [of "CHR ''x''"])

text \<open>What holds of every device, and what moreover holds of a device of an accepted row.\<close>

definition device_canonical :: "pci_device \<Rightarrow> bool" where
  "device_canonical d \<longleftrightarrow>
     canonical_bdf (pd_bdf d) \<and> canonical_hex_field (pd_vendor d) 4 \<and> canonical_hex_field (pd_device d) 4
     \<and> canonical_hex_field (pd_class d) 6 \<and> pd_upstream_bridge d = upstream_of (bdf_chain (pd_parent_path d))"

definition device_wf :: "pci_device \<Rightarrow> bool" where
  "device_wf d \<longleftrightarrow>
     device_canonical d
     \<and> bdf_chain (pd_parent_path d) \<noteq> [] \<and> to_ascii_lowercase (last (bdf_chain (pd_parent_path d))) = pd_bdf d"

lemma bdf_chain_valid: "b \<in> set (bdf_chain p) \<Longrightarrow> canonical_bdf (to_ascii_lowercase b)"
  by (simp add: bdf_chain_def valid_bdf_lower)

lemma upstream_of_canonical: "upstream_of (bdf_chain p) = Some b \<Longrightarrow> canonical_bdf b"
  using nth_mem [of 1 "rev (bdf_chain p)"] by (auto simp: upstream_of_def list_get_Some simp del: length_rev intro: bdf_chain_valid)

lemma parse_row_wf: "parse_row line = Ok d \<Longrightarrow> device_wf d"
  by (auto simp: parse_row_def device_wf_def device_canonical_def Let_def and_then_eq_Inr valid_bdf_lower valid_hex_lower eq_ignore_ascii_case_def
      split: list.splits if_splits)

text \<open>The rows of a text: the trimmed lines that are neither empty nor comments.\<close>

definition row_lines :: "string list \<Rightarrow> string list" where
  "row_lines ls = filter (\<lambda>l. l \<noteq> [] \<and> \<not> starts_with ''#'' l) (map trim ls)"

lemma parse_rows_Ok:
  "parse_rows n ls = Ok ds \<longleftrightarrow> list_all2 (\<lambda>l d. parse_row l = Ok d) (row_lines ls) ds"
proof (induction ls arbitrary: n ds)
  case (Cons l ls)
  then show ?case
    by (auto simp: row_lines_def Let_def and_then_eq_Inr list_all2_Cons1 split: sum.splits)
qed (auto simp: row_lines_def)

section \<open>Properties\<close>

text \<open>A topology snapshot is accepted exactly when a boot identifier is found and canonical, every row parses, there
  is a device, no two rows name the same address, and every upstream bridge is itself a row; the devices then
  stand in the order of the rows and every one of them is canonical: lower-case address and identity, a path that
  ends in its own address, and the bridge that the path gives.\<close>

theorem parse_pci_snapshot_iff:
  "(parse_pci_snapshot source = Ok snap \<longleftrightarrow>
      (\<exists>raw. boot_raw source = Some raw \<and> normalize_boot_id raw = Ok (ps_boot_id snap))
      \<and> list_all2 (\<lambda>l d. parse_row l = Ok d) (row_lines (lines source)) (ps_devices snap)
      \<and> ps_devices snap \<noteq> [] \<and> distinct (map pd_bdf (ps_devices snap))
      \<and> list_all (\<lambda>d. set_option (pd_upstream_bridge d) \<subseteq> set (map pd_bdf (ps_devices snap))) (ps_devices snap))
   \<and> (case parse_pci_snapshot source of
        Inr s \<Rightarrow> canonical_boot_id (ps_boot_id s) \<and> list_all device_wf (ps_devices s)
      | Inl _ \<Rightarrow> True)"
proof -
  have um: "List.find (upstream_missing ds) ds = None \<longleftrightarrow>
      list_all (\<lambda>d. set_option (pd_upstream_bridge d) \<subseteq> set (map pd_bdf ds)) ds" for ds
    by (auto simp: find_None_iff list_all_iff upstream_missing_def split: option.splits)
  have chk: "(if ds = [] then Err NoDevices else if \<not> distinct (map pd_bdf ds) then Err DuplicateBdfs
        else (case List.find (upstream_missing ds) ds of Some d \<Rightarrow> Err (UpstreamAbsent (pd_bdf d))
              | None \<Rightarrow> Ok \<lparr>ps_boot_id = b, ps_devices = ds\<rparr>)) = Ok snap \<longleftrightarrow>
      ds \<noteq> [] \<and> distinct (map pd_bdf ds)
      \<and> list_all (\<lambda>d. set_option (pd_upstream_bridge d) \<subseteq> set (map pd_bdf ds)) ds
      \<and> b = ps_boot_id snap \<and> ds = ps_devices snap" for ds b snap
    unfolding um [symmetric] by (cases snap) (auto split: option.splits)
  have iff: "parse_pci_snapshot source = Ok snap \<longleftrightarrow>
      (\<exists>raw. boot_raw source = Some raw \<and> normalize_boot_id raw = Ok (ps_boot_id snap))
      \<and> list_all2 (\<lambda>l d. parse_row l = Ok d) (row_lines (lines source)) (ps_devices snap)
      \<and> ps_devices snap \<noteq> [] \<and> distinct (map pd_bdf (ps_devices snap))
      \<and> list_all (\<lambda>d. set_option (pd_upstream_bridge d) \<subseteq> set (map pd_bdf (ps_devices snap))) (ps_devices snap)" for snap
    unfolding parse_pci_snapshot_def and_then_eq_Inr parse_rows_Ok chk ok_or_eq_Inr by blast
  have "list_all2 (\<lambda>l d. parse_row l = Ok d) ls ds \<Longrightarrow> list_all device_wf ds" for ls ds
    by (induction rule: list_all2_induct) (auto dest: parse_row_wf)
  with iff show ?thesis by (auto dest: normalize_boot_id_canonical split: sum.splits)
qed

end
