(* ===== verification/D3_Journal.thy ===== *)
theory D3_Journal
  imports D3_Pci Log_Safe "HOL-Library.Multiset"
begin

text \<open>
  Model of the journal side of \<open>src/src/detectors/d3.rs\<close>: the bounded excerpts, the records of a journal and their
  merging, the test for clocks that run backwards, the precursor rule and the pairing of journals with boots.
  The two timestamp parsers belong to chrono and are parameters; an instant is a number of nanoseconds, with
  the offset of its zone beside it, and date arithmetic is unbounded.  The lemmas show that merging keeps the evidence of
  both sources with its multiplicity, that the test for regression is a bound on the total backward drift, and when
  the precursor rule fires.
\<close>

section \<open>Bounded excerpts\<close>

definition journal_limit :: nat where "journal_limit = 1024 * 1024"

fun preceding_char_boundary :: "string \<Rightarrow> nat \<Rightarrow> nat" where
  "preceding_char_boundary s 0 = 0"
| "preceding_char_boundary s (Suc i) = (if \<not> is_char_boundary s (Suc i) then preceding_char_boundary s i else Suc i)"

definition bounded_end :: "string \<Rightarrow> string" where
  "bounded_end value =
     (if length value \<le> journal_limit then value
      else let start = preceding_char_boundary value (length value - journal_limit);
               start' = (case position (\<lambda>c. c = CHR 0x0A) (drop start value) of
                           Some offset \<Rightarrow> start + offset + 1 | None \<Rightarrow> start)
           in drop start' value)"

definition bounded_start :: "string \<Rightarrow> string" where
  "bounded_start value =
     (if length value \<le> journal_limit then value
      else let e = preceding_char_boundary value journal_limit;
               e' = (case rposition (\<lambda>c. c = CHR 0x0A) (take e value) of Some i \<Rightarrow> i | None \<Rightarrow> e)
           in take e' value)"

definition journal_has_no_entries :: "string \<Rightarrow> bool" where
  "journal_has_no_entries value \<longleftrightarrow> trim value = ''-- No entries --''"

section \<open>Records\<close>

text \<open>A timestamp is its instant in nanoseconds and the offset of its zone in seconds.\<close>

type_synonym stamp = "int \<times> int"

definition naive_local :: "stamp \<Rightarrow> int" where
  "naive_local t = fst t + snd t * 1000000000"

record time_libs =
  parse_rfc3339 :: "string \<Rightarrow> stamp option"
  parse_naive :: "string \<Rightarrow> int option"

definition parse_journal_line :: "time_libs \<Rightarrow> string \<Rightarrow> (stamp \<times> string) option" where
  "parse_journal_line L line =
     do { (st, rest) \<leftarrow> split_once CHR '' '' line; t \<leftarrow> parse_rfc3339 L st; Some (t, rest) }"

definition starts_with_space :: "string \<Rightarrow> bool" where
  "starts_with_space line = (case chars line of [] \<Rightarrow> False | c # _ \<Rightarrow> is_whitespace c)"

record journal_record =
  jr_timestamp :: "stamp option"
  jr_text :: string

definition journal_step :: "time_libs \<Rightarrow> journal_record list \<Rightarrow> string \<Rightarrow> journal_record list" where
  "journal_step L rs line =
     (case parse_journal_line L line of
        Some (t, _) \<Rightarrow> rs @ [\<lparr>jr_timestamp = Some t, jr_text = line\<rparr>]
      | None \<Rightarrow>
          if starts_with_space line \<and> rs \<noteq> []
          then butlast rs @ [(last rs)\<lparr>jr_text := jr_text (last rs) @ [CHR 0x0A] @ line\<rparr>]
          else rs @ [\<lparr>jr_timestamp = None, jr_text = line\<rparr>])"

definition journal_records :: "time_libs \<Rightarrow> string \<Rightarrow> journal_record list" where
  "journal_records L value = foldl (journal_step L) [] (lines value)"

definition fold_step :: "time_libs \<Rightarrow> (stamp \<times> string) list \<Rightarrow> string \<Rightarrow> (stamp \<times> string) list" where
  "fold_step L rs line =
     (case parse_journal_line L line of
        Some (t, rest) \<Rightarrow> rs @ [(t, rest)]
      | None \<Rightarrow>
          if starts_with_space line \<and> rs \<noteq> []
          then butlast rs @ [(fst (last rs), snd (last rs) @ [CHR 0x0A] @ trim_start line)]
          else rs)"

definition fold_journal_records :: "time_libs \<Rightarrow> string \<Rightarrow> (stamp \<times> string) list" where
  "fold_journal_records L value = foldl (fold_step L) [] (lines value)"

section \<open>Merging the two sources of a prior boot\<close>

definition take_kernel :: "journal_record \<Rightarrow> journal_record \<Rightarrow> bool" where
  "take_kernel k t = (case (jr_timestamp k, jr_timestamp t) of (Some a, Some b) \<Rightarrow> fst a \<le> fst b | _ \<Rightarrow> True)"

fun merge_records :: "journal_record list \<Rightarrow> journal_record list \<Rightarrow> journal_record list" where
  "merge_records [] [] = []"
| "merge_records (k # ks) [] = k # merge_records ks []"
| "merge_records [] (t # ts) = t # merge_records [] ts"
| "merge_records (k # ks) (t # ts) =
     (if take_kernel k t then k # merge_records ks (t # ts) else t # merge_records (k # ks) ts)"

definition stable_merge_journal_records :: "journal_record list \<Rightarrow> journal_record list \<Rightarrow> string" where
  "stable_merge_journal_records ks ts = join_with [CHR 0x0A] (map jr_text (merge_records ks ts))"

definition counted :: "(string \<rightharpoonup> nat) \<Rightarrow> string \<Rightarrow> nat" where
  "counted m t = (case m t of None \<Rightarrow> 0 | Some n \<Rightarrow> n)"

definition count_texts :: "journal_record list \<Rightarrow> string \<rightharpoonup> nat" where
  "count_texts rs = foldl (\<lambda>m r. m(jr_text r \<mapsto> counted m (jr_text r) + 1)) Map.empty rs"

fun unique_tail :: "(string \<rightharpoonup> nat) \<Rightarrow> (string \<rightharpoonup> nat) \<Rightarrow> journal_record list \<Rightarrow> journal_record list" where
  "unique_tail kc seen [] = []"
| "unique_tail kc seen (r # rs) =
     (let n = counted seen (jr_text r) + 1; seen' = seen(jr_text r \<mapsto> n)
      in if counted kc (jr_text r) < n then r # unique_tail kc seen' rs else unique_tail kc seen' rs)"

definition combine_prior :: "time_libs \<Rightarrow> string option \<Rightarrow> string option \<Rightarrow> string option" where
  "combine_prior L kern tail =
     (case (kern, tail) of
        (_, None) \<Rightarrow> None
      | (None, Some t) \<Rightarrow> Some t
      | (Some k, Some t) \<Rightarrow>
          let ks = journal_records L k; ts = journal_records L t
          in Some (stable_merge_journal_records ks (unique_tail (count_texts ks) Map.empty ts)))"

section \<open>Clocks that run backwards\<close>

definition timing_regression_tolerance_ms :: int where "timing_regression_tolerance_ms = 100"

fun regress_loop :: "int \<Rightarrow> int \<Rightarrow> int list \<Rightarrow> bool" where
  "regress_loop tolerance cumulative (a # b # rest) =
     (let regression = a - b in
      if regression \<le> 0 then regress_loop tolerance cumulative (b # rest)
      else let cumulative' = cumulative + regression in
        if regression > tolerance \<or> cumulative' > tolerance then True
        else regress_loop tolerance cumulative' (b # rest))"
| "regress_loop tolerance cumulative _ = False"

definition timestamps_regress :: "(stamp \<times> string) list \<Rightarrow> bool" where
  "timestamps_regress rows = regress_loop (timing_regression_tolerance_ms * 1000000) 0 (map (fst \<circ> fst) rows)"

definition journal_timestamps_non_monotonic :: "time_libs \<Rightarrow> string \<Rightarrow> bool" where
  "journal_timestamps_non_monotonic L journal = timestamps_regress (fold_journal_records L journal)"

section \<open>The precursor rule\<close>

definition smu_unresponsive_min :: nat where "smu_unresponsive_min = 3"
definition reset_attempt_min :: nat where "reset_attempt_min = 2"
definition precursor_window_s :: int where "precursor_window_s = 900"

definition kernel_amdgpu_record :: "string \<Rightarrow> string \<Rightarrow> bool" where
  "kernel_amdgpu_record line bdf =
     (case split_once CHR '' '' line of
        None \<Rightarrow> False
      | Some (_, rest) \<Rightarrow>
          (case strip_prefix ''kernel:'' rest of
             None \<Rightarrow> False
           | Some message \<Rightarrow> starts_with (''amdgpu '' @ bdf @ '':'') (trim_start message)))"

definition link_down_for :: "string \<Rightarrow> string option \<Rightarrow> bool" where
  "link_down_for journal upstream =
     list_ex (\<lambda>line. (str_contains ''Link Down'' line \<or> str_contains ''Card not present'' line
                      \<or> str_contains ''Link Active not set'' line)
                \<and> (case upstream of None \<Rightarrow> True | Some bridge \<Rightarrow> str_contains bridge line))
       (lines journal)"

record precursor_result =
  pr_fires :: bool
  pr_smu :: nat
  pr_resets :: nat
  pr_truncated :: bool
  pr_timing_unreliable :: bool
  pr_suppressed :: bool

definition is_smu :: "string \<Rightarrow> bool" where "is_smu line = str_contains ''SMU: response:0xFFFFFFFF'' line"
definition is_reset :: "string \<Rightarrow> bool" where "is_reset line = str_contains ''GPU reset begin'' line"
definition is_recovery :: "string \<Rightarrow> bool" where
  "is_recovery line \<longleftrightarrow> str_contains ''recovered through reset'' line \<or> str_contains ''GPU recovered'' line"

text \<open>The rule reads the slot of the baseline only.\<close>

definition precursor :: "time_libs \<Rightarrow> string \<Rightarrow> string \<Rightarrow> precursor_result" where
  "precursor L tail slot =
     (let rows = fold_journal_records L tail in
      if rows = []
      then \<lparr>pr_fires = False, pr_smu = 0, pr_resets = 0, pr_truncated = False, pr_timing_unreliable = False, pr_suppressed = False\<rparr>
      else let
        earliest = fst (fst (last rows)) - precursor_window_s * 1000000000;
        window = filter (\<lambda>(time, _). earliest \<le> fst time) rows;
        timing_unreliable = timestamps_regress window;
        scoped = filter (\<lambda>(_, line). kernel_amdgpu_record line slot) window;
        smu = length (filter (\<lambda>(_, line). is_smu line) scoped);
        resets = map fst (filter (\<lambda>(_, (_, line)). is_reset line) (enumerate 0 scoped));
        recovered_after_each = list_all (\<lambda>reset. list_ex (\<lambda>(_, line). is_recovery line) (drop (reset + 1) scoped)) resets;
        last_smu_at_end = (scoped \<noteq> [] \<and> is_smu (snd (last scoped)));
        terminal = (resets \<noteq> [] \<and> \<not> recovered_after_each \<or> last_smu_at_end)
      in \<lparr>pr_fires = \<not> timing_unreliable \<and> smu_unresponsive_min \<le> smu \<and> reset_attempt_min \<le> length resets \<and> terminal,
          pr_smu = smu, pr_resets = length resets,
          pr_truncated = \<not> str_contains ''Reached target Shutdown'' tail \<and> \<not> str_contains ''Powering Off'' tail
            \<and> \<not> str_contains ''reboot: Power down'' tail,
          pr_timing_unreliable = timing_unreliable,
          pr_suppressed = str_contains ''printk:'' tail \<and> str_contains ''messages suppressed'' tail\<rparr>)"

section \<open>Pairing journals with boots\<close>

definition inventory_window_grace_s :: int where "inventory_window_grace_s = 3600"

definition parse_inventory_time :: "time_libs \<Rightarrow> string list \<Rightarrow> (d3_error, int) result" where
  "parse_inventory_time L flds =
     (if length flds \<noteq> 4 then Err InventoryTime
      else ok_or InventoryTime (parse_naive L (flds ! 0 @ '' '' @ flds ! 1 @ '' '' @ flds ! 2)))"

fun windows_loop :: "time_libs \<Rightarrow> string list \<Rightarrow> (string \<rightharpoonup> int \<times> int) \<Rightarrow> (d3_error, string \<rightharpoonup> int \<times> int) result" where
  "windows_loop L [] ws = Ok ws"
| "windows_loop L (line # ls) ws =
     (let flds = split_whitespace line in
      case position (\<lambda>f. \<not> isl (normalize_boot_id f)) flds of
        None \<Rightarrow> windows_loop L ls ws
      | Some index \<Rightarrow>
          (case slice_get flds (index + 1) (index + 5) of
             None \<Rightarrow> windows_loop L ls ws
           | Some start_fields \<Rightarrow>
               (case slice_get flds (index + 5) (index + 9) of
                  None \<Rightarrow> windows_loop L ls ws
                | Some end_fields \<Rightarrow>
                    and_then (parse_inventory_time L start_fields) (\<lambda>start.
                    and_then (parse_inventory_time L end_fields) (\<lambda>end.
                    and_then (normalize_boot_id (flds ! index)) (\<lambda>b.
                      windows_loop L ls (ws(b \<mapsto> (start, end)))))))))"

definition parse_inventory_windows :: "time_libs \<Rightarrow> string \<Rightarrow> (d3_error, string \<rightharpoonup> int \<times> int) result" where
  "parse_inventory_windows L source = windows_loop L (lines source) Map.empty"

definition validate_journal_window ::
    "time_libs \<Rightarrow> string \<Rightarrow> string \<Rightarrow> string \<Rightarrow> (string \<rightharpoonup> int \<times> int) \<Rightarrow> (d3_error, unit) result" where
  "validate_journal_window L journal label boot_id windows =
     (case windows boot_id of
        None \<Rightarrow> Err (NoWindow label)
      | Some (start, end) \<Rightarrow>
          (let rows = fold_journal_records L journal; grace = inventory_window_grace_s * 1000000000 in
           if rows = [] then Err (NoStamps label)
           else if naive_local (fst (hd rows)) < start - grace \<or> naive_local (fst (last rows)) > end + grace
           then Err (NotPaired label)
           else Ok ()))"

text \<open>The result carries what is appended to the missing evidence.\<close>

definition validate_supplied_journal_pairing ::
    "time_libs \<Rightarrow> string option \<Rightarrow> string \<Rightarrow> string option \<Rightarrow> string option \<Rightarrow> string option
      \<Rightarrow> (d3_error, string list) result" where
  "validate_supplied_journal_pairing L inventory_source current_boot_id current prior_kernel prior_tail =
     (if current = None \<and> prior_kernel = None \<and> prior_tail = None then Ok []
      else and_then (ok_or PairNoInventory inventory_source) (\<lambda>source.
        and_then (parse_boot_inventory source) (\<lambda>inventory.
        let prior = prior_for inventory current_boot_id in
        and_then (parse_inventory_windows L source) (\<lambda>windows.
        and_then (case current of None \<Rightarrow> Ok ()
                  | Some journal \<Rightarrow> validate_journal_window L journal ''same-boot journal'' current_boot_id windows) (\<lambda>_.
        and_then (case prior_kernel of None \<Rightarrow> Ok []
                  | Some journal \<Rightarrow> (case prior of
                      Some p \<Rightarrow> and_then (validate_journal_window L journal ''prior boot kernel journal'' p windows) (\<lambda>_. Ok [])
                    | None \<Rightarrow> Ok [''supplied prior boot kernel journal could not be attributed to a paired prior boot''])) (\<lambda>m1.
        and_then (case prior_tail of None \<Rightarrow> Ok []
                  | Some journal \<Rightarrow> (case prior of
                      Some p \<Rightarrow> and_then (validate_journal_window L journal ''prior boot journal tail'' p windows) (\<lambda>_. Ok [])
                    | None \<Rightarrow> Ok [''supplied prior boot journal tail could not be attributed to a paired prior boot''])) (\<lambda>m2.
          Ok (m1 @ m2))))))))"

section \<open>Lemmas on excerpts\<close>

lemma preceding_le: "preceding_char_boundary s i \<le> i"
  by (induction s i rule: preceding_char_boundary.induct) auto

lemma preceding_is: "is_char_boundary s (preceding_char_boundary s i)"
  by (induction s i rule: preceding_char_boundary.induct) (auto simp: is_char_boundary_def)

lemma preceding_max: "j \<le> i \<Longrightarrow> is_char_boundary s j \<Longrightarrow> j \<le> preceding_char_boundary s i"
  by (induction s i rule: preceding_char_boundary.induct) (auto simp: le_Suc_eq)

lemma boundary_near:
  "list_all is_scalar cs \<Longrightarrow> i \<le> length (str_of_chars cs) \<Longrightarrow>
     \<exists>j \<le> i. i - j \<le> 3 \<and> is_char_boundary (str_of_chars cs) j"
proof (induction cs arbitrary: i)
  case Nil
  then show ?case by (auto simp: is_char_boundary_def)
next
  case (Cons c cs)
  let ?e = "encode_char c"
  have e: "length ?e \<le> 4" using len_utf8_bounds(2) [of c] by (simp add: length_encode_char)
  show ?case
  proof (cases "i < length ?e")
    case True
    with e show ?thesis by (intro exI [of _ 0]) (auto simp: is_char_boundary_def)
  next
    case False
    have "list_all is_scalar cs" "i - length ?e \<le> length (str_of_chars cs)" using Cons.prems by auto
    from Cons.IH [OF this]
    obtain j where j: "j \<le> i - length ?e" "i - length ?e - j \<le> 3" "is_char_boundary (str_of_chars cs) j" by blast
    have "is_char_boundary (str_of_chars (c # cs)) (length ?e + j)"
    proof (cases "j = 0")
      case True
      show ?thesis
      proof (cases cs)
        case (Cons d ds)
        with Cons.prems(1) encode_char_head_not_cont [of d] show ?thesis
          using True by (cases "encode_char d") (auto simp: is_char_boundary_def nth_append)
      qed (use True in \<open>simp add: is_char_boundary_def\<close>)
    qed (use j(3) in \<open>auto simp: is_char_boundary_def nth_append\<close>)
    with j(1,2) False show ?thesis by (intro exI [of _ "length ?e + j"]) auto
  qed
qed

lemma preceding_near:
  assumes "utf8_valid s" "i \<le> length s"
  shows "i \<le> preceding_char_boundary s i + 3"
proof -
  obtain cs where cs: "list_all is_scalar cs" "s = str_of_chars cs"
    using assms(1) utf8_valid_iff by blast
  with assms(2) boundary_near [of cs i] obtain j where "j \<le> i" "i - j \<le> 3" "is_char_boundary s j" by auto
  with preceding_max [of j i s] show ?thesis by linarith
qed

lemma boundary_split_valid:
  assumes "utf8_valid s" "is_char_boundary s i"
  shows "utf8_valid (take i s) \<and> utf8_valid (drop i s)"
proof -
  have sc: "list_all is_scalar (chars s)" "str_of_chars (chars s) = s"
    using utf8_valid_chars [OF assms(1)] by auto
  have le: "i \<le> length s" using assms(2) by (auto simp: is_char_boundary_def)
  obtain k where k: "take i s = str_of_chars (take k (chars s))"
    using boundary_take_valid [of "chars s" i] sc le assms(2) by auto
  have "drop i s = str_of_chars (drop k (chars s))"
    by (metis k sc(2) append_take_drop_id same_append_eq str_of_chars_simps(3))
  with k sc(1) show ?thesis
    by (metis append_take_drop_id list_all_append utf8_valid_str_of_chars)
qed

lemma position_Some:
  "position p xs = Some i \<longleftrightarrow> i < length xs \<and> p (xs ! i) \<and> (\<forall>j < i. \<not> p (xs ! j))"
proof (induction xs arbitrary: i)
  case (Cons x xs)
  then show ?case by (cases i) (auto simp: less_Suc_eq_0_disj)
qed simp

lemma position_None: "position p xs = None \<longleftrightarrow> (\<forall>x \<in> set xs. \<not> p x)"
  by (induction xs) auto

lemma newline_not_cont: "\<not> is_cont CHR 0x0A"
  by (simp add: is_cont_def)

lemma boundary_after_newline:
  assumes "utf8_valid s" "i < length s" "s ! i = CHR 0x0A"
  shows "is_char_boundary s (i + 1)"
proof -
  have b: "is_char_boundary s i" using assms newline_not_cont by (simp add: is_char_boundary_def)
  then have "utf8_valid (drop i s)" using boundary_split_valid [OF assms(1)] by blast
  moreover have "drop i s = CHR 0x0A # drop (Suc i) s" using assms(2,3) Cons_nth_drop_Suc [of i s] by simp
  ultimately have v: "utf8_valid (CHR 0x0A # drop (Suc i) s)" by simp
  have "utf8_next (CHR 0x0A # r) = Some (10, 1)" for r by (simp add: utf8_next_def)
  with v have "utf8_valid (drop (Suc i) s)" by (subst (asm) utf8_valid.simps) simp
  then obtain cs where cs: "list_all is_scalar cs" "drop (Suc i) s = str_of_chars cs" using utf8_valid_iff by blast
  show ?thesis
  proof (cases cs)
    case Nil
    with cs(2) assms(2) have "i + 1 = length s" by simp
    then show ?thesis by (simp add: is_char_boundary_def)
  next
    case (Cons c ds)
    with cs have "\<not> is_cont (hd (drop (Suc i) s))" "drop (Suc i) s \<noteq> []"
      using encode_char_head_not_cont [of c] by (auto simp: hd_append)
    then show ?thesis by (simp add: is_char_boundary_def hd_drop_conv_nth)
  qed
qed

lemma bounded_end_shape:
  assumes "utf8_valid value" "journal_limit < length value"
  obtains i where "bounded_end value = drop i value" "is_char_boundary value i" "length value \<le> i + journal_limit + 3"
    "(0 < i \<and> value ! (i - 1) = CHR 0x0A) \<or> CHR 0x0A \<notin> set (drop i value)"
proof -
  let ?s = "preceding_char_boundary value (length value - journal_limit)"
  have near: "length value \<le> ?s + journal_limit + 3"
    using preceding_near [OF assms(1), of "length value - journal_limit"] by linarith
  show ?thesis
  proof (cases "position (\<lambda>c. c = CHR 0x0A) (drop ?s value)")
    case None
    with assms(2) have "bounded_end value = drop ?s value" by (simp add: bounded_end_def Let_def)
    moreover have "CHR 0x0A \<notin> set (drop ?s value)" using None by (auto simp: position_None)
    ultimately show ?thesis using that near preceding_is by blast
  next
    case (Some k)
    then have k: "k < length (drop ?s value)" "value ! (?s + k) = CHR 0x0A" by (auto simp: position_Some)
    have be: "bounded_end value = drop (?s + k + 1) value"
      using Some assms(2) by (simp add: bounded_end_def Let_def)
    have bd: "is_char_boundary value (?s + k + 1)"
      using boundary_after_newline [OF assms(1), of "?s + k"] k by simp
    show ?thesis by (rule that [OF be bd]) (use near k(2) in auto)
  qed
qed

lemma bounded_start_shape:
  assumes "utf8_valid value" "journal_limit < length value"
  obtains i where "bounded_start value = take i value" "is_char_boundary value i" "i \<le> journal_limit"
    "value ! i = CHR 0x0A \<or> CHR 0x0A \<notin> set (take i value)"
proof -
  let ?e = "preceding_char_boundary value journal_limit"
  have le: "?e \<le> journal_limit" by (rule preceding_le)
  show ?thesis
  proof (cases "position (\<lambda>c. c = CHR 0x0A) (rev (take ?e value))")
    case None
    with assms(2) have "bounded_start value = take ?e value" by (simp add: bounded_start_def Let_def rposition_def)
    moreover have "CHR 0x0A \<notin> set (take ?e value)" using None by (auto simp: position_None)
    ultimately show ?thesis using that le preceding_is by blast
  next
    case (Some k)
    let ?n = "length (take ?e value)"
    have n: "?n = ?e" using le assms(2) by simp
    have k: "k < ?e" "rev (take ?e value) ! k = CHR 0x0A" using Some n by (auto simp: position_Some)
    then have nl: "value ! (?e - 1 - k) = CHR 0x0A" using n by (simp add: rev_nth)
    have bs: "bounded_start value = take (?e - 1 - k) value"
      using Some assms(2) n by (simp add: bounded_start_def Let_def rposition_def)
    have bd: "is_char_boundary value (?e - 1 - k)"
      using nl le k(1) assms(2) newline_not_cont
      by (metis is_char_boundary_def less_imp_diff_less less_le_trans linorder_not_le)
    show ?thesis by (rule that [OF bs bd]) (use nl le in auto)
  qed
qed

section \<open>Lemmas on drift\<close>

fun drift :: "int list \<Rightarrow> int" where
  "drift (a # b # rest) = max 0 (a - b) + drift (b # rest)"
| "drift _ = 0"

lemma drift_nonneg: "0 \<le> drift ts"
  by (induction ts rule: drift.induct) auto

lemma regress_loop_iff: "0 \<le> cum \<Longrightarrow> cum \<le> tol \<Longrightarrow> regress_loop tol cum ts \<longleftrightarrow> tol < cum + drift ts"
proof (induction tol cum ts rule: regress_loop.induct)
  case (1 tol cum a b rest)
  have d: "0 \<le> drift (b # rest)" by (rule drift_nonneg)
  consider "a - b \<le> 0" | "0 < a - b" "tol < cum + (a - b)" | "0 < a - b" "cum + (a - b) \<le> tol" by linarith
  then show ?case
  proof cases
    case 1
    with "1.IH"(1) "1.prems" show ?thesis by (simp add: Let_def)
  next
    case 2
    with d show ?thesis by (simp add: Let_def)
  next
    case 3
    then have "a - b \<le> tol" using "1.prems"(1) by linarith
    with 3 "1.IH"(2) "1.prems" show ?thesis by (simp add: Let_def add.assoc)
  qed
qed simp_all

lemma drift_sum: "drift ts = (\<Sum>(a, b) \<leftarrow> zip ts (tl ts). max 0 (a - b))"
  by (induction ts rule: drift.induct) simp_all

lemma drift_monotone: "sorted ts \<Longrightarrow> drift ts = 0"
  by (induction ts rule: drift.induct) simp_all

section \<open>Lemmas on merging\<close>

lemma merge_records_Nil [simp]: "merge_records ks [] = ks" "merge_records [] ts = ts"
  by (induction ks) (simp_all, induction ts, simp_all)

lemma merge_records_shuffles: "merge_records ks ts \<in> shuffles ks ts"
  by (induction ks ts rule: merge_records.induct) (auto intro: Cons_in_shuffles_leftI Cons_in_shuffles_rightI)

lemma mset_merge_records: "mset (merge_records ks ts) = mset ks + mset ts"
  by (induction ks ts rule: merge_records.induct) auto

definition stamp_of :: "journal_record \<Rightarrow> int" where
  "stamp_of r = (case jr_timestamp r of Some t \<Rightarrow> fst t | None \<Rightarrow> 0)"

definition chronological :: "journal_record list \<Rightarrow> bool" where
  "chronological rs \<longleftrightarrow> list_all (\<lambda>r. jr_timestamp r \<noteq> None) rs \<and> sorted (map stamp_of rs)"

lemma merge_records_set: "set (merge_records ks ts) = set ks \<union> set ts"
  by (metis mset_merge_records set_mset_mset set_mset_union)

lemma merge_records_chronological:
  "chronological ks \<Longrightarrow> chronological ts \<Longrightarrow> chronological (merge_records ks ts)"
proof (induction ks ts rule: merge_records.induct)
  case (4 k ks t ts)
  then obtain a b where "jr_timestamp k = Some a" "jr_timestamp t = Some b" by (auto simp: chronological_def)
  then have "take_kernel k t \<longleftrightarrow> stamp_of k \<le> stamp_of t" by (simp add: take_kernel_def stamp_of_def)
  with 4 show ?case by (fastforce simp: chronological_def merge_records_set list_all_iff)
qed (auto simp: chronological_def)

lemma chronological_subseq: "subseq us ts \<Longrightarrow> chronological ts \<Longrightarrow> chronological us"
  unfolding chronological_def by (induction rule: list_emb.induct) (auto dest: list_emb_set)

lemma counted_update [simp]: "counted (m(t \<mapsto> n)) x = (if x = t then n else counted m x)"
  by (simp add: counted_def)

lemma counted_foldl:
  "counted (foldl (\<lambda>m r. m(jr_text r \<mapsto> counted m (jr_text r) + 1)) m rs) x = counted m x + count (mset (map jr_text rs)) x"
  by (induction rs arbitrary: m) auto

lemma counted_count_texts: "counted (count_texts rs) x = count (mset (map jr_text rs)) x"
  by (simp only: count_texts_def counted_foldl) (simp add: counted_def)

lemma unique_tail_subseq: "subseq (unique_tail kc seen rs) rs"
  by (induction rs arbitrary: seen) (auto simp: Let_def subseq_Cons')

lemma unique_tail_count:
  "count (mset (map jr_text (unique_tail kc seen rs))) x =
     max (counted kc x) (counted seen x + count (mset (map jr_text rs)) x) - max (counted kc x) (counted seen x)"
proof (induction rs arbitrary: seen)
  case (Cons r rs)
  then show ?case by (auto simp: Let_def simp del: fun_upd_apply)
qed simp

section \<open>Lemmas on the precursor rule\<close>

text \<open>The rows of the trailing window, and the messages of the driver for the slot among them.\<close>

definition trailing_window :: "time_libs \<Rightarrow> string \<Rightarrow> (stamp \<times> string) list" where
  "trailing_window L tail =
     (let rows = fold_journal_records L tail
      in filter (\<lambda>(time, _). fst (fst (last rows)) - 900000000000 \<le> fst time) rows)"

definition driver_messages :: "time_libs \<Rightarrow> string \<Rightarrow> string \<Rightarrow> string list" where
  "driver_messages L tail slot = filter (\<lambda>line. kernel_amdgpu_record line slot) (map snd (trailing_window L tail))"

lemma enumerate_filter_length: "length (filter (\<lambda>(i, x). p x) (enumerate n xs)) = length (filter p xs)"
  by (induction xs arbitrary: n) auto

lemma enumerate_filter_set:
  "i \<in> fst ` set (filter (\<lambda>(i, x). p x) (enumerate n xs)) \<longleftrightarrow> n \<le> i \<and> i < n + length xs \<and> p (xs ! (i - n))"
  by (force simp: in_set_enumerate_eq image_iff)

lemma unrecovered_iff:
  "(\<exists>i < length xs. p (xs ! i) \<and> \<not> list_ex q (drop (i + 1) xs)) \<longleftrightarrow>
     (\<exists>pre r post. xs = pre @ r # post \<and> p r \<and> \<not> list_ex q post)"
proof
  assume "\<exists>i < length xs. p (xs ! i) \<and> \<not> list_ex q (drop (i + 1) xs)"
  then obtain i where "i < length xs" "p (xs ! i)" "\<not> list_ex q (drop (i + 1) xs)" by blast
  then show "\<exists>pre r post. xs = pre @ r # post \<and> p r \<and> \<not> list_ex q post"
    using id_take_nth_drop [of i xs] by (metis Suc_eq_plus1)
next
  assume "\<exists>pre r post. xs = pre @ r # post \<and> p r \<and> \<not> list_ex q post"
  then obtain pre r post where "xs = pre @ r # post" "p r" "\<not> list_ex q post" by blast
  then show "\<exists>i < length xs. p (xs ! i) \<and> \<not> list_ex q (drop (i + 1) xs)"
    by (intro exI [of _ "length pre"]) simp
qed

lemma precursor_rows:
  "fold_journal_records L tail = [] \<Longrightarrow> trailing_window L tail = [] \<and> driver_messages L tail slot = []"
  by (simp add: trailing_window_def driver_messages_def)

lemma driver_messages_scoped:
  "driver_messages L tail slot = map snd (filter (\<lambda>(_, line). kernel_amdgpu_record line slot) (trailing_window L tail))"
  by (simp add: driver_messages_def filter_map comp_def case_prod_unfold)

lemma precursor_fields:
  fixes L tail slot
  defines "ms \<equiv> driver_messages L tail slot"
  shows "pr_smu (precursor L tail slot) = length (filter is_smu ms)"
    "pr_resets (precursor L tail slot) = length (filter is_reset ms)"
    "pr_timing_unreliable (precursor L tail slot) = timestamps_regress (trailing_window L tail)"
    "pr_fires (precursor L tail slot) \<longleftrightarrow>
       \<not> timestamps_regress (trailing_window L tail) \<and> 3 \<le> length (filter is_smu ms) \<and> 2 \<le> length (filter is_reset ms)
       \<and> (is_smu (last ms) \<or> (\<exists>i < length ms. is_reset (ms ! i) \<and> \<not> list_ex is_recovery (drop (i + 1) ms)))"
proof -
  let ?rows = "fold_journal_records L tail"
  let ?w = "trailing_window L tail"
  let ?sc = "filter (\<lambda>(_, line). kernel_amdgpu_record line slot) ?w"
  let ?rs = "map fst (filter (\<lambda>(_, (_, line)). is_reset line) (enumerate 0 ?sc))"
  have ms: "ms = map snd ?sc" unfolding ms_def by (rule driver_messages_scoped)
  have w: "?w = filter (\<lambda>(time, _). fst (fst (last ?rows)) - precursor_window_s * 1000000000 \<le> fst time) ?rows"
    by (simp add: trailing_window_def precursor_window_s_def Let_def)
  have len: "length (filter (\<lambda>(_, line). p line) ?sc) = length (filter p ms)" for p
    unfolding ms by (simp add: filter_map comp_def case_prod_unfold)
  have rl: "length ?rs = length (filter is_reset ms)"
    using enumerate_filter_length [of "\<lambda>(_, line). is_reset line" 0 ?sc] len [of is_reset] by simp
  have rset: "i \<in> set ?rs \<longleftrightarrow> i < length ms \<and> is_reset (ms ! i)" for i
    using enumerate_filter_set [of i "\<lambda>(_, line). is_reset line" 0 ?sc]
    by (auto simp: ms case_prod_unfold)
  have ex: "list_ex (\<lambda>(_, line). is_recovery line) (drop n ?sc) \<longleftrightarrow> list_ex is_recovery (drop n ms)" for n
    by (simp add: ms drop_map list_ex_iff case_prod_unfold)
  have rec: "list_all (\<lambda>reset. list_ex (\<lambda>(_, line). is_recovery line) (drop (reset + 1) ?sc)) ?rs \<longleftrightarrow>
      \<not> (\<exists>i < length ms. is_reset (ms ! i) \<and> \<not> list_ex is_recovery (drop (i + 1) ms))"
    unfolding list_all_iff ex using rset by blast
  have ne: "?rs \<noteq> []" if "2 \<le> length (filter is_reset ms)" using that rl by force
  have lst: "?sc \<noteq> [] \<and> is_smu (snd (last ?sc)) \<longleftrightarrow> ms \<noteq> [] \<and> is_smu (last ms)"
    by (auto simp: ms last_map)
  have "?rows = [] \<Longrightarrow> ms = [] \<and> ?w = []" using precursor_rows [of L tail slot] by (simp add: ms_def)
  note facts = precursor_def Let_def w [symmetric] len rl rec
  show "pr_smu (precursor L tail slot) = length (filter is_smu ms)"
    "pr_resets (precursor L tail slot) = length (filter is_reset ms)"
    "pr_timing_unreliable (precursor L tail slot) = timestamps_regress ?w"
    using \<open>?rows = [] \<Longrightarrow> ms = [] \<and> ?w = []\<close> unfolding facts
    by (auto simp: timestamps_regress_def simp del: filter_filter)
  show "pr_fires (precursor L tail slot) \<longleftrightarrow>
       \<not> timestamps_regress ?w \<and> 3 \<le> length (filter is_smu ms) \<and> 2 \<le> length (filter is_reset ms)
       \<and> (is_smu (last ms) \<or> (\<exists>i < length ms. is_reset (ms ! i) \<and> \<not> list_ex is_recovery (drop (i + 1) ms)))"
    using \<open>?rows = [] \<Longrightarrow> ms = [] \<and> ?w = []\<close> ne lst unfolding facts smu_unresponsive_min_def reset_attempt_min_def
    by (auto simp del: filter_filter)
qed

section \<open>Properties\<close>

text \<open>The precursor rule fires exactly when, among the driver's messages for the slot in the last 900 seconds before
  the journal ends, the clock is reliable, the management unit failed to answer at least three times, at least two
  resets began, and the story ends badly: the last message is such a failure, or some reset is followed by
  no recovery.\<close>

theorem precursor_fires_iff:
  "pr_fires (precursor L tail slot) \<longleftrightarrow>
     \<not> timestamps_regress (trailing_window L tail)
     \<and> 3 \<le> length (filter is_smu (driver_messages L tail slot))
     \<and> 2 \<le> length (filter is_reset (driver_messages L tail slot))
     \<and> (is_smu (last (driver_messages L tail slot))
        \<or> (\<exists>before reset later. driver_messages L tail slot = before @ reset # later \<and> is_reset reset
            \<and> \<not> list_ex is_recovery later))"
  unfolding precursor_fields unrecovered_iff ..

text \<open>Merging the kernel journal with the tail of the same boot loses no evidence and invents none: the result is
  the lines of an interleaving of the kernel records with a subsequence of the tail records in which every text
  occurs as often as in the source that has it most often; and where both sources are stamped and in order of
  time, so is the result.\<close>

theorem combine_prior_evidence:
  "\<exists>M U. combine_prior L (Some k) (Some t) = Some (join_with [CHR 0x0A] (map jr_text M))
     \<and> M \<in> shuffles (journal_records L k) U \<and> subseq U (journal_records L t)
     \<and> mset (map jr_text M) = mset (map jr_text (journal_records L k)) \<union># mset (map jr_text (journal_records L t))
     \<and> (chronological (journal_records L k) \<longrightarrow> chronological (journal_records L t) \<longrightarrow> chronological M)"
proof -
  let ?ks = "journal_records L k" and ?ts = "journal_records L t"
  let ?U = "unique_tail (count_texts ?ks) Map.empty ?ts"
  let ?M = "merge_records ?ks ?U"
  have eq: "combine_prior L (Some k) (Some t) = Some (join_with [CHR 0x0A] (map jr_text ?M))"
    by (simp add: combine_prior_def stable_merge_journal_records_def Let_def)
  have sub: "subseq ?U ?ts" by (rule unique_tail_subseq)
  have "count (mset (map jr_text ?M)) x = count (mset (map jr_text ?ks) \<union># mset (map jr_text ?ts)) x" for x
    using unique_tail_count [of "count_texts ?ks" Map.empty ?ts x] counted_count_texts [of ?ks x]
    by (simp add: mset_merge_records counted_def [of Map.empty])
  then have ms: "mset (map jr_text ?M) = mset (map jr_text ?ks) \<union># mset (map jr_text ?ts)" by (rule multiset_eqI)
  have "chronological ?ts \<Longrightarrow> chronological ?U" by (rule chronological_subseq [OF sub])
  with merge_records_chronological [of ?ks ?U]
  have "chronological ?ks \<longrightarrow> chronological ?ts \<longrightarrow> chronological ?M" by blast
  with eq sub ms merge_records_shuffles [of ?ks ?U] show ?thesis by blast
qed

text \<open>The clock of a journal counts as unreliable exactly when its backward steps add up to more than the
  tolerance of 100 milliseconds.\<close>

theorem timestamps_regress_iff:
  "timestamps_regress rows \<longleftrightarrow>
     (\<Sum>(a, b) \<leftarrow> zip (map (fst \<circ> fst) rows) (tl (map (fst \<circ> fst) rows)). max 0 (a - b)) > 100000000"
  using regress_loop_iff [of 0 100000000 "map (fst \<circ> fst) rows"]
  by (simp add: timestamps_regress_def timing_regression_tolerance_ms_def drift_sum)

text \<open>The excerpts are sound: the end excerpt is a valid suffix of at most three bytes over the limit, the start
  excerpt a valid prefix within the limit, each is the whole text when that fits, and a cut falls on a line break
  wherever the excerpt has one.\<close>

theorem bounded_excerpts:
  assumes "utf8_valid value"
  shows "suffix (bounded_end value) value \<and> utf8_valid (bounded_end value)
     \<and> length (bounded_end value) \<le> journal_limit + 3
     \<and> prefix (bounded_start value) value \<and> utf8_valid (bounded_start value)
     \<and> length (bounded_start value) \<le> journal_limit
     \<and> (if length value \<le> journal_limit then bounded_end value = value \<and> bounded_start value = value
        else (suffix (CHR 0x0A # bounded_end value) value \<or> CHR 0x0A \<notin> set (bounded_end value))
           \<and> (prefix (bounded_start value @ [CHR 0x0A]) value \<or> CHR 0x0A \<notin> set (bounded_start value)))"
proof (cases "length value \<le> journal_limit")
  case True
  then show ?thesis using assms by (simp add: bounded_end_def bounded_start_def)
next
  case False
  then have gt: "journal_limit < length value" by simp
  obtain i where i: "bounded_end value = drop i value" "is_char_boundary value i" "length value \<le> i + journal_limit + 3"
    "(0 < i \<and> value ! (i - 1) = CHR 0x0A) \<or> CHR 0x0A \<notin> set (drop i value)"
    by (rule bounded_end_shape [OF assms gt])
  obtain j where j: "bounded_start value = take j value" "is_char_boundary value j" "j \<le> journal_limit"
    "value ! j = CHR 0x0A \<or> CHR 0x0A \<notin> set (take j value)"
    by (rule bounded_start_shape [OF assms gt])
  have "i \<le> length value" using i(2) by (auto simp: is_char_boundary_def)
  then have "0 < i \<Longrightarrow> value ! (i - 1) = CHR 0x0A \<Longrightarrow> suffix (CHR 0x0A # drop i value) value"
    using Cons_nth_drop_Suc [of "i - 1" "value"] suffix_drop [of "i - 1" "value"] by simp
  moreover have "value ! j = CHR 0x0A \<Longrightarrow> prefix (take j value @ [CHR 0x0A]) value"
    using take_Suc_conv_app_nth [of j "value"] take_is_prefix [of "Suc j" "value"] j(3) gt by simp
  ultimately show ?thesis
    using i j False boundary_split_valid [OF assms i(2)] boundary_split_valid [OF assms j(2)]
    by (auto simp: suffix_drop take_is_prefix)
qed

section \<open>Witnesses\<close>

definition small_stamps :: time_libs where
  "small_stamps = \<lparr>parse_rfc3339 = (\<lambda>s. if s = ''1'' then Some (1, 0) else if s = ''2'' then Some (2, 0)
     else if s = ''3'' then Some (3, 0) else None), parse_naive = (\<lambda>s. None)\<rparr>"

lemma small_journals:
  "journal_records small_stamps (''1 a'' @ [CHR 0x0A] @ ''2 b'') =
     [\<lparr>jr_timestamp = Some (1, 0), jr_text = ''1 a''\<rparr>, \<lparr>jr_timestamp = Some (2, 0), jr_text = ''2 b''\<rparr>]"
  "journal_records small_stamps (''2 b'' @ [CHR 0x0A] @ ''3 c'') =
     [\<lparr>jr_timestamp = Some (2, 0), jr_text = ''2 b''\<rparr>, \<lparr>jr_timestamp = Some (3, 0), jr_text = ''3 c''\<rparr>]"
  by (simp_all add: journal_records_def lines_def journal_step_def parse_journal_line_def small_stamps_def Let_def strip_cr_def)

theorem combine_prior_evidence_witness:
  "\<exists>M. combine_prior small_stamps (Some (''1 a'' @ [CHR 0x0A] @ ''2 b'')) (Some (''2 b'' @ [CHR 0x0A] @ ''3 c''))
       = Some (join_with [CHR 0x0A] (map jr_text M))
     \<and> chronological M \<and> mset (map jr_text M) = {#''1 a'', ''2 b'', ''3 c''#}"
proof -
  let ?k = "''1 a'' @ [CHR 0x0A] @ ''2 b''" and ?t = "''2 b'' @ [CHR 0x0A] @ ''3 c''"
  have c: "chronological (journal_records small_stamps ?k)" "chronological (journal_records small_stamps ?t)"
    unfolding small_journals by (simp_all add: chronological_def stamp_of_def)
  have m: "mset (map jr_text (journal_records small_stamps ?k)) \<union># mset (map jr_text (journal_records small_stamps ?t))
      = {#''1 a'', ''2 b'', ''3 c''#}"
    unfolding small_journals by (rule multiset_eqI) simp
  show ?thesis using combine_prior_evidence [of small_stamps ?k ?t] c unfolding m by blast
qed

theorem bounded_excerpts_witness:
  "bounded_end ''end'' = ''end'' \<and> bounded_start ''end'' = ''end'' \<and> utf8_valid (bounded_end ''end'')"
proof -
  have v: "utf8_valid ''end''" by code_simp
  have l: "length ''end'' \<le> journal_limit" by (simp add: journal_limit_def)
  show ?thesis using bounded_excerpts [OF v] l v by (simp only: if_True)
qed

end
