(* ===== verification/D3_Redact.thy ===== *)
theory D3_Redact
  imports D3_Pci
begin

text \<open>
  Model of the privacy guard of \<open>src/src/detectors/d3.rs\<close>: \<open>redact_excerpt\<close> and the tests it makes on each word
  of an excerpt.  Which characters are upper case is a Unicode table and a parameter.  The lemmas show what can
  no longer occur in a redacted excerpt.
\<close>

section \<open>Tests on a word\<close>

definition is_wrapping :: "nat \<Rightarrow> bool" where
  "is_wrapping c \<longleftrightarrow> c = 0x2C \<or> c = 0x3B \<or> c = 0x28 \<or> c = 0x29 \<or> c = 0x5B \<or> c = 0x5D"

definition looks_like_bare_hostname :: "(nat \<Rightarrow> bool) \<Rightarrow> string \<Rightarrow> bool" where
  "looks_like_bare_hostname upper value \<longleftrightarrow> CHR ''-'' \<in> set value \<or> list_ex upper (chars value)"

definition looks_like_mac :: "string \<Rightarrow> bool" where
  "looks_like_mac value =
     (let parts = split_on CHR '':'' value
      in length parts = 6 \<and> list_all (\<lambda>part. length part = 2 \<and> list_all is_hexdigit part) parts)"

definition looks_like_ipv6 :: "string \<Rightarrow> bool" where
  "looks_like_ipv6 value =
     (let clean = trim_matches is_wrapping value
      in 2 \<le> count_list clean CHR '':'' \<and> list_all (\<lambda>c. is_hexdigit c \<or> c = CHR '':'' \<or> c = CHR ''.'') clean)"

definition looks_like_private_path :: "string \<Rightarrow> bool" where
  "looks_like_private_path value \<longleftrightarrow>
     starts_with ''/home/'' value \<or> starts_with ''/Users/'' value \<or> str_contains ''/home/'' value \<or> str_contains ''/Users/'' value"

fun hex_run_loop :: "nat \<Rightarrow> string \<Rightarrow> bool" where
  "hex_run_loop run [] = False"
| "hex_run_loop run (c # cs) =
     (if is_hexdigit c then (if 16 \<le> run + 1 then True else hex_run_loop (run + 1) cs) else hex_run_loop 0 cs)"

definition has_long_hex_run :: "string \<Rightarrow> bool" where
  "has_long_hex_run value = hex_run_loop 0 value"

definition looks_like_uuid :: "string \<Rightarrow> bool" where
  "looks_like_uuid value = (\<not> isl (normalize_boot_id value))"

section \<open>Redaction\<close>

definition other_host :: "string option \<Rightarrow> string \<Rightarrow> bool" where
  "other_host target_host clean = (case target_host of None \<Rightarrow> True | Some host \<Rightarrow> clean \<noteq> host)"

definition redact_word :: "(nat \<Rightarrow> bool) \<Rightarrow> string option \<Rightarrow> nat \<Rightarrow> string \<Rightarrow> string" where
  "redact_word upper target_host index word =
     (let clean = trim_matches is_wrapping word in
      if str_contains ''@'' clean then ''[REDACTED_USER]''
      else if looks_like_private_path clean then ''[REDACTED_PATH]''
      else if looks_like_mac clean then ''[REDACTED_MAC]''
      else if looks_like_ipv6 clean then ''[REDACTED_IPV6]''
      else if looks_like_uuid clean then ''[REDACTED_UUID]''
      else if str_contains ''serial'' (to_ascii_lowercase clean) \<or> starts_with ''SN='' clean \<or> has_long_hex_run clean
      then ''[REDACTED_SERIAL]''
      else if index = 1 \<and> looks_like_bare_hostname upper clean \<and> other_host target_host clean
        \<or> str_contains ''hostname='' clean
        \<or> CHR ''.'' \<in> set clean \<and> CHR '':'' \<notin> set clean \<and> other_host target_host clean
      then ''[REDACTED_HOST]''
      else word)"

definition redact_excerpt :: "(nat \<Rightarrow> bool) \<Rightarrow> string \<Rightarrow> string option \<Rightarrow> string" where
  "redact_excerpt upper value target_host =
     (let no_controls = str_of_chars (filter (\<lambda>c. \<not> is_control c) (chars value));
          words = map (\<lambda>(index, word). redact_word upper target_host index word) (enumerate 0 (split_whitespace no_controls))
      in str_of_chars (take 1024 (chars (join_with '' '' words))))"

text \<open>\<open>split_once(": ")\<close>: only the text after the first colon and space is redacted.\<close>

definition split_once_str :: "string \<Rightarrow> string \<Rightarrow> (string \<times> string) option" where
  "split_once_str p s = map_option (\<lambda>i. (take i s, drop (i + length p) s)) (find_str p s)"

definition redact_collection_missing :: "(nat \<Rightarrow> bool) \<Rightarrow> string \<Rightarrow> string option \<Rightarrow> string" where
  "redact_collection_missing upper value target_host =
     (case split_once_str '': '' value of
        None \<Rightarrow> redact_excerpt upper value target_host
      | Some (pre, excerpt) \<Rightarrow> pre @ '': '' @ redact_excerpt upper excerpt target_host)"

definition redacted_collection_failure :: "(nat \<Rightarrow> bool) \<Rightarrow> string \<Rightarrow> string option \<Rightarrow> string" where
  "redacted_collection_failure = redact_collection_missing"

section \<open>Occurrences\<close>

definition occurs :: "('a list \<Rightarrow> bool) \<Rightarrow> 'a list \<Rightarrow> bool" where
  "occurs H s \<longleftrightarrow> (\<exists>a h b. s = a @ h @ b \<and> H h)"

lemma occursI: "H h \<Longrightarrow> occurs H (a @ h @ b)"
  by (auto simp: occurs_def)

lemma occurs_extend: "occurs H s \<Longrightarrow> occurs H (a @ s @ b)"
  unfolding occurs_def by (metis append.assoc)

lemma occurs_append_sep:
  assumes "\<And>h. H h \<Longrightarrow> x \<notin> set h \<and> h \<noteq> []" "occurs H (s @ x # t)"
  shows "occurs H s \<or> occurs H t"
proof -
  obtain a h b where e: "s @ x # t = a @ h @ b" "H h" using assms(2) by (auto simp: occurs_def)
  have "x \<notin> set h" "h \<noteq> []" using assms(1) e(2) by auto
  consider "length (a @ h) \<le> length s" | "length s < length a" | "length a \<le> length s" "length s < length (a @ h)" by linarith
  then show ?thesis
  proof cases
    case 1
    then obtain u where "s = a @ h @ u" using e(1)
      by (metis append.assoc append_eq_append_conv_if append_take_drop_id)
    with e(2) show ?thesis by (auto simp: occurs_def)
  next
    case 2
    then have "prefix (s @ [x]) a"
      using e(1) by (metis Suc_leI append.assoc append_Cons append_Nil length_append_singleton prefixI prefix_length_prefix)
    then obtain u where "a = (s @ [x]) @ u" by (rule prefixE)
    with e have "t = u @ h @ b" by simp
    with e(2) show ?thesis using occursI by metis
  next
    case 3
    have "(s @ x # t) ! length s = x" by simp
    then have "(a @ h @ b) ! length s = x" using e(1) by simp
    moreover have lt: "length s - length a < length h" using 3 by simp
    ultimately have "h ! (length s - length a) = x" using 3(1) by (simp add: nth_append)
    with lt have "x \<in> set h" by (metis nth_mem)
    with \<open>x \<notin> set h\<close> show ?thesis by simp
  qed
qed

lemma occurs_join:
  assumes "\<And>h. H h \<Longrightarrow> x \<notin> set h \<and> h \<noteq> []" "occurs H (join_with [x] ws)"
  shows "\<exists>w \<in> set ws. occurs H w"
  using assms(2)
proof (induction "[x]" ws rule: join_with.induct)
  case 1
  with assms(1) show ?case by (auto simp: occurs_def)
next
  case (3 w v ws)
  then show ?case using occurs_append_sep [of H x w "join_with [x] (v # ws)", OF assms(1)] by auto
qed auto

lemma occurs_pattern: "occurs ((=) p) s \<longleftrightarrow> str_contains p s"
  by (auto simp: occurs_def str_contains_iff)

text \<open>Sixteen hexadecimal digits in a row.\<close>

definition hex16 :: "string \<Rightarrow> bool" where
  "hex16 h \<longleftrightarrow> length h = 16 \<and> list_all is_hexdigit h"

lemma occurs_Cons: "occurs H (c # s) \<longleftrightarrow> (\<exists>h b. c # s = h @ b \<and> H h) \<or> occurs H s"
  unfolding occurs_def by (metis append_Cons append_Nil append_eq_Cons_conv)

lemma hex16_prefix: "(\<exists>h b. s = h @ b \<and> hex16 h) \<longleftrightarrow> 16 \<le> length (takeWhile is_hexdigit s)"
proof
  assume "\<exists>h b. s = h @ b \<and> hex16 h"
  then obtain h b where "s = h @ b" "hex16 h" by blast
  then show "16 \<le> length (takeWhile is_hexdigit s)" by (simp add: hex16_def list_all_iff takeWhile_append2)
next
  assume a: "16 \<le> length (takeWhile is_hexdigit s)"
  have "s = take 16 (takeWhile is_hexdigit s) @ drop 16 (takeWhile is_hexdigit s) @ dropWhile is_hexdigit s"
    by (metis append.assoc append_take_drop_id takeWhile_dropWhile_id)
  moreover have "hex16 (take 16 (takeWhile is_hexdigit s))"
    using a by (auto simp: hex16_def list_all_iff dest: in_set_takeD set_takeWhileD)
  ultimately show "\<exists>h b. s = h @ b \<and> hex16 h" by blast
qed

lemma hex_run_loop_iff:
  "r < 16 \<Longrightarrow> hex_run_loop r s \<longleftrightarrow> 16 \<le> r + length (takeWhile is_hexdigit s) \<or> occurs hex16 s"
proof (induction s arbitrary: r)
  case Nil
  then show ?case by (auto simp: occurs_def hex16_def)
next
  case (Cons c s)
  have o: "occurs hex16 (c # s) \<longleftrightarrow> 16 \<le> length (takeWhile is_hexdigit (c # s)) \<or> occurs hex16 s"
    by (simp only: occurs_Cons hex16_prefix)
  show ?case
  proof (cases "is_hexdigit c")
    case True
    then show ?thesis using Cons.IH [of "r + 1"] Cons.prems o by auto
  next
    case False
    have "16 \<le> length (takeWhile is_hexdigit s) \<Longrightarrow> occurs hex16 s"
      using hex16_prefix [of s] by (metis append_Nil occursI)
    with False show ?thesis using Cons.IH [of 0] Cons.prems o by auto
  qed
qed

lemma has_long_hex_run_iff: "has_long_hex_run s \<longleftrightarrow> occurs hex16 s"
proof -
  have "16 \<le> length (takeWhile is_hexdigit s) \<Longrightarrow> occurs hex16 s"
    using hex16_prefix [of s] by (metis append_Nil occursI)
  then show ?thesis using hex_run_loop_iff [of 0 s] by (auto simp: has_long_hex_run_def)
qed

section \<open>Clean texts\<close>

text \<open>Valid text with no control character and nothing private that the guard recognises.\<close>

definition plain :: "string \<Rightarrow> bool" where
  "plain s \<longleftrightarrow> utf8_valid s \<and> list_all (\<lambda>c. \<not> is_control c) (chars s)"

definition private_parts :: "(string \<Rightarrow> bool) list" where
  "private_parts = [(=) ''@'', (=) ''/home/'', (=) ''/Users/'', hex16]"

definition discreet :: "string \<Rightarrow> bool" where
  "discreet s \<longleftrightarrow> list_all (\<lambda>H. \<not> occurs H s) private_parts"

lemma discreet_iff:
  "discreet s \<longleftrightarrow> \<not> str_contains ''@'' s \<and> \<not> str_contains ''/home/'' s \<and> \<not> str_contains ''/Users/'' s \<and> \<not> has_long_hex_run s"
  by (simp add: discreet_def private_parts_def occurs_pattern has_long_hex_run_iff)

lemma hexdigit_not_wrapping: "is_hexdigit c \<Longrightarrow> c \<notin> {CHR '' '', CHR '','', CHR '';'', CHR ''('', CHR '')'', CHR ''['', CHR '']''}"
  by (auto simp: is_hexdigit_def is_digit_def)

lemma hex16_disjoint: "(\<And>c. is_hexdigit c \<Longrightarrow> c \<notin> X) \<Longrightarrow> hex16 h \<Longrightarrow> h \<noteq> [] \<and> set h \<inter> X = {}"
  by (auto simp: hex16_def list_all_iff)

lemma private_parts_chars:
  "H \<in> set private_parts \<Longrightarrow> H h \<Longrightarrow> h \<noteq> [] \<and> set h \<inter> {CHR '' '', CHR '','', CHR '';'', CHR ''('', CHR '')'', CHR ''['', CHR '']''} = {}"
  using hex16_disjoint [OF hexdigit_not_wrapping, of h] by (auto simp: private_parts_def)

lemma discreet_join:
  assumes "list_all discreet ws"
  shows "discreet (join_with '' '' ws)"
proof -
  have "\<not> occurs H (join_with '' '' ws)" if "H \<in> set private_parts" for H
    using occurs_join [of H "CHR '' ''" ws] private_parts_chars [OF that] that assms
    by (auto simp: discreet_def list_all_iff)
  then show ?thesis by (simp add: discreet_def list_all_iff)
qed

lemma discreet_part: "discreet (a @ s @ b) \<Longrightarrow> discreet s"
  unfolding discreet_def list_all_iff using occurs_extend by blast

lemma plain_append: "plain s \<Longrightarrow> plain t \<Longrightarrow> plain (s @ t)"
  by (simp add: plain_def utf8_valid_append chars_append)

lemma plain_space: "plain '' ''"
  by (simp add: plain_def) code_simp

lemma plain_join: "list_all plain ws \<Longrightarrow> plain (join_with '' '' ws)"
proof (induction "'' ''" ws rule: join_with.induct)
  case 1
  then show ?case using utf8_valid_str_of_chars [of "[]"] by (simp add: plain_def)
next
  case (3 w v ws)
  then show ?case by (simp add: plain_append [OF _ plain_append [OF plain_space]] flip: append_Cons)
qed simp

section \<open>A redacted word\<close>

lemma wrapping_bytes: "is_wrapping c \<Longrightarrow> set (encode_char c) \<subseteq> {CHR '','', CHR '';'', CHR ''('', CHR '')'', CHR ''['', CHR '']''}"
proof -
  have "encode_char 0x2C = '',''" "encode_char 0x3B = '';''" "encode_char 0x28 = ''(''" "encode_char 0x29 = '')''"
    "encode_char 0x5B = ''[''" "encode_char 0x5D = '']''" by code_simp+
  then show "is_wrapping c \<Longrightarrow> ?thesis" by (elim is_wrapping_def [THEN iffD1, elim_format] disjE) simp_all
qed

lemma str_of_wrapping:
  "list_all is_wrapping cs \<Longrightarrow> set (str_of_chars cs) \<subseteq> {CHR '','', CHR '';'', CHR ''('', CHR '')'', CHR ''['', CHR '']''}"
  using wrapping_bytes by (induction cs) auto

lemma trim_matches_split:
  assumes "utf8_valid w"
  obtains a b where "w = a @ trim_matches p w @ b" "\<exists>ca cb. a = str_of_chars ca \<and> b = str_of_chars cb \<and> list_all p ca \<and> list_all p cb"
proof -
  let ?c = "chars w"
  let ?d = "dropWhile p ?c"
  let ?cb = "rev (takeWhile p (rev ?d))"
  have "?d = rev (dropWhile p (rev ?d)) @ ?cb"
    by (metis rev_append rev_rev_ident takeWhile_dropWhile_id)
  then have "?c = takeWhile p ?c @ rev (dropWhile p (rev ?d)) @ ?cb" by (metis takeWhile_dropWhile_id)
  then have "str_of_chars ?c = str_of_chars (takeWhile p ?c) @ trim_matches p w @ str_of_chars ?cb"
    by (metis trim_matches_def str_of_chars_simps(3))
  then have "w = str_of_chars (takeWhile p ?c) @ trim_matches p w @ str_of_chars ?cb"
    using utf8_valid_chars [OF assms] by simp
  moreover have "list_all p (takeWhile p ?c)" "list_all p ?cb"
    by (auto simp: list_all_iff dest: set_takeWhileD)
  ultimately show ?thesis using that by blast
qed

text \<open>A part that holds no character of \<open>X\<close> cannot reach into a margin of such characters.\<close>

lemma occurs_inside:
  assumes "\<And>h. H h \<Longrightarrow> h \<noteq> [] \<and> set h \<inter> X = {}" "set a \<subseteq> X" "set b \<subseteq> X" "occurs H (a @ s @ b)"
  shows "occurs H s"
proof -
  have left: "set a \<subseteq> X \<Longrightarrow> occurs H (a @ t) \<Longrightarrow> occurs H t" for a t
  proof (induction a)
    case (Cons x a)
    then have "occurs H ([] @ x # (a @ t))" by simp
    moreover have "H h \<Longrightarrow> x \<notin> set h \<and> h \<noteq> []" for h using assms(1) [of h] Cons.prems(1) by auto
    ultimately have "occurs H [] \<or> occurs H (a @ t)" by (rule occurs_append_sep [rotated])
    moreover have "\<not> occurs H []" using assms(1) by (auto simp: occurs_def)
    ultimately show ?case using Cons by auto
  qed simp
  have right: "set b \<subseteq> X \<Longrightarrow> occurs H (t @ b) \<Longrightarrow> occurs H t" for b t
  proof (induction b arbitrary: t)
    case (Cons x b)
    have "H h \<Longrightarrow> x \<notin> set h \<and> h \<noteq> []" for h using assms(1) [of h] Cons.prems(1) by auto
    then have "occurs H t \<or> occurs H b" using Cons.prems(2) by (rule occurs_append_sep)
    moreover have "occurs H b \<Longrightarrow> occurs H ([] @ b)" by simp
    moreover have "\<not> occurs H []" using assms(1) by (auto simp: occurs_def)
    ultimately show ?case using Cons.IH [of "[]"] Cons.prems(1) by auto
  qed simp
  from assms(4) left [OF assms(2)] right [OF assms(3)] show ?thesis by blast
qed

lemma discreet_trimmed:
  assumes "utf8_valid w" "discreet (trim_matches is_wrapping w)"
  shows "discreet w"
proof -
  let ?X = "{CHR '','', CHR '';'', CHR ''('', CHR '')'', CHR ''['', CHR '']''}"
  obtain a b where ab: "w = a @ trim_matches is_wrapping w @ b" "set a \<subseteq> ?X" "set b \<subseteq> ?X"
    using trim_matches_split [OF assms(1), of is_wrapping] str_of_wrapping by metis
  have "\<not> occurs H w" if "H \<in> set private_parts" for H
  proof
    assume "occurs H w"
    then have "occurs H (a @ trim_matches is_wrapping w @ b)" using ab(1) by metis
    then have "occurs H (trim_matches is_wrapping w)"
      by (rule occurs_inside [OF _ ab(2,3), rotated]) (use private_parts_chars [OF that] in fast)
    with assms(2) that show False by (simp add: discreet_def list_all_iff)
  qed
  then show ?thesis by (simp add: discreet_def list_all_iff)
qed

definition redaction_tags :: "string list" where
  "redaction_tags = [''[REDACTED_USER]'', ''[REDACTED_PATH]'', ''[REDACTED_MAC]'', ''[REDACTED_IPV6]'', ''[REDACTED_UUID]'',
     ''[REDACTED_SERIAL]'', ''[REDACTED_HOST]'']"

lemma redaction_tags_safe: "list_all (\<lambda>t. discreet t \<and> plain t) redaction_tags"
  unfolding discreet_iff plain_def by code_simp

lemma redact_word_cases:
  "redact_word upper host i w \<in> set redaction_tags \<or>
     redact_word upper host i w = w \<and> discreet (trim_matches is_wrapping w)"
  unfolding redact_word_def Let_def discreet_iff looks_like_private_path_def redaction_tags_def by auto

lemma redact_word_safe: "plain w \<Longrightarrow> discreet (redact_word upper host i w) \<and> plain (redact_word upper host i w)"
  using redact_word_cases [of upper host i w] redaction_tags_safe discreet_trimmed [of w]
  by (auto simp: list_all_iff plain_def)

lemma split_whitespace_plain:
  assumes "plain s" "w \<in> set (split_whitespace s)"
  shows "plain w"
proof -
  obtain q where q: "w = str_of_chars q" "q \<in> set (split_chars is_whitespace (chars s))"
    using assms(2) by (auto simp: split_whitespace_def)
  have "set q \<subseteq> set (chars s)" using split_chars_elems [OF q(2)] by blast
  moreover have "list_all is_scalar (chars s)" "list_all (\<lambda>c. \<not> is_control c) (chars s)"
    using assms(1) utf8_valid_chars by (auto simp: plain_def)
  ultimately have "list_all is_scalar q" "list_all (\<lambda>c. \<not> is_control c) q" by (auto simp: list_all_iff)
  then show ?thesis by (simp add: q(1) plain_def utf8_valid_str_of_chars chars_str_of_chars)
qed

section \<open>Properties\<close>

text \<open>C30: Whatever an excerpt of a command's error output holds, its redacted form is one line of at most 1024 characters
  with no control character, no at sign, no path into a home directory and no run of sixteen hexadecimal
  digits.\<close>

theorem redact_excerpt_discreet:
  assumes "utf8_valid excerpt"
  shows "length (chars (redact_excerpt upper excerpt host)) \<le> 1024
     \<and> list_all (\<lambda>c. \<not> is_control c) (chars (redact_excerpt upper excerpt host))
     \<and> \<not> str_contains ''@'' (redact_excerpt upper excerpt host)
     \<and> \<not> str_contains ''/home/'' (redact_excerpt upper excerpt host)
     \<and> \<not> str_contains ''/Users/'' (redact_excerpt upper excerpt host)
     \<and> \<not> has_long_hex_run (redact_excerpt upper excerpt host)"
proof -
  let ?nc = "str_of_chars (filter (\<lambda>c. \<not> is_control c) (chars excerpt))"
  let ?ws = "map (\<lambda>(index, word). redact_word upper host index word) (enumerate 0 (split_whitespace ?nc))"
  let ?j = "join_with '' '' ?ws"
  have "list_all is_scalar (filter (\<lambda>c. \<not> is_control c) (chars excerpt))"
    using utf8_valid_chars [OF assms] by (auto simp: list_all_iff)
  then have nc: "plain ?nc" by (auto simp: plain_def utf8_valid_str_of_chars chars_str_of_chars list_all_iff)
  have "discreet w \<and> plain w" if "w \<in> set ?ws" for w
  proof -
    obtain i v where "w = redact_word upper host i v" "v \<in> set (split_whitespace ?nc)"
      using \<open>w \<in> set ?ws\<close> by (auto simp: in_set_enumerate_eq)
    with redact_word_safe split_whitespace_plain [OF nc] show ?thesis by blast
  qed
  then have d: "discreet ?j" and p: "plain ?j"
    by (auto intro!: discreet_join plain_join simp: list_all_iff simp del: set_map)
  have sc: "list_all is_scalar (chars ?j)" "str_of_chars (chars ?j) = ?j" using p utf8_valid_chars by (auto simp: plain_def)
  have r: "redact_excerpt upper excerpt host = str_of_chars (take 1024 (chars ?j))" by (simp add: redact_excerpt_def Let_def)
  have "list_all is_scalar (take 1024 (chars ?j))" using sc(1) by (metis append_take_drop_id list_all_append)
  then have c: "chars (redact_excerpt upper excerpt host) = take 1024 (chars ?j)" by (simp add: r chars_str_of_chars)
  have "?j = [] @ redact_excerpt upper excerpt host @ str_of_chars (drop 1024 (chars ?j))"
    unfolding r by (metis append_Nil append_take_drop_id sc(2) str_of_chars_simps(3))
  then have "discreet (redact_excerpt upper excerpt host)" using d discreet_part by metis
  moreover have "list_all (\<lambda>c. \<not> is_control c) (take 1024 (chars ?j))"
    using p unfolding plain_def by (metis append_take_drop_id list_all_append)
  ultimately show ?thesis by (simp add: c discreet_iff)
qed

theorem redact_excerpt_discreet_witness:
  "\<not> str_contains ''@'' (redact_excerpt (\<lambda>c. False) ''mail bob@example'' None)
     \<and> \<not> has_long_hex_run (redact_excerpt (\<lambda>c. False) ''mail bob@example'' None)"
proof -
  have "utf8_valid ''mail bob@example''" by code_simp
  from redact_excerpt_discreet [OF this] show ?thesis by blast
qed

end
