(* ===== verification/Atomic_Store.thy ===== *)
theory Atomic_Store
  imports File_System
begin

text \<open>
  The contract of a file that is replaced as a whole: what a reader finds under its name is always either what
  was there before or the complete new content.  The detector state of \<open>src/src/detectors/d3.rs\<close> and the checkpoint of
  \<open>src/src/remote_connections.rs\<close> are kept in such files; each of the two theories interprets the locale on its own
  model of the write.  The clients' lemmas, on sequences of writes and on what a reader decodes after them, are proved
  here once.
\<close>

section \<open>Sequencing with any error type\<close>

definition st_bind ::
    "('w \<Rightarrow> ('e, 'a) result \<times> 'w) \<Rightarrow> ('a \<Rightarrow> 'w \<Rightarrow> ('e, 'b) result \<times> 'w) \<Rightarrow> 'w \<Rightarrow> ('e, 'b) result \<times> 'w" where
  "st_bind m f w = (case m w of (Inl e, w') \<Rightarrow> (Inl e, w') | (Inr x, w') \<Rightarrow> f x w')"

text \<open>\<open>map_err\<close> with a constant.\<close>

definition with_err :: "'e \<Rightarrow> ('w \<Rightarrow> ('d, 'a) result \<times> 'w) \<Rightarrow> 'w \<Rightarrow> ('e, 'a) result \<times> 'w" where
  "with_err e m w = (case m w of (Inl _, w') \<Rightarrow> (Inl e, w') | (Inr x, w') \<Rightarrow> (Inr x, w'))"

lemma with_err_simps [simp]:
  "snd (with_err e m w) = snd (m w)" "with_err e m w = (Inr x, w') \<longleftrightarrow> m w = (Inr x, w')"
  "with_err e m w = (Inl e', w') \<longleftrightarrow> e' = e \<and> (\<exists>d. m w = (Inl d, w'))"
  by (auto simp: with_err_def split: prod.splits sum.splits)

lemma st_bind_ok_iff: "st_bind m f w = (Inr y, w'') \<longleftrightarrow> (\<exists>x w'. m w = (Inr x, w') \<and> f x w' = (Inr y, w''))"
  by (auto simp: st_bind_def split: prod.splits sum.splits)

lemma st_bind_err_iff:
  "st_bind m f w = (Inl e, w'') \<longleftrightarrow> m w = (Inl e, w'') \<or> (\<exists>x w'. m w = (Inr x, w') \<and> f x w' = (Inl e, w''))"
  by (auto simp: st_bind_def split: prod.splits sum.splits)

lemma st_bind_touches:
  assumes "touches N w (snd (m w))" "\<And>x w'. m w = (Inr x, w') \<Longrightarrow> touches N w' (snd (f x w'))"
  shows "touches N w (snd (st_bind m f w))"
  using assms by (cases "m w"; cases "fst (m w)") (auto simp: st_bind_def intro: touches_trans)

lemma st_bind_err_touches:
  assumes "st_bind m f w = (Inl e, w')" "touches N w (snd (m w))" "\<And>x w1. f x w1 = (Inl e, w') \<Longrightarrow> touches N w1 w'"
  shows "touches N w w'"
  using assms by (cases "m w"; cases "fst (m w)") (auto simp: st_bind_def intro: touches_trans)

section \<open>The contract\<close>

locale atomic_store =
  fixes save :: "'x \<Rightarrow> 'w \<Rightarrow> ('e, unit) result \<times> 'w"
    and stored :: "'w \<Rightarrow> bytes option"
    and enc :: "'x \<Rightarrow> bytes"
  assumes save_ok: "save x w = (Inr u, w') \<Longrightarrow> stored w' = Some (enc x)"
    and save_err: "save x w = (Inl e, w') \<Longrightarrow> stored w' = stored w \<or> stored w' = Some (enc x)"
begin

lemma save_whole: "stored (snd (save x w)) = stored w \<or> stored (snd (save x w)) = Some (enc x)"
  using save_ok [of x w] save_err [of x w] by (cases "save x w"; cases "fst (save x w)") auto

text \<open>After any number of writes, failed ones included, the file holds its first content or one of those given.\<close>

lemma saves_whole:
  "stored (fold (\<lambda>x w. snd (save x w)) xs w) \<in> insert (stored w) ((Some \<circ> enc) ` set xs)"
proof (induction xs arbitrary: w)
  case (Cons x xs)
  show ?case using Cons.IH [of "snd (save x w)"] save_whole [of x w] by auto
qed simp

text \<open>So a property of everything written holds of everything a reader can decode.\<close>

lemma saves_decode:
  assumes "\<And>x. dec (enc x) = Some x" "list_all I xs" "\<And>c. stored w = Some c \<Longrightarrow> \<exists>x. dec c = Some x \<and> I x"
    "stored (fold (\<lambda>x w. snd (save x w)) xs w) = Some c"
  shows "\<exists>x. dec c = Some x \<and> I x"
  using saves_whole [of xs w] assms by (auto simp: list_all_iff)

end

end
