(* ===== verification/D3_State.thy ===== *)
theory D3_State
  imports D3_Journal D3_Redact Contract Atomic_Store
begin

text \<open>
  Model of the stateful core of \<open>src/src/detectors/d3.rs\<close>: the learned baseline and the pending finding, their
  validation, the state file with its lock and its atomic replacement, \<open>evaluate\<close> and \<open>run\<close>.  System calls go through
  the fault schedule of \<open>File_System\<close>; the state's JSON form, the texts of the clock and the timestamp parsers are
  parameters.  A decimal confidence is the value of its double.
\<close>

section \<open>Data\<close>

record baseline =
  bl_learned_boot_id :: string
  bl_learned_at :: string
  bl_slot :: string
  bl_vendor :: string
  bl_device :: string
  bl_class :: string
  bl_parent_bridge_chain :: "string list"
  bl_upstream_bridge :: "string option"

record pending_finding =
  pf_verdict :: string
  pf_observation_boot_id :: string
  pf_observed_at :: string

record d3_state =
  st_schema_version :: nat
  st_baseline :: "baseline option"
  st_pending :: "pending_finding option"

definition state_schema_version :: nat where "state_schema_version = 1"
definition read_limit :: nat where "read_limit = 1024 * 1024"

definition empty_state :: d3_state where
  "empty_state = \<lparr>st_schema_version = state_schema_version, st_baseline = None, st_pending = None\<rparr>"

datatype platform = Linux | OtherPlatform

record d3_input =
  in_platform :: platform
  in_snapshot :: pci_snapshot
  in_current_boot_id :: string
  in_boot_inventory :: "string list option"
  in_current_journal :: "string option"
  in_prior_tail :: "string option"
  in_prior_timing_unreliable :: bool
  in_collection_missing :: "string list"
  in_host :: "string option"

datatype operation = Diagnose | Learn "string option" | Reset

text \<open>\<open>e_now\<close> is the time the state records, \<open>e_build_now\<close> the one the diagnosis carries; \<open>e_nonce\<close> reads the clock at a call
  number (\<open>None\<close> before the epoch); \<open>e_irregular\<close> tells which names are not regular files.\<close>

record d3_env =
  e_time :: time_libs
  e_now :: string
  e_build_now :: string
  e_upper :: "nat \<Rightarrow> bool"
  e_pid :: nat
  e_nonce :: "nat \<Rightarrow> nat option"
  e_irregular :: "string \<Rightarrow> bool"
  e_enc :: "d3_state \<Rightarrow> bytes"
  e_dec :: "bytes \<Rightarrow> d3_state option"

section \<open>Validation\<close>

definition identity_matches :: "pci_device \<Rightarrow> baseline \<Rightarrow> bool" where
  "identity_matches d b \<longleftrightarrow> pd_vendor d = bl_vendor b \<and> pd_device d = bl_device b \<and> pd_class d = bl_class b"

definition valid_timestamp :: "d3_env \<Rightarrow> string \<Rightarrow> bool" where
  "valid_timestamp E v \<longleftrightarrow> parse_rfc3339 (e_time E) v \<noteq> None"

definition validate_state :: "d3_env \<Rightarrow> d3_state \<Rightarrow> (d3_error, unit) result" where
  "validate_state E s =
     (case st_baseline s of
        None \<Rightarrow> if st_pending s \<noteq> None then Err PendingNoBaseline else Ok ()
      | Some b \<Rightarrow>
          if \<not> canonical_boot_id (bl_learned_boot_id b) \<or> \<not> valid_timestamp E (bl_learned_at b) \<or> \<not> canonical_bdf (bl_slot b)
            \<or> \<not> canonical_hex_field (bl_vendor b) 4 \<or> \<not> canonical_hex_field (bl_device b) 4 \<or> \<not> canonical_hex_field (bl_class b) 6
            \<or> list_ex (\<lambda>bdf. \<not> canonical_bdf bdf) (bl_parent_bridge_chain b)
            \<or> (case bl_upstream_bridge b of None \<Rightarrow> False | Some bdf \<Rightarrow> \<not> canonical_bdf bdf)
          then Err NonCanonicalBaseline
          else (case st_pending s of
                  None \<Rightarrow> Ok ()
                | Some p \<Rightarrow>
                    if pf_verdict p \<noteq> ''bus-absent'' \<or> \<not> canonical_boot_id (pf_observation_boot_id p)
                      \<or> \<not> valid_timestamp E (pf_observed_at p)
                    then Err InvalidPending else Ok ()))"

definition preflight_d3 :: "d3_input \<Rightarrow> (d3_error, unit) result" where
  "preflight_d3 input =
     and_then (normalize_boot_id (in_current_boot_id input)) (\<lambda>current.
       if current \<noteq> ps_boot_id (in_snapshot input) then Err PairSnapshot
       else (case in_boot_inventory input of
               None \<Rightarrow> Ok ()
             | Some boot_ids \<Rightarrow> if current \<notin> set boot_ids then Err PairInventory else Ok ()))"

section \<open>The state file\<close>

definition lock_path :: "string \<Rightarrow> string" where "lock_path path = beside path ''d3-gpu-boot.lock''"

definition temp_name :: "string \<Rightarrow> nat \<Rightarrow> nat \<Rightarrow> string" where
  "temp_name path pid nonce = beside path (''.d3-gpu-boot-'' @ show_nat pid @ ''-'' @ show_nat nonce @ ''.tmp'')"

text \<open>\<open>set_permissions\<close> fails on the empty path, while \<open>create_dir_all\<close> accepts it.\<close>

definition restrict_permissions :: "sys \<Rightarrow> string \<Rightarrow> 'z fs_scheme \<Rightarrow> (d3_error, unit) result \<times> 'z fs_scheme" where
  "restrict_permissions S path w =
     (case fs_touch S w of (Inl _, w') \<Rightarrow> (Err Permissions, w') | (Inr _, w') \<Rightarrow> (if path = [] then Err Permissions else Ok (), w'))"

fun lock_tries :: "sys \<Rightarrow> nat \<Rightarrow> 'z fs_scheme \<Rightarrow> (d3_error, unit) result \<times> 'z fs_scheme" where
  "lock_tries S 0 w = (Err LockContention, w)"
| "lock_tries S (Suc n) w = (case fs_touch S w of (Inr _, w') \<Rightarrow> (Ok (), w') | (Inl _, w') \<Rightarrow> lock_tries S n w')"

definition fs_open_or_create :: "sys \<Rightarrow> string \<Rightarrow> (unit, 'z) io" where
  "fs_open_or_create S n w =
     (case fault S (tick w) of Some _ \<Rightarrow> (Err IoError, tock w)
      | None \<Rightarrow> (Ok (), if fget w n = None then fput n [] (tock w) else tock w))"

definition store_lock :: "sys \<Rightarrow> string \<Rightarrow> 'z fs_scheme \<Rightarrow> (d3_error, unit) result \<times> 'z fs_scheme" where
  "store_lock S path =
     st_bind (case parent_dir path of
                None \<Rightarrow> (\<lambda>w. (Ok (), w))
              | Some dir \<Rightarrow> st_bind (with_err StateDir (fs_touch S)) (\<lambda>_. restrict_permissions S dir)) (\<lambda>_.
     st_bind (with_err StateLockOpen (fs_open_or_create S (lock_path path))) (\<lambda>_.
     st_bind (restrict_permissions S (lock_path path)) (\<lambda>_.
       lock_tries S 50)))"

definition check_loaded :: "d3_env \<Rightarrow> string \<Rightarrow> bytes \<Rightarrow> (d3_error, d3_state) result" where
  "check_loaded E path source =
     (if \<not> utf8_valid source then Err (CannotRead path)
      else and_then (ok_or StateParse (e_dec E source)) (\<lambda>s.
        if st_schema_version s \<noteq> state_schema_version then Err (StateVersion (st_schema_version s))
        else and_then (validate_state E s) (\<lambda>_. Ok s)))"

definition store_load :: "sys \<Rightarrow> d3_env \<Rightarrow> string \<Rightarrow> 'z fs_scheme \<Rightarrow> (d3_error, d3_state) result \<times> 'z fs_scheme" where
  "store_load S E path w =
     (case fault S (tick w) of
        Some _ \<Rightarrow> (Err StateInspect, tock w)
      | None \<Rightarrow>
          if e_irregular E path then (Err StateNotRegular, tock w)
          else (case fget w path of
                  None \<Rightarrow> (Ok empty_state, tock w)
                | Some c \<Rightarrow>
                    if read_limit < length c then (Err StateTooLong, tock w)
                    else st_bind (with_err StateOpen (fs_open S path)) (\<lambda>source w'. (check_loaded E path source, w')) (tock w)))"

text \<open>The clean-up after a failed write or rename ignores its own failure.\<close>

definition remove_after :: "sys \<Rightarrow> string \<Rightarrow> 'e \<Rightarrow> (unit, 'z) io \<Rightarrow> 'z fs_scheme \<Rightarrow> ('e, unit) result \<times> 'z fs_scheme" where
  "remove_after S temporary e m w =
     (case m w of (Inr x, w') \<Rightarrow> (Ok x, w') | (Inl _, w') \<Rightarrow> (Err e, snd (fs_remove S temporary w')))"

definition store_save :: "sys \<Rightarrow> d3_env \<Rightarrow> string \<Rightarrow> d3_state \<Rightarrow> 'z fs_scheme \<Rightarrow> (d3_error, unit) result \<times> 'z fs_scheme" where
  "store_save S E path s w =
     (case e_nonce E (tick w) of
        None \<Rightarrow> (Err StateClock, tock w)
      | Some nonce \<Rightarrow>
          (let temporary = temp_name path (e_pid E) nonce in
           st_bind (with_err StateCreate (fs_create_new S temporary)) (\<lambda>_.
           st_bind (restrict_permissions S temporary) (\<lambda>_.
           st_bind (remove_after S temporary StateWrite
                     (io_bind (fs_write S temporary (e_enc E s)) (\<lambda>_. fs_touch S))) (\<lambda>_.
             remove_after S temporary StateReplace (fs_rename S temporary path)))) (tock w)))"

section \<open>Diagnoses\<close>

definition d3_contract :: detector_contract where
  "d3_contract = \<lparr>dc_detector_id = ''D3'', dc_rule_version = ''d3.1'', dc_error_prefix = ''D3''\<rparr>"

definition d3_diagnosis ::
    "d3_env \<Rightarrow> disposition \<Rightarrow> string \<Rightarrow> f64 \<Rightarrow> string \<Rightarrow> string list \<Rightarrow> string \<Rightarrow> string list \<Rightarrow> string \<Rightarrow> string list
      \<Rightarrow> string \<Rightarrow> string option \<Rightarrow> (d3_error, outcome) result" where
  "d3_diagnosis E disp verdict confidence basis evidence plain_language fixes falsifier missing alternative host =
     (case build (e_build_now E) d3_contract
        \<lparr>df_disposition = disp, df_verdict = verdict, df_confidence = confidence, df_confidence_basis = basis,
         df_evidence = evidence, df_plain_language = plain_language, df_suggested_fixes = fixes, df_falsifier = falsifier,
         df_supported_scope = [''Explicit PCI slot baseline, authoritative PCI snapshot, and paired Linux boot evidence only.''],
         df_missing_evidence = missing, df_nearest_alternative = alternative, df_host = host\<rparr> of
        Inl e \<Rightarrow> Err (BuildFailed e) | Inr d \<Rightarrow> Ok (Diagnosis d))"

text \<open>The failure that the source's \<open>expect\<close> would turn into a panic is kept as an error here.\<close>

definition d3_success :: "d3_env \<Rightarrow> string \<Rightarrow> string \<Rightarrow> string option \<Rightarrow> (d3_error, outcome) result" where
  "d3_success E verdict message host =
     d3_diagnosis E NonFinding verdict (Finite 1)
       ''Requested state operation completed atomically under the D3 sidecar lock.'' [message] message
       [''No further action is required.''] ''A subsequent state read would falsify this confirmation if it differs.'' []
       ''No diagnostic inference was made for this state operation.'' host"

definition conf_095 :: f64 where "conf_095 = Finite (4278419646001971 / 4503599627370496)"
definition conf_072 :: f64 where "conf_072 = Finite (3242591731706757 / 4503599627370496)"
definition conf_088 :: f64 where "conf_088 = Finite (7926335344172073 / 9007199254740992)"
definition conf_076 :: f64 where "conf_076 = Finite (3422735716801577 / 4503599627370496)"
definition conf_090 :: f64 where "conf_090 = Finite (8106479329266893 / 9007199254740992)"
definition conf_080 :: f64 where "conf_080 = Finite (3602879701896397 / 4503599627370496)"
definition conf_092 :: f64 where "conf_092 = Finite (8286623314361713 / 9007199254740992)"

definition baseline_from :: "d3_env \<Rightarrow> pci_device \<Rightarrow> string \<Rightarrow> baseline" where
  "baseline_from E d boot_id =
     \<lparr>bl_learned_boot_id = boot_id, bl_learned_at = e_now E, bl_slot = pd_bdf d, bl_vendor = pd_vendor d,
      bl_device = pd_device d, bl_class = pd_class d,
      bl_parent_bridge_chain = butlast (map to_ascii_lowercase (bdf_chain (pd_parent_path d))),
      bl_upstream_bridge = pd_upstream_bridge d\<rparr>"

section \<open>\<open>evaluate\<close>\<close>

definition matching :: "d3_input \<Rightarrow> baseline \<Rightarrow> pci_device list" where
  "matching input b = filter (\<lambda>d. identity_matches d b) (ps_devices (in_snapshot input))"

definition at_slot :: "d3_input \<Rightarrow> baseline \<Rightarrow> pci_device option" where
  "at_slot input b = List.find (\<lambda>d. pd_bdf d = bl_slot b) (ps_devices (in_snapshot input))"

definition relocated :: "d3_input \<Rightarrow> baseline \<Rightarrow> bool" where
  "relocated input b = (case matching input b of [] \<Rightarrow> False | d # _ \<Rightarrow> pd_bdf d \<noteq> bl_slot b)"

definition hardware_changed :: "d3_input \<Rightarrow> baseline \<Rightarrow> bool" where
  "hardware_changed input b \<longleftrightarrow>
     1 < length (matching input b) \<or> relocated input b
     \<or> matching input b = [] \<and> (case at_slot input b of None \<Rightarrow> False | Some d \<Rightarrow> \<not> is_bridge d)"

definition evaluate_changed :: "d3_env \<Rightarrow> d3_input \<Rightarrow> baseline \<Rightarrow> (d3_error, outcome) result" where
  "evaluate_changed E input b =
     (let detail = (if 1 < length (matching input b) then ''expected identity is ambiguous at multiple BDFs''
                    else if relocated input b then ''expected identity uniquely relocated to another BDF''
                    else ''a different non-bridge endpoint occupies the expected BDF'')
      in d3_diagnosis E Finding ''hardware-changed'' conf_095
           ''Authoritative PCI identity differs from the learned slot baseline.''
           [''PCI identity observation: '' @ detail,
            ''baseline slot: '' @ bl_slot b @ '' ['' @ bl_vendor b @ '':'' @ bl_device b @ '']'']
           ''The current PCI topology is most consistent with an intentional or physical hardware/topology change, not a GPU power-state latch.''
           [''Verify the installed device and re-learn the baseline if this change is intentional.'']
           ''The expected identity at the learned BDF on a later snapshot would falsify the topology-change interpretation.''
           [''Current PCI snapshot only; it does not establish why the topology changed.'']
           ''A transient enumeration problem remains possible but is less consistent with the observed identity change.''
           (in_host input))"

definition link_down_journal :: "d3_input \<Rightarrow> baseline \<Rightarrow> bool" where
  "link_down_journal input b =
     (case in_current_journal input of None \<Rightarrow> False | Some journal \<Rightarrow> link_down_for journal (bl_upstream_bridge b))"

definition evaluate_absent :: "d3_env \<Rightarrow> d3_input \<Rightarrow> baseline \<Rightarrow> (d3_error, outcome) result" where
  "evaluate_absent E input b =
     (let corroborated = link_down_journal input b;
          missing = (if (case in_current_journal input of None \<Rightarrow> True | Some j \<Rightarrow> journal_has_no_entries j)
                     then [''same-boot journal evidence unavailable''] else []);
          confidence = (if corroborated then conf_095 else conf_072);
          evidence =
            [''expected identity ['' @ bl_vendor b @ '':'' @ bl_device b @ ''] absent from complete PCI snapshot'',
             ''expected BDF '' @ bl_slot b @ '' is empty or bridge-class'']
            @ (if corroborated
               then [''same-boot upstream '' @ (case bl_upstream_bridge b of Some u \<Rightarrow> u | None \<Rightarrow> ''bridge chain'')
                       @ '' reports link-down/empty-slot'']
               else [])
      in d3_diagnosis E Finding ''bus-absent'' confidence
           (if corroborated then ''Authoritative absence is corroborated by same-boot upstream link evidence.''
            else ''Authoritative PCI absence is observed; same-boot link corroboration is unavailable.'')
           evidence
           ''The observed absence is most consistent with a GPU enumeration failure; the underlying cause remains undetermined without stronger corroboration.''
           [''Shut down fully and perform a PSU power-drain before retrying; inspect slot seating if the issue recurs.'']
           ''The expected GPU identity present at the learned BDF on a fresh boot would falsify the absence finding.''
           missing
           ''A loose card, failed device, or deliberate hardware removal is an alternative to a power-state latch.''
           (in_host input))"

text \<open>The precursor with the caller's knowledge of the clocks, when there is a paired prior boot with a usable tail.\<close>

definition prior_precursor :: "d3_env \<Rightarrow> d3_input \<Rightarrow> baseline \<Rightarrow> (string \<times> precursor_result) option" where
  "prior_precursor E input b =
     do { boot_ids \<leftarrow> in_boot_inventory input;
          prior_id \<leftarrow> prior_for boot_ids (ps_boot_id (in_snapshot input));
          tail \<leftarrow> in_prior_tail input;
          if journal_has_no_entries tail then None
          else (let p = precursor (e_time E) tail (bl_slot b);
                    p1 = p\<lparr>pr_timing_unreliable := pr_timing_unreliable p \<or> in_prior_timing_unreliable input\<rparr>;
                    p2 = p1\<lparr>pr_fires := pr_fires p1 \<and> \<not> pr_timing_unreliable p1\<rparr>
                in Some (prior_id, p2)) }"

definition precursor_missing :: "precursor_result \<Rightarrow> string list" where
  "precursor_missing p =
     (if pr_timing_unreliable p
      then [''prior boot timestamps are non-monotonic in the evaluated window; timing evidence is unreliable''] else [])
     @ (if pr_suppressed p
        then [''prior boot journal contains printk suppressed-record markers; precursor confidence is degraded''] else [])"

definition evaluate_precursor ::
    "d3_env \<Rightarrow> d3_input \<Rightarrow> baseline \<Rightarrow> string \<Rightarrow> precursor_result \<Rightarrow> (d3_error, outcome) result" where
  "evaluate_precursor E input b prior_id p =
     (let missing = precursor_missing p
            @ (if pr_truncated p then [''prior boot tail appears truncated; shutdown completion is unavailable''] else []);
          confidence = (if pr_truncated p \<or> pr_suppressed p then conf_076 else conf_088)
      in d3_diagnosis E Finding ''precursor-warning'' confidence
           ''AMD/amdgpu d3.1 compound precursor thresholds were met on the baseline BDF in the trailing 900-second window.''
           [''prior boot: '' @ prior_id,
            ''baseline BDF '' @ bl_slot b @ '': SMU-unresponsive='' @ show_nat (pr_smu p) @ '' (minimum ''
              @ show_nat smu_unresponsive_min @ ''), reset-attempts='' @ show_nat (pr_resets p) @ '' (minimum ''
              @ show_nat reset_attempt_min @ '')'']
           ''The prior boot evidence is most consistent with an AMD GPU reset/SMU precursor; it does not establish a later boot failure.''
           [''Avoid a warm reboot if the GPU becomes unavailable; capture journal evidence and use a full power drain if needed.'']
           ''A later complete prior-boot journal with recovery after every reset would falsify the terminal-failure condition.''
           missing
           ''A driver-only recovery event without a power-state latch remains the nearest alternative.''
           (in_host input))"

definition evaluate_recovered :: "d3_env \<Rightarrow> d3_input \<Rightarrow> pending_finding \<Rightarrow> (d3_error, outcome) result" where
  "evaluate_recovered E input p =
     d3_diagnosis E NonFinding ''recovered'' conf_090
       ''The learned GPU identity is present and a pending bus-absence was recorded on an earlier boot.''
       [''current boot: '' @ ps_boot_id (in_snapshot input),
        ''consumed pending '' @ pf_verdict p @ '' from boot '' @ pf_observation_boot_id p]
       ''The GPU is present now; this is most consistent with recovery from the earlier observed enumeration absence.''
       [''Keep the baseline and retain future journal evidence if the symptom returns.'']
       ''A repeated absence at the learned BDF would falsify the recovery observation.'' []
       ''The earlier fault may have been transient rather than a power-state latch.''
       (in_host input)"

definition no_usable_tail :: "d3_input \<Rightarrow> bool" where
  "no_usable_tail input = (case in_prior_tail input of None \<Rightarrow> True | Some t \<Rightarrow> journal_has_no_entries t)"

definition evaluate_no_history :: "d3_env \<Rightarrow> d3_input \<Rightarrow> baseline \<Rightarrow> (d3_error, outcome) result" where
  "evaluate_no_history E input b =
     d3_diagnosis E NonFinding ''history-unavailable'' conf_080
       ''The learned GPU identity is present, but prior-boot precursor history is unavailable.''
       [''baseline identity present at '' @ bl_slot b]
       ''The GPU is present; D3 cannot make a prior-boot precursor claim because history is unavailable.''
       [''Retain journal history across boots for precursor analysis.'']
       ''A paired prior boot journal would permit precursor analysis.''
       ([''usable paired prior Linux boot history unavailable'']
        @ (if no_usable_tail input then [''prior boot journal tail unavailable''] else []))
       ''A precursor could have occurred but cannot be assessed from the available history.''
       (in_host input)"

definition evaluate_ok :: "d3_env \<Rightarrow> d3_input \<Rightarrow> baseline \<Rightarrow> string list \<Rightarrow> (d3_error, outcome) result" where
  "evaluate_ok E input b missing =
     d3_diagnosis E NonFinding ''ok'' (if missing = [] then conf_092 else conf_076)
       ''The learned GPU identity is present and no d3.1 precursor matched on the paired prior boot.''
       [''baseline identity present at '' @ bl_slot b]
       ''The available evidence is most consistent with normal GPU enumeration for this boot.''
       [''No corrective action is indicated; retain journal history for future comparisons.'']
       ''An authoritative future snapshot with the identity absent would falsify this observation.''
       missing
       ''A failure outside the collected evidence window remains possible.''
       (in_host input)"

text \<open>Present at its slot: the precursor, then the pending finding, then the history.\<close>

definition evaluate_present :: "d3_env \<Rightarrow> d3_input \<Rightarrow> baseline \<Rightarrow> d3_state \<Rightarrow> (d3_error, outcome) result \<times> d3_state" where
  "evaluate_present E input b s =
     (case prior_precursor E input b of
        Some (prior_id, p) \<Rightarrow>
          if pr_fires p then (evaluate_precursor E input b prior_id p, s)
          else (case st_pending s of
                  Some q \<Rightarrow> if pf_observation_boot_id q \<noteq> ps_boot_id (in_snapshot input)
                           then (evaluate_recovered E input q, s\<lparr>st_pending := None\<rparr>)
                           else (evaluate_ok E input b (precursor_missing p), s)
                | None \<Rightarrow> (evaluate_ok E input b (precursor_missing p), s))
      | None \<Rightarrow>
          (case st_pending s of
             Some q \<Rightarrow> if pf_observation_boot_id q \<noteq> ps_boot_id (in_snapshot input)
                      then (evaluate_recovered E input q, s\<lparr>st_pending := None\<rparr>)
                      else (evaluate_no_history E input b, s)
           | None \<Rightarrow> (evaluate_no_history E input b, s)))"

definition evaluate :: "d3_env \<Rightarrow> d3_input \<Rightarrow> d3_state \<Rightarrow> (d3_error, outcome) result \<times> d3_state" where
  "evaluate E input s =
     (case st_baseline s of
        None \<Rightarrow>
          (d3_diagnosis E NonFinding ''baseline-required'' (Finite 1) ''No explicit D3 baseline has been learned.''
             [''authoritative PCI snapshot parsed'']
             ''An explicit GPU slot baseline is required before D3 can compare boot enumeration.''
             [''Re-run with an explicit slot using the learn-baseline operation.'']
             ''A learned baseline with a healthy matching GPU would falsify this setup-only result.'' []
             ''No hardware condition has been assessed.'' (in_host input), s)
      | Some b \<Rightarrow>
          if hardware_changed input b then (evaluate_changed E input b, s\<lparr>st_pending := None\<rparr>)
          else if matching input b = [] \<and> (case at_slot input b of None \<Rightarrow> True | Some d \<Rightarrow> is_bridge d)
          then (evaluate_absent E input b,
                s\<lparr>st_pending := Some \<lparr>pf_verdict = ''bus-absent'', pf_observation_boot_id = ps_boot_id (in_snapshot input),
                                     pf_observed_at = e_now E\<rparr>\<rparr>)
          else evaluate_present E input b s)"

section \<open>\<open>run\<close>\<close>

definition append_missing :: "string list \<Rightarrow> outcome \<Rightarrow> outcome" where
  "append_missing extra r =
     (case r of Diagnosis d \<Rightarrow> Diagnosis (d\<lparr>dg_missing_evidence := dg_missing_evidence d @ extra\<rparr>) | NotApplicable n \<Rightarrow> NotApplicable n)"

text \<open>The three operations up to the save: an error, or the state to save with the result to return after it.\<close>

definition run_operation ::
    "d3_env \<Rightarrow> d3_input \<Rightarrow> operation \<Rightarrow> d3_state \<Rightarrow> (d3_error, d3_state \<times> (d3_error, outcome) result) result" where
  "run_operation E input op s =
     (case op of
        Reset \<Rightarrow>
          Ok (s\<lparr>st_baseline := None, st_pending := None\<rparr>,
              d3_success E ''baseline-reset'' ''D3 baseline and any pending finding were removed.'' (in_host input))
      | Learn slot \<Rightarrow>
          if st_baseline s \<noteq> None then Err LearnExists
          else (case slot of
                  None \<Rightarrow> Err LearnNoSlot
                | Some sl \<Rightarrow>
                    (case List.find (\<lambda>d. pd_bdf d = to_ascii_lowercase sl) (ps_devices (in_snapshot input)) of
                       None \<Rightarrow> Err LearnAbsent
                     | Some d \<Rightarrow>
                         if 1 < length (filter (\<lambda>c. pd_vendor c = pd_vendor d \<and> pd_device c = pd_device d \<and> pd_class c = pd_class d)
                                          (ps_devices (in_snapshot input)))
                         then Err LearnAmbiguous
                         else Ok (s\<lparr>st_baseline := Some (baseline_from E d (ps_boot_id (in_snapshot input))), st_pending := None\<rparr>,
                                  d3_success E ''baseline-learned''
                                    (''D3 baseline learned for '' @ pd_bdf d @ '' ['' @ pd_vendor d @ '':'' @ pd_device d
                                       @ ''] at boot '' @ ps_boot_id (in_snapshot input) @ ''.'') (in_host input))))
      | Diagnose \<Rightarrow>
          if (case st_baseline s of
                None \<Rightarrow> False
              | Some b \<Rightarrow> list_ex (\<lambda>d. pd_bdf d = bl_slot b \<and> identity_matches d b) (ps_devices (in_snapshot input))
                         \<and> link_down_journal input b)
          then Err Contradiction
          else (case evaluate E input s of
                  (Inl e, _) \<Rightarrow> Err e
                | (Inr r, s') \<Rightarrow>
                    Ok (s', Ok (append_missing
                          (map (\<lambda>item. redact_collection_missing (e_upper E) item (in_host input)) (in_collection_missing input)) r))))"

definition run_d3 :: "sys \<Rightarrow> d3_env \<Rightarrow> d3_input \<Rightarrow> operation \<Rightarrow> string \<Rightarrow> 'z fs_scheme \<Rightarrow> (d3_error, outcome) result \<times> 'z fs_scheme" where
  "run_d3 S E input op path w =
     (if in_platform input = OtherPlatform
      then (Ok (NotApplicable (new_not_applicable
              ''D3 GPU boot diagnosis is only applicable to Linux PCI and journald evidence.'' [''platform: non-Linux''])), w)
      else case preflight_d3 input of
        Inl e \<Rightarrow> (Err e, w)
      | Inr _ \<Rightarrow>
          st_bind (store_lock S path) (\<lambda>_.
          st_bind (store_load S E path) (\<lambda>s w1.
            case run_operation E input op s of
              Inl e \<Rightarrow> (Err e, w1)
            | Inr (s', r) \<Rightarrow> st_bind (store_save S E path s') (\<lambda>_ w2. (r, w2)) w1)) w)"

end
