(* ===== verification/Field_Codec.thy ===== *)
theory Field_Codec
  imports Rust_Str
begin

text \<open>
  Length-prefixed fields: a concrete encoding of records as bytes, with the round trip that the properties with a JSON
  reader and writer as parameters ask of them.
\<close>

definition put_str :: "string \<Rightarrow> bytes" where
  "put_str s = show_nat (length s) @ '':'' @ s"

definition get_str :: "bytes \<Rightarrow> (string \<times> bytes) option" where
  "get_str bs = do { (n, r) \<leftarrow> split_once CHR '':'' bs; k \<leftarrow> Some (digits_value 10 0 n);
                     if k \<le> length r then Some (take k r, drop k r) else None }"

fun put_strs :: "string list \<Rightarrow> bytes" where
  "put_strs [] = ''.''"
| "put_strs (s # ss) = ''+'' @ put_str s @ put_strs ss"

fun get_strs :: "nat \<Rightarrow> bytes \<Rightarrow> string list option" where
  "get_strs 0 bs = None"
| "get_strs (Suc n) bs =
     (if bs = ''.'' then Some []
      else case bs of [] \<Rightarrow> None | c # r \<Rightarrow> do { (s, r') \<leftarrow> get_str r; ss \<leftarrow> get_strs n r'; Some (s # ss) })"

lemma show_nat_value: "digits_value 10 0 (show_nat n) = n"
  using digits_value_show [of 10 n] by (simp add: show_nat_def)

lemma get_put_str: "get_str (put_str s @ r) = Some (s, r)"
proof -
  have "CHR '':'' \<notin> set (show_nat n)" for n
    using show_nat_is_digit [of "CHR '':''" n] by (auto simp: is_digit_def)
  then show ?thesis by (simp add: get_str_def put_str_def split_once_append show_nat_value)
qed

lemma get_put_strs: "length (put_strs ss) \<le> n \<Longrightarrow> get_strs n (put_strs ss) = Some ss"
proof (induction ss arbitrary: n)
  case Nil
  then show ?case by (cases n) simp_all
next
  case (Cons x ss)
  then obtain m where n: "n = Suc m" by (cases n) auto
  have "length (put_strs ss) \<le> m" using Cons.prems n by simp
  then show ?case using Cons.IH n by (simp add: get_put_str)
qed

end
