(* ===== verification/D3_Safety.thy ===== *)
theory D3_Safety
  imports D3_State Field_Codec
begin

text \<open>
  What the GPU boot detector guarantees: its state file is replaced as a whole or not at all, what it saves is what the
  next run accepts, every evaluation ends in one of seven verdicts with an exact meaning, and a recovery is only ever
  reported for an absence that an earlier run recorded on another boot.
\<close>

section \<open>The state file\<close>

definition is_temp :: "string \<Rightarrow> bool" where
  "is_temp name \<longleftrightarrow> str_contains ''.d3-gpu-boot-'' name"

lemma temp_name_shape: "\<exists>d r. temp_name path pid nonce = d @ ''.d3-gpu-boot-'' @ r"
  unfolding temp_name_def using beside_suffix by blast

lemma temp_name_nonempty [simp]: "temp_name path pid nonce \<noteq> []"
  using temp_name_shape [of path pid nonce] by auto

lemma temp_name_is_temp [simp]: "is_temp (temp_name path pid nonce)"
  unfolding is_temp_def str_contains_iff by (rule temp_name_shape)

lemma restrict_permissions_touches [touch_rules]: "touches {} w (snd (restrict_permissions S p w))"
  using fs_touch_touches [of w S]
  by (cases "fs_touch S w"; cases "fst (fs_touch S w)") (simp_all add: restrict_permissions_def)

lemma restrict_permissions_ok: "restrict_permissions S p w = (Inr u, w') \<Longrightarrow> p \<noteq> [] \<and> w' = tock w"
  by (auto simp: restrict_permissions_def ok_iff split: prod.splits sum.splits if_splits)

lemma remove_after_touches:
  assumes "touches {t} w (snd (m w))"
  shows "touches {t} w (snd (remove_after S t e m w))"
  using assms by (cases "m w"; cases "fst (m w)")
    (auto simp: remove_after_def intro: touches_trans [OF _ fs_remove_touches])

lemma remove_after_ok [simp]: "remove_after S t e m w = (Inr x, w') \<longleftrightarrow> m w = (Inr x, w')"
  by (auto simp: remove_after_def split: prod.splits sum.splits)

lemma remove_after_err:
  "remove_after S t e m w = (Inl e', w') \<Longrightarrow> \<exists>d w1. m w = (Inl d, w1) \<and> w' = snd (fs_remove S t w1)"
  by (auto simp: remove_after_def split: prod.splits sum.splits)

lemma fs_rename_err_touches:
  assumes "remove_after S t e (fs_rename S t p) w = (Inl e', w')"
  shows "touches {t} w w'"
proof -
  obtain d w1 where "fs_rename S t p w = (Inl d, w1)" "w' = snd (fs_remove S t w1)"
    using remove_after_err [OF assms] by blast
  then show ?thesis
    using touches_trans [OF touches_mono [OF fs_rename_Err] fs_remove_touches] by blast
qed

lemma fget_touches: "touches N w w' \<Longrightarrow> n \<notin> N \<Longrightarrow> fget w' n = fget w n"
  by (simp add: touches_def)

locale d3_store_at =
  fixes S :: sys and E :: d3_env and path :: string
  assumes path_not_temp: "\<not> is_temp path"
begin

abbreviation "save \<equiv> store_save S E path"

lemma save_err_keeps: "save s w = (Inl e, w') \<Longrightarrow> fget w' path = fget w path"
proof -
  assume err: "save s w = (Inl e, w')"
  show ?thesis
  proof (cases "e_nonce E (tick w)")
    case None
    with err show ?thesis by (auto simp: store_save_def)
  next
    case (Some nonce)
    let ?t = "temp_name path (e_pid E) nonce"
    have "touches {?t} w w'"
    proof -
      have 1: "touches {?t} u (snd (with_err StateCreate (fs_create_new S ?t) u))" for u :: "'a fs_scheme"
        using fs_create_new_touches [of ?t u S] by simp
      have 2: "touches {?t} u (snd (restrict_permissions S ?t u))" for u :: "'a fs_scheme"
        using touches_mono [OF restrict_permissions_touches [of u S]] by simp
      have 3: "touches {?t} u (snd (remove_after S ?t e (io_bind (fs_write S ?t bs) (\<lambda>_. fs_touch S)) u))"
        for bs and e :: d3_error and u :: "'a fs_scheme"
        by (rule remove_after_touches, rule io_bind_touches [OF fs_write_touches])
          (use touches_mono [OF fs_touch_touches] in blast)
      have "touches {?t} (tock w) w'"
        using err [unfolded store_save_def Let_def Some option.case]
        by (elim st_bind_err_touches [OF _ 1] st_bind_err_touches [OF _ 2] st_bind_err_touches [OF _ 3] fs_rename_err_touches)
      then show ?thesis using touches_trans [OF touches_tock] by blast
    qed
    then show ?thesis using path_not_temp by (metis fget_touches singletonD temp_name_is_temp)
  qed
qed

lemma save_ok_stores: "save s w = (Inr u, w') \<Longrightarrow> fget w' path = Some (e_enc E s)"
  by (auto simp: store_save_def Let_def st_bind_ok_iff ok_iff append_file_def split: option.splits
      dest!: fs_create_new_Ok fs_rename_Ok restrict_permissions_ok)

end

sublocale d3_store_at \<subseteq> store: atomic_store "store_save S E path" "\<lambda>w. fget w path" "e_enc E"
  by unfold_locales (use save_ok_stores save_err_keeps in blast)+

text \<open>The file the command line uses when it names none and the state directory is \<open>/state\<close>.\<close>

definition default_state_name :: string where "default_state_name = ''/state/rigsignal/detectors/d3-gpu-boot.json''"

interpretation d3_default: d3_store_at S E default_state_name for S E
  by unfold_locales (simp add: is_temp_def default_state_name_def str_contains_def starts_with_def)

lemma store_lock_touches: "touches {lock_path path} w (snd (store_lock S path w))"
proof -
  let ?l = "lock_path path"
  have 1: "touches {?l} u (snd (with_err e (fs_touch S) u))" "touches {?l} u (snd (restrict_permissions S d u))"
    for e :: d3_error and d and u :: "'a fs_scheme"
    using touches_mono [OF fs_touch_touches [of u S]] touches_mono [OF restrict_permissions_touches [of u S d]] by simp_all
  have 2: "touches {?l} u (snd (with_err e (fs_open_or_create S ?l) u))" for e :: d3_error and u :: "'a fs_scheme"
    by (simp add: fs_open_or_create_def touches_def split: option.splits)
  have 3: "touches {?l} u (snd (lock_tries S n u))" for n and u :: "'a fs_scheme"
  proof (induction n arbitrary: u)
    case (Suc n)
    have "touches {?l} u (snd (fs_touch S u))" using touches_mono [OF fs_touch_touches [of u S]] by simp
    with Suc show ?case by (cases "fs_touch S u"; cases "fst (fs_touch S u)") (auto intro: touches_trans)
  qed simp
  have 4: "touches {?l} u (snd ((case parent_dir path of None \<Rightarrow> (\<lambda>w. (Ok (), w))
      | Some dir \<Rightarrow> st_bind (with_err StateDir (fs_touch S)) (\<lambda>_. restrict_permissions S dir)) u))" for u :: "'a fs_scheme"
    by (cases "parent_dir path") (simp, simp only: option.case, intro st_bind_touches 1)
  show ?thesis unfolding store_lock_def by (intro st_bind_touches 1 2 3 4)
qed

lemma store_load_touches: "touches {} w (snd (store_load S E path w))"
proof -
  have "touches {} u (snd (st_bind (with_err StateOpen (fs_open S path)) (\<lambda>source w'. (check_loaded E path source, w')) u))"
    for u :: "'a fs_scheme" by (rule st_bind_touches) (simp_all add: fs_open_touches)
  from touches_trans [OF touches_tock this [of "tock w"]] show ?thesis
    unfolding store_load_def by (simp split: option.split)
qed

section \<open>Every evaluation ends in a diagnosis\<close>

definition diagnosed :: "disposition \<Rightarrow> string \<Rightarrow> (d3_error, outcome) result \<Rightarrow> bool" where
  "diagnosed disp verdict r = (\<exists>d. r = Ok (Diagnosis d) \<and> dg_verdict d = verdict \<and> dg_disposition d = disp)"

lemma d3_diagnosis_diagnosed:
  "in_unit c \<Longrightarrow> basis \<noteq> [] \<Longrightarrow> evidence \<noteq> [] \<Longrightarrow> plain_language \<noteq> [] \<Longrightarrow> remedies \<noteq> [] \<Longrightarrow> falsifier \<noteq> [] \<Longrightarrow>
     alternative \<noteq> [] \<Longrightarrow>
     diagnosed disp verdict (d3_diagnosis E disp verdict c basis evidence plain_language remedies falsifier missing alternative host)"
  by (simp add: diagnosed_def d3_diagnosis_def build_def validate_def Let_def)

lemma confidences_in_unit [simp]:
  "in_unit conf_095" "in_unit conf_072" "in_unit conf_088" "in_unit conf_076" "in_unit conf_090" "in_unit conf_080"
  "in_unit conf_092" "in_unit (Finite 1)"
  by (simp_all add: in_unit_def conf_095_def conf_072_def conf_088_def conf_076_def conf_090_def conf_080_def conf_092_def)

lemmas evaluate_defs = evaluate_changed_def evaluate_absent_def evaluate_precursor_def evaluate_recovered_def
  evaluate_no_history_def evaluate_ok_def d3_success_def

lemma evaluate_parts_diagnosed:
  "diagnosed Finding ''hardware-changed'' (evaluate_changed E input b)"
  "diagnosed Finding ''bus-absent'' (evaluate_absent E input b)"
  "diagnosed Finding ''precursor-warning'' (evaluate_precursor E input b prior p)"
  "diagnosed NonFinding ''recovered'' (evaluate_recovered E input q)"
  "diagnosed NonFinding ''history-unavailable'' (evaluate_no_history E input b)"
  "diagnosed NonFinding ''ok'' (evaluate_ok E input b missing)"
  "message \<noteq> [] \<Longrightarrow> diagnosed NonFinding verdict (d3_success E verdict message host)"
  unfolding evaluate_defs Let_def by (rule d3_diagnosis_diagnosed; simp)+

lemma diagnosedD: "diagnosed disp v r \<Longrightarrow> \<exists>d. r = Ok (Diagnosis d)"
  by (auto simp: diagnosed_def)

lemmas parts_some [simp] = evaluate_parts_diagnosed [THEN diagnosedD]

section \<open>The three situations of the learned device\<close>

definition gpu_present :: "d3_input \<Rightarrow> baseline \<Rightarrow> bool" where
  "gpu_present input b = (case matching input b of [d] \<Rightarrow> pd_bdf d = bl_slot b | _ \<Rightarrow> False)"

definition gpu_absent :: "d3_input \<Rightarrow> baseline \<Rightarrow> bool" where
  "gpu_absent input b \<longleftrightarrow> matching input b = [] \<and> (case at_slot input b of None \<Rightarrow> True | Some d \<Rightarrow> is_bridge d)"

lemma present_not_absent: "gpu_present input b \<Longrightarrow> \<not> gpu_absent input b"
  by (auto simp: gpu_present_def gpu_absent_def)

lemma hardware_changed_iff: "hardware_changed input b \<longleftrightarrow> \<not> gpu_present input b \<and> \<not> gpu_absent input b"
  by (cases "matching input b" rule: remdups_adj.cases)
    (auto simp: hardware_changed_def gpu_present_def gpu_absent_def relocated_def split: option.splits)

definition precursor_fires :: "d3_env \<Rightarrow> d3_input \<Rightarrow> baseline \<Rightarrow> bool" where
  "precursor_fires E input b = (case prior_precursor E input b of Some (_, p) \<Rightarrow> pr_fires p | None \<Rightarrow> False)"

definition pending_elsewhere :: "d3_input \<Rightarrow> d3_state \<Rightarrow> bool" where
  "pending_elsewhere input s =
     (case st_pending s of Some q \<Rightarrow> pf_observation_boot_id q \<noteq> ps_boot_id (in_snapshot input) | None \<Rightarrow> False)"

lemma st_pending_same: "st_pending s = p \<Longrightarrow> s\<lparr>st_pending := p\<rparr> = s"
  by simp

text \<open>The verdict and the next state of an evaluation, one fact per branch.\<close>

lemma evaluate_branches:
  "st_baseline s = None \<Longrightarrow> diagnosed NonFinding ''baseline-required'' (fst (evaluate E input s)) \<and> snd (evaluate E input s) = s"
  "st_baseline s = Some b \<Longrightarrow> \<not> gpu_present input b \<Longrightarrow> \<not> gpu_absent input b \<Longrightarrow>
     evaluate E input s = (evaluate_changed E input b, s\<lparr>st_pending := None\<rparr>)"
  "st_baseline s = Some b \<Longrightarrow> gpu_absent input b \<Longrightarrow>
     evaluate E input s = (evaluate_absent E input b,
       s\<lparr>st_pending := Some \<lparr>pf_verdict = ''bus-absent'', pf_observation_boot_id = ps_boot_id (in_snapshot input),
                            pf_observed_at = e_now E\<rparr>\<rparr>)"
  "st_baseline s = Some b \<Longrightarrow> gpu_present input b \<Longrightarrow> evaluate E input s = evaluate_present E input b s"
proof -
  show "st_baseline s = None \<Longrightarrow> diagnosed NonFinding ''baseline-required'' (fst (evaluate E input s)) \<and> snd (evaluate E input s) = s"
    by (simp add: evaluate_def d3_diagnosis_diagnosed)
qed (auto simp: evaluate_def hardware_changed_iff gpu_absent_def dest: present_not_absent)

lemma evaluate_present_branches:
  "precursor_fires E input b \<Longrightarrow>
     \<exists>prior p. evaluate_present E input b s = (evaluate_precursor E input b prior p, s)"
  "\<not> precursor_fires E input b \<Longrightarrow> pending_elsewhere input s \<Longrightarrow>
     \<exists>q. st_pending s = Some q \<and> evaluate_present E input b s = (evaluate_recovered E input q, s\<lparr>st_pending := None\<rparr>)"
  "\<not> precursor_fires E input b \<Longrightarrow> \<not> pending_elsewhere input s \<Longrightarrow> prior_precursor E input b = None \<Longrightarrow>
     evaluate_present E input b s = (evaluate_no_history E input b, s)"
  "\<not> precursor_fires E input b \<Longrightarrow> \<not> pending_elsewhere input s \<Longrightarrow> prior_precursor E input b \<noteq> None \<Longrightarrow>
     \<exists>m. evaluate_present E input b s = (evaluate_ok E input b m, s)"
  by (auto simp: evaluate_present_def precursor_fires_def pending_elsewhere_def split: option.splits if_splits)

section \<open>What is saved is valid\<close>

definition state_ok :: "d3_env \<Rightarrow> d3_state \<Rightarrow> bool" where
  "state_ok E s \<longleftrightarrow> st_schema_version s = state_schema_version \<and> validate_state E s = Ok ()"

definition input_wf :: "d3_input \<Rightarrow> bool" where
  "input_wf input \<longleftrightarrow> list_all device_canonical (ps_devices (in_snapshot input))"

lemma state_ok_empty: "state_ok E empty_state"
  by (simp add: state_ok_def empty_state_def validate_state_def)

lemma state_ok_clear:
  "state_ok E s \<Longrightarrow> state_ok E (s\<lparr>st_pending := None\<rparr>)" "state_ok E s \<Longrightarrow> state_ok E (s\<lparr>st_baseline := None, st_pending := None\<rparr>)"
  by (auto simp: state_ok_def validate_state_def split: option.splits if_splits)

lemma state_ok_pending:
  "state_ok E s \<Longrightarrow> st_baseline s \<noteq> None \<Longrightarrow> canonical_boot_id boot \<Longrightarrow> valid_timestamp E t \<Longrightarrow>
     state_ok E (s\<lparr>st_pending := Some \<lparr>pf_verdict = ''bus-absent'', pf_observation_boot_id = boot, pf_observed_at = t\<rparr>\<rparr>)"
  by (auto simp: state_ok_def validate_state_def split: option.splits if_splits)

lemma state_ok_learned:
  assumes "st_schema_version s = state_schema_version" "device_canonical d" "canonical_boot_id boot" "valid_timestamp E (e_now E)"
  shows "state_ok E (s\<lparr>st_baseline := Some (baseline_from E d boot), st_pending := None\<rparr>)"
proof -
  have "canonical_bdf x" if "x \<in> set (butlast (map to_ascii_lowercase (bdf_chain (pd_parent_path d))))" for x
    using in_set_butlastD [OF that] bdf_chain_valid by auto
  moreover have "pd_upstream_bridge d = Some u \<Longrightarrow> canonical_bdf u" for u
    using assms(2) upstream_of_canonical by (simp add: device_canonical_def)
  ultimately show ?thesis using assms
    by (auto simp: state_ok_def validate_state_def baseline_from_def device_canonical_def list_ex_iff split: option.splits)
qed

lemma preflight_canonical: "preflight_d3 input = Ok u \<Longrightarrow> canonical_boot_id (ps_boot_id (in_snapshot input))"
  by (auto simp: preflight_d3_def and_then_eq_Inr split: if_splits dest: normalize_boot_id_canonical)

lemma evaluate_ok_state:
  assumes "state_ok E s" "canonical_boot_id (ps_boot_id (in_snapshot input))" "valid_timestamp E (e_now E)"
  shows "state_ok E (snd (evaluate E input s))"
proof (cases "st_baseline s")
  case None
  then show ?thesis using evaluate_branches(1) [OF None] assms(1) by simp
next
  case (Some b)
  show ?thesis
  proof (cases "gpu_present input b")
    case True
    have "snd (evaluate_present E input b s) \<in> {s, s\<lparr>st_pending := None\<rparr>}"
      by (auto simp: evaluate_present_def split: option.splits)
    with evaluate_branches(4) [OF Some True] state_ok_clear(1) [OF assms(1)] assms(1) show ?thesis by auto
  next
    case False
    then show ?thesis
      using evaluate_branches(2,3) [OF Some] state_ok_clear(1) [OF assms(1)] state_ok_pending [OF assms(1) _ assms(2,3)] Some
      by (cases "gpu_absent input b") auto
  qed
qed

lemma find_in: "List.find p xs = Some x \<Longrightarrow> x \<in> set xs"
  by (induction xs) (auto split: if_splits)

lemma run_operation_ok_state:
  assumes "run_operation E input op s = Ok (s', r)" "state_ok E s" "input_wf input"
    "canonical_boot_id (ps_boot_id (in_snapshot input))" "valid_timestamp E (e_now E)"
  shows "state_ok E s'"
proof (cases op)
  case Reset
  with assms(1) state_ok_clear(2) [OF assms(2)] show ?thesis by (auto simp: run_operation_def)
next
  case (Learn slot)
  with assms(1) obtain d where "d \<in> set (ps_devices (in_snapshot input))"
    "s' = s\<lparr>st_baseline := Some (baseline_from E d (ps_boot_id (in_snapshot input))), st_pending := None\<rparr>"
    by (auto simp: run_operation_def split: if_splits option.splits dest!: find_in)
  then show ?thesis
    using state_ok_learned [of s d "ps_boot_id (in_snapshot input)" E] assms(2-5) by (auto simp: state_ok_def input_wf_def list_all_iff)
next
  case Diagnose
  with assms(1) have "s' = snd (evaluate E input s)"
    by (auto simp: run_operation_def split: if_splits prod.splits sum.splits)
  with evaluate_ok_state [OF assms(2,4,5)] show ?thesis by simp
qed

lemma check_loaded_ok: "check_loaded E path c = Ok s \<longleftrightarrow> utf8_valid c \<and> e_dec E c = Some s \<and> state_ok E s"
  by (auto simp: check_loaded_def and_then_eq_Inr state_ok_def)

lemma store_load_ok: "store_load S E path w = (Inr s, w') \<Longrightarrow> state_ok E s"
  by (auto simp: store_load_def st_bind_ok_iff check_loaded_ok state_ok_empty split: option.splits if_splits)

lemma store_load_stored:
  "store_load S E path w = (Inr s, w') \<Longrightarrow>
     s = (case fget w path of None \<Rightarrow> empty_state | Some c \<Rightarrow> the (e_dec E c))"
  by (auto simp: store_load_def st_bind_ok_iff check_loaded_ok dest!: fs_open_Ok split: option.splits if_splits)

section \<open>A run on the state file\<close>

text \<open>What a reader of the state file sees: nothing, or a decoded state.\<close>

definition seen_state :: "d3_env \<Rightarrow> string \<Rightarrow> 'z fs_scheme \<Rightarrow> d3_state" where
  "seen_state E path w = (case fget w path of None \<Rightarrow> empty_state | Some c \<Rightarrow> the (e_dec E c))"

lemma run_operation_result: "run_operation E input op s = Ok (s', r) \<Longrightarrow> \<exists>d. r = Ok (Diagnosis d)"
proof (cases op)
  case Diagnose
  assume "run_operation E input op s = Ok (s', r)"
  with Diagnose obtain r0 where r0: "fst (evaluate E input s) = Ok r0" "r = Ok (append_missing
      (map (\<lambda>item. redact_collection_missing (e_upper E) item (in_host input)) (in_collection_missing input)) r0)"
    by (auto simp: run_operation_def split: if_splits prod.splits sum.splits)
  have "\<exists>d. fst (evaluate E input s) = Ok (Diagnosis d)"
  proof (cases "st_baseline s")
    case None
    then show ?thesis using evaluate_branches(1) [OF None] by (auto simp: diagnosed_def)
  next
    case (Some b)
    have "\<exists>d. fst (evaluate_present E input b s) = Ok (Diagnosis d)"
      by (simp add: evaluate_present_def split: option.split)
    then show ?thesis
      using evaluate_branches(2-4) [OF Some] by (cases "gpu_present input b"; cases "gpu_absent input b") auto
  qed
  with r0 show ?thesis by (auto simp: append_missing_def)
qed (auto simp: run_operation_def split: if_splits option.splits)

lemma run_d3_linux:
  assumes "in_platform input = Linux" "preflight_d3 input = Ok u" "path \<noteq> lock_path path"
  obtains (before) e w' where "run_d3 S E input op path w = (Err e, w')" "fget w' path = fget w path"
    | (save) s s' d w1 where "s = seen_state E path w" "state_ok E s" "run_operation E input op s = Ok (s', Ok (Diagnosis d))"
        "fget w1 path = fget w path"
        "run_d3 S E input op path w = (case store_save S E path s' w1 of (Inl e, w2) \<Rightarrow> (Err e, w2) | (Inr _, w2) \<Rightarrow> (Ok (Diagnosis d), w2))"
proof -
  obtain rl wl where l: "store_lock S path w = (rl, wl)" by (cases "store_lock S path w")
  have fl: "fget wl path = fget w path" using store_lock_touches [of path w S] assms(3) l by (simp add: touches_def)
  obtain rs w1 where ld: "store_load S E path wl = (rs, w1)" by (cases "store_load S E path wl")
  have f1: "fget w1 path = fget w path" using store_load_touches [of wl S E path] fl ld by (simp add: touches_def)
  show ?thesis
  proof (cases rl)
    case (Inl e)
    with l fl assms show ?thesis by (intro before [of e wl]) (simp_all add: run_d3_def st_bind_def)
  next
    case rl: (Inr v)
    show ?thesis
    proof (cases rs)
      case (Inl e)
      with l ld rl f1 assms show ?thesis by (intro before [of e w1]) (simp_all add: run_d3_def st_bind_def)
    next
      case rs: (Inr s)
      note seen = store_load_stored [OF ld [unfolded rs], unfolded fl, folded seen_state_def]
      note ok = store_load_ok [OF ld [unfolded rs]]
      show ?thesis
      proof (cases "run_operation E input op s")
        case (Inl e)
        with l ld rl rs f1 assms show ?thesis by (intro before [of e w1]) (simp_all add: run_d3_def st_bind_def)
      next
        case (Inr x)
        obtain s' r where x: "x = (s', r)" by (cases x)
        with Inr obtain d where d: "r = Ok (Diagnosis d)" using run_operation_result by blast
        have "run_d3 S E input op path w =
            (case store_save S E path s' w1 of (Inl e, w2) \<Rightarrow> (Err e, w2) | (Inr _, w2) \<Rightarrow> (Ok (Diagnosis d), w2))"
          using l ld rl rs Inr x d assms by (simp add: run_d3_def st_bind_def split: prod.split sum.split)
        then show ?thesis using save [OF seen ok _ f1] Inr x d by blast
      qed
    qed
  qed
qed

section \<open>One run keeps the state file readable\<close>

text \<open>Between runs the encoding and the timestamp parser stay the same.\<close>

definition env_ok :: "(d3_state \<Rightarrow> bytes) \<Rightarrow> (bytes \<Rightarrow> d3_state option) \<Rightarrow> time_libs \<Rightarrow> d3_env \<Rightarrow> bool" where
  "env_ok enc dec L E \<longleftrightarrow> e_enc E = enc \<and> e_dec E = dec \<and> e_time E = L \<and> valid_timestamp E (e_now E)"

definition file_ok :: "(bytes \<Rightarrow> d3_state option) \<Rightarrow> time_libs \<Rightarrow> bytes option \<Rightarrow> bool" where
  "file_ok dec L c \<longleftrightarrow>
     (case c of None \<Rightarrow> True
      | Some bs \<Rightarrow> (case dec bs of None \<Rightarrow> False
                  | Some s \<Rightarrow> st_schema_version s = 1 \<and> (\<forall>E. e_time E = L \<longrightarrow> validate_state E s = Ok ())))"

lemma validate_state_time: "e_time E = e_time E' \<Longrightarrow> validate_state E s = validate_state E' s"
proof -
  assume "e_time E = e_time E'"
  then have "valid_timestamp E = valid_timestamp E'" by (intro ext) (simp add: valid_timestamp_def)
  then show ?thesis by (simp only: validate_state_def)
qed

lemma run_d3_file:
  assumes "\<not> is_temp path" "path \<noteq> lock_path path" "input_wf input" "env_ok enc dec L E" "\<And>s. dec (enc s) = Some s"
    "file_ok dec L (fget w path)"
  shows "file_ok dec L (fget (snd (run_d3 S E input op path w)) path)"
proof (cases "in_platform input = Linux \<and> (\<exists>u. preflight_d3 input = Ok u)")
  case False
  then have "snd (run_d3 S E input op path w) = w"
    by (cases "in_platform input"; cases "preflight_d3 input") (auto simp: run_d3_def)
  with assms(6) show ?thesis by simp
next
  case True
  then obtain u where pre: "in_platform input = Linux" "preflight_d3 input = Ok u" by blast
  note at = d3_store_at.intro [OF assms(1)]
  from pre assms(2) show ?thesis
  proof (cases rule: run_d3_linux [where E = E and S = S and op = op and w = w])
    case (before e w')
    with assms(6) show ?thesis by simp
  next
    case (save s s' d w1)
    have ok: "state_ok E s'"
      using run_operation_ok_state [OF save(3,2) assms(3) preflight_canonical [OF pre(2)]] assms(4) by (simp add: env_ok_def)
    have "\<forall>E'. e_time E' = L \<longrightarrow> validate_state E' s' = Ok ()"
    proof (intro allI impI)
      fix E' :: d3_env assume "e_time E' = L"
      then have "validate_state E' s' = validate_state E s'" using assms(4) by (intro validate_state_time) (simp add: env_ok_def)
      with ok show "validate_state E' s' = Ok ()" by (simp add: state_ok_def)
    qed
    with ok have new: "file_ok dec L (Some (e_enc E s'))"
      using assms(4,5) by (simp add: file_ok_def env_ok_def state_ok_def state_schema_version_def)
    have "fget (snd (store_save S E path s' w1)) path \<in> {fget w path, Some (e_enc E s')}"
      using d3_store_at.save_ok_stores [OF at, of S E s' w1] d3_store_at.save_err_keeps [OF at, of S E s' w1] save(4)
      by (cases "store_save S E path s' w1"; cases "fst (store_save S E path s' w1)") auto
    moreover have "snd (run_d3 S E input op path w) = snd (store_save S E path s' w1)"
      unfolding save(5) by (simp split: prod.split sum.split)
    ultimately show ?thesis using new assms(6) by auto
  qed
qed

section \<open>The life of a pending finding\<close>

text \<open>A trace of completed operations: the verdict of each and the boot it saw.\<close>

inductive d3_trace :: "d3_state \<Rightarrow> (string \<times> string) list \<Rightarrow> d3_state \<Rightarrow> bool" for s0 where
  none: "d3_trace s0 [] s0"
| snoc: "d3_trace s0 evs s \<Longrightarrow> run_operation E input op s = Ok (s', Ok (Diagnosis d)) \<Longrightarrow>
     d3_trace s0 (evs @ [(dg_verdict d, ps_boot_id (in_snapshot input))]) s'"

definition quiet :: "string list" where
  "quiet = [''precursor-warning'', ''history-unavailable'', ''ok'']"

text \<open>The last verdict that is not quiet is an absence, on boot \<open>b\<close>.\<close>

definition absence_open :: "string \<Rightarrow> (string \<times> string) list \<Rightarrow> bool" where
  "absence_open b evs \<longleftrightarrow> (\<exists>p q. evs = p @ (''bus-absent'', b) # q \<and> set (map fst q) \<subseteq> set quiet)"

lemma absence_open_now: "absence_open b (evs @ [(''bus-absent'', b)])"
  unfolding absence_open_def by (intro exI [of _ evs] exI [of _ "[]"]) simp

lemma absence_open_quiet:
  assumes "absence_open b evs" "v \<in> set quiet"
  shows "absence_open b (evs @ [(v, c)])"
proof -
  obtain p q where "evs = p @ (''bus-absent'', b) # q" "set (map fst q) \<subseteq> set quiet"
    using assms(1) unfolding absence_open_def by blast
  with assms(2) show ?thesis
    unfolding absence_open_def by (intro exI [of _ p] exI [of _ "q @ [(v, c)]"]) simp
qed

lemma append_missing_verdict: "append_missing xs (Diagnosis d) = Diagnosis d' \<Longrightarrow> dg_verdict d' = dg_verdict d"
  by (auto simp: append_missing_def)

text \<open>One completed operation and the pending finding.\<close>

lemma evaluate_pending:
  assumes "evaluate E input s = (Ok (Diagnosis d), s')"
  obtains "dg_verdict d = ''bus-absent''" "map_option pf_observation_boot_id (st_pending s') = Some (ps_boot_id (in_snapshot input))"
    | "dg_verdict d = ''recovered''" "pending_elsewhere input s" "st_pending s' = None"
    | "dg_verdict d \<in> set quiet" "st_pending s' = st_pending s"
    | "dg_verdict d = ''hardware-changed''" "st_pending s' = None"
    | "st_baseline s = None" "dg_verdict d = ''baseline-required''" "st_pending s' = st_pending s"
proof (cases "st_baseline s")
  case None
  with assms that(5) evaluate_branches(1) [OF None, of E input] show ?thesis by (auto simp: diagnosed_def)
next
  case (Some b)
  show ?thesis
  proof (cases "gpu_present input b")
    case False
    then show ?thesis
      using assms that(1,4) evaluate_branches(2,3) [OF Some, of input E] evaluate_parts_diagnosed(1,2) [of E input b]
      by (cases "gpu_absent input b") (auto simp: diagnosed_def)
  next
    case True
    note ev = evaluate_branches(4) [OF Some True, of E]
    consider "precursor_fires E input b" | "\<not> precursor_fires E input b" "pending_elsewhere input s"
      | "\<not> precursor_fires E input b" "\<not> pending_elsewhere input s" by blast
    then show ?thesis
    proof cases
      case 1
      from evaluate_present_branches(1) [OF this, of s] obtain prior p
        where "evaluate_present E input b s = (evaluate_precursor E input b prior p, s)" by blast
      with assms ev that(3) evaluate_parts_diagnosed(3) [of E input b prior p] show ?thesis
        by (auto simp: diagnosed_def quiet_def)
    next
      case 2
      from evaluate_present_branches(2) [OF this] obtain q
        where "evaluate_present E input b s = (evaluate_recovered E input q, s\<lparr>st_pending := None\<rparr>)" by blast
      with assms ev that(2) [OF _ 2(2)] evaluate_parts_diagnosed(4) [of E input q] show ?thesis by (auto simp: diagnosed_def)
    next
      case 3
      have "evaluate_present E input b s = (evaluate_no_history E input b, s)
          \<or> (\<exists>m. evaluate_present E input b s = (evaluate_ok E input b m, s))"
        using evaluate_present_branches(3,4) [OF 3] by blast
      then have "diagnosed NonFinding ''history-unavailable'' (fst (evaluate E input s)) \<or> diagnosed NonFinding ''ok'' (fst (evaluate E input s))"
        "snd (evaluate E input s) = s"
        unfolding ev by (auto simp: evaluate_parts_diagnosed)
      with assms that(3) show ?thesis by (auto simp: diagnosed_def quiet_def)
    qed
  qed
qed

text \<open>What the invariant of a trace says of its last state, and how one operation keeps it.\<close>

definition trace_inv :: "(string \<times> string) list \<Rightarrow> d3_state \<Rightarrow> bool" where
  "trace_inv evs s \<longleftrightarrow> (st_baseline s = None \<longrightarrow> st_pending s = None)
     \<and> (\<forall>q. st_pending s = Some q \<longrightarrow> absence_open (pf_observation_boot_id q) evs)"

lemma operation_baseline:
  "run_operation E input op s = Ok (s', r) \<Longrightarrow> st_baseline s = None \<longrightarrow> st_pending s = None \<Longrightarrow>
     st_baseline s' = None \<longrightarrow> st_pending s' = None"
  by (cases op) (auto simp: run_operation_def evaluate_def evaluate_present_def
      split: if_splits option.splits prod.splits sum.splits)

lemma operation_pending:
  assumes run: "run_operation E input op s = Ok (s', Ok (Diagnosis d))" and inv: "trace_inv evs s"
  shows "(\<forall>q. st_pending s' = Some q \<longrightarrow>
           absence_open (pf_observation_boot_id q) (evs @ [(dg_verdict d, ps_boot_id (in_snapshot input))]))
     \<and> (dg_verdict d = ''recovered'' \<longrightarrow> (\<exists>b. b \<noteq> ps_boot_id (in_snapshot input) \<and> absence_open b evs))"
proof (cases op)
  case Reset
  with run evaluate_parts_diagnosed(7) [of "''D3 baseline and any pending finding were removed.''" "''baseline-reset''" E "in_host input"]
  show ?thesis by (auto simp: run_operation_def diagnosed_def)
next
  case (Learn slot)
  then have "st_pending s' = None" "dg_verdict d = ''baseline-learned''"
    using run by (auto simp: run_operation_def d3_success_def d3_diagnosis_def build_def Let_def and_then_eq_Inr
        split: if_splits option.splits sum.splits)
  then show ?thesis by simp
next
  case Diagnose
  with run obtain d0 where ev: "evaluate E input s = (Ok (Diagnosis d0), s')" and v: "dg_verdict d = dg_verdict d0"
    by (auto simp: run_operation_def append_missing_def split: if_splits prod.splits sum.splits outcome.splits)
  from ev show ?thesis
  proof (cases rule: evaluate_pending)
    case 1
    with v show ?thesis using absence_open_now by auto
  next
    case 2
    with inv v show ?thesis by (auto simp: pending_elsewhere_def trace_inv_def split: option.splits)
  next
    case 3
    with inv v absence_open_quiet show ?thesis by (auto simp: quiet_def trace_inv_def)
  next
    case 4
    with v show ?thesis by simp
  next
    case 5
    with v inv show ?thesis by (simp add: trace_inv_def)
  qed
qed

lemma snoc_split: "evs @ [e] = p @ x # r \<Longrightarrow> (p = evs \<and> x = e) \<or> (\<exists>r'. evs = p @ x # r')"
  by (cases r rule: rev_cases) auto

lemma d3_trace_inv: "d3_trace empty_state evs s \<Longrightarrow> trace_inv evs s"
proof (induction rule: d3_trace.induct)
  case none
  then show ?case by (simp add: trace_inv_def empty_state_def)
next
  case (snoc evs s E input op s' d)
  then show ?case using operation_pending [OF snoc.hyps(2) snoc.IH] operation_baseline [OF snoc.hyps(2)]
    by (simp add: trace_inv_def)
qed

section \<open>Properties\<close>

text \<open>C29: Saving the state replaces the file as a whole or leaves it alone: for every pattern of I/O faults a
  save that reports success has put exactly the new encoding in place, one that fails has left the old content, and no
  third file but the temporary one is touched.\<close>

theorem store_save_atomic:
  assumes "\<not> is_temp path"
  shows "case store_save S E path s w of
      (Inr _, w') \<Rightarrow> fget w' path = Some (e_enc E s)
    | (Inl _, w') \<Rightarrow> fget w' path = fget w path"
proof -
  note at = d3_store_at.intro [OF assms]
  show ?thesis
    using d3_store_at.save_ok_stores [OF at] d3_store_at.save_err_keeps [OF at]
    by (cases "store_save S E path s w"; cases "fst (store_save S E path s w)") auto
qed

text \<open>C28: A run either fails and leaves the state file as it was, or succeeds with a diagnosis and leaves in the file
  exactly the state that the operation computes from the state found there.\<close>

theorem run_d3_refines:
  assumes "\<not> is_temp path" "path \<noteq> lock_path path" "in_platform input = Linux"
  shows "case run_d3 S E input op path w of
      (Inl _, w') \<Rightarrow> fget w' path = fget w path
    | (Inr r, w') \<Rightarrow> (\<exists>s' d. run_operation E input op (seen_state E path w) = Ok (s', Ok (Diagnosis d)) \<and> r = Diagnosis d
                    \<and> fget w' path = Some (e_enc E s'))"
proof (cases "preflight_d3 input")
  case (Inl e)
  with assms(3) show ?thesis by (simp add: run_d3_def)
next
  case (Inr u)
  from assms(3) Inr assms(2) show ?thesis
  proof (cases rule: run_d3_linux [where E = E and S = S and op = op and w = w])
    case (before e w')
    then show ?thesis by simp
  next
    case (save s s' d w1)
    note at = d3_store_at.intro [OF assms(1)]
    from save show ?thesis
      using d3_store_at.save_ok_stores [OF at, of S E s' w1] d3_store_at.save_err_keeps [OF at, of S E s' w1]
      by (cases "store_save S E path s' w1"; cases "fst (store_save S E path s' w1)") auto
  qed
qed


text \<open>C5: A recovery is reported only for an absence on record: in every trace of completed operations from the
  empty state, each recovery on a boot follows an absence that was reported on another boot, with nothing in
  between but verdicts that leave the pending finding alone; so no absence is ever consumed twice.\<close>

theorem recovered_after_absence:
  assumes "d3_trace empty_state evs s" "evs = before @ (''recovered'', c) # later"
  shows "\<exists>b. b \<noteq> c \<and> absence_open b before"
  using assms
proof (induction arbitrary: later rule: d3_trace.induct)
  case none
  then show ?case by simp
next
  case (snoc evs s E input op s' d)
  from snoc_split [OF snoc.prems] show ?case
  proof
    assume "before = evs \<and> (''recovered'', c) = (dg_verdict d, ps_boot_id (in_snapshot input))"
    then show ?thesis using operation_pending [OF snoc.hyps(2) d3_trace_inv [OF snoc.hyps(1)]] by auto
  qed (use snoc.IH in blast)
qed

text \<open>A state file named without a directory cannot be used: the parent of such a path is the empty path, on
  which the permissions cannot be set, so every run fails before it takes the lock.\<close>

theorem bare_state_file_fails:
  assumes "CHR ''/'' \<notin> set path" "path \<noteq> []" "in_platform input = Linux" "preflight_d3 input = Ok u"
  shows "\<exists>e \<in> {StateDir, Permissions}. fst (run_d3 S E input op path w) = Err e"
proof -
  have "position (\<lambda>c. c = CHR ''/'') (rev path) = None" using assms(1) by (auto simp: position_None)
  then have p: "parent_dir path = Some []" using assms(1,2) by (auto simp: parent_dir_def rposition_def)
  have "\<exists>e \<in> {StateDir, Permissions}. fst (store_lock S path w) = Err e"
    by (auto simp: store_lock_def p st_bind_def with_err_def restrict_permissions_def split: prod.splits sum.splits)
  with assms(3,4) show ?thesis by (auto simp: run_d3_def st_bind_def split: prod.splits)
qed

section \<open>A concrete encoding\<close>

text \<open>Length-prefixed fields: an encoding of the state with the round trip that serde\_json has.\<close>

text \<open>The fields of a state in a fixed order; an option is a list of at most one string, with its length before it.\<close>

definition opt_strs :: "string option \<Rightarrow> string list" where
  "opt_strs x = (case x of None \<Rightarrow> [''0''] | Some s \<Rightarrow> [''1'', s])"

definition state_strs :: "d3_state \<Rightarrow> string list" where
  "state_strs s =
     show_nat (st_schema_version s)
     # (case st_pending s of None \<Rightarrow> [''0''] | Some q \<Rightarrow> [''1'', pf_verdict q, pf_observation_boot_id q, pf_observed_at q])
     @ (case st_baseline s of
          None \<Rightarrow> [''0'']
        | Some b \<Rightarrow> [''1'', bl_learned_boot_id b, bl_learned_at b, bl_slot b, bl_vendor b, bl_device b, bl_class b]
            @ opt_strs (bl_upstream_bridge b) @ bl_parent_bridge_chain b)"

definition get_upstream :: "string list \<Rightarrow> (string option \<times> string list) option" where
  "get_upstream xs = (case xs of f # ys \<Rightarrow> if f = ''0'' then Some (None, ys)
      else (case ys of u # zs \<Rightarrow> Some (Some u, zs) | [] \<Rightarrow> None) | [] \<Rightarrow> None)"

definition get_baseline :: "string list \<Rightarrow> baseline option option" where
  "get_baseline xs =
     (case xs of
        f # boot # learned # slot # vendor # device # cls # ys \<Rightarrow>
          do { (u, chain) \<leftarrow> get_upstream ys;
               Some (Some \<lparr>bl_learned_boot_id = boot, bl_learned_at = learned, bl_slot = slot, bl_vendor = vendor, bl_device = device,
                  bl_class = cls, bl_parent_bridge_chain = chain, bl_upstream_bridge = u\<rparr>) }
      | [f] \<Rightarrow> Some None
      | _ \<Rightarrow> None)"

definition strs_state :: "string list \<Rightarrow> d3_state option" where
  "strs_state xs =
     (case xs of
        v # f # ys \<Rightarrow>
          do { (p, zs) \<leftarrow> (if f = ''0'' then Some (None, ys)
                 else (case ys of a # b # c # zs \<Rightarrow>
                         Some (Some \<lparr>pf_verdict = a, pf_observation_boot_id = b, pf_observed_at = c\<rparr>, zs) | _ \<Rightarrow> None));
               b \<leftarrow> get_baseline zs;
               Some \<lparr>st_schema_version = digits_value 10 0 v, st_baseline = b, st_pending = p\<rparr> }
      | _ \<Rightarrow> None)"

definition enc_state :: "d3_state \<Rightarrow> bytes" where "enc_state s = put_strs (state_strs s)"
definition dec_state :: "bytes \<Rightarrow> d3_state option" where
  "dec_state bs = do { xs \<leftarrow> get_strs (length bs) bs; strs_state xs }"

lemma get_upstream_opt: "get_upstream (opt_strs u @ chain) = Some (u, chain)"
  by (simp add: get_upstream_def opt_strs_def split: option.split)

lemma dec_enc_state: "dec_state (enc_state s) = Some s"
proof -
  have b: "get_baseline (case st_baseline s of
          None \<Rightarrow> [''0'']
        | Some b \<Rightarrow> [''1'', bl_learned_boot_id b, bl_learned_at b, bl_slot b, bl_vendor b, bl_device b, bl_class b]
            @ opt_strs (bl_upstream_bridge b) @ bl_parent_bridge_chain b) = Some (st_baseline s)"
    by (cases "st_baseline s") (simp_all add: get_baseline_def get_upstream_opt)
  have "strs_state (state_strs s) = Some s"
    using b by (cases "st_pending s") (simp_all add: strs_state_def state_strs_def show_nat_value)
  then show ?thesis by (simp add: dec_state_def enc_state_def get_put_strs)
qed

section \<open>Witnesses\<close>

definition calm_sys :: sys where
  "calm_sys = \<lparr>fault = (\<lambda>n. None), wall = (\<lambda>n. Some 0), mono = (\<lambda>n. 0), order = (\<lambda>n xs. xs), modified = (\<lambda>n m. None), fuel = 0\<rparr>"

definition small_env :: d3_env where
  "small_env = \<lparr>e_time = \<lparr>parse_rfc3339 = (\<lambda>s. Some (0, 0)), parse_naive = (\<lambda>s. None)\<rparr>, e_now = ''now'', e_build_now = ''now'',
     e_upper = (\<lambda>c. False), e_pid = 7, e_nonce = (\<lambda>n. Some n), e_irregular = (\<lambda>n. False), e_enc = enc_state, e_dec = dec_state\<rparr>"

definition small_gpu :: pci_device where
  "small_gpu = \<lparr>pd_bdf = ''g'', pd_vendor = ''v'', pd_device = ''d'', pd_class = ''c'', pd_parent_path = ''p'',
     pd_upstream_bridge = None\<rparr>"

definition small_input :: "string \<Rightarrow> pci_device list \<Rightarrow> d3_input" where
  "small_input boot devices = \<lparr>in_platform = Linux, in_snapshot = \<lparr>ps_boot_id = boot, ps_devices = devices\<rparr>, in_current_boot_id = boot,
     in_boot_inventory = None, in_current_journal = None, in_prior_tail = None, in_prior_timing_unreliable = False,
     in_collection_missing = [], in_host = None\<rparr>"

definition empty_fs :: fs where "empty_fs = \<lparr>files = [], tick = 0, renames = []\<rparr>"

definition learned_state :: d3_state where
  "learned_state = empty_state\<lparr>st_baseline := Some (baseline_from small_env small_gpu ''A'')\<rparr>"

lemma default_name_facts: "\<not> is_temp default_state_name" "default_state_name \<noteq> lock_path default_state_name"
  by (simp add: is_temp_def default_state_name_def str_contains_def starts_with_def)
    (simp add: default_state_name_def lock_path_def beside_def path_join_def parent_dir_def rposition_def)

theorem store_save_atomic_witness:
  "fget (snd (store_save calm_sys small_env default_state_name empty_state empty_fs)) default_state_name = Some (enc_state empty_state)"
proof -
  have "\<exists>w'. store_save calm_sys small_env default_state_name empty_state empty_fs = (Inr (), w')"
    by (simp add: store_save_def small_env_def calm_sys_def empty_fs_def Let_def st_bind_def with_err_def fs_create_new_def
        fs_touch_def restrict_permissions_def remove_after_def io_bind_def fs_write_def fs_rename_def append_file_def tock_def fget_def fput_def)
  with store_save_atomic [OF default_name_facts(1), where S = calm_sys and E = small_env and s = empty_state and w = empty_fs] show ?thesis
    by (auto simp: small_env_def)
qed

theorem run_d3_refines_witness:
  "case run_d3 calm_sys small_env (small_input ''A'' [small_gpu]) Reset default_state_name empty_fs of
      (Inl _, w') \<Rightarrow> fget w' default_state_name = None
    | (Inr r, w') \<Rightarrow> (\<exists>s'. fget w' default_state_name = Some (enc_state s'))"
proof -
  have l: "in_platform (small_input ''A'' [small_gpu]) = Linux" by (simp add: small_input_def)
  show ?thesis
    using run_d3_refines [OF default_name_facts l, where S = calm_sys and E = small_env and op = Reset and w = empty_fs]
    by (auto simp: small_env_def empty_fs_def fget_def split: prod.splits sum.splits)
qed


theorem bare_state_file_fails_witness:
  "\<exists>e \<in> {StateDir, Permissions}.
     fst (run_d3 calm_sys small_env (small_input (replicate 32 CHR ''0'') []) Reset ''state.json'' empty_fs) = Err e"
proof -
  have l: "in_platform (small_input (replicate 32 CHR ''0'') []) = Linux" by (simp add: small_input_def)
  have "normalize_boot_id (replicate 32 CHR ''0'') = Ok (replicate 32 CHR ''0'')"
    by (simp add: normalize_boot_id_Ok ascii_lower_def is_hexdigit_def is_digit_def list_all_iff)
  then have p: "preflight_d3 (small_input (replicate 32 CHR ''0'') []) = Ok ()"
    by (simp add: preflight_d3_def small_input_def)
  show ?thesis by (rule bare_state_file_fails [OF _ _ l p]) simp_all
qed

lemma small_trace: "\<exists>s. d3_trace empty_state [(''baseline-learned'', ''A''), (''bus-absent'', ''B''), (''recovered'', ''C'')] s"
proof -
  let ?A = "small_input ''A'' [small_gpu]" and ?B = "small_input ''B'' []" and ?C = "small_input ''C'' [small_gpu]"
  note defs = run_operation_def small_input_def small_gpu_def empty_state_def d3_success_def d3_diagnosis_def build_def
    validate_def Let_def in_unit_def evaluate_def hardware_changed_def relocated_def matching_def at_slot_def
    identity_matches_def baseline_from_def link_down_journal_def evaluate_absent_def evaluate_recovered_def
    evaluate_present_def prior_precursor_def append_missing_def conf_072_def conf_090_def
  have 1: "\<exists>d s1. run_operation small_env ?A (Learn (Some ''g'')) empty_state = Ok (s1, Ok (Diagnosis d))
      \<and> dg_verdict d = ''baseline-learned'' \<and> st_baseline s1 = Some (baseline_from small_env small_gpu ''A'')"
    by (simp add: defs ascii_lower_def)
  then obtain d1 s1 where s1: "run_operation small_env ?A (Learn (Some ''g'')) empty_state = Ok (s1, Ok (Diagnosis d1))"
    "dg_verdict d1 = ''baseline-learned''" "st_baseline s1 = Some (baseline_from small_env small_gpu ''A'')" by blast
  have "\<exists>d s2. run_operation small_env ?B Diagnose s1 = Ok (s2, Ok (Diagnosis d))
      \<and> dg_verdict d = ''bus-absent'' \<and> st_baseline s2 = st_baseline s1
      \<and> map_option pf_observation_boot_id (st_pending s2) = Some ''B''"
    using s1(3) by (simp add: defs)
  then obtain d2 s2 where s2: "run_operation small_env ?B Diagnose s1 = Ok (s2, Ok (Diagnosis d2))"
    "dg_verdict d2 = ''bus-absent''" "st_baseline s2 = st_baseline s1"
    "map_option pf_observation_boot_id (st_pending s2) = Some ''B''" by blast
  have "\<exists>d s3. run_operation small_env ?C Diagnose s2 = Ok (s3, Ok (Diagnosis d)) \<and> dg_verdict d = ''recovered''"
    using s2(3,4) s1(3) by (auto simp: defs)
  then obtain d3 s3 where s3: "run_operation small_env ?C Diagnose s2 = Ok (s3, Ok (Diagnosis d3))" "dg_verdict d3 = ''recovered''"
    by blast
  from d3_trace.snoc [OF d3_trace.snoc [OF d3_trace.snoc [OF d3_trace.none s1(1)] s2(1)] s3(1)] s1(2) s2(2) s3(2)
  show ?thesis by (auto simp: small_input_def)
qed

theorem recovered_after_absence_witness:
  "\<exists>b. b \<noteq> ''C'' \<and> absence_open b [(''baseline-learned'', ''A''), (''bus-absent'', ''B'')]"
proof -
  obtain s where "d3_trace empty_state [(''baseline-learned'', ''A''), (''bus-absent'', ''B''), (''recovered'', ''C'')] s"
    using small_trace by blast
  from recovered_after_absence [OF this, of "[(''baseline-learned'', ''A''), (''bus-absent'', ''B'')]" "''C''" "[]"]
  show ?thesis by simp
qed

end
