(* ===== verification/Lossy.thy ===== *)
theory Lossy
  imports Rust_Str
begin

text \<open>
  \<open>String::from_utf8_lossy\<close>: every maximal piece of invalid bytes becomes one replacement character.  The result
  is always valid UTF-8, and valid input is returned as it is.
\<close>

definition replacement_char :: nat where "replacement_char = 0xFFFD"

text \<open>Whether the second byte can continue a three or four byte character that starts with the given byte.\<close>

definition second_ok :: "nat \<Rightarrow> nat \<Rightarrow> bool" where
  "second_ok v b \<longleftrightarrow>
     (if v = 0xE0 then 0xA0 \<le> b \<and> b \<le> 0xBF else if v = 0xED then 0x80 \<le> b \<and> b \<le> 0x9F
      else if 0xE1 \<le> v \<and> v \<le> 0xEF then 0x80 \<le> b \<and> b \<le> 0xBF
      else if v = 0xF0 then 0x90 \<le> b \<and> b \<le> 0xBF else if 0xF1 \<le> v \<and> v \<le> 0xF3 then 0x80 \<le> b \<and> b \<le> 0xBF
      else if v = 0xF4 then 0x80 \<le> b \<and> b \<le> 0x8F else False)"

text \<open>The length of the invalid piece at the start of a text that does not start with a character.\<close>

definition invalid_len :: "string \<Rightarrow> nat" where
  "invalid_len s =
     (case s of
        b0 # b1 # r \<Rightarrow>
          if second_ok (byte b0) (byte b1)
          then (case r of b2 # _ \<Rightarrow> if 0xF0 \<le> byte b0 \<and> is_cont b2 then 3 else 2 | [] \<Rightarrow> 2)
          else 1
      | _ \<Rightarrow> 1)"

lemma invalid_len_pos: "1 \<le> invalid_len s"
  by (simp add: invalid_len_def split: list.split)

function from_utf8_lossy :: "string \<Rightarrow> string" where
  "from_utf8_lossy s =
     (if s = [] then []
      else case utf8_next s of
        Some (c, w) \<Rightarrow> take w s @ from_utf8_lossy (drop w s)
      | None \<Rightarrow> encode_char replacement_char @ from_utf8_lossy (drop (invalid_len s) s))"
  by pat_completeness auto
termination
  by (relation "measure length") (auto dest: utf8_next_width simp: less_le_trans [OF _ invalid_len_pos])

declare from_utf8_lossy.simps [simp del]

lemma utf8_valid_encode: "is_scalar c \<Longrightarrow> utf8_valid (encode_char c)"
  using utf8_valid_str_of_chars [of "[c]"] by simp

lemma utf8_valid_lossy: "utf8_valid (from_utf8_lossy s)"
proof (induction s rule: from_utf8_lossy.induct)
  case (1 s)
  show ?case
  proof (cases "s = []")
    case True
    then show ?thesis using utf8_valid_str_of_chars [of "[]"] by (simp add: from_utf8_lossy.simps)
  next
    case ne: False
    show ?thesis
    proof (cases "utf8_next s")
      case None
      have "is_scalar replacement_char" by (simp add: is_scalar_def replacement_char_def)
      with "1.IH"(1) [OF ne None] None ne show ?thesis
        by (subst from_utf8_lossy.simps) (simp add: utf8_valid_append utf8_valid_encode)
    next
      case (Some p)
      then obtain c w where p: "utf8_next s = Some (c, w)" by (cases p) auto
      from utf8_next_Some [OF p] obtain r where sc: "is_scalar c" "w = len_utf8 c" "s = encode_char c @ r" by blast
      then have "take w s = encode_char c" by (simp add: length_encode_char)
      with "1.IH"(2) [OF ne p refl] p ne sc(1) show ?thesis
        by (subst from_utf8_lossy.simps) (simp add: utf8_valid_append utf8_valid_encode)
    qed
  qed
qed

lemma lossy_valid: "utf8_valid s \<Longrightarrow> from_utf8_lossy s = s"
proof (induction s rule: from_utf8_lossy.induct)
  case (1 s)
  show ?case
  proof (cases "s = []")
    case True
    then show ?thesis by (simp add: from_utf8_lossy.simps)
  next
    case ne: False
    then obtain c w where p: "utf8_next s = Some (c, w)" "utf8_valid (drop w s)"
      using "1.prems" by (subst (asm) utf8_valid.simps) (auto split: option.splits)
    with "1.IH"(2) [OF ne p(1) refl] ne show ?thesis by (subst from_utf8_lossy.simps) simp
  qed
qed

end
