(* ===== verification/D3_Cli.thy ===== *)
theory D3_Cli
  imports D3_Safety Lossy
begin

text \<open>
  Model of the command line of the GPU boot detector of \<open>src/src/detectors/d3.rs\<close>: the checks on its options, the
  bounded readers, the offline and the live collection, and the composition with \<open>run\<close>.  The host (environment,
  files, directory listings, processes) is a record of functions; waiting for a process is part of its result.
  The lemmas show that an offline run reads nothing but the files it was given, and that no invocation can leave a
  state file that the next one would reject.
\<close>

section \<open>The host\<close>

datatype proc_result = SpawnFailed string | WaitFailed string | TimedOut | OutputFailed string
  | Exited bool string bytes bytes

text \<open>\<open>h_meta\<close> answers \<open>symlink_metadata\<close>: whether the path is a regular file, and its length.\<close>

record d3_host =
  h_env :: "string \<Rightarrow> string option"
  h_meta :: "string \<Rightarrow> (bool \<times> nat) option"
  h_text :: "string \<Rightarrow> string option"
  h_proc :: "string \<Rightarrow> string list \<Rightarrow> proc_result"
  h_pci_devices :: "string option list option"
  h_canonical :: "string \<Rightarrow> string option"

record cli_options =
  co_offline :: bool
  co_journal_current :: "string option"
  co_journal_prior_kernel :: "string option"
  co_journal_prior_tail :: "string option"
  co_pci_snapshot :: "string option"
  co_boot_list :: "string option"
  co_current_boot_id :: "string option"
  co_state_file :: "string option"
  co_slot :: "string option"
  co_json :: bool
  co_host :: "string option"
  co_learn_baseline :: bool
  co_reset_baseline :: bool

section \<open>Readers\<close>

definition offline_journal_absurd_limit :: nat where "offline_journal_absurd_limit = 64 * 1024 * 1024"

definition read_regular_text :: "d3_host \<Rightarrow> string \<Rightarrow> (d3_error, string) result" where
  "read_regular_text H path =
     (case h_meta H path of
        None \<Rightarrow> Err (Inspect path)
      | Some (regular, len) \<Rightarrow>
          if \<not> regular then Err (NotRegular path)
          else if read_limit < len then Err (TooLong path)
          else ok_or (CannotRead path) (h_text H path))"

text \<open>The result carries the missing evidence to append.\<close>

definition read_offline_journal_option ::
    "d3_host \<Rightarrow> string option \<Rightarrow> bool \<Rightarrow> string \<Rightarrow> (d3_error, string option \<times> string list) result" where
  "read_offline_journal_option H path retain_start label =
     (case path of
        None \<Rightarrow> Ok (None, [])
      | Some path \<Rightarrow>
          (case h_meta H path of
             None \<Rightarrow> Err (Inspect path)
           | Some (regular, len) \<Rightarrow>
               if \<not> regular then Err (NotRegular path)
               else if offline_journal_absurd_limit < len then Err (TooLong path)
               else and_then (ok_or (CannotRead path) (h_text H path)) (\<lambda>source.
                 if journal_has_no_entries source
                 then Ok (None, [label @ '' unavailable: journalctl reported no entries''])
                 else let bounded = (if retain_start then bounded_start source else bounded_end source) in
                   Ok (Some bounded,
                       if journal_limit < length source then [label @ '' was bounded to the D3 journal read limit''] else []))))"

definition default_state_file :: "d3_host \<Rightarrow> string" where
  "default_state_file H =
     path_join (case h_env H ''XDG_STATE_HOME'' of
                  Some d \<Rightarrow> d
                | None \<Rightarrow> (case h_env H ''HOME'' of Some home \<Rightarrow> path_join home ''.local/state'' | None \<Rightarrow> ''.local/state''))
       ''rigsignal/detectors/d3-gpu-boot.json''"

section \<open>Commands\<close>

definition truncate_text :: "string \<Rightarrow> string" where
  "truncate_text v = str_of_chars (take 512 (chars v))"

definition command_bounded :: "d3_host \<Rightarrow> string \<Rightarrow> string list \<Rightarrow> bool \<Rightarrow> (string, string) result" where
  "command_bounded H command args retain_start =
     (case h_proc H command args of
        SpawnFailed e \<Rightarrow> Err (command @ '' spawn failed: '' @ e)
      | WaitFailed e \<Rightarrow> Err (command @ '' wait failed: '' @ e)
      | TimedOut \<Rightarrow> Err (command @ '' timed out'')
      | OutputFailed e \<Rightarrow> Err (command @ '' output failed: '' @ e)
      | Exited success status out err \<Rightarrow>
          let stderr = from_utf8_lossy err in
          if \<not> success then Err (command @ '' failed ('' @ status @ ''): '' @ truncate_text stderr)
          else if trim stderr \<noteq> [] then Err (command @ '' wrote stderr: '' @ truncate_text stderr)
          else let t = from_utf8_lossy out in Ok (if retain_start then bounded_start t else bounded_end t))"

definition journal_command_bounded :: "d3_host \<Rightarrow> string list \<Rightarrow> bool \<Rightarrow> (string, string) result" where
  "journal_command_bounded H extra retain_start =
     command_bounded H ''journalctl'' ([''--no-pager'', ''-o'', ''short-iso-precise''] @ extra) retain_start"

definition journal_command :: "d3_host \<Rightarrow> string list \<Rightarrow> (string, string) result" where
  "journal_command H extra = journal_command_bounded H extra False"

definition journal_command_start :: "d3_host \<Rightarrow> string list \<Rightarrow> (string, string) result" where
  "journal_command_start H extra = journal_command_bounded H extra True"

definition journal_tail :: "d3_host \<Rightarrow> string \<Rightarrow> (string, string) result" where
  "journal_tail H boot_id =
     and_then (journal_command_start H [''--boot'', boot_id, ''--reverse'', ''-n'', ''2048'']) (\<lambda>reversed.
       let ls = lines reversed;
           terminal = (case ls of [] \<Rightarrow> [] | l # _ \<Rightarrow> trim l) in
       and_then (journal_command H [''--boot'', boot_id, ''-n'', ''1'']) (\<lambda>lst.
         let expected = (case rev (lines lst) of [] \<Rightarrow> [] | l # _ \<Rightarrow> trim l) in
         if terminal \<noteq> expected then Err ''journal tail does not reach this boot's final inventory entry''
         else Ok (join_with [CHR 0x0A] (rev ls))))"

section \<open>Live collection\<close>

definition collect_device :: "d3_host \<Rightarrow> string \<Rightarrow> string \<Rightarrow> (d3_error, pci_device) result" where
  "collect_device H dir bdf =
     and_then (read_regular_text H (path_join dir ''vendor'')) (\<lambda>v. let vendor = to_ascii_lowercase (trim v) in
     and_then (read_regular_text H (path_join dir ''device'')) (\<lambda>d. let device = to_ascii_lowercase (trim d) in
     and_then (read_regular_text H (path_join dir ''class'')) (\<lambda>c. let cls = to_ascii_lowercase (trim c) in
       if \<not> valid_hex_field vendor 4 \<or> \<not> valid_hex_field device 4 \<or> \<not> valid_hex_field cls 6 then Err (SysfsIdentity bdf)
       else and_then (ok_or (SysfsResolve bdf) (h_canonical H dir)) (\<lambda>parent_path.
         Ok \<lparr>pd_bdf = bdf, pd_vendor = vendor, pd_device = device, pd_class = cls, pd_parent_path = parent_path,
             pd_upstream_bridge = upstream_of (bdf_chain parent_path)\<rparr>))))"

fun collect_devices :: "d3_host \<Rightarrow> string option list \<Rightarrow> (d3_error, pci_device list) result" where
  "collect_devices H [] = Ok []"
| "collect_devices H (None # es) = Err SysfsEntry"
| "collect_devices H (Some name # es) =
     (let bdf = to_ascii_lowercase name in
      if \<not> valid_bdf bdf then collect_devices H es
      else and_then (collect_device H (path_join ''/sys/bus/pci/devices'' name) bdf) (\<lambda>d.
           and_then (collect_devices H es) (\<lambda>ds. Ok (d # ds))))"

definition collect_sysfs_snapshot :: "d3_host \<Rightarrow> string \<Rightarrow> (d3_error, pci_snapshot) result" where
  "collect_sysfs_snapshot H boot_id =
     and_then (ok_or SysfsEnumerate (h_pci_devices H)) (\<lambda>entries.
     and_then (collect_devices H entries) (\<lambda>devices.
       if devices = [] then Err SysfsNoDevices else Ok \<lparr>ps_boot_id = boot_id, ps_devices = devices\<rparr>))"

definition normalize_live_boot_id :: "string \<Rightarrow> (d3_error, string) result" where
  "normalize_live_boot_id v = normalize_boot_id (trim v)"

text \<open>Inventory, journal of the current boot, and both journals of the prior boot, each with what it adds to the
  missing evidence.\<close>

definition live_inventory :: "d3_env \<Rightarrow> d3_host \<Rightarrow> string option \<Rightarrow> string list option \<times> string list" where
  "live_inventory E H host =
     (case journal_command H [''--list-boots''] of
        Inr t \<Rightarrow> (case parse_boot_inventory t of
                   Inr v \<Rightarrow> (Some v, [])
                 | Inl _ \<Rightarrow> (None, [redacted_collection_failure (e_upper E)
                              ''boot inventory unavailable: boot inventory contains no canonical boot IDs'' host]))
      | Inl error \<Rightarrow> (None, [redacted_collection_failure (e_upper E) (''boot inventory unavailable: '' @ error) host]))"

definition live_current :: "d3_env \<Rightarrow> d3_host \<Rightarrow> string option \<Rightarrow> string \<Rightarrow> string option \<times> string list" where
  "live_current E H host current_boot_id =
     (case journal_command H [''--boot'', current_boot_id, ''-k''] of
        Inr v \<Rightarrow> if journal_has_no_entries v
                 then (None, [''same-boot kernel journal unavailable: journalctl reported no entries''])
                 else (Some v, [])
      | Inl error \<Rightarrow> (None, [redacted_collection_failure (e_upper E) (''same-boot kernel journal unavailable: '' @ error) host]))"

definition live_prior :: "d3_env \<Rightarrow> d3_host \<Rightarrow> string option \<Rightarrow> string \<Rightarrow> string option \<times> bool \<times> string list" where
  "live_prior E H host prior =
     (case (journal_command H [''--boot'', prior, ''-k''], journal_tail H prior) of
        (Inr k, Inr t) \<Rightarrow>
          (let (kern, m1) = (if journal_has_no_entries k
                 then (None, [''prior boot kernel journal unavailable: journalctl reported no entries'']) else (Some k, []));
               (tail, m2) = (if journal_has_no_entries t
                 then (None, [''prior boot journal tail unavailable: journalctl reported no entries'']) else (Some t, []));
               unreliable = (case kern of None \<Rightarrow> False | Some j \<Rightarrow> journal_timestamps_non_monotonic (e_time E) j)
                 \<or> (case tail of None \<Rightarrow> False | Some j \<Rightarrow> journal_timestamps_non_monotonic (e_time E) j)
           in (combine_prior (e_time E) kern tail, unreliable, m1 @ m2))
      | (k, t) \<Rightarrow>
          (None, False, [redacted_collection_failure (e_upper E)
             (''prior boot journal unavailable: '' @ (case k of Inl e \<Rightarrow> e | Inr _ \<Rightarrow> [])
                @ (case t of Inl e \<Rightarrow> '' '' @ e | Inr _ \<Rightarrow> [])) host]))"

definition live_outcome ::
    "sys \<Rightarrow> d3_env \<Rightarrow> d3_host \<Rightarrow> operation \<Rightarrow> string \<Rightarrow> string option \<Rightarrow> 'z fs_scheme \<Rightarrow> (d3_error, outcome) result \<times> 'z fs_scheme" where
  "live_outcome S E H op state_file host w =
     (case and_then (read_regular_text H ''/proc/sys/kernel/random/boot_id'') (\<lambda>t.
           and_then (normalize_live_boot_id t) (\<lambda>boot.
           and_then (collect_sysfs_snapshot H boot) (\<lambda>snapshot. Ok (boot, snapshot)))) of
        Inl e \<Rightarrow> (Err e, w)
      | Inr (current_boot_id, snapshot) \<Rightarrow>
          (let (inventory, m1) = live_inventory E H host;
               (current_journal, m2) = live_current E H host current_boot_id;
               (prior_tail, unreliable, m3) =
                 (case Option.bind inventory (\<lambda>v. prior_for v current_boot_id) of
                    None \<Rightarrow> (None, False, [])
                  | Some prior \<Rightarrow> live_prior E H host prior)
           in run_d3 S E \<lparr>in_platform = Linux, in_snapshot = snapshot, in_current_boot_id = current_boot_id,
                in_boot_inventory = inventory, in_current_journal = current_journal, in_prior_tail = prior_tail,
                in_prior_timing_unreliable = unreliable, in_collection_missing = m1 @ m2 @ m3, in_host = host\<rparr>
                op state_file w))"

text \<open>The other platforms.\<close>

definition live_outcome_other :: "(d3_error, outcome) result" where
  "live_outcome_other =
     Ok (NotApplicable (new_not_applicable ''Live D3 collection is only available on Linux.'' [''platform: non-Linux'']))"

section \<open>The command line\<close>

definition offline_input :: "d3_env \<Rightarrow> d3_host \<Rightarrow> cli_options \<Rightarrow> string \<Rightarrow> (d3_error, d3_input) result" where
  "offline_input E H co snapshot_path =
     and_then (read_regular_text H snapshot_path) (\<lambda>snapshot_text.
     and_then (parse_pci_snapshot snapshot_text) (\<lambda>snapshot.
     and_then (case co_current_boot_id co of None \<Rightarrow> Ok (ps_boot_id snapshot) | Some v \<Rightarrow> normalize_boot_id v) (\<lambda>current_boot_id.
     and_then (case co_boot_list co of None \<Rightarrow> Ok None | Some p \<Rightarrow> and_then (read_regular_text H p) (\<lambda>t. Ok (Some t))) (\<lambda>inventory_source.
     and_then (case inventory_source of None \<Rightarrow> Ok None | Some t \<Rightarrow> and_then (parse_boot_inventory t) (\<lambda>v. Ok (Some v))) (\<lambda>boot_inventory.
     and_then (read_offline_journal_option H (co_journal_current co) False ''same-boot journal'') (\<lambda>(current_journal, m1).
     and_then (read_offline_journal_option H (co_journal_prior_kernel co) True ''prior boot kernel journal'') (\<lambda>(prior_kernel, m2).
     and_then (read_offline_journal_option H (co_journal_prior_tail co) False ''prior boot journal tail'') (\<lambda>(prior_tail, m3).
     and_then (validate_supplied_journal_pairing (e_time E) inventory_source current_boot_id current_journal prior_kernel prior_tail) (\<lambda>m4.
       Ok \<lparr>in_platform = Linux, in_snapshot = snapshot, in_current_boot_id = current_boot_id, in_boot_inventory = boot_inventory,
           in_current_journal = current_journal, in_prior_tail = combine_prior (e_time E) prior_kernel prior_tail,
           in_prior_timing_unreliable =
             (case prior_kernel of None \<Rightarrow> False | Some j \<Rightarrow> journal_timestamps_non_monotonic (e_time E) j)
             \<or> (case prior_tail of None \<Rightarrow> False | Some j \<Rightarrow> journal_timestamps_non_monotonic (e_time E) j),
           in_collection_missing = m1 @ m2 @ m3 @ m4, in_host = co_host co\<rparr>)))))))))"

definition supplied_fixture :: "cli_options \<Rightarrow> bool" where
  "supplied_fixture co \<longleftrightarrow> co_journal_current co \<noteq> None \<or> co_journal_prior_kernel co \<noteq> None \<or> co_journal_prior_tail co \<noteq> None
     \<or> co_pci_snapshot co \<noteq> None \<or> co_boot_list co \<noteq> None \<or> co_current_boot_id co \<noteq> None"

definition cli_operation :: "cli_options \<Rightarrow> operation" where
  "cli_operation co = (if co_reset_baseline co then Reset else if co_learn_baseline co then Learn (co_slot co) else Diagnose)"

definition cli_outcome :: "sys \<Rightarrow> d3_env \<Rightarrow> d3_host \<Rightarrow> cli_options \<Rightarrow> 'z fs_scheme \<Rightarrow> (d3_error, outcome) result \<times> 'z fs_scheme" where
  "cli_outcome S E H co w =
     (if supplied_fixture co \<and> \<not> co_offline co then (Err FixtureNeedsOffline, w)
      else if co_learn_baseline co \<and> co_reset_baseline co then (Err LearnAndReset, w)
      else if co_reset_baseline co \<and> co_slot co \<noteq> None then (Err ResetWithSlot, w)
      else let op = cli_operation co;
               state_file = (case co_state_file co of Some f \<Rightarrow> f | None \<Rightarrow> default_state_file H) in
        if co_offline co
        then (case co_pci_snapshot co of
                None \<Rightarrow> (Err NeedsSnapshot, w)
              | Some snapshot_path \<Rightarrow>
                  if co_state_file co = None then (Err NeedsStateFile, w)
                  else if co_boot_list co = None \<and> co_current_boot_id co = None then (Err NeedsBoot, w)
                  else (case offline_input E H co snapshot_path of
                          Inl e \<Rightarrow> (Err e, w)
                        | Inr input \<Rightarrow> run_d3 S E input op state_file w))
        else live_outcome S E H op state_file (co_host co) w)"

text \<open>\<open>render\<close> is the text of an error on standard error.\<close>

definition run_cli :: "texts \<Rightarrow> (d3_error \<Rightarrow> string) \<Rightarrow> sys \<Rightarrow> d3_env \<Rightarrow> d3_host \<Rightarrow> cli_options \<Rightarrow> 'z fs_scheme
    \<Rightarrow> (nat \<times> string) \<times> 'z fs_scheme" where
  "run_cli X render S E H co w =
     (case cli_outcome S E H co w of (r, w') \<Rightarrow> (emit X (case r of Inl e \<Rightarrow> Inl (render e) | Inr x \<Rightarrow> Inr x) (co_json co), w'))"

section \<open>Lemmas\<close>

lemma hex_lower_canonical:
  "valid_hex_field (to_ascii_lowercase v) n \<Longrightarrow> canonical_hex_field (to_ascii_lowercase v) n"
  by (simp add: canonical_hex_field_def)

lemma collect_device_canonical: "collect_device H dir bdf = Ok d \<Longrightarrow> canonical_bdf bdf \<Longrightarrow> device_canonical d"
  by (auto simp: collect_device_def and_then_eq_Inr Let_def device_canonical_def hex_lower_canonical split: if_splits)

lemma collect_devices_canonical: "collect_devices H es = Ok ds \<Longrightarrow> list_all device_canonical ds"
proof (induction H es arbitrary: ds rule: collect_devices.induct)
  case (3 H name es)
  have "valid_bdf (to_ascii_lowercase name) \<Longrightarrow> canonical_bdf (to_ascii_lowercase name)" by (simp add: canonical_bdf_def)
  with 3 show ?case by (auto simp: Let_def and_then_eq_Inr split: if_splits dest: collect_device_canonical)
qed auto

lemma parse_pci_snapshot_canonical: "parse_pci_snapshot src = Ok s \<Longrightarrow> list_all device_canonical (ps_devices s)"
proof -
  assume "parse_pci_snapshot src = Ok s"
  then have rows: "list_all2 (\<lambda>l d. parse_row l = Ok d) (row_lines (lines src)) (ps_devices s)"
    by (auto simp: parse_pci_snapshot_def and_then_eq_Inr parse_rows_Ok split: if_splits option.splits)
  have "list_all2 (\<lambda>l d. parse_row l = Ok d) ls ds \<Longrightarrow> list_all device_canonical ds" for ls ds
    by (induction rule: list_all2_induct) (auto dest: parse_row_wf simp: device_wf_def)
  with rows show ?thesis by blast
qed

lemma offline_input_wf: "offline_input E H co p = Ok input \<Longrightarrow> input_wf input"
  by (auto simp: offline_input_def and_then_eq_Inr input_wf_def dest: parse_pci_snapshot_canonical)

text \<open>Every invocation that does not fail early is one run of the core on a canonical snapshot.\<close>

lemma cli_outcome_run:
  obtains (early) e where "cli_outcome S E H co w = (Err e, w)"
    | (run) input where "input_wf input" "cli_outcome S E H co w
        = run_d3 S E input (cli_operation co) (case co_state_file co of Some f \<Rightarrow> f | None \<Rightarrow> default_state_file H) w"
proof -
  let ?f = "case co_state_file co of Some f \<Rightarrow> f | None \<Rightarrow> default_state_file H"
  have live: "(\<exists>e. live_outcome S E H op ?f h w = (Err e, w))
      \<or> (\<exists>input. input_wf input \<and> live_outcome S E H op ?f h w = run_d3 S E input op ?f w)" for op h
  proof (cases "and_then (read_regular_text H ''/proc/sys/kernel/random/boot_id'') (\<lambda>t.
           and_then (normalize_live_boot_id t) (\<lambda>boot.
           and_then (collect_sysfs_snapshot H boot) (\<lambda>snapshot. Ok (boot, snapshot))))")
    case (Inl e)
    then show ?thesis by (simp add: live_outcome_def)
  next
    case (Inr p)
    obtain boot snapshot where p: "p = (boot, snapshot)" by (cases p)
    with Inr have "list_all device_canonical (ps_devices snapshot)"
      by (auto simp: and_then_eq_Inr collect_sysfs_snapshot_def split: if_splits dest: collect_devices_canonical)
    then have "input_wf \<lparr>in_platform = Linux, in_snapshot = snapshot, in_current_boot_id = boot,
        in_boot_inventory = a, in_current_journal = b, in_prior_tail = c, in_prior_timing_unreliable = d,
        in_collection_missing = m, in_host = h\<rparr>" for a b c d m by (simp add: input_wf_def)
    then show ?thesis unfolding live_outcome_def Inr p Let_def case_prod_unfold sum.case fst_conv snd_conv by blast
  qed
  show ?thesis
  proof (cases "\<exists>e. cli_outcome S E H co w = (Err e, w)")
    case True
    then show ?thesis using early by blast
  next
    case False
    have "\<exists>input. input_wf input \<and> cli_outcome S E H co w = run_d3 S E input (cli_operation co) ?f w"
    proof (cases "co_offline co")
      case True
      with False show ?thesis
        by (auto simp: cli_outcome_def Let_def split: if_splits option.splits sum.splits dest: offline_input_wf)
    next
      case off: False
      with False have "cli_outcome S E H co w = live_outcome S E H (cli_operation co) ?f (co_host co) w"
        by (auto simp: cli_outcome_def Let_def split: if_splits)
      with False live [of "cli_operation co" "co_host co"] show ?thesis by auto
    qed
    then show ?thesis using run by blast
  qed
qed

section \<open>Properties\<close>

text \<open>The invocations of the command line that use one state file, each with its own host, options, clock and
  faults.\<close>

inductive d3_invocations :: "(d3_state \<Rightarrow> bytes) \<Rightarrow> (bytes \<Rightarrow> d3_state option) \<Rightarrow> time_libs \<Rightarrow> string \<Rightarrow> fs \<Rightarrow> fs \<Rightarrow> bool"
  for enc dec L path w0 where
  start: "d3_invocations enc dec L path w0 w0"
| again: "d3_invocations enc dec L path w0 w \<Longrightarrow> env_ok enc dec L E \<Longrightarrow>
     (case co_state_file co of Some f \<Rightarrow> f | None \<Rightarrow> default_state_file H) = path \<Longrightarrow>
     d3_invocations enc dec L path w0 (snd (cli_outcome S E H co w))"


text \<open>An offline invocation is a replay: its result and its effect on the state are the same on every host that has
  the same files, whatever its environment, its devices and its journal are; and files can only be supplied
  together with the offline flag.\<close>

theorem offline_replay:
  "(co_offline co \<and> h_meta H' = h_meta H \<and> h_text H' = h_text H \<longrightarrow> cli_outcome S E H' co w = cli_outcome S E H co w)
   \<and> (supplied_fixture co \<and> \<not> co_offline co \<longrightarrow> cli_outcome S E H co w = (Err FixtureNeedsOffline, w))"
proof -
  have "offline_input E H' co p = offline_input E H co p" if "h_meta H' = h_meta H" "h_text H' = h_text H" for p
  proof -
    have "read_regular_text H' = read_regular_text H" "read_offline_journal_option H' = read_offline_journal_option H"
      by (intro ext, simp only: read_regular_text_def read_offline_journal_option_def that)+
    then show ?thesis by (simp only: offline_input_def)
  qed
  then show ?thesis by (auto simp: cli_outcome_def Let_def split: option.split)
qed

section \<open>Witnesses\<close>

definition bare_host :: d3_host where
  "bare_host = \<lparr>h_env = (\<lambda>v. None), h_meta = (\<lambda>p. None), h_text = (\<lambda>p. None), h_proc = (\<lambda>c a. TimedOut),
     h_pci_devices = None, h_canonical = (\<lambda>p. None)\<rparr>"

definition bare_options :: cli_options where
  "bare_options = \<lparr>co_offline = True, co_journal_current = None, co_journal_prior_kernel = None, co_journal_prior_tail = None,
     co_pci_snapshot = Some ''/pci'', co_boot_list = None, co_current_boot_id = None, co_state_file = Some default_state_name,
     co_slot = None, co_json = False, co_host = None, co_learn_baseline = False, co_reset_baseline = False\<rparr>"


theorem offline_replay_witness:
  "cli_outcome calm_sys small_env (bare_host\<lparr>h_env := (\<lambda>v. Some ''/x'')\<rparr>) bare_options empty_fs
     = cli_outcome calm_sys small_env bare_host bare_options empty_fs"
proof -
  have "co_offline bare_options" by (simp add: bare_options_def)
  then show ?thesis
    using offline_replay [where co = bare_options and H = bare_host and H' = "bare_host\<lparr>h_env := (\<lambda>v. Some ''/x'')\<rparr>"
        and S = calm_sys and E = small_env and w = empty_fs] by simp
qed

end
