(* ===== verification/Game_Scan.thy ===== *)
theory Game_Scan
  imports Json_Scan Lossy Paths
begin

text \<open>
  Model of the game detection in \<open>src/src/session.rs\<close> and of the module scan in \<open>src/src/dllscan.rs\<close> that it falls back
  to.  One scan sees one state of the host, a \<open>host_view\<close>: its environment variables, files, links and directories, the
  parsers of YAML and JSON, the Unicode case tables, and the order of hash maps.  A panic is the error \<open>SliceIndex\<close>.
  The lemmas show which targets the scanners return.
\<close>

section \<open>Targets\<close>

datatype target_source = Steam | EpicGames | GogGalaxy | Lutris | Heroic | Bottles | UserSpecified | AutoDetected

record target =
  tg_source :: target_source
  tg_display_name :: string
  tg_pid :: nat
  tg_all_pids :: "nat list"
  tg_steam_app_id :: "nat option"
  tg_launcher :: "string option"
  tg_graphics_api :: "string option"
  tg_proton_version :: "string option"
  tg_dxvk_version :: "string option"

definition from_steam ::
    "string \<Rightarrow> nat \<Rightarrow> nat \<Rightarrow> nat list \<Rightarrow> string option \<Rightarrow> string option \<Rightarrow> string option \<Rightarrow> target" where
  "from_steam name steam_app_id pid all_pids graphics_api proton_version dxvk_version =
     \<lparr>tg_source = Steam, tg_display_name = name, tg_pid = pid, tg_all_pids = all_pids, tg_steam_app_id = Some steam_app_id,
      tg_launcher = Some ''Steam'', tg_graphics_api = graphics_api, tg_proton_version = proton_version,
      tg_dxvk_version = dxvk_version\<rparr>"

definition target_source_str :: "target_source \<Rightarrow> string" where
  "target_source_str source =
     (case source of Steam \<Rightarrow> ''steam'' | EpicGames \<Rightarrow> ''epic_games'' | GogGalaxy \<Rightarrow> ''gog_galaxy'' | Lutris \<Rightarrow> ''lutris''
      | Heroic \<Rightarrow> ''heroic'' | Bottles \<Rightarrow> ''bottles'' | UserSpecified \<Rightarrow> ''user_specified'' | AutoDetected \<Rightarrow> ''auto_detected'')"

section \<open>The host\<close>

record lutris_config =
  lc_exe :: "string option"
  lc_prefix :: "string option"
  lc_wine_null :: bool

record bottle_program =
  bp_name :: "string option"
  bp_executable :: "string option"
  bp_removed :: "json option"

text \<open>The programs of a bottle stand in the order in which their hash map is walked.\<close>

record bottle_config =
  bc_name :: string
  bc_programs :: "(string \<times> bottle_program) list"

text \<open>
  \<open>hv_dir\<close> lists the readable entries of a directory by name, \<open>hv_lower\<close> is \<open>str::to_lowercase\<close>, \<open>hv_upper\<close> is
  \<open>char::to_uppercase\<close>, \<open>hv_first\<close> picks the first key of a hash map.
\<close>

record host_view =
  hv_var :: "string \<Rightarrow> string option"
  hv_exists :: "string \<Rightarrow> bool"
  hv_is_dir :: "string \<Rightarrow> bool"
  hv_read :: "string \<Rightarrow> bytes option"
  hv_dir :: "string \<Rightarrow> string list option"
  hv_link :: "string \<Rightarrow> string option"
  hv_canon :: "string \<Rightarrow> string option"
  hv_json :: "string \<Rightarrow> json option"
  hv_lutris :: "string \<Rightarrow> lutris_config option"
  hv_bottle :: "string \<Rightarrow> bottle_config option"
  hv_lower :: "string \<Rightarrow> string"
  hv_upper :: "nat \<Rightarrow> nat list"
  hv_first :: "nat list \<Rightarrow> nat"

type_synonym proc_env = "(string \<times> string) list"

definition read_to_string :: "host_view \<Rightarrow> string \<Rightarrow> string option" where
  "read_to_string H path = do { b \<leftarrow> hv_read H path; if utf8_valid b then Some b else None }"

definition proc_file :: "nat \<Rightarrow> string \<Rightarrow> string" where
  "proc_file pid leaf = ''/proc/'' @ show_nat pid @ ''/'' @ leaf"

text \<open>The process identifiers among the entries of \<open>/proc\<close>.\<close>

definition proc_pids :: "host_view \<Rightarrow> nat list option" where
  "proc_pids H =
     do { names \<leftarrow> hv_dir H ''/proc'';
          Some (List.map_filter (\<lambda>n. if utf8_valid n then parse_u32 n else None) names) }"

text \<open>A hash map from keys to pushed values, as the list of the pushes.\<close>

definition pushed :: "'k \<Rightarrow> ('k \<times> 'v) list \<Rightarrow> 'v list option" where
  "pushed k ps = (let vs = map snd (filter (\<lambda>p. fst p = k) ps) in if vs = [] then None else Some vs)"

text \<open>Paths are compared by their components.\<close>

definition path_key :: "string \<Rightarrow> bool \<times> bool \<times> string list" where
  "path_key p = (starts_with ''/'' p, p = ''.'' \<or> starts_with ''./'' p,
                 filter (\<lambda>c. c \<noteq> [] \<and> c \<noteq> ''.'') (split_on CHR ''/'' p))"

definition home_dir :: "host_view \<Rightarrow> string option" where
  "home_dir H =
     or_else (do { home \<leftarrow> hv_var H ''HOME''; if home \<noteq> [] then Some home else None })
       (do { sudo_user \<leftarrow> hv_var H ''SUDO_USER'';
             let p = (if starts_with ''/'' sudo_user then sudo_user else ''/home/'' @ sudo_user);
             if sudo_user \<noteq> [] \<and> hv_exists H p then Some p else None })"

section \<open>Loaded modules\<close>

definition any_path :: "string \<Rightarrow> string list \<Rightarrow> bool" where
  "any_path fragment paths = list_ex (str_contains fragment) paths"

definition detect_graphics_api_from_paths :: "string list \<Rightarrow> string option" where
  "detect_graphics_api_from_paths paths =
     (if any_path ''vkd3d'' paths then Some ''dx12_via_vkd3d''
      else if any_path ''libdxvk_d3d9'' paths \<or> any_path ''dxvk_d3d9.dll'' paths then Some ''dx9_via_dxvk''
      else if any_path ''dxvk'' paths then Some ''dx11_via_dxvk''
      else if any_path ''d3d12.dll'' paths then Some ''dx12''
      else if any_path ''d3d11.dll'' paths then Some ''dx11''
      else if any_path ''libvulkan'' paths \<or> any_path ''vulkan-1.dll'' paths then Some ''vulkan''
      else if any_path ''libgl.so'' paths \<or> any_path ''libglx.so'' paths \<or> any_path ''opengl32.dll'' paths then Some ''opengl''
      else None)"

definition detect_upscaler_from_paths :: "string list \<Rightarrow> string option" where
  "detect_upscaler_from_paths paths =
     (if any_path ''nvngx_dlss'' paths then Some ''dlss''
      else if any_path ''xess'' paths then Some ''xess''
      else if any_path ''ffx_fsr'' paths \<or> any_path ''libffx_fsr'' paths \<or> any_path ''amd_fidelityfx_vk'' paths
        \<or> any_path ''openfsr'' paths then Some ''fsr''
      else None)"

definition detect_frame_gen_from_paths :: "string list \<Rightarrow> string option" where
  "detect_frame_gen_from_paths paths =
     (if any_path ''nvngx_dlssg'' paths \<or> any_path ''dlss_fg'' paths \<or> any_path ''dlssg.dll'' paths then Some ''dlss3''
      else if any_path ''ffx_framegeneration'' paths \<or> any_path ''ffx_fsr3framegen'' paths then Some ''fsr3''
      else if any_path ''afmf'' paths then Some ''afmf''
      else None)"

text \<open>The objects of \<open>serde_json\<close> are ordered by their keys.\<close>

definition settings_overlay_from_paths :: "string list \<Rightarrow> json" where
  "settings_overlay_from_paths paths =
     (let upscaler = detect_upscaler_from_paths paths; frame_gen = detect_frame_gen_from_paths paths in
      if upscaler = None \<and> frame_gen = None then JNull
      else JObject [(''rigsignal'', JObject [(''settings'', JObject
        ([(''confidence'', JString ''medium'')]
         @ (case frame_gen of Some fg \<Rightarrow> [(''frame_gen'', JObject [(''tech'', JString fg)])] | None \<Rightarrow> [])
         @ [(''source'', JString ''auto_detected'')]
         @ (case upscaler of Some tech \<Rightarrow> [(''upscaler'', JObject [(''tech'', JString tech)])] | None \<Rightarrow> [])))])])"

text \<open>\<open>splitn(6, char::is_whitespace)\<close> without its first five pieces.\<close>

fun after_pieces :: "nat \<Rightarrow> nat list \<Rightarrow> nat list option" where
  "after_pieces 0 cs = Some cs"
| "after_pieces (Suc n) [] = None"
| "after_pieces (Suc n) (c # cs) = (if is_whitespace c then after_pieces n cs else after_pieces (Suc n) cs)"

definition mapped_path :: "(string \<Rightarrow> string) \<Rightarrow> string \<Rightarrow> string option" where
  "mapped_path lower line =
     do { rest \<leftarrow> after_pieces 5 (chars line);
          let path = trim (str_of_chars rest);
          if starts_with ''/'' path then Some (lower path) else None }"

definition read_mapped_paths :: "host_view \<Rightarrow> nat \<Rightarrow> string list" where
  "read_mapped_paths H pid =
     (case read_to_string H (proc_file pid ''maps'') of
        None \<Rightarrow> [] | Some content \<Rightarrow> List.map_filter (mapped_path (hv_lower H)) (lines content))"

definition graphics_api_from_maps :: "host_view \<Rightarrow> nat \<Rightarrow> string option" where
  "graphics_api_from_maps H pid = detect_graphics_api_from_paths (read_mapped_paths H pid)"

definition settings_overlay_from_maps :: "host_view \<Rightarrow> nat \<Rightarrow> json" where
  "settings_overlay_from_maps H pid = settings_overlay_from_paths (read_mapped_paths H pid)"

section \<open>Process environments\<close>

text \<open>A later entry replaces an earlier one with the same key, so it stands first.\<close>

definition environ_entry :: "bytes \<Rightarrow> (string \<times> string) option" where
  "environ_entry entry =
     (case split_once CHR ''='' entry of
        None \<Rightarrow> None | Some (key, val) \<Rightarrow> Some (from_utf8_lossy key, from_utf8_lossy val))"

definition read_environ :: "host_view \<Rightarrow> nat \<Rightarrow> proc_env option" where
  "read_environ H pid =
     do { b \<leftarrow> hv_read H (proc_file pid ''environ'');
          if b = [] then None
          else let m = rev (List.map_filter environ_entry (split_on CHR 0x00 b)) in if m = [] then None else Some m }"

definition detect_graphics_api :: "(string \<Rightarrow> string) \<Rightarrow> proc_env \<Rightarrow> string option \<times> bool" where
  "detect_graphics_api lower env =
     (let has = (\<lambda>k. map_of env k \<noteq> None);
          uses_proton = has ''PROTON_VERSION'' \<or> has ''STEAM_COMPAT_DATA_PATH'';
          dll_overrides = (case map_of env ''WINEDLLOVERRIDES'' of Some s \<Rightarrow> lower s | None \<Rightarrow> [])
      in if str_contains ''vkd3d'' dll_overrides \<or> has ''VKD3D_CONFIG'' then (Some ''dx12_via_vkd3d'', uses_proton)
         else if str_contains ''dxvk'' dll_overrides \<or> has ''DXVK_CONFIG_FILE'' then (Some ''dx11_via_dxvk'', uses_proton)
         else if has ''VULKAN_DEVICE_INDEX'' \<or> has ''VK_ICD_FILENAMES'' then (Some ''vulkan'', uses_proton)
         else if uses_proton then (Some ''dx_via_proton'', uses_proton)
         else (None, False))"

definition graphics_api_with_maps_fallback :: "host_view \<Rightarrow> proc_env \<Rightarrow> nat \<Rightarrow> string option \<times> bool" where
  "graphics_api_with_maps_fallback H env pid =
     (case detect_graphics_api (hv_lower H) env of
        (Some api, uses_proton) \<Rightarrow> (Some api, uses_proton)
      | (None, _) \<Rightarrow> (graphics_api_from_maps H pid, False))"

fun first_version :: "host_view \<Rightarrow> string list \<Rightarrow> string option" where
  "first_version H [] = None"
| "first_version H (part # parts) =
     (case read_to_string H (path_join part ''version'') of
        Some v \<Rightarrow> if trim v \<noteq> [] then Some (trim v) else first_version H parts
      | None \<Rightarrow> first_version H parts)"

definition proton_version_from_env :: "host_view \<Rightarrow> proc_env \<Rightarrow> string option" where
  "proton_version_from_env H env =
     (case map_of env ''PROTON_VERSION'' of
        Some v \<Rightarrow> Some v
      | None \<Rightarrow> do { compat_path \<leftarrow> map_of env ''STEAM_COMPAT_TOOL_PATHS''; first_version H (split_on CHR '':'' compat_path) })"

text \<open>The scan for \<open>vN.N\<close>: whether a version has started, and its characters so far.\<close>

fun version_loop :: "bool \<Rightarrow> string \<Rightarrow> nat list \<Rightarrow> string option" where
  "version_loop in_v version [] = (if version \<noteq> [] then Some version else None)"
| "version_loop in_v version (ch # rest) =
     (if ch = 118 \<and> \<not> in_v then version_loop True [] rest
      else if in_v \<and> (48 \<le> ch \<and> ch \<le> 57 \<or> ch = 46) then version_loop in_v (version @ [char_of ch]) rest
      else if in_v then (if version \<noteq> [] then Some version else version_loop False version rest)
      else version_loop in_v version rest)"

definition dxvk_version_from_env :: "host_view \<Rightarrow> proc_env \<Rightarrow> string option" where
  "dxvk_version_from_env H env =
     do { log_path \<leftarrow> map_of env ''DXVK_LOG_PATH'';
          content \<leftarrow> read_to_string H (path_join log_path ''dxvk.log'');
          (case lines content of [] \<Rightarrow> None | first_line # _ \<Rightarrow> version_loop False [] (chars first_line)) }"

section \<open>Steam manifests\<close>

text \<open>\<open>p.replace\<close> of a doubled backslash by one.\<close>

fun unescape :: "string \<Rightarrow> string" where
  "unescape (a # b # s) =
     (if a = CHR 0x5C \<and> b = CHR 0x5C then CHR 0x5C # unescape s else a # unescape (b # s))"
| "unescape s = s"

definition vdf_path :: "string \<Rightarrow> string option" where
  "vdf_path line =
     (let trimmed = trim line in
      if starts_with (CHR 0x22 # ''path'' @ [CHR 0x22]) trimmed
      then map_option unescape (list_get (split_on CHR 0x22 trimmed) 3) else None)"

definition parse_vdf_paths :: "string \<Rightarrow> string list" where
  "parse_vdf_paths content = List.map_filter vdf_path (lines content)"

definition acf_line :: "string \<Rightarrow> string \<Rightarrow> string option" where
  "acf_line key line =
     (let trimmed = trim line; parts = split_on CHR 0x22 trimmed in
      if starts_with (CHR 0x22 # key @ [CHR 0x22]) trimmed \<and> 4 \<le> length parts \<and> trim (parts ! 3) \<noteq> []
      then Some (trim (parts ! 3)) else None)"

definition parse_acf_field :: "string \<Rightarrow> string \<Rightarrow> string option" where
  "parse_acf_field content key =
     (case List.map_filter (acf_line key) (lines content) of [] \<Rightarrow> None | v # _ \<Rightarrow> Some v)"

definition steam_roots :: "host_view \<Rightarrow> string \<Rightarrow> string list" where
  "steam_roots H home =
     (let roots = map (path_join home) [''.steam/steam/steamapps'', ''.local/share/Steam/steamapps'',
                    ''.var/app/com.valvesoftware.Steam/data/Steam/steamapps'']
      in roots @ concat (map (\<lambda>root. case read_to_string H (path_join root ''libraryfolders.vdf'') of
                           Some content \<Rightarrow> map (\<lambda>p. path_join p ''steamapps'') (parse_vdf_paths content) | None \<Rightarrow> []) roots))"

definition game_name_from_appid :: "host_view \<Rightarrow> nat \<Rightarrow> string option" where
  "game_name_from_appid H app_id =
     do { home \<leftarrow> home_dir H;
          (case List.map_filter (\<lambda>root. do { content \<leftarrow> read_to_string H (path_join root (''appmanifest_'' @ show_nat app_id @ ''.acf''));
                                           parse_acf_field content ''name'' }) (steam_roots H home) of
             [] \<Rightarrow> None | name # _ \<Rightarrow> Some name) }"

section \<open>The Steam scanner\<close>

definition app_id_of :: "proc_env \<Rightarrow> nat option" where
  "app_id_of env =
     do { s \<leftarrow> or_else (map_of env ''SteamAppId'') (map_of env ''STEAM_APP_ID''); parse_u32 (trim s) }"

definition skip_contains :: "string list" where
  "skip_contains = [''proton'', ''wine'', ''steam'', ''reaper'']"

definition skip_basename :: "string list" where
  "skip_basename = [''sh'', ''bash'', ''dash'', ''zsh'', ''fish'', ''ksh'', ''python'', ''python3'', ''perl'', ''ruby'', ''node'']"

definition exe_path_of :: "host_view \<Rightarrow> nat \<Rightarrow> string" where
  "exe_path_of H pid = (case hv_link H (proc_file pid ''exe'') of Some p \<Rightarrow> hv_lower H (from_utf8_lossy p) | None \<Rightarrow> [])"

definition is_helper :: "string \<Rightarrow> bool" where
  "is_helper exe_path \<longleftrightarrow>
     list_ex (\<lambda>w. str_contains w exe_path) skip_contains
     \<or> (case file_name exe_path of Some n \<Rightarrow> n | None \<Rightarrow> []) \<in> set skip_basename"

type_synonym steam_acc = "(nat \<times> proc_env) option \<times> (nat \<times> nat) list"

definition steam_step :: "host_view \<Rightarrow> nat \<Rightarrow> steam_acc \<Rightarrow> steam_acc" where
  "steam_step H pid acc =
     (case read_environ H pid of
        None \<Rightarrow> acc
      | Some env \<Rightarrow>
          (case app_id_of env of
             None \<Rightarrow> acc
           | Some app_id \<Rightarrow>
               if app_id = 0 then acc
               else (if fst acc = None \<and> \<not> is_helper (exe_path_of H pid) then Some (pid, env) else fst acc,
                     snd acc @ [(app_id, pid)])))"

text \<open>Without a representative the first process of the first key of the hash map is taken.\<close>

definition steam_choice :: "host_view \<Rightarrow> steam_acc \<Rightarrow> nat \<times> proc_env \<times> nat" where
  "steam_choice H acc =
     (case fst acc of
        Some (rep_pid, rep_env) \<Rightarrow> (rep_pid, rep_env, case app_id_of rep_env of Some a \<Rightarrow> a | None \<Rightarrow> 0)
      | None \<Rightarrow>
          (let app_id = hv_first H (remdups (map fst (snd acc)));
               first_pid = hd (the (pushed app_id (snd acc)))
           in (first_pid, case read_environ H first_pid of Some e \<Rightarrow> e | None \<Rightarrow> [], app_id)))"

definition scan_for_steam_game :: "host_view \<Rightarrow> target option" where
  "scan_for_steam_game H =
     do { pids \<leftarrow> proc_pids H;
          let acc = fold (steam_step H) pids (None, []);
          if snd acc = [] then None
          else let (pid, env, app_id) = steam_choice H acc in
            Some (from_steam (case game_name_from_appid H app_id of Some n \<Rightarrow> n | None \<Rightarrow> ''App '' @ show_nat app_id) app_id pid
                    (case pushed app_id (snd acc) of Some ps \<Rightarrow> ps | None \<Rightarrow> [pid])
                    (fst (graphics_api_with_maps_fallback H env pid)) (proton_version_from_env H env) (dxvk_version_from_env H env)) }"

text \<open>The rest of a target, from the environment of its process.\<close>

definition enriched :: "host_view \<Rightarrow> target_source \<Rightarrow> string \<Rightarrow> nat \<Rightarrow> nat list \<Rightarrow> string \<Rightarrow> target" where
  "enriched H source display_name pid all_pids launcher =
     (let env = (case read_environ H pid of Some e \<Rightarrow> e | None \<Rightarrow> []) in
      \<lparr>tg_source = source, tg_display_name = display_name, tg_pid = pid, tg_all_pids = all_pids, tg_steam_app_id = None,
       tg_launcher = Some launcher, tg_graphics_api = fst (graphics_api_with_maps_fallback H env pid),
       tg_proton_version = proton_version_from_env H env, tg_dxvk_version = dxvk_version_from_env H env\<rparr>)"

section \<open>The Lutris scanner\<close>

datatype scan_panic = SliceIndex

text \<open>
  The timestamp is cut off with the hyphen before it.  A stem that is all timestamp has no hyphen: the length
  underflows, and the slice is out of range.
\<close>

definition lutris_slug :: "string \<Rightarrow> (scan_panic, string) result" where
  "lutris_slug stem =
     (let l = last (split_on CHR ''-'' stem) in
      if 10 \<le> length l \<and> list_all is_digit l
      then (if length stem < length l + 1 then Err SliceIndex else Ok (take (length stem - length l - 1) stem))
      else Ok stem)"

definition title_word :: "host_view \<Rightarrow> string \<Rightarrow> string" where
  "title_word H w = (case chars w of [] \<Rightarrow> [] | f # cs \<Rightarrow> str_of_chars (hv_upper H f) @ str_of_chars cs)"

definition lutris_slug_to_title :: "host_view \<Rightarrow> string \<Rightarrow> (scan_panic, string) result" where
  "lutris_slug_to_title H stem =
     and_then (lutris_slug stem) (\<lambda>slug. Ok (join_with '' '' (map (title_word H) (split_on CHR ''-'' slug))))"

text \<open>The names of directory entries that are not valid text have no extension and no stem.\<close>

fun lutris_configs :: "host_view \<Rightarrow> string \<Rightarrow> string list \<Rightarrow> (scan_panic, (string \<times> lutris_config) list) result" where
  "lutris_configs H dir [] = Ok []"
| "lutris_configs H dir (name # names) =
     (if snd (split_name name) \<noteq> Some ''yml'' then lutris_configs H dir names
      else let stem = (if utf8_valid (fst (split_name name)) then fst (split_name name) else []) in
        and_then (lutris_slug_to_title H stem) (\<lambda>display_name.
          case read_to_string H (path_join dir name) \<bind> hv_lutris H of
            None \<Rightarrow> lutris_configs H dir names
          | Some config \<Rightarrow> and_then (lutris_configs H dir names) (\<lambda>rest. Ok ((display_name, config) # rest))))"

definition exe_pairs :: "host_view \<Rightarrow> nat list \<Rightarrow> ((bool \<times> bool \<times> string list) \<times> nat) list" where
  "exe_pairs H pids = List.map_filter (\<lambda>pid. map_option (\<lambda>exe. (path_key exe, pid)) (hv_link H (proc_file pid ''exe''))) pids"

definition lutris_matched :: "host_view \<Rightarrow> nat list \<Rightarrow> lutris_config \<Rightarrow> nat list" where
  "lutris_matched H pids config =
     (let native = (case lc_exe config \<bind> hv_canon H of
                      None \<Rightarrow> []
                    | Some canonical \<Rightarrow> (case pushed (path_key canonical) (exe_pairs H pids) of Some ps \<Rightarrow> ps | None \<Rightarrow> []))
      in if native \<noteq> [] then native
         else (case lc_prefix config of
                 None \<Rightarrow> []
               | Some wine_prefix \<Rightarrow> filter (\<lambda>pid. case read_environ H pid of
                                   Some env \<Rightarrow> map_of env ''WINEPREFIX'' = Some wine_prefix | None \<Rightarrow> False) pids))"

text \<open>The dash of the launcher names is the character U+2014.\<close>

definition dashed :: "string \<Rightarrow> string \<Rightarrow> string" where
  "dashed a b = a @ '' '' @ encode_char 0x2014 @ '' '' @ b"

fun lutris_first :: "host_view \<Rightarrow> nat list \<Rightarrow> (string \<times> lutris_config) list \<Rightarrow> target option" where
  "lutris_first H pids [] = None"
| "lutris_first H pids ((display_name, config) # rest) =
     (let matched = lutris_matched H pids config in
      if matched \<noteq> []
      then Some (enriched H Lutris display_name (hd matched) matched
                  (dashed ''Lutris'' (if lc_wine_null config then ''Native'' else ''Wine'')))
      else lutris_first H pids rest)"

definition scan_for_lutris_game :: "host_view \<Rightarrow> (scan_panic, target option) result" where
  "scan_for_lutris_game H =
     (case hv_var H ''HOME'' of
        None \<Rightarrow> Ok None
      | Some home \<Rightarrow>
          (let dir = path_join home ''.local/share/lutris/games'' in
           case hv_dir H dir of
             None \<Rightarrow> Ok None
           | Some names \<Rightarrow>
               and_then (lutris_configs H dir names) (\<lambda>configs.
                 Ok (if configs = [] then None else do { pids \<leftarrow> proc_pids H; lutris_first H pids configs }))))"

section \<open>The Heroic scanner\<close>

datatype heroic_store = Epic | Gog

type_synonym installed_game = "string \<times> string \<times> heroic_store"

definition heroic_candidates :: "(string \<times> heroic_store) list" where
  "heroic_candidates =
     [(''.config/heroic/legendaryConfig/legendary/installed.json'', Epic),
      (''.var/app/com.heroicgameslauncher.hgl/config/heroic/legendaryConfig/legendary/installed.json'', Epic),
      (''.config/heroic/gog_store/installed.json'', Gog),
      (''.var/app/com.heroicgameslauncher.hgl/config/heroic/gog_store/installed.json'', Gog)]"

definition is_dlc :: "json \<Rightarrow> bool" where
  "is_dlc val = (case get ''is_dlc'' val \<bind> as_bool of Some b \<Rightarrow> b | None \<Rightarrow> False)"

text \<open>One entry of the object format, and one of the array format of older GOG builds.\<close>

definition object_game :: "string \<Rightarrow> json \<Rightarrow> (string \<times> string) option" where
  "object_game key val =
     do { title \<leftarrow> get ''title'' val \<bind> as_str;
          if is_dlc val then None
          else Some (case get ''app_name'' val \<bind> as_str of Some n \<Rightarrow> n | None \<Rightarrow> key, title) }"

definition array_game :: "json \<Rightarrow> (string \<times> string) option" where
  "array_game val =
     do { app_name \<leftarrow> or_else (get ''appName'' val) (get ''app_name'' val) \<bind> as_str;
          title \<leftarrow> get ''title'' val \<bind> as_str;
          if is_dlc val then None else Some (app_name, title) }"

definition games_of :: "json \<Rightarrow> (string \<times> string) list" where
  "games_of v =
     (case v of JObject m \<Rightarrow> List.map_filter (\<lambda>(key, val). object_game key val) m
      | JArray xs \<Rightarrow> List.map_filter array_game xs | _ \<Rightarrow> [])"

text \<open>The first entry of each application wins, over all files.\<close>

definition add_game :: "heroic_store \<Rightarrow> string \<times> string \<Rightarrow> installed_game list \<Rightarrow> installed_game list" where
  "add_game store game found = (if fst game \<in> fst ` set found then found else found @ [(fst game, snd game, store)])"

definition heroic_file :: "host_view \<Rightarrow> string \<Rightarrow> (string \<times> string) list" where
  "heroic_file H path =
     (if \<not> hv_exists H path then []
      else case read_to_string H path of
        None \<Rightarrow> []
      | Some content \<Rightarrow> if trim content = [] then [] else (case hv_json H content of None \<Rightarrow> [] | Some v \<Rightarrow> games_of v))"

definition heroic_installed_games :: "host_view \<Rightarrow> installed_game list" where
  "heroic_installed_games H =
     (case hv_var H ''HOME'' of
        None \<Rightarrow> []
      | Some home \<Rightarrow>
          fold (\<lambda>(rel, store) found. fold (add_game store) (heroic_file H (path_join home rel)) found) heroic_candidates [])"

definition heroic_pairs :: "host_view \<Rightarrow> nat list \<Rightarrow> (string \<times> nat) list" where
  "heroic_pairs H pids =
     List.map_filter (\<lambda>pid. do { env \<leftarrow> read_environ H pid; v \<leftarrow> map_of env ''SteamGameId'';
                                app_name \<leftarrow> strip_prefix ''heroic-'' v; Some (app_name, pid) }) pids"

fun heroic_first :: "host_view \<Rightarrow> (string \<times> nat) list \<Rightarrow> installed_game list \<Rightarrow> target option" where
  "heroic_first H pairs [] = None"
| "heroic_first H pairs ((app_name, title, store) # rest) =
     (case pushed app_name pairs of
        Some pids \<Rightarrow>
          let all_pids = sort pids in
          Some (enriched H Heroic title (hd all_pids) all_pids (dashed ''Heroic'' (case store of Epic \<Rightarrow> ''Epic'' | Gog \<Rightarrow> ''GOG'')))
      | None \<Rightarrow> heroic_first H pairs rest)"

definition scan_for_heroic_game :: "host_view \<Rightarrow> target option" where
  "scan_for_heroic_game H =
     (let installed = heroic_installed_games H in
      if installed = [] then None
      else do { pids \<leftarrow> proc_pids H;
                let pairs = heroic_pairs H pids;
                if pairs = [] then None else heroic_first H pairs installed })"

section \<open>The Bottles scanner\<close>

definition is_active :: "bottle_program \<Rightarrow> bool" where
  "is_active p =
     (case bp_removed p of None \<Rightarrow> True | Some JNull \<Rightarrow> True | Some (JBool b) \<Rightarrow> \<not> b | Some (JString s) \<Rightarrow> s = [] | Some _ \<Rightarrow> False)"

definition bottle_roots :: "host_view \<Rightarrow> string \<Rightarrow> string list" where
  "bottle_roots H home =
     filter (hv_exists H) [home @ ''/.local/share/bottles/bottles'',
                           home @ ''/.var/app/com.usebottles.bottles/data/bottles/bottles'']"

definition bottles_in :: "host_view \<Rightarrow> string \<Rightarrow> (string \<times> bottle_config) list" where
  "bottles_in H root =
     (case hv_dir H root of
        None \<Rightarrow> []
      | Some names \<Rightarrow>
          List.map_filter (\<lambda>name.
            let bottle_dir = path_join root name; yml_path = path_join bottle_dir ''bottle.yml'' in
            if hv_is_dir H bottle_dir \<and> hv_exists H yml_path
            then map_option (\<lambda>config. (bottle_dir, config)) (read_to_string H yml_path \<bind> hv_bottle H)
            else None) names)"

definition prefix_pairs :: "host_view \<Rightarrow> nat list \<Rightarrow> ((bool \<times> bool \<times> string list) \<times> nat) list" where
  "prefix_pairs H pids =
     List.map_filter (\<lambda>pid. do { env \<leftarrow> read_environ H pid; p \<leftarrow> map_of env ''WINEPREFIX''; Some (path_key p, pid) }) pids"

definition bottle_display_name :: "host_view \<Rightarrow> bottle_config \<Rightarrow> nat \<Rightarrow> string" where
  "bottle_display_name H config pid =
     (case do { p \<leftarrow> hv_link H (proc_file pid ''exe'');
                n \<leftarrow> file_name p;
                let exe_base = hv_lower H (from_utf8_lossy n);
                List.find (\<lambda>(_, prog). is_active prog \<and> map_option (hv_lower H) (bp_executable prog) = Some exe_base)
                  (bc_programs config) } of
        Some (slug, prog) \<Rightarrow> (case bp_name prog of Some n \<Rightarrow> n | None \<Rightarrow> slug)
      | None \<Rightarrow> bc_name config)"

fun bottles_first :: "host_view \<Rightarrow> ((bool \<times> bool \<times> string list) \<times> nat) list \<Rightarrow> (string \<times> bottle_config) list \<Rightarrow> target option" where
  "bottles_first H pairs [] = None"
| "bottles_first H pairs ((bottle_dir, config) # rest) =
     (case pushed (path_key bottle_dir) pairs of
        Some pids \<Rightarrow>
          let all_pids = sort pids; pid = hd all_pids in
          Some (enriched H Bottles (bottle_display_name H config pid) pid all_pids ''Bottles'')
      | None \<Rightarrow> bottles_first H pairs rest)"

definition scan_for_bottles_game :: "host_view \<Rightarrow> target option" where
  "scan_for_bottles_game H =
     do { home \<leftarrow> hv_var H ''HOME'';
          let bottles = concat (map (bottles_in H) (bottle_roots H home));
          if bottles = [] then None
          else do { pids \<leftarrow> proc_pids H; bottles_first H (prefix_pairs H pids) bottles } }"

section \<open>The dispatcher and pinned targets\<close>

definition scan_for_game :: "host_view \<Rightarrow> (scan_panic, target option) result" where
  "scan_for_game H =
     (case scan_for_steam_game H of
        Some t \<Rightarrow> Ok (Some t)
      | None \<Rightarrow> and_then (scan_for_lutris_game H) (\<lambda>found.
          Ok (or_else found (or_else (scan_for_heroic_game H) (scan_for_bottles_game H)))))"

text \<open>The process table of \<open>sysinfo\<close>, in the order of its hash map: identifier, name and executable.\<close>

type_synonym process_table = "(nat \<times> string \<times> string option) list"

definition process_matches_name :: "host_view \<Rightarrow> string \<times> string option \<Rightarrow> string \<Rightarrow> bool" where
  "process_matches_name H process wanted \<longleftrightarrow>
     hv_lower H (from_utf8_lossy (fst process)) = wanted
     \<or> (case snd process \<bind> file_name of Some n \<Rightarrow> hv_lower H (from_utf8_lossy n) = wanted | None \<Rightarrow> False)"

definition process_display_name :: "string \<times> string option \<Rightarrow> nat \<Rightarrow> string" where
  "process_display_name process pid =
     (let name = trim (from_utf8_lossy (fst process)) in
      if name \<noteq> [] then name
      else case snd process \<bind> file_name of
        Some n \<Rightarrow> if from_utf8_lossy n \<noteq> [] then from_utf8_lossy n else ''pid-'' @ show_nat pid
      | None \<Rightarrow> ''pid-'' @ show_nat pid)"

definition resolve_user_target :: "host_view \<Rightarrow> process_table \<Rightarrow> nat option \<Rightarrow> string option \<Rightarrow> target option" where
  "resolve_user_target H procs pid_override name_override =
     do { pid \<leftarrow> (case (pid_override, name_override) of
                    (Some p, _) \<Rightarrow> if map_of procs p = None then None else Some p
                  | (None, Some name) \<Rightarrow>
                      map_option fst (List.find (\<lambda>(_, process). process_matches_name H process (hv_lower H name)) procs)
                  | (None, None) \<Rightarrow> None);
          process \<leftarrow> map_of procs pid;
          Some (enriched H UserSpecified (process_display_name process pid) pid [pid] ''User-specified'') }"

section \<open>What the Steam scanner returns\<close>

text \<open>The Steam application a process belongs to.\<close>

definition steam_app :: "host_view \<Rightarrow> nat \<Rightarrow> nat option" where
  "steam_app H pid = do { env \<leftarrow> read_environ H pid; a \<leftarrow> app_id_of env; if a = 0 then None else Some a }"

definition app_pairs :: "host_view \<Rightarrow> nat list \<Rightarrow> (nat \<times> nat) list" where
  "app_pairs H pids = List.map_filter (\<lambda>p. map_option (\<lambda>a. (a, p)) (steam_app H p)) pids"

text \<open>A process that can stand for a game: it belongs to an application and is no helper.\<close>

definition stands_for_game :: "host_view \<Rightarrow> nat \<Rightarrow> bool" where
  "stands_for_game H pid \<longleftrightarrow> steam_app H pid \<noteq> None \<and> \<not> is_helper (exe_path_of H pid)"

definition representative :: "host_view \<Rightarrow> nat list \<Rightarrow> (nat \<times> proc_env) option" where
  "representative H pids = map_option (\<lambda>p. (p, the (read_environ H p))) (List.find (stands_for_game H) pids)"

lemma steam_step_eq:
  "steam_step H pid acc =
     (or_else (fst acc) (representative H [pid]), snd acc @ app_pairs H [pid])"
  by (cases acc; cases "fst acc")
    (auto simp: steam_step_def representative_def stands_for_game_def app_pairs_def steam_app_def
      List.map_filter_def or_else_def split: option.splits)

lemma representative_Cons: "representative H (p # ps) = or_else (representative H [p]) (representative H ps)"
  by (simp add: representative_def)

lemma app_pairs_Cons: "app_pairs H (p # ps) = app_pairs H [p] @ app_pairs H ps"
  by (simp add: app_pairs_def List.map_filter_def)

lemma or_else_assoc: "or_else (or_else a b) c = or_else a (or_else b c)"
  by (cases a) simp_all

lemma steam_fold: "fold (steam_step H) pids acc = (or_else (fst acc) (representative H pids), snd acc @ app_pairs H pids)"
proof (induction pids arbitrary: acc)
  case Nil
  then show ?case by (cases acc; cases "fst acc") (simp_all add: representative_def app_pairs_def List.map_filter_def)
next
  case (Cons p ps)
  show ?case
    by (subst representative_Cons, subst app_pairs_Cons) (simp add: Cons.IH steam_step_eq or_else_assoc)
qed

lemma pushed_app_pairs:
  "map snd (filter (\<lambda>q. fst q = a) (app_pairs H pids)) = filter (\<lambda>p. steam_app H p = Some a) pids"
proof (induction pids)
  case (Cons p ps)
  then show ?case by (subst app_pairs_Cons) (auto simp: app_pairs_def List.map_filter_def)
qed (simp add: app_pairs_def List.map_filter_def)

lemma app_pairs_apps: "a \<in> fst ` set (app_pairs H pids) \<longleftrightarrow> (\<exists>p \<in> set pids. steam_app H p = Some a)"
  by (force simp: app_pairs_def List.map_filter_def)

lemma app_id_of_steam_app: "steam_app H p = Some a \<Longrightarrow> read_environ H p = Some env \<Longrightarrow> app_id_of env = Some a"
  by (auto simp: steam_app_def bind_eq_Some_conv split: if_splits)

lemma stands_for_gameE:
  assumes "stands_for_game H p"
  obtains a env where "steam_app H p = Some a" "read_environ H p = Some env" "app_id_of env = Some a"
proof -
  from assms obtain a where a: "steam_app H p = Some a" by (auto simp: stands_for_game_def)
  then obtain env where "read_environ H p = Some env" by (auto simp: steam_app_def bind_eq_Some_conv)
  with a app_id_of_steam_app that show thesis by blast
qed

text \<open>The choice: the application and the process.\<close>

lemma steam_choice_cases:
  assumes "app_pairs H pids \<noteq> []" and pick: "\<And>ks. ks \<noteq> [] \<Longrightarrow> hv_first H ks \<in> set ks"
    and choice: "steam_choice H (representative H pids, app_pairs H pids) = (pid, env, app_id)"
  shows "pid \<in> set pids" "steam_app H pid = Some app_id"
    "List.find (stands_for_game H) pids = Some pid \<or>
     List.find (stands_for_game H) pids = None \<and> pid = hd (filter (\<lambda>p. steam_app H p = Some app_id) pids)"
proof -
  have "pid \<in> set pids \<and> steam_app H pid = Some app_id \<and>
    (List.find (stands_for_game H) pids = Some pid \<or>
     List.find (stands_for_game H) pids = None \<and> pid = hd (filter (\<lambda>p. steam_app H p = Some app_id) pids))"
  proof (cases "List.find (stands_for_game H) pids")
    case (Some p)
    then have "stands_for_game H p" "p \<in> set pids" by (auto simp: find_Some_iff)
    then obtain a e where "steam_app H p = Some a" "read_environ H p = Some e" "app_id_of e = Some a"
      by (elim stands_for_gameE)
    with Some choice \<open>p \<in> set pids\<close> show ?thesis by (simp add: steam_choice_def representative_def)
  next
    case None
    let ?ks = "remdups (map fst (app_pairs H pids))"
    have "?ks \<noteq> []" using assms(1) by simp
    then have "app_id \<in> fst ` set (app_pairs H pids)"
      using pick [of ?ks] choice None by (simp add: steam_choice_def representative_def Let_def)
    then have ne: "filter (\<lambda>p. steam_app H p = Some app_id) pids \<noteq> []" by (auto simp: app_pairs_apps filter_empty_conv)
    then have "pushed app_id (app_pairs H pids) = Some (filter (\<lambda>p. steam_app H p = Some app_id) pids)"
      by (simp add: pushed_def pushed_app_pairs)
    moreover have "pid = hd (the (pushed app_id (app_pairs H pids)))"
      using choice None by (auto simp: steam_choice_def representative_def Let_def)
    ultimately have "pid = hd (filter (\<lambda>p. steam_app H p = Some app_id) pids)" by simp
    with None hd_in_set [OF ne] show ?thesis by auto
  qed
  then show "pid \<in> set pids" "steam_app H pid = Some app_id"
    "List.find (stands_for_game H) pids = Some pid \<or>
     List.find (stands_for_game H) pids = None \<and> pid = hd (filter (\<lambda>p. steam_app H p = Some app_id) pids)" by auto
qed

lemma scan_for_steam_game_Some:
  assumes "scan_for_steam_game H = Some t" "proc_pids H = Some pids" "\<And>ks. ks \<noteq> [] \<Longrightarrow> hv_first H ks \<in> set ks"
  shows "tg_source t = Steam \<and> tg_launcher t = Some ''Steam'' \<and> tg_pid t \<in> set pids
    \<and> (\<exists>a. steam_app H (tg_pid t) = Some a \<and> tg_steam_app_id t = Some a
         \<and> tg_all_pids t = filter (\<lambda>p. steam_app H p = Some a) pids)
    \<and> (List.find (stands_for_game H) pids = Some (tg_pid t) \<or>
       List.find (stands_for_game H) pids = None \<and> tg_pid t = hd (tg_all_pids t))"
proof -
  let ?acc = "(representative H pids, app_pairs H pids)"
  obtain pid env a where ch: "steam_choice H ?acc = (pid, env, a)" by (cases "steam_choice H ?acc")
  from assms(1,2) have ne: "app_pairs H pids \<noteq> []" by (auto simp: scan_for_steam_game_def steam_fold split: if_splits)
  note c = steam_choice_cases [OF ne assms(3) ch, rotated]
  have f: "filter (\<lambda>p. steam_app H p = Some a) pids \<noteq> []" using c(1,2) by (auto simp: filter_empty_conv)
  then have g: "pushed a (app_pairs H pids) = Some (filter (\<lambda>p. steam_app H p = Some a) pids)"
    by (simp add: pushed_def pushed_app_pairs)
  have "tg_source t = Steam" "tg_launcher t = Some ''Steam''" "tg_pid t = pid" "tg_steam_app_id t = Some a"
    "tg_all_pids t = filter (\<lambda>p. steam_app H p = Some a) pids"
    using assms(1,2) ch ne g by (auto simp: scan_for_steam_game_def steam_fold from_steam_def)
  with c show ?thesis by auto
qed

lemma scan_for_steam_game_None:
  assumes "proc_pids H = Some pids"
  shows "scan_for_steam_game H = None \<longleftrightarrow> (\<forall>p \<in> set pids. steam_app H p = None)"
proof -
  have "app_pairs H pids = [] \<longleftrightarrow> (\<forall>a. a \<notin> fst ` set (app_pairs H pids))" by (cases "app_pairs H pids") auto
  also have "\<dots> \<longleftrightarrow> (\<forall>p \<in> set pids. steam_app H p = None)" unfolding app_pairs_apps by (metis option.exhaust option.distinct(1))
  finally show ?thesis using assms by (simp add: scan_for_steam_game_def steam_fold case_prod_unfold Let_def)
qed

text \<open>A host with two processes of one Steam application: the watcher of the launcher and a game of the Steam library.\<close>

definition sample_host :: host_view where
  "sample_host =
     \<lparr>hv_var = (\<lambda>_. None), hv_exists = (\<lambda>_. False), hv_is_dir = (\<lambda>_. False),
      hv_read = (\<lambda>p. if p = ''/proc/100/environ'' \<or> p = ''/proc/200/environ'' then Some ''SteamAppId=42'' else None),
      hv_dir = (\<lambda>p. if p = ''/proc'' then Some [''100'', ''self'', ''200''] else None),
      hv_link = (\<lambda>p. if p = ''/proc/100/exe'' then Some ''/usr/bin/bash''
                     else if p = ''/proc/200/exe'' then Some ''/x/steamapps/common/g'' else None),
      hv_canon = (\<lambda>_. None), hv_json = (\<lambda>_. None), hv_lutris = (\<lambda>_. None), hv_bottle = (\<lambda>_. None),
      hv_lower = to_ascii_lowercase, hv_upper = (\<lambda>c. [c]), hv_first = hd\<rparr>"

lemma sample_files:
  "proc_file 100 ''environ'' = ''/proc/100/environ''" "proc_file 200 ''environ'' = ''/proc/200/environ''"
  "proc_file 100 ''exe'' = ''/proc/100/exe''" "proc_file 200 ''exe'' = ''/proc/200/exe''"
  by code_simp+

lemmas ascii_simps = ascii_valid lossy_valid chars_ascii str_of_chars_ascii

lemma sample_environ:
  "read_environ sample_host 100 = Some [(''SteamAppId'', ''42'')]" "read_environ sample_host 200 = Some [(''SteamAppId'', ''42'')]"
  by (simp_all add: read_environ_def sample_files sample_host_def environ_entry_def List.map_filter_def ascii_simps)

lemma dropWhile_none: "list_all (\<lambda>x. \<not> p x) xs \<Longrightarrow> dropWhile p xs = xs"
  by (cases xs) auto

lemma trim_ascii:
  assumes "list_all (\<lambda>c. byte c < 0x80 \<and> \<not> is_whitespace (byte c)) s"
  shows "trim s = s"
proof -
  have 1: "list_all (\<lambda>c. byte c < 0x80) s" using assms by (auto simp: list_all_iff)
  have 2: "list_all (\<lambda>c. \<not> is_whitespace c) (map of_char s)" "list_all (\<lambda>c. \<not> is_whitespace c) (rev (map of_char s))"
    using assms by (auto simp: list_all_iff)
  show ?thesis
    by (simp add: trim_def trim_end_def trim_start_def chars_ascii [OF 1] str_of_chars_ascii [OF 1] dropWhile_none 2
        del: rev_map)
qed

lemma sample_app: "app_id_of [(''SteamAppId'', ''42'')] = Some 42"
  by (simp add: app_id_of_def trim_ascii is_whitespace_def parse_u32_def from_str_radix_def u32_max_def digit_value_def)

lemma sample_host_procs:
  "proc_pids sample_host = Some [100, 200]" "steam_app sample_host 100 = Some 42" "steam_app sample_host 200 = Some 42"
  "file_name (exe_path_of sample_host 100) = Some ''bash''"
  "str_contains ''/steamapps/'' (exe_path_of sample_host 200)"
  subgoal by (simp add: proc_pids_def sample_host_def List.map_filter_def ascii_simps parse_u32_def from_str_radix_def
        u32_max_def digit_value_def)
  subgoal by (simp add: steam_app_def sample_environ sample_app)
  subgoal by (simp add: steam_app_def sample_environ sample_app)
  subgoal by (simp add: exe_path_of_def sample_files sample_host_def ascii_simps ascii_lower_def file_name_def)
  subgoal by (simp add: exe_path_of_def sample_files sample_host_def ascii_simps ascii_lower_def str_contains_def starts_with_def)
  done

lemma sample_host_first: "ks \<noteq> [] \<Longrightarrow> hv_first sample_host ks \<in> set ks"
  by (simp add: sample_host_def)



text \<open>Everything in a Steam library is a helper, because its path has the name of the store in it.\<close>

lemma library_path_is_helper: "str_contains ''/steamapps/'' exe \<Longrightarrow> is_helper exe"
proof -
  assume "str_contains ''/steamapps/'' exe"
  then obtain a b where e: "exe = a @ ''/steamapps/'' @ b" by (auto simp: str_contains_iff)
  have "exe = (a @ ''/'') @ ''steam'' @ (''apps/'' @ b)" by (simp add: e)
  then have "str_contains ''steam'' exe" unfolding str_contains_iff by blast
  then show ?thesis by (simp add: is_helper_def skip_contains_def)
qed

lemma shell_is_helper: "file_name exe = Some ''bash'' \<Longrightarrow> is_helper exe"
  by (simp add: is_helper_def skip_basename_def)

text \<open>C33: A shell that inherited the environment of a Steam game is taken for the game when it comes first in \<open>/proc\<close>,
  although the game itself runs from the Steam library: the path of the library makes the game a helper too.\<close>

theorem watcher_shell_taken_for_game:
  assumes "proc_pids H = Some [p, q]" "\<And>ks. ks \<noteq> [] \<Longrightarrow> hv_first H ks \<in> set ks"
    and apps: "steam_app H p = Some a" "steam_app H q = Some a"
    and exes: "file_name (exe_path_of H p) = Some ''bash''" "str_contains ''/steamapps/'' (exe_path_of H q)"
  shows "map_option tg_pid (scan_for_steam_game H) = Some p"
proof -
  obtain t where t: "scan_for_steam_game H = Some t"
    using scan_for_steam_game_None [OF assms(1)] apps by (cases "scan_for_steam_game H") auto
  have "List.find (stands_for_game H) [p, q] = None"
    using library_path_is_helper [OF exes(2)] shell_is_helper [OF exes(1)] by (simp add: stands_for_game_def)
  with scan_for_steam_game_Some [OF t assms(1,2)] apps have "tg_pid t = p" by auto
  with t show ?thesis by simp
qed

theorem watcher_shell_taken_for_game_witness: "map_option tg_pid (scan_for_steam_game sample_host) = Some 100"
  by (rule watcher_shell_taken_for_game [OF sample_host_procs(1) sample_host_first sample_host_procs(2-5)])

section \<open>What the other scanners return\<close>

text \<open>The invariants that the documentation of \<open>Target\<close> states, less the name being nonempty.\<close>

definition target_wf :: "target \<Rightarrow> bool" where
  "target_wf t \<longleftrightarrow> (tg_source t = Steam \<longleftrightarrow> tg_steam_app_id t \<noteq> None) \<and> tg_launcher t \<noteq> None \<and> tg_pid t \<in> set (tg_all_pids t)"

lemma enriched_wf: "source \<noteq> Steam \<Longrightarrow> pid \<in> set all_pids \<Longrightarrow> target_wf (enriched H source n pid all_pids l)"
  by (simp add: enriched_def target_wf_def Let_def)

lemma enriched_pids [simp]: "tg_all_pids (enriched H source n pid all_pids l) = all_pids"
  by (simp add: enriched_def Let_def)

lemma pushed_Some: "pushed k ps = Some vs \<Longrightarrow> vs \<noteq> [] \<and> set vs \<subseteq> snd ` set ps"
  by (auto simp: pushed_def Let_def split: if_splits)

lemma map_filter_snd: "(\<And>x y. f x = Some y \<Longrightarrow> snd y = x) \<Longrightarrow> snd ` set (List.map_filter f xs) \<subseteq> set xs"
  unfolding List.map_filter_def by fastforce

lemma heroic_pairs_pids: "snd ` set (heroic_pairs H pids) \<subseteq> set pids"
  unfolding heroic_pairs_def by (rule map_filter_snd) (auto simp: bind_eq_Some_conv)

lemma prefix_pairs_pids: "snd ` set (prefix_pairs H pids) \<subseteq> set pids"
  unfolding prefix_pairs_def by (rule map_filter_snd) (auto simp: bind_eq_Some_conv)

lemma exe_pairs_pids: "snd ` set (exe_pairs H pids) \<subseteq> set pids"
  unfolding exe_pairs_def by (rule map_filter_snd) auto

lemma hd_sort_in: "xs \<noteq> [] \<Longrightarrow> hd (sort xs) \<in> set xs"
  by (metis hd_in_set set_empty set_sort)

lemma heroic_first_wf: "heroic_first H pairs gs = Some t \<Longrightarrow> target_wf t \<and> set (tg_all_pids t) \<subseteq> snd ` set pairs"
  by (induction H pairs gs rule: heroic_first.induct)
    (auto simp: Let_def hd_sort_in dest!: pushed_Some intro!: enriched_wf split: option.splits)

lemma bottles_first_wf: "bottles_first H pairs bs = Some t \<Longrightarrow> target_wf t \<and> set (tg_all_pids t) \<subseteq> snd ` set pairs"
  by (induction H pairs bs rule: bottles_first.induct)
    (auto simp: Let_def hd_sort_in dest!: pushed_Some intro!: enriched_wf split: option.splits)

lemma lutris_matched_pids: "set (lutris_matched H pids c) \<subseteq> set pids"
  using exe_pairs_pids [of H pids] by (auto simp: lutris_matched_def Let_def dest!: pushed_Some split: option.splits)

lemma lutris_first_wf: "lutris_first H pids cs = Some t \<Longrightarrow> target_wf t \<and> set (tg_all_pids t) \<subseteq> set pids"
  by (induction H pids cs rule: lutris_first.induct)
    (auto simp: Let_def dest: set_mp [OF lutris_matched_pids] intro!: enriched_wf split: if_splits)

lemma scan_for_lutris_game_wf:
  "scan_for_lutris_game H = Ok (Some t) \<Longrightarrow> target_wf t \<and> (\<exists>pids. proc_pids H = Some pids \<and> set (tg_all_pids t) \<subseteq> set pids)"
  by (auto simp: scan_for_lutris_game_def Let_def and_then_eq_Inr bind_eq_Some_conv dest!: lutris_first_wf
      split: option.splits if_splits)

lemma scan_for_heroic_game_wf:
  "scan_for_heroic_game H = Some t \<Longrightarrow> target_wf t \<and> (\<exists>pids. proc_pids H = Some pids \<and> set (tg_all_pids t) \<subseteq> set pids)"
  using heroic_pairs_pids
  by (fastforce simp: scan_for_heroic_game_def Let_def bind_eq_Some_conv dest!: heroic_first_wf split: if_splits)

lemma scan_for_bottles_game_wf:
  "scan_for_bottles_game H = Some t \<Longrightarrow> target_wf t \<and> (\<exists>pids. proc_pids H = Some pids \<and> set (tg_all_pids t) \<subseteq> set pids)"
  using prefix_pairs_pids
  by (fastforce simp: scan_for_bottles_game_def Let_def bind_eq_Some_conv dest!: bottles_first_wf split: if_splits)

lemma scan_for_game_wf:
  assumes "scan_for_game H = Ok (Some t)" "\<And>ks. ks \<noteq> [] \<Longrightarrow> hv_first H ks \<in> set ks"
  shows "target_wf t \<and> (\<exists>pids. proc_pids H = Some pids \<and> set (tg_all_pids t) \<subseteq> set pids)"
proof (cases "scan_for_steam_game H")
  case (Some u)
  with assms(1) have [simp]: "u = t" by (simp add: scan_for_game_def)
  obtain pids where p: "proc_pids H = Some pids" using Some by (auto simp: scan_for_steam_game_def bind_eq_Some_conv)
  from scan_for_steam_game_Some [OF Some p assms(2)] p show ?thesis by (auto simp: target_wf_def)
next
  case None
  then have "scan_for_lutris_game H = Ok (Some t) \<or> scan_for_heroic_game H = Some t \<or> scan_for_bottles_game H = Some t"
    using assms(1) by (auto simp: scan_for_game_def and_then_eq_Inr or_else_def split: option.splits)
  then show ?thesis using scan_for_lutris_game_wf scan_for_heroic_game_wf scan_for_bottles_game_wf by blast
qed

section \<open>The panic\<close>

lemma split_on_last_length: "length (last (split_on x ys)) \<le> length ys \<and> (length (last (split_on x ys)) = length ys \<longleftrightarrow> x \<notin> set ys)"
proof (cases "x \<in> set ys")
  case False
  then show ?thesis by (simp add: split_on_single)
next
  case True
  then obtain a b where ys: "ys = a @ x # b" by (meson split_list)
  have "length (last (split_on x b)) \<le> length b" for b
    by (induction b) (auto simp: Let_def split: if_splits list.splits)
  from this [of b] have "length (last (split_on x ys)) < length ys" by (simp add: ys split_on_append)
  with True show ?thesis by simp
qed

lemma lutris_slug_panics_iff: "lutris_slug stem = Err SliceIndex \<longleftrightarrow> 10 \<le> length stem \<and> list_all is_digit stem"
proof -
  let ?l = "last (split_on CHR ''-'' stem)"
  have "lutris_slug stem = Err SliceIndex \<longleftrightarrow> 10 \<le> length ?l \<and> list_all is_digit ?l \<and> length stem \<le> length ?l"
    by (auto simp: lutris_slug_def Let_def)
  also have "\<dots> \<longleftrightarrow> 10 \<le> length ?l \<and> list_all is_digit ?l \<and> CHR ''-'' \<notin> set stem"
    using split_on_last_length [of "CHR ''-''" stem] by auto
  also have "\<dots> \<longleftrightarrow> 10 \<le> length stem \<and> list_all is_digit stem"
  proof (cases "CHR ''-'' \<in> set stem")
    case True
    have "\<not> is_digit CHR ''-''" by (simp add: is_digit_def)
    with True have "\<not> list_all is_digit stem" by (auto simp: list_all_iff)
    with True show ?thesis by simp
  qed (simp add: split_on_single)
  finally show ?thesis .
qed

text \<open>A configuration named by a timestamp alone.\<close>

definition timestamp_only :: "string \<Rightarrow> bool" where
  "timestamp_only name \<longleftrightarrow>
     (\<exists>stem. split_name name = (stem, Some ''yml'') \<and> utf8_valid stem \<and> 10 \<le> length stem \<and> list_all is_digit stem)"

lemma lutris_configs_panics: "lutris_configs H dir names = Err SliceIndex \<longleftrightarrow> list_ex timestamp_only names"
proof (induction names)
  case (Cons name names)
  define stem where "stem = (if utf8_valid (fst (split_name name)) then fst (split_name name) else [])"
  have t: "timestamp_only name \<longleftrightarrow> snd (split_name name) = Some ''yml'' \<and> lutris_slug stem = Err SliceIndex"
    by (cases "split_name name") (auto simp: timestamp_only_def lutris_slug_panics_iff stem_def)
  show ?case
  proof (cases "snd (split_name name) = Some ''yml''")
    case False
    with Cons t show ?thesis by simp
  next
    case yml: True
    then have eq: "lutris_configs H dir (name # names) =
      and_then (lutris_slug_to_title H stem) (\<lambda>display_name.
          case read_to_string H (path_join dir name) \<bind> hv_lutris H of
            None \<Rightarrow> lutris_configs H dir names
          | Some config \<Rightarrow> and_then (lutris_configs H dir names) (\<lambda>rest. Ok ((display_name, config) # rest)))"
      by (simp add: stem_def)
    have e: "and_then r (\<lambda>x. Ok (f x)) = Err SliceIndex \<longleftrightarrow> r = Err SliceIndex" for r and f :: "'a \<Rightarrow> 'b"
      by (cases r) simp_all
    show ?thesis
    proof (cases "lutris_slug stem")
      case (Inl p)
      then have "lutris_slug stem = Err SliceIndex" by (cases p) simp
      with yml t eq show ?thesis by (simp add: lutris_slug_to_title_def)
    next
      case (Inr slug)
      then obtain d where d: "lutris_slug_to_title H stem = Ok d" by (simp add: lutris_slug_to_title_def)
      have "lutris_configs H dir (name # names) = Err SliceIndex \<longleftrightarrow> lutris_configs H dir names = Err SliceIndex"
        unfolding eq d by (simp add: e split: option.split)
      with Cons t Inr show ?thesis by simp
    qed
  qed
qed simp

lemma scan_panic_all: "(p::scan_panic) = SliceIndex"
  by (cases p) simp

lemma scan_for_lutris_game_panics:
  "(\<exists>p. scan_for_lutris_game H = Err p) \<longleftrightarrow>
     (\<exists>home names. hv_var H ''HOME'' = Some home \<and> hv_dir H (path_join home ''.local/share/lutris/games'') = Some names
        \<and> list_ex timestamp_only names)"
proof -
  have e: "(\<exists>p. and_then r (\<lambda>x. Ok (f x)) = Err p) \<longleftrightarrow> r = Err SliceIndex" for r :: "(scan_panic, 'a) result" and f :: "'a \<Rightarrow> 'b"
    by (cases r) (simp_all add: scan_panic_all)
  show ?thesis by (simp add: scan_for_lutris_game_def Let_def e lutris_configs_panics split: option.split)
qed

text \<open>The scan ends in a panic exactly when no Steam game runs and the Lutris directory has a configuration whose
  name is nothing but a timestamp of ten or more digits.\<close>

theorem scan_for_game_panics_iff:
  "(\<exists>p. scan_for_game H = Err p) \<longleftrightarrow>
     scan_for_steam_game H = None
     \<and> (\<exists>home names. hv_var H ''HOME'' = Some home \<and> hv_dir H (path_join home ''.local/share/lutris/games'') = Some names
          \<and> list_ex timestamp_only names)"
proof -
  have "(\<exists>p. scan_for_game H = Err p) \<longleftrightarrow> scan_for_steam_game H = None \<and> (\<exists>p. scan_for_lutris_game H = Err p)"
    by (cases "scan_for_steam_game H"; cases "scan_for_lutris_game H") (simp_all add: scan_for_game_def)
  then show ?thesis unfolding scan_for_lutris_game_panics .
qed

text \<open>So a file \<open>1700000000.yml\<close> is enough, while \<open>doom-1700000000.yml\<close> names the game \<open>Doom\<close>.\<close>

lemma timestamp_only_sample: "timestamp_only ''1700000000.yml''" "\<not> timestamp_only ''doom-1700000000.yml''"
  by (simp_all add: timestamp_only_def split_name_def rposition_def ascii_valid is_digit_def)

section \<open>Libraries\<close>

fun escape_vdf :: "string \<Rightarrow> string" where
  "escape_vdf [] = []"
| "escape_vdf (c # s) = (if c = CHR 0x5C then [c, c] else [c]) @ escape_vdf s"

lemma unescape_cons: "a \<noteq> CHR 0x5C \<Longrightarrow> unescape (a # s) = a # unescape s"
  by (cases s) auto

lemma unescape_escape: "unescape (escape_vdf p) = p"
  by (induction p) (auto simp: unescape_cons)

text \<open>A library path is read back as it was before the file escaped it.\<close>

theorem vdf_path_roundtrip:
  assumes "trim line = CHR 0x22 # ''path'' @ [CHR 0x22] @ gap @ [CHR 0x22] @ escape_vdf p @ [CHR 0x22]"
    "CHR 0x22 \<notin> set gap" "CHR 0x22 \<notin> set p"
  shows "vdf_path line = Some p"
proof -
  have q: "CHR 0x22 \<notin> set (escape_vdf p)" using assms(3) by (induction p) auto
  have "split_on CHR 0x22 (trim line) = [[], ''path'', gap, escape_vdf p, []]"
    unfolding assms(1)
    using split_on_append [of "CHR 0x22" "[]"] split_on_append [of "CHR 0x22" "''path''"] split_on_append [of "CHR 0x22" gap]
      split_on_append [of "CHR 0x22" "escape_vdf p" "[]"] split_on_single [OF assms(2)] split_on_single [OF q]
    by (simp add: split_on_single)
  then show ?thesis by (simp add: vdf_path_def assms(1) starts_with_def list_get_def unescape_escape)
qed

end
