(* ===== verification/Session.thy ===== *)
theory Session
  imports Game_Scan File_System Field_Codec
begin

text \<open>
  Model of the session manager in \<open>src/src/session.rs\<close>: labels, the per-game counter and its file, the documents every
  other part of the agent starts from, and the polling state machine with the file \<open>session.json\<close> that the eBPF daemon
  watches.  A poll reads a \<open>session_env\<close>: the clock (nanoseconds), the dates as chrono formats them, the host, and
  the JSON reader and writers.  Unlocking and logging have no effect here.
\<close>

section \<open>State\<close>

datatype session_event = NoChange | GameStarted target | GameEnded target

record session_manager =
  sm_session_id :: string
  sm_current_game :: "target option"
  sm_label :: "string option"
  sm_label_is_manual :: bool
  sm_label_source :: string
  sm_sequence_number :: "nat option"
  sm_settings_overlay :: "json option"
  sm_last_scan :: "nat option"
  sm_last_no_game_log :: "nat option"

text \<open>
  The dates stand for separate readings of the clock: \<open>se_today\<close> as \<open>%Y-%m-%d\<close>, \<open>se_cutoff\<close> the same thirty days
  earlier, \<open>se_label_date\<close> as \<open>%Y%m%d\<close>.
\<close>

record session_env =
  se_now :: nat
  se_host :: host_view
  se_today :: string
  se_cutoff :: string
  se_label_date :: string
  se_dir_exists :: bool
  se_enc :: "json \<Rightarrow> string"
  se_pretty :: "json \<Rightarrow> string"
  se_dec :: "string \<Rightarrow> (string \<times> json) list option"

section \<open>Labels\<close>

definition slug_char :: "nat \<Rightarrow> bool" where
  "slug_char c \<longleftrightarrow> 48 \<le> c \<and> c \<le> 57 \<or> 65 \<le> c \<and> c \<le> 90 \<or> 97 \<le> c \<and> c \<le> 122 \<or> c = 45"

definition slug_from_game_name :: "(string \<Rightarrow> string) \<Rightarrow> string \<Rightarrow> string" where
  "slug_from_game_name lower name =
     str_of_chars (take 32 (filter slug_char (map (\<lambda>c. if c = 32 then 45 else c) (chars (lower name)))))"

definition auto_label_idle :: "string \<Rightarrow> string" where
  "auto_label_idle timestamp = ''idle-'' @ timestamp"

definition auto_label_game_n :: "string \<Rightarrow> string \<Rightarrow> nat \<Rightarrow> string" where
  "auto_label_game_n date slug n = slug @ ''-'' @ date @ ''-'' @ show_nat n"

definition new_with_label_and_settings :: "string \<Rightarrow> string \<Rightarrow> string option \<Rightarrow> json option \<Rightarrow> session_manager" where
  "new_with_label_and_settings uuid timestamp manual_label settings_overlay =
     (let manual = (case manual_label of Some s \<Rightarrow> s \<noteq> [] | None \<Rightarrow> False) in
      \<lparr>sm_session_id = uuid, sm_current_game = None,
       sm_label = (if manual then manual_label else Some (auto_label_idle timestamp)),
       sm_label_is_manual = manual, sm_label_source = (if manual then ''manual'' else ''auto''),
       sm_sequence_number = None, sm_settings_overlay = settings_overlay, sm_last_scan = None, sm_last_no_game_log = None\<rparr>)"

section \<open>Documents\<close>

text \<open>\<open>Map::insert\<close>: the objects of \<open>serde_json\<close> are ordered by their keys.\<close>

fun obj_insert :: "string \<Rightarrow> json \<Rightarrow> (string \<times> json) list \<Rightarrow> (string \<times> json) list" where
  "obj_insert k v [] = [(k, v)]"
| "obj_insert k v ((k', v') # m) =
     (if k = k' then (k, v) # m else if k < k' then (k, v) # (k', v') # m else (k', v') # obj_insert k v m)"

definition opt_field :: "string \<Rightarrow> json option \<Rightarrow> (string \<times> json) list" where
  "opt_field k v = (case v of Some x \<Rightarrow> [(k, x)] | None \<Rightarrow> [])"

definition target_to_game_doc :: "target \<Rightarrow> (string \<times> json) list" where
  "target_to_game_doc t =
     opt_field ''graphics_api'' (map_option JString (tg_graphics_api t))
     @ opt_field ''launcher'' (map_option JString (tg_launcher t))
     @ [(''name'', JString (tg_display_name t)), (''source'', JString (target_source_str (tg_source t)))]
     @ opt_field ''steam_app_id'' (map_option (JNumber \<circ> PosInt) (tg_steam_app_id t))"

definition normalize_hostname :: "(string \<Rightarrow> string) \<Rightarrow> string \<Rightarrow> string" where
  "normalize_hostname lower v = (let normalized = lower (trim v) in if normalized = [] then ''unknown'' else normalized)"

text \<open>\<open>version\<close> is \<open>CARGO_PKG_VERSION\<close>.\<close>

definition base_doc :: "(string \<Rightarrow> string) \<Rightarrow> string \<Rightarrow> session_manager \<Rightarrow> string \<Rightarrow> json" where
  "base_doc lower version s hostname =
     JObject [(''host'', JObject [(''name'', JString (normalize_hostname lower hostname))]),
       (''rigsignal'', JObject
          (opt_field ''game'' (map_option (\<lambda>t. JObject (target_to_game_doc t)) (sm_current_game s))
           @ [(''session'', JObject
                ([(''agent_version'', JString version), (''id'', JString (sm_session_id s))]
                 @ opt_field ''label'' (map_option JString (sm_label s))
                 @ [(''label_source'', JString (sm_label_source s)), (''opt_in_public'', JBool False)]
                 @ opt_field ''sequence_number'' (map_option (JNumber \<circ> PosInt) (sm_sequence_number s))))]))]"

definition stream_client_base_doc :: "(string \<Rightarrow> string) \<Rightarrow> string \<Rightarrow> session_manager \<Rightarrow> string \<Rightarrow> json" where
  "stream_client_base_doc lower version s hostname =
     JObject ([(''host'', JObject [(''name'', JString (normalize_hostname lower hostname))])]
       @ opt_field ''rigsignal'' (map_option (\<lambda>t. JObject
           [(''game'', JObject (target_to_game_doc t)),
            (''session'', JObject [(''agent_version'', JString version), (''id'', JString (sm_session_id s)),
               (''label'', case sm_label s of Some l \<Rightarrow> JString l | None \<Rightarrow> JNull)])]) (sm_current_game s)))"

definition session_json_doc :: "session_manager \<Rightarrow> target \<Rightarrow> json" where
  "session_json_doc s t =
     JObject ([(''game_name'', JString (tg_display_name t)), (''game_pid'', JNumber (PosInt (tg_pid t))),
        (''game_pids'', JArray (map (JNumber \<circ> PosInt) (tg_all_pids t))), (''session_id'', JString (sm_session_id s))]
       @ opt_field ''steam_app_id'' (map_option (JNumber \<circ> PosInt) (tg_steam_app_id t))
       @ [(''target_source'', JString (target_source_str (tg_source t)))])"

section \<open>The counter\<close>

definition counter_file_path :: "host_view \<Rightarrow> string" where
  "counter_file_path H =
     path_join (case hv_var H ''XDG_STATE_HOME'' of
                  Some d \<Rightarrow> d
                | None \<Rightarrow> (case home_dir H of Some h \<Rightarrow> path_join h ''.local/state'' | None \<Rightarrow> ''/var/lib/rigsignal''))
       ''rigsignal/session-counters.json''"

definition keep_counter :: "string \<Rightarrow> string \<times> json \<Rightarrow> bool" where
  "keep_counter cutoff e =
     (fst e = ''_last_pruned'' \<or> (case list_get (split_on CHR '':'' (fst e)) 1 of Some d \<Rightarrow> cutoff \<le> d | None \<Rightarrow> True))"

definition prune_counters :: "string \<Rightarrow> string \<Rightarrow> (string \<times> json) list \<Rightarrow> (string \<times> json) list" where
  "prune_counters today cutoff counters =
     (if (case map_of counters ''_last_pruned'' \<bind> as_str of Some s \<Rightarrow> s | None \<Rightarrow> []) \<noteq> today
      then obj_insert ''_last_pruned'' (JString today) (filter (keep_counter cutoff) counters)
      else counters)"

definition counter_key :: "string \<Rightarrow> string \<Rightarrow> string" where
  "counter_key slug today = slug @ '':'' @ today"

text \<open>The \<open>u64\<close> addition wraps at its width.\<close>

definition bump_counter :: "string \<Rightarrow> string \<Rightarrow> (string \<times> json) list \<Rightarrow> nat \<times> (string \<times> json) list" where
  "bump_counter slug today counters =
     (let key = counter_key slug today;
          n = ((case map_of counters key \<bind> as_u64 of Some k \<Rightarrow> k | None \<Rightarrow> 0) + 1) mod 2 ^ 64
      in (n, obj_insert key (JNumber (PosInt n)) counters))"

text \<open>\<open>read_to_string\<close> of the open file, its error ignored: what was read before an error stays if it is valid text.\<close>

definition read_counters :: "sys \<Rightarrow> string \<Rightarrow> 'z fs_scheme \<Rightarrow> string \<times> 'z fs_scheme" where
  "read_counters S path w =
     (let c = (case fget w path of Some c \<Rightarrow> c | None \<Rightarrow> []);
          got = (case fault S (tick w) of Some k \<Rightarrow> take k c | None \<Rightarrow> c)
      in (if utf8_valid got then got else [], tock w))"

definition parse_counters :: "session_env \<Rightarrow> string \<Rightarrow> (string \<times> json) list" where
  "parse_counters E contents =
     (if trim contents = [] then [] else case se_dec E contents of Some m \<Rightarrow> m | None \<Rightarrow> [])"

definition updated_counters :: "session_env \<Rightarrow> string \<Rightarrow> string \<Rightarrow> nat \<times> (string \<times> json) list" where
  "updated_counters E slug contents =
     bump_counter slug (se_today E) (prune_counters (se_today E) (se_cutoff E) (parse_counters E contents))"

definition fs_open_create :: "sys \<Rightarrow> string \<Rightarrow> (unit, 'z) io" where
  "fs_open_create S n w =
     (case fault S (tick w) of Some _ \<Rightarrow> (Err IoError, tock w)
      | None \<Rightarrow> (Ok (), if fget w n = None then fput n [] (tock w) else tock w))"

text \<open>\<open>std::fs::write\<close>\<close>

definition fs_write_file :: "sys \<Rightarrow> string \<Rightarrow> bytes \<Rightarrow> (unit, 'z) io" where
  "fs_write_file S n bs = io_bind (fs_create_trunc S n) (\<lambda>_. fs_write S n bs)"

text \<open>Everything before the read: the directory, the open and the lock.\<close>

definition open_counters :: "sys \<Rightarrow> session_env \<Rightarrow> string \<Rightarrow> (unit, 'z) io" where
  "open_counters S E path =
     io_bind (if se_dir_exists E then io_return () else fs_touch S) (\<lambda>_.
     io_bind (fs_open_create S path) (\<lambda>_. fs_touch S))"

definition store_counters :: "sys \<Rightarrow> session_env \<Rightarrow> string \<Rightarrow> (string \<times> json) list \<Rightarrow> 'z fs_scheme \<Rightarrow> 'z fs_scheme" where
  "store_counters S E path counters w =
     (let tmp_path = beside path ((case file_name path of Some n \<Rightarrow> n | None \<Rightarrow> []) @ ''.tmp'')
      in snd (io_bind (fs_write_file S tmp_path (se_pretty E (JObject counters))) (\<lambda>_. fs_rename S tmp_path path) w))"

definition increment_counter_at :: "sys \<Rightarrow> session_env \<Rightarrow> string \<Rightarrow> string \<Rightarrow> 'z fs_scheme \<Rightarrow> nat \<times> 'z fs_scheme" where
  "increment_counter_at S E slug path w =
     (if parent_dir path = None then (1, w)
      else case open_counters S E path w of
        (Inl _, w1) \<Rightarrow> (1, w1)
      | (Inr _, w1) \<Rightarrow>
          (let (contents, w2) = read_counters S path w1;
               (n, counters) = updated_counters E slug contents
           in (n mod 2 ^ 32, store_counters S E path counters w2)))"

definition increment_session_counter :: "sys \<Rightarrow> session_env \<Rightarrow> string \<Rightarrow> 'z fs_scheme \<Rightarrow> nat \<times> 'z fs_scheme" where
  "increment_session_counter S E slug = increment_counter_at S E slug (counter_file_path (se_host E))"

section \<open>\<open>session.json\<close>\<close>

definition session_json_path :: string where "session_json_path = ''/tmp/rigsignal/session.json''"

text \<open>Where the eBPF daemon looks for it.\<close>

definition session_file_path :: "(string \<Rightarrow> string option) \<Rightarrow> string" where
  "session_file_path var =
     (case var ''XDG_RUNTIME_DIR'' of
        Some xdg_runtime \<Rightarrow> path_join xdg_runtime ''rigsignal/session.json'' | None \<Rightarrow> ''/tmp/rigsignal/session.json'')"

text \<open>The permissions of the directory are set without looking at the outcome; the caller logs an error and goes on.\<close>

definition write_session_json :: "sys \<Rightarrow> session_env \<Rightarrow> session_manager \<Rightarrow> target \<Rightarrow> (unit, 'z) io" where
  "write_session_json S E s t =
     io_bind (fs_touch S) (\<lambda>_. io_bind (\<lambda>w. (Ok (), tock w)) (\<lambda>_.
       fs_write_file S session_json_path (se_enc E (session_json_doc s t))))"

definition remove_session_json :: "sys \<Rightarrow> 'z fs_scheme \<Rightarrow> 'z fs_scheme" where
  "remove_session_json S w = snd (fs_remove S session_json_path w)"

section \<open>\<open>poll\<close>\<close>

definition too_soon :: "nat \<Rightarrow> nat option \<Rightarrow> nat \<Rightarrow> bool" where
  "too_soon now prev limit \<longleftrightarrow> (case prev of Some l \<Rightarrow> now - l < limit | None \<Rightarrow> False)"

definition label_game :: "sys \<Rightarrow> session_env \<Rightarrow> target \<Rightarrow> session_manager \<Rightarrow> 'z fs_scheme \<Rightarrow> session_manager \<times> 'z fs_scheme" where
  "label_game S E t s w =
     (if sm_label_is_manual s then (s, w)
      else let slug = slug_from_game_name (hv_lower (se_host E)) (tg_display_name t);
               (n, w') = increment_session_counter S E slug w
           in (s\<lparr>sm_sequence_number := Some n, sm_label := Some (auto_label_game_n (se_label_date E) slug n)\<rparr>, w'))"

definition poll_detected ::
    "sys \<Rightarrow> session_env \<Rightarrow> target option \<Rightarrow> session_manager \<Rightarrow> 'z fs_scheme \<Rightarrow> session_event \<times> session_manager \<times> 'z fs_scheme" where
  "poll_detected S E detected s w =
     (case (sm_current_game s, detected) of
        (None, None) \<Rightarrow>
          (NoChange,
           if too_soon (se_now E) (sm_last_no_game_log s) 30000000000 then s else s\<lparr>sm_last_no_game_log := Some (se_now E)\<rparr>, w)
      | (None, Some t) \<Rightarrow>
          (let (s1, w1) = label_game S E t s w
           in (GameStarted t, s1\<lparr>sm_current_game := Some t, sm_last_no_game_log := None\<rparr>, snd (write_session_json S E s1 t w1)))
      | (Some old, None) \<Rightarrow> (GameEnded old, s\<lparr>sm_current_game := None\<rparr>, remove_session_json S w)
      | (Some old, Some t) \<Rightarrow>
          if tg_pid old \<noteq> tg_pid t \<or> tg_steam_app_id old \<noteq> tg_steam_app_id t
          then (GameStarted t, s\<lparr>sm_current_game := Some t\<rparr>, snd (write_session_json S E s t w))
          else (NoChange, s\<lparr>sm_current_game := Some t\<rparr>, w))"

definition poll ::
    "sys \<Rightarrow> session_env \<Rightarrow> session_manager \<Rightarrow> 'z fs_scheme \<Rightarrow> (scan_panic, session_event \<times> session_manager \<times> 'z fs_scheme) result" where
  "poll S E s w =
     (if too_soon (se_now E) (sm_last_scan s) 5000000000 then Ok (NoChange, s, w)
      else and_then (scan_for_game (se_host E)) (\<lambda>detected.
        Ok (poll_detected S E detected (s\<lparr>sm_last_scan := Some (se_now E)\<rparr>) w)))"

text \<open>\<open>poll_pinned_target\<close> of \<open>main.rs\<close>: a pinned target is followed by its process alone.\<close>

definition poll_pinned_target :: "target \<Rightarrow> bool \<Rightarrow> target option \<Rightarrow> session_event \<times> target option" where
  "poll_pinned_target pinned alive current =
     (case current of
        None \<Rightarrow> if alive then (GameStarted pinned, Some pinned) else (NoChange, None)
      | Some old \<Rightarrow> if alive then (NoChange, Some old) else (GameEnded old, None))"

section \<open>Slugs\<close>

lemma slug_char_byte: "slug_char c \<Longrightarrow> c < 0x80 \<and> is_scalar c"
  by (auto simp: slug_char_def is_scalar_def)

lemma encode_slug_char: "slug_char c \<Longrightarrow> encode_char c = [char_of c]"
  using slug_char_byte by (simp add: encode_char_def)

lemma str_of_slug_chars: "list_all slug_char cs \<Longrightarrow> str_of_chars cs = map char_of cs"
  by (induction cs) (simp_all add: encode_slug_char)

lemma slug_char_of: "slug_char c \<Longrightarrow> slug_char (c mod 256)"
  using slug_char_byte [of c] by simp

lemma slug_chars_of: "list_all slug_char cs \<Longrightarrow> list_all (\<lambda>c. slug_char (byte c)) (map char_of cs)"
  by (induction cs) (simp_all add: slug_char_of)

definition is_slug :: "string \<Rightarrow> bool" where
  "is_slug s \<longleftrightarrow> length s \<le> 32 \<and> list_all (\<lambda>c. slug_char (byte c)) s"

lemma slug_is_slug: "is_slug (slug_from_game_name lower name)"
proof -
  let ?cs = "take 32 (filter slug_char (map (\<lambda>c. if c = 32 then 45 else c) (chars (lower name))))"
  have all: "list_all slug_char ?cs" by (auto simp: list_all_iff dest: in_set_takeD)
  have "list_all (\<lambda>c. slug_char (byte c)) (map char_of ?cs)"
    by (rule slug_chars_of [OF all])
  with str_of_slug_chars [OF all] show ?thesis by (simp add: slug_from_game_name_def is_slug_def)
qed

lemma is_slug_no_colon: "is_slug s \<Longrightarrow> CHR '':'' \<notin> set s"
  by (auto simp: is_slug_def list_all_iff slug_char_def)

section \<open>The counters as a map\<close>

lemma map_of_obj_insert [simp]: "map_of (obj_insert k v m) = (map_of m)(k \<mapsto> v)"
  by (induction k v m rule: obj_insert.induct) auto

lemma map_of_filter_key: "map_of (filter (\<lambda>e. P (fst e)) m) k = (if P k then map_of m k else None)"
  by (induction m) auto

definition sorted_keys :: "(string \<times> json) list \<Rightarrow> bool" where
  "sorted_keys m \<longleftrightarrow> sorted_wrt (<) (map fst m)"

lemma set_obj_insert: "fst ` set (obj_insert k v m) = insert k (fst ` set m)"
  by (induction k v m rule: obj_insert.induct) auto

lemma sorted_obj_insert: "sorted_keys m \<Longrightarrow> sorted_keys (obj_insert k v m)"
proof (induction k v m rule: obj_insert.induct)
  case (2 k v k' v' m)
  have "\<forall>x \<in> fst ` set (obj_insert k v m). k' < x" if "\<not> k < k'" "k \<noteq> k'"
    using that "2.prems" by (simp add: set_obj_insert sorted_keys_def)
  with 2 show ?case by (auto simp: sorted_keys_def image_iff)
qed (simp add: sorted_keys_def)

lemma sorted_filter_keys: "sorted_keys m \<Longrightarrow> sorted_keys (filter P m)"
  unfolding sorted_keys_def by (induction m) auto

text \<open>What the counter file holds: texts and numbers under distinct keys, in order.\<close>

definition counter_entry :: "string \<times> json \<Rightarrow> bool" where
  "counter_entry e \<longleftrightarrow> utf8_valid (fst e)
     \<and> (case snd e of JNumber (PosInt _) \<Rightarrow> True | JString s \<Rightarrow> utf8_valid s | _ \<Rightarrow> False)"

definition counters_wf :: "(string \<times> json) list \<Rightarrow> bool" where
  "counters_wf m \<longleftrightarrow> sorted_keys m \<and> list_all counter_entry m"

lemma list_all_obj_insert: "list_all P m \<Longrightarrow> P (k, v) \<Longrightarrow> list_all P (obj_insert k v m)"
  by (induction k v m rule: obj_insert.induct) auto

lemma counters_wf_insert: "counters_wf m \<Longrightarrow> counter_entry (k, v) \<Longrightarrow> counters_wf (obj_insert k v m)"
  by (simp add: counters_wf_def sorted_obj_insert list_all_obj_insert)

lemma counters_wf_filter: "counters_wf m \<Longrightarrow> counters_wf (filter P m)"
  by (auto simp: counters_wf_def sorted_filter_keys list_all_iff)

lemma counters_wf_prune: "counters_wf m \<Longrightarrow> utf8_valid today \<Longrightarrow> counters_wf (prune_counters today cutoff m)"
  by (simp add: prune_counters_def counters_wf_insert counters_wf_filter counter_entry_def ascii_valid)

lemma is_slug_valid: "is_slug s \<Longrightarrow> utf8_valid s"
  by (rule ascii_valid) (auto simp: is_slug_def list_all_iff dest: slug_char_byte)

lemma counters_wf_bump:
  "counters_wf m \<Longrightarrow> is_slug slug \<Longrightarrow> utf8_valid today \<Longrightarrow> counters_wf (snd (bump_counter slug today m))"
  using ascii_valid [of "'':''"]
  by (simp add: bump_counter_def Let_def counters_wf_insert counter_entry_def counter_key_def utf8_valid_append is_slug_valid
      del: append_Cons append_Nil)

lemma counter_key_inj:
  "CHR '':'' \<notin> set s \<Longrightarrow> CHR '':'' \<notin> set s' \<Longrightarrow> counter_key s d = counter_key s' d' \<longleftrightarrow> s = s' \<and> d = d'"
  unfolding counter_key_def using split_once_append [of "CHR '':''" s d] split_once_append [of "CHR '':''" s' d']
  by (metis append_Cons append_Nil option.inject prod.inject)

lemma counter_key_not_pruned [simp]: "counter_key s d \<noteq> ''_last_pruned''"
proof
  assume k: "counter_key s d = ''_last_pruned''"
  have "CHR '':'' \<in> set (counter_key s d)" by (simp add: counter_key_def)
  then show False unfolding k by simp
qed

lemma keep_counter_fst: "keep_counter cutoff e = keep_counter cutoff (fst e, JNull)"
  by (simp add: keep_counter_def)

lemma keep_today:
  assumes "CHR '':'' \<notin> set s" "CHR '':'' \<notin> set d" "cutoff \<le> d"
  shows "keep_counter cutoff (counter_key s d, v)"
proof -
  have "split_on CHR '':'' (counter_key s d) = [s, d]"
    using split_on_append [of "CHR '':''" s d] assms by (simp add: counter_key_def split_on_single)
  then show ?thesis using assms by (simp add: keep_counter_def list_get_def)
qed

definition counter_value :: "(string \<times> json) list \<Rightarrow> string \<times> string \<Rightarrow> nat" where
  "counter_value m k = (case map_of m (counter_key (fst k) (snd k)) \<bind> as_u64 of Some n \<Rightarrow> n | None \<Rightarrow> 0)"

lemma counter_value_prune:
  assumes "CHR '':'' \<notin> set s" "CHR '':'' \<notin> set d" "cutoff \<le> d"
  shows "counter_value (prune_counters today cutoff m) (s, d) = counter_value m (s, d)"
proof -
  have "map_of (filter (keep_counter cutoff) m) (counter_key s d) = map_of m (counter_key s d)"
    using map_of_filter_key [of "\<lambda>k. keep_counter cutoff (k, JNull)" m] keep_today [OF assms]
    by (simp flip: keep_counter_fst)
  then show ?thesis by (simp add: counter_value_def prune_counters_def)
qed

lemma counter_value_bump:
  assumes "CHR '':'' \<notin> set s" "CHR '':'' \<notin> set s'"
  shows "counter_value (snd (bump_counter s d m)) (s', d') =
    (if (s', d') = (s, d) then fst (bump_counter s d m) else counter_value m (s', d'))"
  using counter_key_inj [OF assms(2,1)] by (auto simp: counter_value_def bump_counter_def Let_def as_u64_def)

lemma bump_counter_fst: "fst (bump_counter s d m) = (counter_value m (s, d) + 1) mod 2 ^ 64"
  by (simp add: bump_counter_def counter_value_def Let_def)

section \<open>The counter file\<close>

definition no_faults :: "sys \<Rightarrow> bool" where
  "no_faults S \<longleftrightarrow> (\<forall>n. fault S n = None)"

lemma increment_counter_ok:
  fixes E :: session_env and slug :: string and w :: "'a fs_scheme"
  assumes "no_faults S" "parent_dir path \<noteq> None" "case fget w path of Some c \<Rightarrow> utf8_valid c | None \<Rightarrow> True"
  defines "r \<equiv> updated_counters E slug (case fget w path of Some c \<Rightarrow> c | None \<Rightarrow> [])"
  obtains w' where "increment_counter_at S E slug path w = (fst r mod 2 ^ 32, w')"
    "fget w' path = Some (se_pretty E (JObject (snd r)))"
proof -
  have v: "utf8_valid (case fget w path of Some c \<Rightarrow> c | None \<Rightarrow> [])"
    using assms(3) ascii_valid [of "[]"] by (simp split: option.splits)
  have "\<exists>w1. open_counters S E path w = (Ok (), w1)
    \<and> (case fget w1 path of Some c \<Rightarrow> c | None \<Rightarrow> []) = (case fget w path of Some c \<Rightarrow> c | None \<Rightarrow> [])"
    using assms(1) by (cases "se_dir_exists E"; cases "fget w path")
      (simp_all add: open_counters_def io_bind_def fs_touch_def fs_open_create_def no_faults_def)
  then obtain w1 where o: "open_counters S E path w = (Ok (), w1)"
    "(case fget w1 path of Some c \<Rightarrow> c | None \<Rightarrow> []) = (case fget w path of Some c \<Rightarrow> c | None \<Rightarrow> [])" by blast
  then have "read_counters S path w1 = (case fget w path of Some c \<Rightarrow> c | None \<Rightarrow> [], tock w1)"
    using v assms(1) by (simp add: read_counters_def no_faults_def)
  with o assms(2) have "increment_counter_at S E slug path w = (fst r mod 2 ^ 32, store_counters S E path (snd r) (tock w1))"
    by (auto simp: increment_counter_at_def r_def case_prod_unfold Let_def)
  moreover have "fget (store_counters S E path m u) path = Some (se_pretty E (JObject m))" for m and u :: "'a fs_scheme"
    using assms(1) by (simp add: store_counters_def Let_def fs_write_file_def io_bind_def fs_create_trunc_def fs_write_def
        fs_rename_def append_file_def no_faults_def)
  ultimately show thesis using that by blast
qed

text \<open>The contract of the counter: every call returns how often its game was started on its day.\<close>

type_synonym counter_call = "string \<times> session_env"

definition call_key :: "counter_call \<Rightarrow> string \<times> string" where
  "call_key c = (fst c, se_today (snd c))"

fun counter_run :: "sys \<Rightarrow> string \<Rightarrow> counter_call list \<Rightarrow> 'z fs_scheme \<Rightarrow> nat list \<times> 'z fs_scheme" where
  "counter_run S path [] w = ([], w)"
| "counter_run S path ((slug, E) # calls) w =
     (let (n, w') = increment_counter_at S E slug path w; (ns, w'') = counter_run S path calls w' in (n # ns, w''))"

fun tally :: "(string \<times> string \<Rightarrow> nat) \<Rightarrow> (string \<times> string) list \<Rightarrow> nat list" where
  "tally cnt [] = []"
| "tally cnt (k # ks) = (cnt k + 1) # tally (cnt(k := cnt k + 1)) ks"

lemma tally_nth: "i < length ks \<Longrightarrow> tally cnt ks ! i = cnt (ks ! i) + count_list (take (Suc i) ks) (ks ! i)"
proof (induction ks arbitrary: cnt i)
  case (Cons k ks)
  then show ?case by (cases i) auto
qed simp

lemma length_tally [simp]: "length (tally cnt ks) = length ks"
  by (induction ks arbitrary: cnt) auto

text \<open>The JSON library reads back the maps it writes, and what it writes is text that is not blank.\<close>

definition counters_readable :: "(json \<Rightarrow> string) \<Rightarrow> (string \<Rightarrow> (string \<times> json) list option) \<Rightarrow> bool" where
  "counters_readable pretty dec \<longleftrightarrow>
     (\<forall>m. counters_wf m \<longrightarrow> dec (pretty (JObject m)) = Some m \<and> utf8_valid (pretty (JObject m)) \<and> trim (pretty (JObject m)) \<noteq> [])"

definition call_ok :: "(json \<Rightarrow> string) \<Rightarrow> (string \<Rightarrow> (string \<times> json) list option) \<Rightarrow> string set \<Rightarrow> counter_call \<Rightarrow> bool" where
  "call_ok pretty dec days c \<longleftrightarrow>
     is_slug (fst c) \<and> se_pretty (snd c) = pretty \<and> se_dec (snd c) = dec
     \<and> se_today (snd c) \<in> days \<and> (\<forall>d \<in> days. utf8_valid d \<and> CHR '':'' \<notin> set d \<and> se_cutoff (snd c) \<le> d)"

definition file_counts ::
    "(string \<Rightarrow> (string \<times> json) list option) \<Rightarrow> string set \<Rightarrow> (string \<times> string \<Rightarrow> nat) \<Rightarrow> bytes option \<Rightarrow> bool" where
  "file_counts dec days cnt f \<longleftrightarrow>
     (case f of Some c \<Rightarrow> utf8_valid c | None \<Rightarrow> True)
     \<and> (\<exists>m. counters_wf m \<and> (case f of Some c \<Rightarrow> if trim c = [] then m = [] else dec c = Some m | None \<Rightarrow> m = [])
          \<and> (\<forall>s d. is_slug s \<longrightarrow> d \<in> days \<longrightarrow> counter_value m (s, d) = cnt (s, d)))"

lemma trim_Nil [simp]: "trim [] = []"
  by (simp add: trim_def trim_end_def trim_start_def)

lemma counter_step:
  assumes S: "no_faults S" "parent_dir path \<noteq> None" and lib: "counters_readable pretty dec"
    and ok: "call_ok pretty dec days (slug, E)" and fc: "file_counts dec days cnt (fget w path)"
    and small: "cnt (slug, se_today E) + 1 < 2 ^ 32"
  obtains w' where "increment_counter_at S E slug path w = (cnt (slug, se_today E) + 1, w')"
    "file_counts dec days (cnt((slug, se_today E) := cnt (slug, se_today E) + 1)) (fget w' path)"
proof -
  define contents where "contents = (case fget w path of Some c \<Rightarrow> c | None \<Rightarrow> [])"
  define r where "r = updated_counters E slug contents"
  from fc obtain m where m: "counters_wf m" "parse_counters E contents = m"
    "\<And>s d. is_slug s \<Longrightarrow> d \<in> days \<Longrightarrow> counter_value m (s, d) = cnt (s, d)"
    using ok by (auto simp: file_counts_def parse_counters_def contents_def call_ok_def split: option.splits if_splits)
  have slug: "is_slug slug" "CHR '':'' \<notin> set slug" "se_today E \<in> days" "CHR '':'' \<notin> set (se_today E)"
    "se_pretty E = pretty" "utf8_valid (se_today E)"
    using ok is_slug_no_colon by (auto simp: call_ok_def)
  let ?p = "prune_counters (se_today E) (se_cutoff E) m"
  have r: "r = bump_counter slug (se_today E) ?p" by (simp add: r_def updated_counters_def m(2))
  have pv: "counter_value ?p (s, d) = cnt (s, d)" if "is_slug s" "d \<in> days" for s d
    using counter_value_prune [of s d "se_cutoff E"] m(3) [OF that] that ok is_slug_no_colon by (auto simp: call_ok_def)
  have n: "fst r = cnt (slug, se_today E) + 1"
    using small pv [OF slug(1,3)] by (simp add: r bump_counter_fst)
  have sorted: "counters_wf (snd r)" using m(1) slug by (simp add: r counters_wf_bump counters_wf_prune)
  have v: "counter_value (snd r) (s, d) = (cnt((slug, se_today E) := cnt (slug, se_today E) + 1)) (s, d)"
    if "is_slug s" "d \<in> days" for s d
    using counter_value_bump [OF slug(2) is_slug_no_colon [OF that(1)], of "se_today E" ?p d] n pv [OF that] r by auto
  from fc have valid: "case fget w path of Some c \<Rightarrow> utf8_valid c | None \<Rightarrow> True" by (simp add: file_counts_def)
  obtain w' where w': "increment_counter_at S E slug path w = (fst r mod 2 ^ 32, w')"
    "fget w' path = Some (pretty (JObject (snd r)))"
    using increment_counter_ok [OF S valid, of E slug] slug(5) by (auto simp: r_def contents_def)
  moreover have "file_counts dec days (cnt((slug, se_today E) := cnt (slug, se_today E) + 1)) (fget w' path)"
    using lib sorted v by (auto simp: file_counts_def w'(2) counters_readable_def intro!: exI [of _ "snd r"])
  moreover have "fst r mod 2 ^ 32 = cnt (slug, se_today E) + 1" using n small by simp
  ultimately show thesis using that by metis
qed

lemma counter_run_tally:
  assumes S: "no_faults S" "parent_dir path \<noteq> None" and lib: "counters_readable pretty dec"
  shows "list_all (call_ok pretty dec days) calls \<Longrightarrow> file_counts dec days cnt (fget w path)
    \<Longrightarrow> (\<And>k. cnt k + length calls < 2 ^ 32) \<Longrightarrow> fst (counter_run S path calls w) = tally cnt (map call_key calls)"
proof (induction calls arbitrary: cnt w)
  case (Cons c calls)
  obtain slug E where c: "c = (slug, E)" by (cases c)
  have ok: "call_ok pretty dec days (slug, E)" using Cons.prems(1) c by simp
  have "cnt (slug, se_today E) + 1 < 2 ^ 32" using Cons.prems(3) [of "(slug, se_today E)"] by simp
  then obtain w' where w': "increment_counter_at S E slug path w = (cnt (slug, se_today E) + 1, w')"
    "file_counts dec days (cnt((slug, se_today E) := cnt (slug, se_today E) + 1)) (fget w' path)"
    using counter_step [OF S lib ok Cons.prems(2)] by metis
  have "(cnt((slug, se_today E) := cnt (slug, se_today E) + 1)) k + length calls < 2 ^ 32" for k
    using Cons.prems(3) [of k] by auto
  with Cons.IH [OF _ w'(2)] Cons.prems(1) have "fst (counter_run S path calls w') =
    tally (cnt((slug, se_today E) := cnt (slug, se_today E) + 1)) (map call_key calls)" by (simp del: fun_upd_apply)
  then show ?case using w'(1) by (simp add: c call_key_def [of "(slug, E)"] case_prod_unfold del: fun_upd_apply)
qed simp

lemma file_counts_absent: "file_counts dec days (\<lambda>_. 0) None"
  by (auto simp: file_counts_def counter_value_def counters_wf_def sorted_keys_def intro!: exI [of _ "[]"])


text \<open>Fields for a JSON map of texts and numbers.\<close>

definition entry_strs :: "string \<times> json \<Rightarrow> string list" where
  "entry_strs e = [fst e, case snd e of JNumber (PosInt n) \<Rightarrow> CHR ''n'' # show_nat n | JString s \<Rightarrow> CHR ''s'' # s | _ \<Rightarrow> []]"

fun strs_entries :: "string list \<Rightarrow> (string \<times> json) list" where
  "strs_entries (k # v # r) =
     (k, if hd v = CHR ''n'' then JNumber (PosInt (digits_value 10 0 (tl v))) else JString (tl v)) # strs_entries r"
| "strs_entries _ = []"

definition enc_counters :: "json \<Rightarrow> string" where
  "enc_counters v = (case v of JObject m \<Rightarrow> put_strs (concat (map entry_strs m)) | _ \<Rightarrow> [])"

definition dec_counters :: "string \<Rightarrow> (string \<times> json) list option" where
  "dec_counters s = map_option strs_entries (get_strs (length s) s)"

lemma strs_entries_inv: "list_all counter_entry m \<Longrightarrow> strs_entries (concat (map entry_strs m)) = m"
  by (induction m)
    (auto simp: entry_strs_def counter_entry_def show_nat_value split: json.splits jnum.splits)

lemma digits_valid: "utf8_valid (show_nat n)"
  by (rule ascii_valid) (auto simp: list_all_iff is_digit_def dest!: show_nat_is_digit)

lemma valid_Cons: "byte c < 0x80 \<Longrightarrow> utf8_valid s \<Longrightarrow> utf8_valid (c # s)"
  using utf8_valid_append [of "[c]" s] ascii_valid [of "[c]"] by simp

lemma put_strs_valid: "list_all utf8_valid ss \<Longrightarrow> utf8_valid (put_strs ss)"
  by (induction ss) (simp_all add: put_str_def valid_Cons utf8_valid_append digits_valid ascii_valid)

lemma entry_strs_valid: "counter_entry e \<Longrightarrow> list_all utf8_valid (entry_strs e)"
  by (auto simp: entry_strs_def counter_entry_def valid_Cons digits_valid split: json.splits jnum.splits)

lemma trim_not_blank:
  assumes "utf8_valid (c # s)" "byte c < 0x80" "\<not> is_whitespace (byte c)"
  shows "trim (c # s) \<noteq> []"
proof -
  have ch: "chars (c # s) = byte c # chars s"
    using chars_encode [of "byte c" s] assms(2) by (simp add: encode_ascii is_scalar_def)
  let ?k = "rev (dropWhile is_whitespace (rev (byte c # chars s)))"
  have start: "trim_start (c # s) = c # s"
    using utf8_valid_chars [OF assms(1)] assms(3) by (simp add: trim_start_def ch)
  have "?k \<noteq> []" using assms(3) by (simp add: dropWhile_eq_Nil_conv)
  moreover have "str_of_chars xs \<noteq> []" if "xs \<noteq> []" for xs using that by (cases xs) auto
  ultimately have "str_of_chars ?k \<noteq> []" by blast
  then show ?thesis unfolding trim_def start trim_end_def ch .
qed

lemma sample_counters_readable: "counters_readable enc_counters dec_counters"
proof -
  have "dec_counters (enc_counters (JObject m)) = Some m \<and> utf8_valid (enc_counters (JObject m))
      \<and> trim (enc_counters (JObject m)) \<noteq> []" if "counters_wf m" for m
  proof -
    let ?ss = "concat (map entry_strs m)"
    have m: "list_all counter_entry m" using that by (simp add: counters_wf_def)
    have v: "utf8_valid (put_strs ?ss)"
      by (rule put_strs_valid) (use m entry_strs_valid in \<open>fastforce simp: list_all_iff\<close>)
    moreover have "trim (put_strs ss) \<noteq> []" if "utf8_valid (put_strs ss)" for ss
      using that by (cases ss) (simp_all add: trim_not_blank is_whitespace_def)
    ultimately show ?thesis
      using strs_entries_inv [OF m] get_put_strs [of ?ss] by (simp add: enc_counters_def dec_counters_def)
  qed
  then show ?thesis by (simp add: counters_readable_def)
qed

definition steady_sys :: sys where
  "steady_sys = \<lparr>fault = (\<lambda>_. None), wall = (\<lambda>_. None), mono = (\<lambda>_. 0), order = (\<lambda>_ xs. xs), modified = (\<lambda>_ _. None), fuel = 0\<rparr>"

lemma steady_no_faults: "no_faults steady_sys"
  by (simp add: no_faults_def steady_sys_def)

definition bare_fs :: fs where "bare_fs = \<lparr>files = [], tick = 0, renames = []\<rparr>"

lemma bare_fs_empty [simp]: "fget bare_fs n = None"
  by (simp add: fget_def bare_fs_def)

definition sample_env :: session_env where
  "sample_env = \<lparr>se_now = 0, se_host = sample_host, se_today = ''2026-01-31'', se_cutoff = ''2026-01-01'',
     se_label_date = ''20260131'', se_dir_exists = True, se_enc = enc_counters, se_pretty = enc_counters, se_dec = dec_counters\<rparr>"

lemma sample_day_after_cutoff: "''2026-01-01'' \<le> ''2026-01-31''"
  by code_simp

lemma sample_calls_ok: "is_slug slug \<Longrightarrow> call_ok enc_counters dec_counters {''2026-01-31''} (slug, sample_env)"
  using sample_day_after_cutoff by (simp add: call_ok_def sample_env_def ascii_valid)


section \<open>The state machine\<close>

definition game_key :: "target \<Rightarrow> nat \<times> nat option" where
  "game_key t = (tg_pid t, tg_steam_app_id t)"

fun poll_run ::
    "sys \<Rightarrow> session_env list \<Rightarrow> session_manager \<Rightarrow> 'z fs_scheme
      \<Rightarrow> (scan_panic, session_event list \<times> session_manager \<times> 'z fs_scheme) result" where
  "poll_run S [] s w = Ok ([], s, w)"
| "poll_run S (E # Es) s w =
     and_then (poll S E s w) (\<lambda>(e, s', w').
       and_then (poll_run S Es s' w') (\<lambda>(es, s'', w''). Ok (e # es, s'', w'')))"

text \<open>The abstract session: which game is running, and the events that may happen then.\<close>

inductive session_step :: "(nat \<times> nat option) option \<Rightarrow> session_event \<Rightarrow> (nat \<times> nat option) option \<Rightarrow> bool" where
  quiet: "session_step g NoChange g"
| started: "g \<noteq> Some (game_key t) \<Longrightarrow> session_step g (GameStarted t) (Some (game_key t))"
| ended: "session_step (Some (game_key t)) (GameEnded t) None"

inductive session_trace :: "(nat \<times> nat option) option \<Rightarrow> session_event list \<Rightarrow> (nat \<times> nat option) option \<Rightarrow> bool" where
  empty: "session_trace g [] g"
| step: "session_step g e g' \<Longrightarrow> session_trace g' es g'' \<Longrightarrow> session_trace g (e # es) g''"

abbreviation running :: "session_manager \<Rightarrow> (nat \<times> nat option) option" where
  "running s \<equiv> map_option game_key (sm_current_game s)"

lemma label_game_keeps:
  "sm_current_game (fst (label_game S E t s w)) = sm_current_game s"
  "sm_session_id (fst (label_game S E t s w)) = sm_session_id s"
  "sm_label_is_manual (fst (label_game S E t s w)) = sm_label_is_manual s"
  "sm_label_is_manual s \<Longrightarrow> fst (label_game S E t s w) = s"
  by (simp_all add: label_game_def Let_def case_prod_unfold)

lemma poll_detected_step: "poll_detected S E d s w = (e, s', w') \<Longrightarrow> session_step (running s) e (running s')"
proof (cases "sm_current_game s"; cases d)
  fix old t
  assume "poll_detected S E d s w = (e, s', w')" "sm_current_game s = Some old" "d = Some t"
  then show ?thesis
    using quiet [of "Some (game_key t)"] started [of "Some (game_key old)" t]
    by (cases "game_key old = game_key t") (auto simp: poll_detected_def game_key_def split: if_splits)
qed (auto simp: poll_detected_def case_prod_unfold Let_def intro: session_step.intros)

lemma poll_step: "poll S E s w = Ok (e, s', w') \<Longrightarrow> session_step (running s) e (running s')"
  using poll_detected_step [of S E _ "s\<lparr>sm_last_scan := Some (se_now E)\<rparr>" w e s' w']
  by (auto simp: poll_def and_then_eq_Inr quiet split: if_splits)

text \<open>C7: The events of any sequence of polls are a run of the abstract session: a game ends only after it started, a
  start is always the start of a game that is not the running one, and the manager's game is the one the events say.\<close>

theorem poll_run_refines:
  assumes "poll_run S Es s w = Ok (es, s', w')"
  shows "session_trace (running s) es (running s')"
  using assms
proof (induction S Es s w arbitrary: es s' w' rule: poll_run.induct)
  case (2 S E Es s w)
  from "2.prems" obtain e s1 w1 es1 where
    p: "poll S E s w = Ok (e, s1, w1)" "poll_run S Es s1 w1 = Ok (es1, s', w')" "es = e # es1"
    by (auto simp: and_then_eq_Inr case_prod_unfold)
  show ?case unfolding p(3) by (rule session_trace.step [OF poll_step [OF p(1)] "2.IH" [OF p(2)]])
qed (simp add: session_trace.empty)

lemma sample_target: "\<exists>t. scan_for_game sample_host = Ok (Some t)"
  using scan_for_steam_game_None [OF sample_host_procs(1)] sample_host_procs(2)
  by (cases "scan_for_steam_game sample_host") (auto simp: scan_for_game_def)

lemma poll_run_cases:
  assumes "\<And>E. E \<in> set Es \<Longrightarrow> \<exists>d. scan_for_game (se_host E) = Ok d"
  shows "\<exists>r. poll_run S Es s w = Ok r"
  using assms
proof (induction Es arbitrary: s w)
  case (Cons E Es)
  from Cons.prems [of E] obtain d where "scan_for_game (se_host E) = Ok d" by auto
  then have "\<exists>r. poll S E s w = Ok r" by (simp add: poll_def del: split_paired_Ex)
  then obtain e s1 w1 where p: "poll S E s w = Ok (e, s1, w1)" by auto
  moreover obtain es s2 w2 where "poll_run S Es s1 w1 = Ok (es, s2, w2)"
    using Cons.IH [of s1 w1] Cons.prems by (metis list.set_intros(2) prod.exhaust)
  ultimately show ?case by simp
qed simp

lemma sample_host_scans: "\<exists>d. scan_for_game (se_host sample_env) = Ok d"
  using sample_target by (auto simp: sample_env_def)

theorem poll_run_refines_witness:
  "\<exists>es s' w'. poll_run steady_sys [sample_env] (new_with_label_and_settings ''u'' ''t'' None None) bare_fs = Ok (es, s', w')
     \<and> session_trace None es (running s')"
proof -
  obtain es s' w' where r:
    "poll_run steady_sys [sample_env] (new_with_label_and_settings ''u'' ''t'' None None) bare_fs = Ok (es, s', w')"
    using poll_run_cases [of "[sample_env]" steady_sys "new_with_label_and_settings ''u'' ''t'' None None" bare_fs] sample_host_scans
    by (auto simp del: poll_run.simps)
  have "running (new_with_label_and_settings ''u'' ''t'' None None) = None" by (simp add: new_with_label_and_settings_def)
  with poll_run_refines [OF r] r show ?thesis by simp
qed

section \<open>The file the daemon watches\<close>

lemma tmp_not_session: "beside path (n @ ''.tmp'') \<noteq> session_json_path"
proof -
  obtain d where "beside path (n @ ''.tmp'') = d @ n @ ''.tmp''" using beside_suffix by blast
  then have "last (beside path (n @ ''.tmp'')) = CHR ''p''" by simp
  moreover have "last session_json_path = CHR ''n''" by (simp add: session_json_path_def)
  ultimately show ?thesis by auto
qed

lemma counters_not_session: "counter_file_path H \<noteq> session_json_path"
proof -
  obtain d where "counter_file_path H = d @ ''rigsignal/session-counters.json''"
    unfolding counter_file_path_def using path_join_suffix by blast
  then have "rev (counter_file_path H) ! 5 = CHR ''s''" by (simp add: nth_append)
  moreover have "rev session_json_path ! 5 = CHR ''n''" by (simp add: session_json_path_def)
  ultimately show ?thesis by auto
qed

lemma fs_write_file_other: "m \<noteq> n \<Longrightarrow> fget (snd (fs_write_file S n bs w)) m = fget w m"
  by (auto simp: fs_write_file_def io_bind_def fs_create_trunc_def fs_write_def append_file_def split: option.splits)

lemma open_counters_other: "m \<noteq> path \<Longrightarrow> fget (snd (open_counters S E path w)) m = fget w m"
  by (auto simp: open_counters_def io_bind_def fs_touch_def fs_open_create_def split: option.splits)

lemma store_counters_other:
  assumes "m \<noteq> path" "\<And>n. m \<noteq> beside path (n @ ''.tmp'')"
  shows "fget (store_counters S E path c w) m = fget w m"
proof -
  let ?t = "beside path ((case file_name path of Some n \<Rightarrow> n | None \<Rightarrow> []) @ ''.tmp'')"
  let ?r = "fs_write_file S ?t (se_pretty E (JObject c)) w"
  have 1: "fget (snd ?r) m = fget w m" using assms(2) by (simp add: fs_write_file_other)
  have 2: "fget (snd (fs_rename S ?t path v)) m = fget v m" for v :: "'a fs_scheme"
    using assms by (auto simp: fs_rename_def Let_def split: option.splits)
  show ?thesis using 1 2 by (cases ?r; cases "fst ?r") (auto simp: store_counters_def Let_def io_bind_def)
qed

lemma increment_counter_other:
  assumes "m \<noteq> path" "\<And>n. m \<noteq> beside path (n @ ''.tmp'')"
  shows "fget (snd (increment_counter_at S E slug path w)) m = fget w m"
  using open_counters_other [OF assms(1), of S E w]
  by (cases "open_counters S E path w"; cases "fst (open_counters S E path w)")
    (auto simp: increment_counter_at_def read_counters_def Let_def case_prod_unfold store_counters_other [OF assms])

lemma label_game_session: "fget (snd (label_game S E t s w)) session_json_path = fget w session_json_path"
  using increment_counter_other [of session_json_path "counter_file_path (se_host E)" S E _ w] counters_not_session [of "se_host E"]
    tmp_not_session [of "counter_file_path (se_host E)"]
  by (simp add: label_game_def Let_def case_prod_unfold increment_session_counter_def not_sym)

lemma write_session_json_ok:
  "no_faults S \<Longrightarrow> fget (snd (write_session_json S E s t w)) session_json_path = Some (se_enc E (session_json_doc s t))"
  by (simp add: write_session_json_def io_bind_def fs_touch_def fs_write_file_def fs_create_trunc_def fs_write_def
      append_file_def no_faults_def)

lemma remove_session_json_ok: "no_faults S \<Longrightarrow> fget (remove_session_json S w) session_json_path = None"
  by (auto simp: remove_session_json_def fs_remove_def no_faults_def)

text \<open>What the file holds: the target as it was when its start was reported.\<close>

fun last_started :: "target option \<Rightarrow> session_event list \<Rightarrow> target option" where
  "last_started t [] = t"
| "last_started t (NoChange # es) = last_started t es"
| "last_started t (GameStarted u # es) = last_started (Some u) es"
| "last_started t (GameEnded u # es) = last_started None es"

definition session_file_is :: "(json \<Rightarrow> string) \<Rightarrow> session_manager \<Rightarrow> target option \<Rightarrow> 'z fs_scheme \<Rightarrow> bool" where
  "session_file_is enc s t w \<longleftrightarrow> fget w session_json_path = map_option (\<lambda>u. enc (session_json_doc s u)) t"

lemma session_json_doc_cong: "sm_session_id s = sm_session_id s' \<Longrightarrow> session_json_doc s t = session_json_doc s' t"
  by (simp add: session_json_doc_def)

lemma poll_detected_file:
  assumes "no_faults S" "se_enc E = enc" "session_file_is enc s t w" "poll_detected S E d s w = (e, s', w')"
  shows "session_file_is enc s' (last_started t [e]) w' \<and> sm_session_id s' = sm_session_id s"
proof -
  have doc: "session_json_doc (s\<lparr>sm_current_game := g\<rparr>) u = session_json_doc s u"
    "session_json_doc (s\<lparr>sm_last_no_game_log := l\<rparr>) u = session_json_doc s u"
    "session_json_doc ((fst (label_game S E v s w))\<lparr>sm_current_game := g, sm_last_no_game_log := l\<rparr>) u
       = session_json_doc (fst (label_game S E v s w)) u" for g l u v
    by (rule session_json_doc_cong; simp)+
  show ?thesis
    using assms
    by (cases "sm_current_game s"; cases d)
      (auto simp: poll_detected_def session_file_is_def Let_def case_prod_unfold doc write_session_json_ok
        remove_session_json_ok label_game_keeps split: if_splits)
qed

lemma poll_file:
  assumes "no_faults S" "se_enc E = enc" "session_file_is enc s t w" "poll S E s w = Ok (e, s', w')"
  shows "session_file_is enc s' (last_started t [e]) w' \<and> sm_session_id s' = sm_session_id s"
proof -
  have "session_file_is enc (s\<lparr>sm_last_scan := l\<rparr>) t w" for l
    using assms(3) session_json_doc_cong [of "s\<lparr>sm_last_scan := l\<rparr>" s] by (simp add: session_file_is_def)
  with assms poll_detected_file [OF assms(1,2), of "s\<lparr>sm_last_scan := Some (se_now E)\<rparr>" t w _ e s' w']
  show ?thesis by (auto simp: poll_def and_then_eq_Inr split: if_splits)
qed

lemma last_started_Cons: "last_started t (e # es) = last_started (last_started t [e]) es"
  by (cases e) simp_all

text \<open>C32: On a disk without errors the session file is there exactly while a game runs, and it describes the game with
  the process list it had when its start was reported: a list that grew later is not written.\<close>

theorem session_file_follows_events:
  assumes "no_faults S" "\<And>E. E \<in> set Es \<Longrightarrow> se_enc E = enc" "poll_run S Es s w = Ok (es, s', w')"
    "sm_current_game s = None" "fget w session_json_path = None"
  shows "fget w' session_json_path = map_option (\<lambda>t. enc (session_json_doc s' t)) (last_started None es)"
proof -
  have "session_file_is enc s' (last_started t es) w'" if "session_file_is enc s t w" for t
    using assms(2,3) that
  proof (induction Es arbitrary: s w es t)
    case (Cons E Es)
    from Cons.prems obtain e s1 w1 es1 where
      p: "poll S E s w = Ok (e, s1, w1)" "poll_run S Es s1 w1 = Ok (es1, s', w')" "es = e # es1"
      by (auto simp: and_then_eq_Inr case_prod_unfold)
    have "session_file_is enc s1 (last_started t [e]) w1"
      using poll_file [OF assms(1) _ Cons.prems(3) p(1)] Cons.prems(1) by simp
    with Cons.IH [OF _ p(2)] Cons.prems(1) have "session_file_is enc s' (last_started (last_started t [e]) es1) w'" by simp
    then show ?case using last_started_Cons [of t e es1] p(3) by metis
  qed simp
  from this [of None] assms(5) show ?thesis by (simp add: session_file_is_def)
qed

theorem session_file_follows_events_witness:
  "\<exists>es s' w'. poll_run steady_sys [sample_env] (new_with_label_and_settings ''u'' ''t'' None None) bare_fs = Ok (es, s', w')
     \<and> fget w' session_json_path = map_option (\<lambda>t. enc_counters (session_json_doc s' t)) (last_started None es)"
proof -
  obtain es s' w' where r:
    "poll_run steady_sys [sample_env] (new_with_label_and_settings ''u'' ''t'' None None) bare_fs = Ok (es, s', w')"
    using poll_run_cases [of "[sample_env]" steady_sys "new_with_label_and_settings ''u'' ''t'' None None" bare_fs] sample_host_scans
    by (auto simp del: poll_run.simps)
  have "se_enc E = enc_counters" if "E \<in> set [sample_env]" for E using that by (simp add: sample_env_def)
  moreover have "sm_current_game (new_with_label_and_settings ''u'' ''t'' None None) = None"
    by (simp add: new_with_label_and_settings_def)
  ultimately show ?thesis using session_file_follows_events [OF steady_no_faults _ r _ bare_fs_empty] r by blast
qed

text \<open>The daemon reads the agent's file only when it has no runtime directory, or one that is \<open>/tmp\<close>.\<close>

theorem session_file_path_agrees_iff:
  "session_file_path var = session_json_path \<longleftrightarrow>
     (case var ''XDG_RUNTIME_DIR'' of None \<Rightarrow> True | Some d \<Rightarrow> d = ''/tmp'' \<or> d = ''/tmp/'')"
proof -
  have app: "d @ ''rigsignal/session.json'' = ''/tmp/rigsignal/session.json'' \<longleftrightarrow> d = ''/tmp/''" for d
    using append_same_eq [of d "''rigsignal/session.json''" "''/tmp/''"] by simp
  have app': "d @ ''/rigsignal/session.json'' = ''/tmp/rigsignal/session.json'' \<longleftrightarrow> d = ''/tmp''" for d
    using append_same_eq [of d "''/rigsignal/session.json''" "''/tmp''"] by simp
  have "path_join d ''rigsignal/session.json'' = ''/tmp/rigsignal/session.json'' \<longleftrightarrow> d = ''/tmp'' \<or> d = ''/tmp/''" for d
    using app [of d] app' [of d] by (auto simp: path_join_def)
  then show ?thesis by (simp add: session_file_path_def session_json_path_def split: option.split)
qed

section \<open>Labels over time\<close>

lemma poll_detected_manual:
  "sm_label_is_manual s \<Longrightarrow> poll_detected S E d s w = (e, s', w') \<Longrightarrow>
     sm_label_is_manual s' \<and> sm_label s' = sm_label s \<and> sm_label_source s' = sm_label_source s \<and> sm_sequence_number s' = sm_sequence_number s"
  by (cases "sm_current_game s"; cases d)
    (auto simp: poll_detected_def label_game_keeps Let_def case_prod_unfold split: if_splits)

text \<open>When one game takes the place of another between two polls, its start is reported and every document names the
  new game, but the automatic label and the sequence number stay those of the old one; only a start from idle
  gives the label of the new game.\<close>

theorem label_on_start:
  assumes "poll_detected S E (Some t) s w = (GameStarted t, s', w')" "\<not> sm_label_is_manual s"
  shows "if sm_current_game s = None
    then \<exists>n. sm_sequence_number s' = Some n
       \<and> sm_label s' = Some (auto_label_game_n (se_label_date E) (slug_from_game_name (hv_lower (se_host E)) (tg_display_name t)) n)
    else sm_label s' = sm_label s \<and> sm_sequence_number s' = sm_sequence_number s \<and> sm_current_game s' = Some t"
  using assms by (auto simp: poll_detected_def label_game_def Let_def case_prod_unfold split: option.splits if_splits)

text \<open>A second game while the first is on record.\<close>

definition game_at :: "nat \<Rightarrow> target" where
  "game_at p = from_steam ''Game'' 7 p [p] None None None"

theorem label_on_start_witness:
  "\<exists>s' w'. poll_detected steady_sys sample_env (Some (game_at 2))
       ((new_with_label_and_settings ''u'' ''t'' None None)\<lparr>sm_current_game := Some (game_at 1)\<rparr>) bare_fs = (GameStarted (game_at 2), s', w')
     \<and> sm_label s' = Some ''idle-t'' \<and> sm_sequence_number s' = None \<and> sm_current_game s' = Some (game_at 2)"
proof -
  let ?s = "(new_with_label_and_settings ''u'' ''t'' None None)\<lparr>sm_current_game := Some (game_at 1)\<rparr>"
  obtain s' w' where p: "poll_detected steady_sys sample_env (Some (game_at 2)) ?s bare_fs = (GameStarted (game_at 2), s', w')"
    by (simp add: poll_detected_def game_at_def from_steam_def)
  then show ?thesis
    using label_on_start [OF p] by (simp add: new_with_label_and_settings_def auto_label_idle_def)
qed

end
