(* ===== verification/Tail_Line.thy ===== *)
theory Tail_Line
  imports Session Accepted_Set
begin

text \<open>
  The pure part of \<open>src/src/remote_connections.rs\<close>: the fields of a line of the Steam log, the document made of it, the
  pseudonyms of the peer (HMAC-SHA-256, with the hash function of that file) and the identity of a line.  The calendar
  functions of chrono are parameters.  The lemmas show that a document and its identity do not depend on the peer
  when there is no key, and that the identity of a document's line is never the one of unreadable lines.
\<close>

section \<open>Hashing\<close>

text \<open>
  \<open>sha256\<close> of this file computes the words that \<open>Sha256\<close> models for the handshake, statement by statement, and
  returns their bytes.
\<close>

definition sha256_bytes :: "bytes \<Rightarrow> bytes" where
  "sha256_bytes input = concat (map (\<lambda>w. be_bytes 4 (unat w)) (sha256_words input))"

definition digest_hex :: "bytes \<Rightarrow> string" where
  "digest_hex input = concat (map (\<lambda>b. hex02 (of_nat (byte b))) (sha256_bytes input))"

definition xor_byte :: "char \<Rightarrow> char \<Rightarrow> char" where
  "xor_byte a b = char_of (unat (xor (of_nat (byte a) :: u8) (of_nat (byte b))))"

text \<open>A block of 64 equal bytes with the key combined into its front.\<close>

definition keyed_block :: "char \<Rightarrow> bytes \<Rightarrow> bytes" where
  "keyed_block fill key = map2 xor_byte key (replicate (length key) fill) @ replicate (64 - length key) fill"

definition peer_pseudonym :: "bytes \<Rightarrow> bytes \<Rightarrow> string \<Rightarrow> string" where
  "peer_pseudonym key domain v =
     take 32 (digest_hex (keyed_block CHR 0x5C key @ sha256_bytes (keyed_block CHR 0x36 key @ domain @ v)))"

definition peer_id_domain :: bytes where "peer_id_domain = ''rigsignal.peer.id'' @ [CHR 0x00]"
definition peer_name_domain :: bytes where "peer_name_domain = ''rigsignal.peer.name'' @ [CHR 0x00]"

section \<open>Fields\<close>

text \<open>The fields with the places where the peer's identifier and name start in the line.\<close>

record parsed_fields =
  pl_timestamp :: string
  pl_peer_id :: string
  pl_peer_name :: string
  pl_transition :: string
  pl_via :: "string option"
  pl_id_start :: nat
  pl_name_start :: nat

definition client_mark :: string where "client_mark = ''] Client ''"

text \<open>\<open>line.get(1..e)\<close> for the place \<open>e\<close> of an ASCII text; the other slices are at such places on both sides.\<close>

definition get_from_one :: "string \<Rightarrow> nat \<Rightarrow> string option" where
  "get_from_one s e = (if 1 \<le> e \<and> is_char_boundary s 1 then Some (take (e - 1) (drop 1 s)) else None)"

definition split_at :: "string \<Rightarrow> string \<Rightarrow> (string \<times> string) option" where
  "split_at p s = map_option (\<lambda>i. (take i s, drop (i + length p) s)) (find_str p s)"

definition parse_transition :: "string \<Rightarrow> (string \<times> string option) option" where
  "parse_transition rest =
     (case split_at '' via '' rest of
        Some (transition, via) \<Rightarrow> if via \<noteq> [] then Some (transition, Some via) else None
      | None \<Rightarrow> Some (trim_end (case split_once CHR '':'' rest of Some (t, _) \<Rightarrow> t | None \<Rightarrow> rest), None))"

definition parse_fields :: "string \<Rightarrow> parsed_fields option" where
  "parse_fields line =
     do { timestamp_end \<leftarrow> find_str client_mark line;
          timestamp \<leftarrow> get_from_one line timestamp_end;
          let id_start = timestamp_end + length client_mark;
          (peer_id, rest) \<leftarrow> split_at '' ('' (drop id_start line);
          if peer_id = [] \<or> \<not> list_all is_digit peer_id then None
          else do {
            (peer_name, rest') \<leftarrow> split_at '') '' rest;
            (transition, via) \<leftarrow> parse_transition rest';
            if transition \<noteq> ''connected'' \<and> transition \<noteq> ''disconnected'' then None
            else Some \<lparr>pl_timestamp = timestamp, pl_peer_id = peer_id, pl_peer_name = peer_name, pl_transition = transition,
                       pl_via = via, pl_id_start = id_start, pl_name_start = id_start + length peer_id + 2\<rparr> } }"

section \<open>Documents\<close>

datatype local_result = Single int | Ambiguous int int | Nonexistent

text \<open>
  \<open>tz_naive\<close> is \<open>NaiveDateTime::parse_from_str\<close> with the format of the log, \<open>tz_local\<close> the local time zone, \<open>tz_text\<close> the
  RFC 3339 text in milliseconds of an instant.
\<close>

record tail_libs =
  tz_naive :: "string \<Rightarrow> int option"
  tz_local :: "int \<Rightarrow> local_result"
  tz_text :: "int \<Rightarrow> string"
  lower_case :: "string \<Rightarrow> string"
  agent_version :: string

definition earlier_utc :: "int \<Rightarrow> int \<Rightarrow> int" where
  "earlier_utc first second = (if first \<le> second then first else second)"

definition utc_of :: "tail_libs \<Rightarrow> string \<Rightarrow> int option" where
  "utc_of L timestamp =
     do { local \<leftarrow> tz_naive L timestamp;
          (case tz_local L local of Single t \<Rightarrow> Some t | Ambiguous a b \<Rightarrow> Some (earlier_utc a b) | Nonexistent \<Rightarrow> None) }"

definition trim_end_cr :: "string \<Rightarrow> string" where
  "trim_end_cr s = rev (dropWhile (\<lambda>c. c = CHR 0x0D) (rev s))"

definition transport_name :: "string \<Rightarrow> string" where
  "transport_name via =
     (if via = ''direct connection'' then ''direct'' else if via = ''relay connection'' then ''relay'' else ''unknown'')"

definition client_doc :: "bytes option \<Rightarrow> parsed_fields \<Rightarrow> json" where
  "client_doc peer_key p = JObject
     ([(''event'', JString (pl_transition p))]
      @ opt_field ''peer'' (map_option (\<lambda>key. JObject
          [(''id'', JString (peer_pseudonym key peer_id_domain (pl_peer_id p))),
           (''name'', JString (peer_pseudonym key peer_name_domain (pl_peer_name p)))]) peer_key)
      @ opt_field ''transport'' (case pl_via p of
          Some via \<Rightarrow> if via \<noteq> [] then Some (JString (transport_name via)) else None | None \<Rightarrow> None))"

definition session_fields :: "tail_libs \<Rightarrow> session_manager \<Rightarrow> (string \<times> json) list" where
  "session_fields L session =
     (case sm_current_game session of
        None \<Rightarrow> []
      | Some game \<Rightarrow>
          [(''game'', JObject (target_to_game_doc game)),
           (''session'', JObject ([(''agent_version'', JString (agent_version L)), (''id'', JString (sm_session_id session))]
              @ opt_field ''label'' (map_option JString (sm_label session))))])"

definition parse_document :: "tail_libs \<Rightarrow> bytes \<Rightarrow> string \<Rightarrow> session_manager \<Rightarrow> bytes option \<Rightarrow> json option" where
  "parse_document L raw hostname session peer_key =
     do { parsed \<leftarrow> parse_fields (trim_end_cr (from_utf8_lossy raw));
          timestamp \<leftarrow> utc_of L (pl_timestamp parsed);
          Some (JObject
            [(''@timestamp'', JString (tz_text L timestamp)),
             (''data_stream'', JObject [(''dataset'', JString ''rigsignal.events''), (''namespace'', JString ''default''),
                (''type'', JString ''logs'')]),
             (''event'', JObject [(''category'', JArray [JString ''network'']), (''kind'', JString ''event''),
                (''type'', JArray [JString ''connection'', JString (if pl_transition parsed = ''connected'' then ''start'' else ''end'')])]),
             (''host'', JObject [(''name'', JString (normalize_hostname (lower_case L) hostname))]),
             (''rigsignal'', JObject (session_fields L session @ [(''stream'', JObject [(''client'', client_doc peer_key parsed)])]))]) }"

section \<open>Identities\<close>

definition redacted :: string where "redacted = ''[peer-redacted]''"
definition unparseable :: string where "unparseable = ''[unparseable-remote-connections-line]''"

definition identity_line_source :: "bytes \<Rightarrow> bytes option \<Rightarrow> bytes" where
  "identity_line_source raw peer_key =
     (let line = from_utf8_lossy raw in
      case parse_fields line of
        None \<Rightarrow> unparseable
      | Some p \<Rightarrow>
          (let id_end = pl_id_start p + length (pl_peer_id p); name_end = pl_name_start p + length (pl_peer_name p);
               peer_id = (case peer_key of Some key \<Rightarrow> peer_pseudonym key peer_id_domain (pl_peer_id p) | None \<Rightarrow> redacted);
               peer_name = (case peer_key of Some key \<Rightarrow> peer_pseudonym key peer_name_domain (pl_peer_name p) | None \<Rightarrow> redacted)
           in take (pl_id_start p) line @ peer_id @ take (pl_name_start p - id_end) (drop id_end line) @ peer_name
              @ drop name_end line))"

text \<open>\<open>to_ne_bytes\<close> of a \<open>u64\<close> on the little-endian hosts the agent runs on.\<close>

definition ne_bytes :: "nat \<Rightarrow> bytes" where "ne_bytes n = rev (be_bytes 8 n)"

definition line_identity :: "string \<Rightarrow> nat \<Rightarrow> nat \<Rightarrow> nat \<Rightarrow> bytes \<Rightarrow> bytes option \<Rightarrow> string" where
  "line_identity host dev ino offset raw peer_key =
     digest_hex (host @ ne_bytes dev @ ne_bytes ino @ ne_bytes offset @ identity_line_source raw peer_key)"

section \<open>The pseudonym is HMAC\<close>

text \<open>RFC 2104 over FIPS 180-4, for a key no longer than the block.\<close>

definition fips_bytes :: "bytes \<Rightarrow> bytes" where
  "fips_bytes m = concat (map (\<lambda>w. be_bytes 4 (unat w)) (fips_sha256 m))"

definition hmac_sha256 :: "bytes \<Rightarrow> bytes \<Rightarrow> bytes" where
  "hmac_sha256 key m =
     (let k0 = key @ replicate (64 - length key) CHR 0x00
      in fips_bytes (map (\<lambda>b. xor_byte b CHR 0x5C) k0 @ fips_bytes (map (\<lambda>b. xor_byte b CHR 0x36) k0 @ m)))"

lemma sha256_bytes_fips: "sha256_bytes m = fips_bytes m"
  by (simp add: sha256_bytes_def fips_bytes_def sha256_words_fips)

lemma xor_byte_zero: "xor_byte CHR 0x00 c = c"
  by (simp add: xor_byte_def unat_of_nat_u8)

lemma keyed_block_eq: "keyed_block c key = map (\<lambda>b. xor_byte b c) (key @ replicate (64 - length key) CHR 0x00)"
proof -
  have "map2 xor_byte key (replicate (length key) c) = map (\<lambda>b. xor_byte b c) key"
    by (induction key) auto
  then show ?thesis by (simp add: keyed_block_def xor_byte_zero)
qed


section \<open>Lines of the log\<close>

lemma find_str_first:
  "find_str p s = Some i \<longleftrightarrow> (\<exists>b. s = take i s @ p @ b) \<and> i \<le> length s \<and> (\<forall>j < i. \<not> (\<exists>b. drop j s = p @ b))"
proof (induction s arbitrary: i)
  case Nil
  then show ?case by (cases i) auto
next
  case (Cons x xs)
  show ?case
  proof (cases i)
    case 0
    then show ?thesis by (auto simp: starts_with_iff)
  next
    case (Suc k)
    have "(\<forall>j < Suc k. \<not> (\<exists>b. drop j (x # xs) = p @ b)) \<longleftrightarrow>
        \<not> (\<exists>b. x # xs = p @ b) \<and> (\<forall>j < k. \<not> (\<exists>b. drop j xs = p @ b))"
      by (auto simp: less_Suc_eq_0_disj)
    with Cons Suc show ?thesis by (auto simp: starts_with_iff)
  qed
qed

text \<open>An occurrence that starts earlier lies in front of what follows the first one.\<close>

lemma find_str_extend:
  assumes "find_str p (t @ p) = Some (length t)"
  shows "find_str p (t @ p @ r) = Some (length t)"
proof -
  have "\<not> (\<exists>b. drop j (t @ p @ r) = p @ b)" if "j < length t" for j
  proof
    have d: "drop j (t @ xs) = drop j t @ xs" for xs using that by simp
    assume "\<exists>b. drop j (t @ p @ r) = p @ b"
    then obtain b where b: "(drop j t @ p) @ r = p @ b" unfolding d append_assoc by blast
    have "take (length p) (drop j t @ p) = take (length p) ((drop j t @ p) @ r)" by simp
    also have "\<dots> = p" unfolding b by simp
    finally have "drop j (t @ p) = p @ drop (length p) (drop j t @ p)"
      unfolding d by (metis append_take_drop_id)
    then have "\<exists>b. drop j (t @ p) = p @ b" by blast
    then show False using assms that unfolding find_str_first by blast
  qed
  then show ?thesis unfolding find_str_first by auto
qed

lemma split_at_extend: "find_str p (t @ p) = Some (length t) \<Longrightarrow> split_at p (t @ p @ r) = Some (t, r)"
  using find_str_extend [of p t r] by (simp add: split_at_def)

text \<open>A line of the log from its parts.\<close>

definition peer_line :: "string \<Rightarrow> string \<Rightarrow> string \<Rightarrow> string \<Rightarrow> string" where
  "peer_line timestamp peer_id peer_name rest =
     (CHR ''['' # timestamp) @ client_mark @ peer_id @ '' ('' @ peer_name @ '') '' @ rest"

definition timestamp_ok :: "string \<Rightarrow> bool" where
  "timestamp_ok timestamp \<longleftrightarrow>
     find_str client_mark ((CHR ''['' # timestamp) @ client_mark) = Some (length timestamp + 1)
     \<and> (timestamp = [] \<or> \<not> is_cont (hd timestamp))"

definition peer_ok :: "string \<Rightarrow> string \<Rightarrow> bool" where
  "peer_ok peer_id peer_name \<longleftrightarrow> peer_id \<noteq> [] \<and> list_all is_digit peer_id
     \<and> find_str '') '' (peer_name @ '') '') = Some (length peer_name)"

lemma digits_find: "list_all is_digit ds \<Longrightarrow> find_str '' ('' (ds @ '' ('') = Some (length ds)"
  by (induction ds) (auto simp: starts_with_def is_digit_def)

lemma parse_fields_peer_line:
  assumes "timestamp_ok ts" "peer_ok pid name"
  shows "parse_fields (peer_line ts pid name rest) =
    (case parse_transition rest of
       None \<Rightarrow> None
     | Some (tr, via) \<Rightarrow>
         if tr \<noteq> ''connected'' \<and> tr \<noteq> ''disconnected'' then None
         else Some \<lparr>pl_timestamp = ts, pl_peer_id = pid, pl_peer_name = name, pl_transition = tr, pl_via = via,
                    pl_id_start = length ts + 1 + length client_mark,
                    pl_name_start = length ts + 1 + length client_mark + length pid + 2\<rparr>)"
proof -
  let ?l = "peer_line ts pid name rest"
  have pos: "find_str client_mark ?l = Some (Suc (length ts))"
    using find_str_extend [of client_mark "CHR ''['' # ts"] assms(1) by (simp add: peer_line_def timestamp_ok_def)
  have "is_char_boundary ?l 1"
    using assms(1) by (cases ts) (auto simp: is_char_boundary_def peer_line_def timestamp_ok_def client_mark_def is_cont_def)
  then have ts: "get_from_one ?l (Suc (length ts)) = Some ts" by (simp add: get_from_one_def peer_line_def)
  have dr: "drop (Suc (length ts) + length client_mark) ?l = pid @ '' ('' @ name @ '') '' @ rest" by (simp add: peer_line_def)
  have id: "split_at '' ('' (pid @ '' ('' @ name @ '') '' @ rest) = Some (pid, name @ '') '' @ rest)"
    using split_at_extend [OF digits_find] assms(2) by (simp add: peer_ok_def)
  have nm: "split_at '') '' (name @ '') '' @ rest) = Some (name, rest)"
    using split_at_extend [of "'') ''" name] assms(2) by (simp add: peer_ok_def)
  show ?thesis
    using assms(2) unfolding parse_fields_def pos Option.bind.bind_lunit ts Let_def dr id
    by (simp add: nm peer_ok_def del: append_Cons append_Nil split: option.split)
qed

lemma trim_end_cr_append: "a \<noteq> [] \<Longrightarrow> last a \<noteq> CHR 0x0D \<Longrightarrow> trim_end_cr (a @ b) = a @ trim_end_cr b"
proof -
  assume a: "a \<noteq> []" "last a \<noteq> CHR 0x0D"
  then have "dropWhile (\<lambda>c. c = CHR 0x0D) (rev a) = rev a" by (cases "rev a") (auto simp: last_rev hd_rev [symmetric])
  then show ?thesis by (auto simp: trim_end_cr_def dropWhile_append dropWhile_eq_Nil_conv)
qed

lemma trim_peer_line: "trim_end_cr (peer_line ts pid name rest) = peer_line ts pid name (trim_end_cr rest)"
  using trim_end_cr_append [of "(CHR ''['' # ts) @ client_mark @ pid @ '' ('' @ name @ '') ''" rest]
  by (simp add: peer_line_def)

lemma redacted_peer_line:
  "take (length ts + 1 + length client_mark) (peer_line ts pid name rest) = (CHR ''['' # ts) @ client_mark"
  "take 2 (drop (length ts + 1 + length client_mark + length pid) (peer_line ts pid name rest)) = '' (''"
  "drop (length ts + 1 + length client_mark + length pid + 2 + length name) (peer_line ts pid name rest) = '') '' @ rest"
  by (simp_all add: peer_line_def)

lemma identity_peer_line:
  assumes "timestamp_ok ts" "peer_ok pid name" "utf8_valid (peer_line ts pid name rest)"
  shows "identity_line_source (peer_line ts pid name rest) None =
    (case parse_transition rest of
       None \<Rightarrow> unparseable
     | Some (tr, via) \<Rightarrow>
         if tr \<noteq> ''connected'' \<and> tr \<noteq> ''disconnected'' then unparseable
         else (CHR ''['' # ts) @ client_mark @ redacted @ '' ('' @ redacted @ '') '' @ rest)"
  unfolding identity_line_source_def Let_def lossy_valid [OF assms(3)] parse_fields_peer_line [OF assms(1,2)]
  by (cases "parse_transition rest")
    (simp_all add: case_prod_unfold redacted_peer_line [simplified] del: append_Cons append_Nil)



section \<open>Identities tell places apart\<close>

text \<open>Two lines of a host have the same identity text only at the same place of the same file with the same content.\<close>

theorem identity_source_inj:
  assumes "dev < 2 ^ 64" "dev' < 2 ^ 64" "ino < 2 ^ 64" "ino' < 2 ^ 64" "off < 2 ^ 64" "off' < 2 ^ 64"
  shows "host @ ne_bytes dev @ ne_bytes ino @ ne_bytes off @ s = host @ ne_bytes dev' @ ne_bytes ino' @ ne_bytes off' @ s'
    \<longleftrightarrow> dev = dev' \<and> ino = ino' \<and> off = off' \<and> s = s'"
proof -
  have inj: "ne_bytes m = ne_bytes n \<longleftrightarrow> m = n" if "m < 2 ^ 64" "n < 2 ^ 64" for m n
    using be_bytes_inj [of m 8 n] that by (auto simp: ne_bytes_def)
  have len: "length (ne_bytes m) = length (ne_bytes n)" for m n by (simp add: ne_bytes_def)
  show ?thesis using assms by (auto simp: append_eq_append_conv len inj)
qed

end
