(* ===== verification/Remote_Tail.thy ===== *)
theory Remote_Tail
  imports Tail_Line Atomic_Store
begin

text \<open>
  Model of the durable tailer of the Steam connection log, \<open>src/src/remote_connections.rs\<close>: the checkpoint and its
  file, the batches, acknowledgement and release, rotation, and the key of the pseudonyms.  The log is seen through a
  \<open>log_world\<close> per round of \<open>poll\<close>: what the calls on it answer, with nothing assumed of how the answers fit together.  A poll
  takes the worlds of its rounds as a list and has no result when they run out.  The checkpoint file lives in the
  \<open>fs\<close> of \<open>File_System\<close>, where every call can fail.  An \<open>expect\<close> that does not hold is the error \<open>TailPanic\<close>.
\<close>

section \<open>Data\<close>

record tail_token =
  tt_dev :: nat
  tt_ino :: nat
  tt_start :: nat
  tt_end :: nat

record event_envelope =
  ev_document :: json
  ev_id :: string
  ev_token :: tail_token

record tail_state =
  ts_path :: string
  ts_dev :: nat
  ts_ino :: nat
  ts_offset :: nat

record tailer =
  tr_log_path :: string
  tr_state_path :: string
  tr_hostname :: string
  tr_peer_key :: "bytes option"
  tr_state :: "tail_state option"
  tr_inflight :: "tail_token option"
  tr_oversize_warned :: bool

record generation =
  gn_path :: string
  gn_dev :: nat
  gn_ino :: nat
  gn_len :: nat

datatype tail_error = StatFailed | DirFailed | LogReadFailed | StateReadFailed | StateParseFailed | StateAbsent | NoParent
  | PersistFailed | NoInflight | OutOfOrder | GenerationMismatch | TailPanic

definition max_line_bytes :: nat where "max_line_bytes = 64 * 1024"
definition max_batch_lines :: nat where "max_batch_lines = 100"
definition max_batch_bytes :: nat where "max_batch_bytes = 256 * 1024"

text \<open>
  \<open>lw_stat\<close>: whether the path is a regular file, its device, inode and length; \<open>Ok None\<close> when there is nothing.
  \<open>lw_dir\<close>: the entries of a directory with their names and whether they are files.  \<open>lw_read\<close>: the bytes that open, seek
  and one read give.
\<close>

record log_world =
  lw_stat :: "string \<Rightarrow> (unit, (bool \<times> nat \<times> nat \<times> nat) option) result"
  lw_dir :: "string \<Rightarrow> (unit, (unit, string \<times> (unit, bool) result) result list) result"
  lw_read :: "string \<Rightarrow> nat \<Rightarrow> (unit, bytes) result"

text \<open>The libraries, with the writer and the reader of the checkpoint and the process identifier.\<close>

record tail_env = tail_libs +
  te_enc :: "tail_state \<Rightarrow> bytes"
  te_dec :: "bytes \<Rightarrow> tail_state option"
  te_pid :: nat

type_synonym 'z tail_world = "tailer \<times> 'z fs_scheme"

section \<open>The checkpoint file\<close>

definition tail_tmp :: "string \<Rightarrow> nat \<Rightarrow> string" where
  "tail_tmp dir pid = path_join dir (''.stream-client-tail-'' @ show_nat pid @ ''.tmp'')"

text \<open>Permissions cannot be set on the empty path.\<close>

definition persist_state :: "sys \<Rightarrow> tail_env \<Rightarrow> string \<Rightarrow> tail_state \<Rightarrow> 'z fs_scheme \<Rightarrow> (tail_error, unit) result \<times> 'z fs_scheme" where
  "persist_state S T path s =
     (case parent_dir path of
        None \<Rightarrow> (\<lambda>w. (Err NoParent, w))
      | Some dir \<Rightarrow>
          (let tmp = tail_tmp dir (te_pid T) in
           with_err PersistFailed
             (io_bind (fs_touch S) (\<lambda>_.
              io_bind (if dir = [] then io_fail IoError else fs_touch S) (\<lambda>_.
              io_bind (fs_create_trunc S tmp) (\<lambda>_.
              io_bind (fs_write S tmp (te_enc T s)) (\<lambda>_.
              io_bind (fs_touch S) (\<lambda>_.
              io_bind (fs_touch S) (\<lambda>_.
              io_bind (fs_rename S tmp path) (\<lambda>_.
              io_bind (fs_touch S) (\<lambda>_. fs_touch S)))))))))))"

definition persist :: "sys \<Rightarrow> tail_env \<Rightarrow> tailer \<Rightarrow> 'z fs_scheme \<Rightarrow> (tail_error, unit) result \<times> 'z fs_scheme" where
  "persist S T r w =
     (case tr_state r of None \<Rightarrow> (Err StateAbsent, w) | Some s \<Rightarrow> persist_state S T (tr_state_path r) s w)"

text \<open>\<open>self.state = Some(s); self.persist()?\<close>: the state in memory changes whatever the outcome.\<close>

definition store_state :: "sys \<Rightarrow> tail_env \<Rightarrow> tail_state \<Rightarrow> 'z tail_world \<Rightarrow> (tail_error, unit) result \<times> 'z tail_world" where
  "store_state S T s = (\<lambda>(r, w).
     let r' = r\<lparr>tr_state := Some s\<rparr>; (res, w') = persist S T r' w in (res, (r', w')))"

definition with_paths_and_key ::
    "sys \<Rightarrow> tail_env \<Rightarrow> string \<Rightarrow> string \<Rightarrow> string \<Rightarrow> bytes option \<Rightarrow> 'z fs_scheme \<Rightarrow> (tail_error, tailer) result \<times> 'z fs_scheme" where
  "with_paths_and_key S T hostname log_path state_path peer_key w =
     (let tailer = (\<lambda>st. \<lparr>tr_log_path = log_path, tr_state_path = state_path, tr_hostname = hostname, tr_peer_key = peer_key,
                         tr_state = st, tr_inflight = None, tr_oversize_warned = False\<rparr>)
      in case fs_open S state_path w of
           (Inr c, w') \<Rightarrow> (case te_dec T c of Some st \<Rightarrow> Ok (tailer (Some st)) | None \<Rightarrow> Err StateParseFailed, w')
         | (Inl e, w') \<Rightarrow> (if e = NotFound then Ok (tailer None) else Err StateReadFailed, w'))"

definition tail_state_path :: "(string \<Rightarrow> string option) \<Rightarrow> string option \<Rightarrow> string" where
  "tail_state_path var home =
     (case var ''XDG_STATE_HOME'' of
        Some state_home \<Rightarrow> path_join state_home ''rigsignal/stream-client-tail.json''
      | None \<Rightarrow> (case home of
                  Some h \<Rightarrow> path_join h ''.local/state/rigsignal/stream-client-tail.json''
                | None \<Rightarrow> ''/var/lib/rigsignal/stream-client-tail.json''))"

definition remote_log_path :: "string option \<Rightarrow> string" where
  "remote_log_path home =
     (case home of
        Some h \<Rightarrow> path_join h ''.local/share/Steam/logs/remote_connections.txt''
      | None \<Rightarrow> ''/var/lib/rigsignal/remote_connections.txt'')"

section \<open>The key of the pseudonyms\<close>

definition peer_key_path :: "string \<Rightarrow> string" where
  "peer_key_path path = with_file_name path ''remote-connections-peer-hmac.key''"

text \<open>The low nine bits of the mode.\<close>

definition key_metadata_is_acceptable :: "bool \<Rightarrow> nat \<Rightarrow> nat \<Rightarrow> nat \<Rightarrow> bool" where
  "key_metadata_is_acceptable is_file mode uid euid \<longleftrightarrow> is_file \<and> mode mod 512 = 384 \<and> uid = euid"

text \<open>
  \<open>km_meta\<close>: the type, mode and owner of a file that can be opened without following links; \<open>km_random\<close>: the 32 bytes
  read from the system's generator, if it answers.
\<close>

record key_world =
  km_meta :: "string \<Rightarrow> bool \<times> nat \<times> nat"
  km_euid :: nat
  km_random :: "bytes option"

datatype key_error = KeyMissing | KeyIo | KeyNotPrivate | KeyLength | KeyNoParent

definition read_peer_key :: "sys \<Rightarrow> key_world \<Rightarrow> string \<Rightarrow> 'z fs_scheme \<Rightarrow> (key_error, bytes) result \<times> 'z fs_scheme" where
  "read_peer_key S K path w =
     (case fs_open S path w of
        (Inl e, w') \<Rightarrow> (Err (if e = NotFound then KeyMissing else KeyIo), w')
      | (Inr c, w') \<Rightarrow>
          (let (is_file, mode, uid) = km_meta K path in
           if \<not> key_metadata_is_acceptable is_file mode uid (km_euid K) then (Err KeyNotPrivate, w')
           else case fs_touch S w' of
             (Inl _, w'') \<Rightarrow> (Err KeyIo, w'')
           | (Inr _, w'') \<Rightarrow>
               (if length c < 32 then Err KeyIo else if 32 < length c then Err KeyLength else Ok c, w'')))"

definition create_peer_key :: "sys \<Rightarrow> key_world \<Rightarrow> string \<Rightarrow> 'z fs_scheme \<Rightarrow> (key_error, bytes) result \<times> 'z fs_scheme" where
  "create_peer_key S K path =
     (case parent_dir path of
        None \<Rightarrow> (\<lambda>w. (Err KeyNoParent, w))
      | Some directory \<Rightarrow>
          if parent_dir directory = None then (\<lambda>w. (Err KeyNoParent, w))
          else st_bind (with_err KeyIo (fs_touch S)) (\<lambda>_.
               st_bind (with_err KeyIo (fs_touch S)) (\<lambda>_.
               case km_random K of
                 None \<Rightarrow> (\<lambda>w. (Err KeyIo, w))
               | Some key \<Rightarrow> (\<lambda>w.
                   case fs_create_new S path w of
                     (Inl e, w') \<Rightarrow> if e = AlreadyExists then read_peer_key S K path w' else (Err KeyIo, w')
                   | (Inr _, w') \<Rightarrow>
                       st_bind (with_err KeyIo (io_bind (fs_write S path key) (\<lambda>_. io_bind (fs_touch S) (\<lambda>_. fs_touch S))))
                         (\<lambda>_. read_peer_key S K path) w'))))"

definition load_or_create_peer_key :: "sys \<Rightarrow> key_world \<Rightarrow> string \<Rightarrow> 'z fs_scheme \<Rightarrow> (key_error, bytes) result \<times> 'z fs_scheme" where
  "load_or_create_peer_key S K path w =
     (case read_peer_key S K path w of
        (Inr key, w') \<Rightarrow> (Ok key, w')
      | (Inl e, w') \<Rightarrow> if e = KeyMissing then create_peer_key S K path w' else (Err e, w'))"

text \<open>A tailer without a key omits the peer.\<close>

definition with_paths ::
    "sys \<Rightarrow> tail_env \<Rightarrow> key_world \<Rightarrow> string \<Rightarrow> string \<Rightarrow> string \<Rightarrow> 'z fs_scheme \<Rightarrow> (tail_error, tailer) result \<times> 'z fs_scheme" where
  "with_paths S T K hostname log_path state_path w =
     (case load_or_create_peer_key S K (peer_key_path state_path) w of
        (res, w') \<Rightarrow>
          with_paths_and_key S T hostname log_path state_path (case res of Inr key \<Rightarrow> Some key | Inl _ \<Rightarrow> None) w')"

definition new_tailer ::
    "sys \<Rightarrow> tail_env \<Rightarrow> key_world \<Rightarrow> (string \<Rightarrow> string option) \<Rightarrow> string \<Rightarrow> 'z fs_scheme \<Rightarrow> (tail_error, tailer) result \<times> 'z fs_scheme" where
  "new_tailer S T K var hostname =
     with_paths S T K hostname (remote_log_path (var ''HOME'')) (tail_state_path var (var ''HOME''))"

section \<open>Generations\<close>

definition generation_of :: "log_world \<Rightarrow> string \<Rightarrow> (tail_error, generation option) result" where
  "generation_of W path =
     (case lw_stat W path of
        Inl _ \<Rightarrow> Err StatFailed
      | Inr None \<Rightarrow> Ok None
      | Inr (Some (is_file, dev, ino, len)) \<Rightarrow>
          Ok (if is_file then Some \<lparr>gn_path = path, gn_dev = dev, gn_ino = ino, gn_len = len\<rparr> else None))"

fun rotated_loop ::
    "log_world \<Rightarrow> string \<Rightarrow> string \<Rightarrow> nat \<Rightarrow> nat \<Rightarrow> (unit, string \<times> (unit, bool) result) result list
      \<Rightarrow> (tail_error, generation option) result" where
  "rotated_loop W parent name dev ino [] = Ok None"
| "rotated_loop W parent name dev ino (Inl _ # entries) = Err DirFailed"
| "rotated_loop W parent name dev ino (Inr (entry, file_type) # entries) =
     (if \<not> (utf8_valid entry \<and> starts_with (name @ ''.'') entry) then rotated_loop W parent name dev ino entries
      else case file_type of
        Inl _ \<Rightarrow> Err DirFailed
      | Inr is_file \<Rightarrow>
          if \<not> is_file then rotated_loop W parent name dev ino entries
          else and_then (generation_of W (path_join parent entry)) (\<lambda>g.
            case g of
              Some gen \<Rightarrow> if gn_dev gen = dev \<and> gn_ino gen = ino then Ok (Some gen) else rotated_loop W parent name dev ino entries
            | None \<Rightarrow> rotated_loop W parent name dev ino entries))"

definition find_rotated :: "log_world \<Rightarrow> string \<Rightarrow> nat \<Rightarrow> nat \<Rightarrow> (tail_error, generation option) result" where
  "find_rotated W log_path dev ino =
     (case (parent_dir log_path, file_name log_path) of
        (Some parent, Some name) \<Rightarrow>
          if \<not> utf8_valid name then Ok None
          else (case lw_dir W parent of Inl _ \<Rightarrow> Err DirFailed | Inr entries \<Rightarrow> rotated_loop W parent name dev ino entries)
      | _ \<Rightarrow> Ok None)"

section \<open>Batches\<close>

text \<open>The loop of \<open>read_batch\<close>: the complete lines it takes, each with the place where it starts.\<close>

function batch_lines :: "nat \<Rightarrow> nat \<Rightarrow> bytes \<Rightarrow> (nat \<times> bytes) list" where
  "batch_lines cursor taken rest =
     (case split_once CHR 0x0A rest of
        None \<Rightarrow> []
      | Some (raw, rest') \<Rightarrow>
          (let next = cursor + length raw + 1 in
           if taken = max_batch_lines \<or> max_batch_bytes < next \<and> 0 < taken then []
           else (cursor, raw) # batch_lines next (taken + 1) rest'))"
  by pat_completeness auto
termination
  by (relation "measure (\<lambda>(_, _, rest). length rest)") (auto dest!: split_once_Some)

declare batch_lines.simps [simp del]

definition line_document :: "tail_env \<Rightarrow> tailer \<Rightarrow> session_manager \<Rightarrow> bytes \<Rightarrow> json option" where
  "line_document T r session raw =
     (if max_line_bytes < length raw then None
      else parse_document (tail_libs.truncate T) raw (tr_hostname r) session (tr_peer_key r))"

definition line_envelope ::
    "tail_env \<Rightarrow> tailer \<Rightarrow> session_manager \<Rightarrow> generation \<Rightarrow> nat \<Rightarrow> tail_token \<Rightarrow> nat \<times> bytes \<Rightarrow> event_envelope option" where
  "line_envelope T r session source offset token = (\<lambda>(cursor, raw).
     map_option (\<lambda>document.
       \<lparr>ev_document = document,
        ev_id = line_identity (tr_hostname r) (gn_dev source) (gn_ino source) (offset + cursor) raw (tr_peer_key r),
        ev_token = token\<rparr>) (line_document T r session raw))"

definition batch_end :: "(nat \<times> bytes) list \<Rightarrow> nat" where
  "batch_end ls = (if ls = [] then 0 else fst (last ls) + length (snd (last ls)) + 1)"

definition read_buffer :: nat where "read_buffer = max_batch_bytes + max_line_bytes + 1"

definition read_batch ::
    "sys \<Rightarrow> tail_env \<Rightarrow> log_world \<Rightarrow> session_manager \<Rightarrow> generation \<Rightarrow> tail_state \<Rightarrow> 'z tail_world
      \<Rightarrow> (tail_error, event_envelope list) result \<times> 'z tail_world" where
  "read_batch S T W session source s = (\<lambda>(r, w).
     case lw_read W (gn_path source) (ts_offset s) of
       Inl _ \<Rightarrow> (Err LogReadFailed, (r, w))
     | Inr bytes \<Rightarrow>
         (let ls = batch_lines 0 0 (take read_buffer bytes);
              r1 = r\<lparr>tr_oversize_warned := tr_oversize_warned r \<or> list_ex (\<lambda>(_, raw). max_line_bytes < length raw) ls\<rparr>;
              token = \<lparr>tt_dev = gn_dev source, tt_ino = gn_ino source, tt_start = ts_offset s, tt_end = ts_offset s + batch_end ls\<rparr>;
              envelopes = List.map_filter (line_envelope T r session source (ts_offset s) token) ls
          in if ls = [] then (Ok [], (r1, w))
             else if envelopes = []
             then (case tr_state r1 of
                     None \<Rightarrow> (Err TailPanic, (r1, w))
                   | Some st \<Rightarrow>
                       (let r2 = r1\<lparr>tr_state := Some (st\<lparr>ts_offset := tt_end token\<rparr>)\<rparr> in
                        case persist S T r2 w of
                          (Inr _, w') \<Rightarrow> (Ok [], (r2, w'))
                        | (Inl e, w') \<Rightarrow> (Err e, (r1, w'))))
             else (Ok envelopes, (r1\<lparr>tr_inflight := Some token\<rparr>, w))))"

section \<open>\<open>poll\<close>\<close>

definition same_file :: "tail_state \<Rightarrow> generation \<Rightarrow> bool" where
  "same_file s g \<longleftrightarrow> ts_dev s = gn_dev g \<and> ts_ino s = gn_ino g"

definition start_of :: "tailer \<Rightarrow> generation \<Rightarrow> nat \<Rightarrow> tail_state" where
  "start_of r g offset = \<lparr>ts_path = tr_log_path r, ts_dev = gn_dev g, ts_ino = gn_ino g, ts_offset = offset\<rparr>"

text \<open>The choice of the file to read from, after a truncation was noticed.\<close>

definition select_source ::
    "sys \<Rightarrow> tail_env \<Rightarrow> log_world \<Rightarrow> tail_state \<Rightarrow> generation \<Rightarrow> 'z tail_world \<Rightarrow> (tail_error, generation) result \<times> 'z tail_world" where
  "select_source S T W s current = (\<lambda>(r, w).
     if same_file s current then (Ok (current\<lparr>gn_path := tr_log_path r\<rparr>), (r, w))
     else case find_rotated W (tr_log_path r) (ts_dev s) (ts_ino s) of
       Inl e \<Rightarrow> (Err e, (r, w))
     | Inr (Some rotated) \<Rightarrow> (Ok rotated, (r, w))
     | Inr None \<Rightarrow> st_bind (store_state S T (start_of r current 0)) (\<lambda>_ rw. (Ok current, rw)) (r, w))"

text \<open>One round: \<open>Ok None\<close> is the recursive call at the end.\<close>

definition poll_source ::
    "sys \<Rightarrow> tail_env \<Rightarrow> log_world \<Rightarrow> session_manager \<Rightarrow> generation \<Rightarrow> generation \<Rightarrow> 'z tail_world
      \<Rightarrow> (tail_error, event_envelope list option) result \<times> 'z tail_world" where
  "poll_source S T W session current source = (\<lambda>(r, w).
     case tr_state r of
       None \<Rightarrow> (Err TailPanic, (r, w))
     | Some s \<Rightarrow>
         if (gn_dev source \<noteq> gn_dev current \<or> gn_ino source \<noteq> gn_ino current) \<and> gn_len source \<le> ts_offset s
         then st_bind (store_state S T (start_of r current 0)) (\<lambda>_ rw. (Ok None, rw)) (r, w)
         else st_bind (read_batch S T W session source s) (\<lambda>es rw. (Ok (Some es), rw)) (r, w))"

definition poll_current ::
    "sys \<Rightarrow> tail_env \<Rightarrow> log_world \<Rightarrow> session_manager \<Rightarrow> generation \<Rightarrow> 'z tail_world
      \<Rightarrow> (tail_error, event_envelope list option) result \<times> 'z tail_world" where
  "poll_current S T W session current = (\<lambda>(r, w).
     case tr_state r of
       None \<Rightarrow> st_bind (store_state S T (start_of r current (gn_len current))) (\<lambda>_ rw. (Ok (Some []), rw)) (r, w)
     | Some s \<Rightarrow>
         (let truncated = same_file s current \<and> gn_len current < ts_offset s;
              s' = (if truncated then s\<lparr>ts_offset := 0\<rparr> else s) in
          st_bind (if truncated then store_state S T s' else (\<lambda>rw. (Ok (), rw))) (\<lambda>_.
          st_bind (select_source S T W s' current) (\<lambda>source.
            poll_source S T W session current source)) (r, w)))"

definition tail_round ::
    "sys \<Rightarrow> tail_env \<Rightarrow> log_world \<Rightarrow> session_manager \<Rightarrow> 'z tail_world
      \<Rightarrow> (tail_error, event_envelope list option) result \<times> 'z tail_world" where
  "tail_round S T W session = (\<lambda>(r, w).
     if tr_inflight r \<noteq> None then (Ok (Some []), (r, w))
     else case generation_of W (tr_log_path r) of
       Inl e \<Rightarrow> (Err e, (r, w))
     | Inr None \<Rightarrow> (Ok (Some []), (r, w))
     | Inr (Some current) \<Rightarrow> poll_current S T W session current (r, w))"

fun tail_poll ::
    "sys \<Rightarrow> tail_env \<Rightarrow> session_manager \<Rightarrow> log_world list \<Rightarrow> 'z tail_world
      \<Rightarrow> ((tail_error, event_envelope list) result \<times> 'z tail_world) option" where
  "tail_poll S T session [] rw = None"
| "tail_poll S T session (W # Ws) rw =
     (case tail_round S T W session rw of
        (Inl e, rw') \<Rightarrow> Some (Err e, rw')
      | (Inr (Some es), rw') \<Rightarrow> Some (Ok es, rw')
      | (Inr None, rw') \<Rightarrow> tail_poll S T session Ws rw')"

section \<open>Acknowledgement\<close>

definition ack_success :: "sys \<Rightarrow> tail_env \<Rightarrow> tail_token \<Rightarrow> 'z tail_world \<Rightarrow> (tail_error, unit) result \<times> 'z tail_world" where
  "ack_success S T token = (\<lambda>(r, w).
     case tr_inflight r of
       None \<Rightarrow> (Err NoInflight, (r, w))
     | Some inflight \<Rightarrow>
         if inflight \<noteq> token then (Err OutOfOrder, (r, w))
         else case tr_state r of
           None \<Rightarrow> (Err TailPanic, (r, w))
         | Some s \<Rightarrow>
             if ts_dev s \<noteq> tt_dev token \<or> ts_ino s \<noteq> tt_ino token \<or> ts_offset s \<noteq> tt_start token
             then (Err GenerationMismatch, (r, w))
             else (let r' = r\<lparr>tr_state := Some (s\<lparr>ts_offset := tt_end token\<rparr>)\<rparr> in
                   case persist S T r' w of
                     (Inl e, w') \<Rightarrow> (Err e, (r, w'))
                   | (Inr _, w') \<Rightarrow> (Ok (), (r'\<lparr>tr_inflight := None\<rparr>, w'))))"

definition nack :: "'z tail_world \<Rightarrow> 'z tail_world" where
  "nack = (\<lambda>(r, w). (r\<lparr>tr_inflight := None\<rparr>, w))"

end
