(* ===== verification/Tail_Safety.thy ===== *)
theory Tail_Safety
  imports Remote_Tail
begin

text \<open>
  What the tailer of \<open>Remote_Tail\<close> guarantees: the checkpoint file is replaced as a whole (an interpretation of
  \<open>atomic_store\<close>), an unacknowledged batch always belongs to the checkpoint, a poll ends within two rounds
  of an unchanged log, and over every run with polls, acknowledgements, releases, failed writes and restarts the
  checkpoint never passes an event that was not delivered.
\<close>

section \<open>The checkpoint file is an atomic store\<close>

lemma io_err_touches:
  assumes "io_bind m f w = (Inl e, w')" "touches N w (snd (m w))" "\<And>x w1. f x w1 = (Inl e, w') \<Longrightarrow> touches N w1 w'"
  shows "touches N w w'"
  using assms by (cases "m w"; cases "fst (m w)") (auto simp: io_bind_def intro: touches_trans)

locale tail_store_at =
  fixes S :: sys and T :: tail_env and path :: string
  assumes path_not_tmp: "path \<noteq> tail_tmp dir pid"
begin

lemma persist_ok_stores: "persist_state S T path s w = (Inr u, w') \<Longrightarrow> fget w' path = Some (te_enc T s)"
  by (auto simp: persist_state_def Let_def ok_iff append_file_def split: option.splits if_splits dest!: fs_rename_Ok)

lemma before_rename_keeps: "touches {tail_tmp dir pid} w w' \<Longrightarrow> fget w' path = fget w path"
  using path_not_tmp by (simp add: touches_def)

lemma persist_err_whole:
  fixes w w' :: "'z fs_scheme"
  assumes "persist_state S T path s w = (Inl e, w')"
  shows "fget w' path = fget w path \<or> fget w' path = Some (te_enc T s)"
proof (cases "parent_dir path")
  case None
  with assms show ?thesis by (simp add: persist_state_def)
next
  case (Some dir)
  define tmp where "tmp = tail_tmp dir (te_pid T)"
  define front :: "'z fs_scheme \<Rightarrow> (spool_error, unit) result \<times> 'z fs_scheme" where
    "front = io_bind (fs_touch S) (\<lambda>_. io_bind (if dir = [] then io_fail IoError else fs_touch S) (\<lambda>_.
       io_bind (fs_create_trunc S tmp) (\<lambda>_. io_bind (fs_write S tmp (te_enc T s)) (\<lambda>_.
       io_bind (fs_touch S) (\<lambda>_. fs_touch S)))))"
  have assoc: "io_bind (io_bind m f) g = io_bind m (\<lambda>x. io_bind (f x) g)"
    for m :: "'z fs_scheme \<Rightarrow> (spool_error, unit) result \<times> 'z fs_scheme" and f g :: "unit \<Rightarrow> 'z fs_scheme \<Rightarrow> (spool_error, unit) result \<times> 'z fs_scheme"
    by (rule ext) (simp add: io_bind_def split: prod.splits sum.splits)
  obtain d where err: "io_bind front (\<lambda>_. io_bind (fs_rename S tmp path) (\<lambda>_. io_bind (fs_touch S) (\<lambda>_. fs_touch S))) w = (Inl d, w')"
    using assms Some by (auto simp: persist_state_def Let_def front_def assoc tmp_def)
  have t: "touches {tmp} v (snd (fs_touch S v))" for v :: "'z fs_scheme" using touches_mono [OF fs_touch_touches] by blast
  have front: "touches {tmp} v (snd (front v))" for v
    unfolding front_def by (intro io_bind_touches t fs_create_trunc_touches fs_write_touches) (simp add: t)
  show ?thesis
  proof (cases "front w")
    case (Pair a v)
    show ?thesis
    proof (cases a)
      case (Inl e')
      with Pair err have "w' = v" by (simp add: io_bind_def)
      with front [of w] Pair show ?thesis by (simp add: before_rename_keeps tmp_def)
    next
      case (Inr u)
      then have ok: "fget v tmp = Some (te_enc T s)"
        using Pair by (auto simp: front_def ok_iff append_file_def split: if_splits)
      have keep: "fget v path = fget w path" using front [of w] Pair by (simp add: before_rename_keeps tmp_def)
      from err Pair Inr have "io_bind (fs_rename S tmp path) (\<lambda>_. io_bind (fs_touch S) (\<lambda>_. fs_touch S)) v = (Inl d, w')"
        by (simp add: io_bind_def)
      then show ?thesis
      proof (elim io_bind_ErrE)
        assume "fs_rename S tmp path v = (Inl d, w')"
        then show ?thesis using fs_rename_Err keep by (force simp: touches_def)
      next
        fix x v1
        assume r: "fs_rename S tmp path v = (Inr x, v1)" and "fs_touch S v1 = (Inl d, w')"
        then show ?thesis using fs_rename_Ok [OF r] ok by (auto simp: fs_touch_def split: option.splits)
      next
        fix x v1 x' v2
        assume r: "fs_rename S tmp path v = (Inr x, v1)" and "fs_touch S v1 = (Inr x', v2)" "fs_touch S v2 = (Inl d, w')"
        then show ?thesis using fs_rename_Ok [OF r] ok by (auto simp: fs_touch_def split: option.splits)
      qed
    qed
  qed
qed

end

sublocale tail_store_at \<subseteq> checkpoint: atomic_store "persist_state S T path" "\<lambda>w. fget w path" "te_enc T"
  by unfold_locales (use persist_ok_stores persist_err_whole in blast)+

text \<open>The file the tailer really uses, whatever the environment says.\<close>

lemma path_join_last: "name \<noteq> [] \<Longrightarrow> last (path_join d name) = last name"
  using path_join_suffix [of d name] by auto

lemma tail_state_path_last: "last (tail_state_path var home) = CHR ''n''"
  by (simp add: tail_state_path_def path_join_last split: option.split)

lemma tail_tmp_last: "last (tail_tmp dir pid) = CHR ''p''"
  unfolding tail_tmp_def by (subst path_join_last) simp_all

lemma tail_state_path_not_tmp: "tail_state_path var home \<noteq> tail_tmp dir pid"
proof
  assume "tail_state_path var home = tail_tmp dir pid"
  then have "last (tail_state_path var home) = last (tail_tmp dir pid)" by simp
  then show False by (simp add: tail_state_path_last tail_tmp_last)
qed

interpretation tail_file: tail_store_at S T "tail_state_path var home" for S T var home
  by unfold_locales (rule tail_state_path_not_tmp)

section \<open>Lines of a file and of a batch\<close>

function lines_at :: "nat \<Rightarrow> bytes \<Rightarrow> (nat \<times> bytes) list" where
  "lines_at off bs =
     (case split_once CHR 0x0A bs of None \<Rightarrow> [] | Some (raw, rest) \<Rightarrow> (off, raw) # lines_at (off + length raw + 1) rest)"
  by pat_completeness auto
termination
  by (relation "measure (\<lambda>(_, bs). length bs)") (auto dest!: split_once_Some)

declare lines_at.simps [simp del]

definition whole_lines :: "bytes \<Rightarrow> bool" where
  "whole_lines bs \<longleftrightarrow> bs = [] \<or> last bs = CHR 0x0A"

lemma lines_at_Nil [simp]: "lines_at off [] = []"
  by (simp add: lines_at.simps)

lemma lines_at_line: "CHR 0x0A \<notin> set raw \<Longrightarrow> lines_at off (raw @ CHR 0x0A # rest) = (off, raw) # lines_at (off + length raw + 1) rest"
  by (subst lines_at.simps) (simp add: split_once_append)

lemma whole_lines_cases:
  assumes "whole_lines bs"
  obtains "bs = []" | raw rest where "bs = raw @ CHR 0x0A # rest" "CHR 0x0A \<notin> set raw" "whole_lines rest"
proof (cases "bs = []")
  case False
  with assms have "CHR 0x0A \<in> set bs" by (metis last_in_set whole_lines_def)
  then obtain raw rest where "bs = raw @ CHR 0x0A # rest" "CHR 0x0A \<notin> set raw" by (meson split_list_first)
  moreover from this assms have "whole_lines rest" by (auto simp: whole_lines_def split: if_splits)
  ultimately show thesis using that(2) by blast
qed (rule that(1))

lemma lines_at_append: "whole_lines bs \<Longrightarrow> lines_at off (bs @ cs) = lines_at off bs @ lines_at (off + length bs) cs"
proof (induction "length bs" arbitrary: off bs rule: less_induct)
  case less
  from less.prems show ?case
  proof (cases rule: whole_lines_cases)
    case (2 raw rest)
    then have "lines_at (off + length raw + 1) (rest @ cs) =
        lines_at (off + length raw + 1) rest @ lines_at (off + length raw + 1 + length rest) cs"
      by (intro less.hyps) simp_all
    with 2 show ?thesis by (simp add: lines_at_line ac_simps)
  qed simp
qed

lemma whole_lines_append: "whole_lines a \<Longrightarrow> whole_lines b \<Longrightarrow> whole_lines (a @ b)"
  by (cases "b = []") (auto simp: whole_lines_def)

lemma lines_at_shift: "lines_at (k + off) bs = map (\<lambda>(c, raw). (k + c, raw)) (lines_at off bs)"
proof (induction off bs rule: lines_at.induct)
  case (1 off bs)
  show ?case
  proof (cases "split_once CHR 0x0A bs")
    case (Some p)
    obtain raw rest where p: "p = (raw, rest)" by (cases p)
    from "1.IH" [OF Some p [symmetric]] show ?thesis
      using Some by (subst (1 2) lines_at.simps) (simp add: p ac_simps)
  qed (simp add: lines_at.simps)
qed

text \<open>A batch is a run of complete lines at the front of what was read, nonempty as soon as there is a complete line.\<close>

lemma batch_lines_front:
  "\<exists>seg rest'. rest = seg @ rest' \<and> whole_lines seg \<and> lines_at cursor seg = batch_lines cursor n rest
     \<and> (batch_lines cursor n rest \<noteq> [] \<longrightarrow> batch_end (batch_lines cursor n rest) = cursor + length seg)
     \<and> (seg = [] \<longleftrightarrow> batch_lines cursor n rest = [])"
proof (induction cursor n rest rule: batch_lines.induct)
  case (1 cursor n rest)
  let ?bl = "batch_lines cursor n rest"
  show ?case
  proof (cases "?bl = []")
    case True
    then show ?thesis by (intro exI [of _ "[]"] exI [of _ rest]) (simp add: whole_lines_def)
  next
    case False
    then obtain raw rest1 where sp: "split_once CHR 0x0A rest = Some (raw, rest1)"
      by (subst (asm) batch_lines.simps) (auto split: option.splits)
    from False have g: "\<not> (n = max_batch_lines \<or> max_batch_bytes < cursor + length raw + 1 \<and> 0 < n)"
      by (subst (asm) batch_lines.simps) (auto simp: sp Let_def split: if_splits)
    define tail where "tail = batch_lines (cursor + length raw + 1) (n + 1) rest1"
    have bl: "?bl = (cursor, raw) # tail" by (subst batch_lines.simps) (use sp g in \<open>simp add: Let_def tail_def\<close>)
    obtain seg rest2 where IH: "rest1 = seg @ rest2" "whole_lines seg" "lines_at (cursor + length raw + 1) seg = tail"
      "tail \<noteq> [] \<longrightarrow> batch_end tail = cursor + length raw + 1 + length seg" "seg = [] \<longleftrightarrow> tail = []"
      using "1.IH" [OF sp refl refl g] unfolding tail_def by blast
    have rest: "rest = raw @ CHR 0x0A # rest1" "CHR 0x0A \<notin> set raw" using split_once_Some [OF sp] by simp_all
    have "whole_lines (raw @ CHR 0x0A # seg)" using IH(2) by (auto simp: whole_lines_def)
    moreover have "lines_at cursor (raw @ CHR 0x0A # seg) = ?bl" using IH(3) by (simp add: lines_at_line rest(2) bl)
    moreover have "batch_end ?bl = cursor + length (raw @ CHR 0x0A # seg)"
      using IH(4,5) by (cases "tail = []") (simp_all add: bl batch_end_def)
    moreover have "rest = (raw @ CHR 0x0A # seg) @ rest2" by (simp add: rest IH(1))
    ultimately show ?thesis using False by blast
  qed
qed

lemma batch_lines_none: "batch_lines 0 0 bs = [] \<longleftrightarrow> CHR 0x0A \<notin> set bs"
  by (subst batch_lines.simps) (auto simp: Let_def max_batch_lines_def split_once_None split: option.splits dest: split_once_Some)

section \<open>Events\<close>

definition is_event :: "tail_env \<Rightarrow> bytes \<Rightarrow> bool" where
  "is_event T raw \<longleftrightarrow> length raw \<le> max_line_bytes
     \<and> (\<exists>p. parse_fields (trim_end_cr (from_utf8_lossy raw)) = Some p \<and> utc_of (tail_libs.truncate T) (pl_timestamp p) \<noteq> None)"

lemma line_document_iff: "line_document T r session raw \<noteq> None \<longleftrightarrow> is_event T raw"
  by (cases "parse_fields (trim_end_cr (from_utf8_lossy raw))";
      cases "utc_of (tail_libs.truncate T) (pl_timestamp (the (parse_fields (trim_end_cr (from_utf8_lossy raw)))))")
    (auto simp: line_document_def is_event_def parse_document_def)

text \<open>The identities of the events in a piece of a file.\<close>

definition event_ids :: "tail_env \<Rightarrow> tailer \<Rightarrow> nat \<Rightarrow> nat \<Rightarrow> nat \<Rightarrow> bytes \<Rightarrow> string set" where
  "event_ids T r dev ino off bs =
     {line_identity (tr_hostname r) dev ino p raw (tr_peer_key r) | p raw. (p, raw) \<in> set (lines_at off bs) \<and> is_event T raw}"

lemma event_ids_append:
  "whole_lines bs \<Longrightarrow> event_ids T r dev ino off (bs @ cs) = event_ids T r dev ino off bs \<union> event_ids T r dev ino (off + length bs) cs"
  by (auto simp: event_ids_def lines_at_append)

lemma event_ids_Nil [simp]: "event_ids T r dev ino off [] = {}"
  by (simp add: event_ids_def)

lemma map_filter_image: "x \<in> f ` set (List.map_filter g xs) \<longleftrightarrow> (\<exists>y \<in> set xs. \<exists>z. g y = Some z \<and> x = f z)"
  by (force simp: List.map_filter_def image_iff)

lemma envelope_ids:
  assumes "lines_at 0 seg = ls"
  shows "ev_id ` set (List.map_filter (line_envelope T r session source off token) ls)
    = event_ids T r (gn_dev source) (gn_ino source) off seg"
proof -
  have l: "lines_at off seg = map (\<lambda>(c, raw). (off + c, raw)) ls" using lines_at_shift [of off 0 seg] assms by simp
  have env: "(\<exists>z. line_envelope T r session source off token (c, raw) = Some z \<and> x = ev_id z)
    \<longleftrightarrow> (\<exists>d. line_document T r session raw = Some d
         \<and> x = line_identity (tr_hostname r) (gn_dev source) (gn_ino source) (off + c) raw (tr_peer_key r))" for c raw x
    by (auto simp: line_envelope_def)
  have "x \<in> ev_id ` set (List.map_filter (line_envelope T r session source off token) ls)
    \<longleftrightarrow> (\<exists>c raw d. (c, raw) \<in> set ls \<and> line_document T r session raw = Some d
         \<and> x = line_identity (tr_hostname r) (gn_dev source) (gn_ino source) (off + c) raw (tr_peer_key r))" for x
    unfolding map_filter_image Bex_def split_paired_Ex env by blast
  moreover have "(\<exists>d. line_document T r session raw = Some d) \<longleftrightarrow> is_event T raw" for raw
    using line_document_iff [of T r session raw] by simp
  moreover have "x \<in> event_ids T r (gn_dev source) (gn_ino source) off seg \<longleftrightarrow> (\<exists>c raw. (c, raw) \<in> set ls \<and> is_event T raw
      \<and> x = line_identity (tr_hostname r) (gn_dev source) (gn_ino source) (off + c) raw (tr_peer_key r))" for x
    unfolding event_ids_def l by force
  ultimately show ?thesis by (intro set_eqI) metis
qed

lemma envelope_tokens: "e \<in> set (List.map_filter (line_envelope T r session source off token) ls) \<Longrightarrow> ev_token e = token"
  by (auto simp: List.map_filter_def line_envelope_def)

section \<open>What is settled before a checkpoint\<close>

text \<open>
  \<open>F\<close> gives the content of every file that is ever the log, as it is in the end: a log only grows.  \<open>D\<close> are the delivered
  identities, \<open>P\<close> the places where the tailer started to follow a file.
\<close>

type_synonym contents = "nat \<Rightarrow> nat \<Rightarrow> bytes"
type_synonym starts = "(nat \<times> nat \<times> nat) set"

definition settled :: "tail_env \<Rightarrow> tailer \<Rightarrow> contents \<Rightarrow> string set \<Rightarrow> starts \<Rightarrow> tail_state \<Rightarrow> bool" where
  "settled T r F D P s \<longleftrightarrow>
     (\<exists>b. (ts_dev s, ts_ino s, b) \<in> P \<and> b \<le> ts_offset s \<and> ts_offset s \<le> length (F (ts_dev s) (ts_ino s))
        \<and> whole_lines (drop b (take (ts_offset s) (F (ts_dev s) (ts_ino s))))
        \<and> event_ids T r (ts_dev s) (ts_ino s) b (drop b (take (ts_offset s) (F (ts_dev s) (ts_ino s)))) \<subseteq> D)"

lemma settled_mono: "settled T r F D P s \<Longrightarrow> D \<subseteq> D' \<Longrightarrow> P \<subseteq> P' \<Longrightarrow> settled T r F D' P' s"
  unfolding settled_def by blast

lemma settled_start:
  "(ts_dev s, ts_ino s, ts_offset s) \<in> P \<Longrightarrow> ts_offset s \<le> length (F (ts_dev s) (ts_ino s)) \<Longrightarrow> settled T r F D P s"
  unfolding settled_def by (intro exI [of _ "ts_offset s"]) (simp add: whole_lines_def)

lemma settled_advance:
  assumes s: "settled T r F D P s" and k: "ts_offset s + k \<le> length (F (ts_dev s) (ts_ino s))"
    and seg: "seg = take k (drop (ts_offset s) (F (ts_dev s) (ts_ino s)))" "whole_lines seg"
    and ids: "event_ids T r (ts_dev s) (ts_ino s) (ts_offset s) seg \<subseteq> D"
  shows "settled T r F D P (s\<lparr>ts_offset := ts_offset s + k\<rparr>)"
proof -
  let ?f = "F (ts_dev s) (ts_ino s)" and ?o = "ts_offset s"
  obtain b where b: "(ts_dev s, ts_ino s, b) \<in> P" "b \<le> ?o" "?o \<le> length ?f" "whole_lines (drop b (take ?o ?f))"
    "event_ids T r (ts_dev s) (ts_ino s) b (drop b (take ?o ?f)) \<subseteq> D" using s unfolding settled_def by blast
  have split: "drop b (take (?o + k) ?f) = drop b (take ?o ?f) @ seg"
    using b(2,3) by (simp add: take_add seg(1))
  have "event_ids T r (ts_dev s) (ts_ino s) b (drop b (take (?o + k) ?f)) \<subseteq> D"
    using b ids unfolding split by (simp add: event_ids_append)
  moreover have "whole_lines (drop b (take (?o + k) ?f))" unfolding split using b(4) seg(2) by (rule whole_lines_append)
  ultimately show ?thesis using b(1,2) k unfolding settled_def by (intro exI [of _ b]) simp
qed

lemma event_ids_setup: "tr_hostname r' = tr_hostname r \<Longrightarrow> tr_peer_key r' = tr_peer_key r \<Longrightarrow> event_ids T r' = event_ids T r"
  by (intro ext) (simp add: event_ids_def)

lemma settled_setup:
  "tr_hostname r' = tr_hostname r \<Longrightarrow> tr_peer_key r' = tr_peer_key r \<Longrightarrow> settled T r' F D P s = settled T r F D P s"
  by (simp add: settled_def event_ids_setup [of r' r])

text \<open>The log as a round sees it agrees with \<open>F\<close>: what is read from a file is a piece of its content, and the file that
  is read is the one whose numbers were asked for.\<close>

definition world_ok :: "contents \<Rightarrow> log_world \<Rightarrow> bool" where
  "world_ok F W \<longleftrightarrow>
     (\<forall>p dev ino len. lw_stat W p = Ok (Some (True, dev, ino, len)) \<longrightarrow>
        len \<le> length (F dev ino)
        \<and> (\<forall>off bs. lw_read W p off = Ok bs \<longrightarrow> (\<exists>ext. drop off (F dev ino) = bs @ ext)))"

definition shows_file :: "contents \<Rightarrow> log_world \<Rightarrow> generation \<Rightarrow> bool" where
  "shows_file F W g \<longleftrightarrow> gn_len g \<le> length (F (gn_dev g) (gn_ino g))
     \<and> (\<forall>off bs. lw_read W (gn_path g) off = Ok bs \<longrightarrow> (\<exists>ext. drop off (F (gn_dev g) (gn_ino g)) = bs @ ext))"

lemma generation_of_shows: "world_ok F W \<Longrightarrow> generation_of W p = Ok (Some g) \<Longrightarrow> shows_file F W g \<and> gn_path g = p"
  by (auto simp: generation_of_def world_ok_def shows_file_def split: sum.splits option.splits if_splits)

lemma rotated_loop_shows:
  "world_ok F W \<Longrightarrow> rotated_loop W parent name dev ino entries = Ok (Some g) \<Longrightarrow>
     shows_file F W g \<and> gn_dev g = dev \<and> gn_ino g = ino"
proof (induction W parent name dev ino entries rule: rotated_loop.induct)
  case (3 W parent name dev ino entry file_type entries)
  from "3.prems" generation_of_shows [OF "3.prems"(1), of "path_join parent entry"] "3.IH"
  show ?case by (auto simp: and_then_eq_Inr split: if_splits sum.splits option.splits)
qed simp_all

lemma find_rotated_shows:
  "world_ok F W \<Longrightarrow> find_rotated W p dev ino = Ok (Some g) \<Longrightarrow> shows_file F W g \<and> gn_dev g = dev \<and> gn_ino g = ino"
  by (auto simp: find_rotated_def split: option.splits if_splits sum.splits dest: rotated_loop_shows)

section \<open>The invariant of the tailer and its file\<close>

text \<open>Both the checkpoint in memory and the one on disk are settled.\<close>

definition checkpoints_ok :: "tail_env \<Rightarrow> contents \<Rightarrow> string set \<Rightarrow> starts \<Rightarrow> 'z tail_world \<Rightarrow> bool" where
  "checkpoints_ok T F D P = (\<lambda>(r, w).
     (\<forall>s. tr_state r = Some s \<longrightarrow> settled T r F D P s)
     \<and> (\<forall>c. fget w (tr_state_path r) = Some c \<longrightarrow> (\<exists>s. c = te_enc T s \<and> settled T r F D P s)))"

text \<open>The batch that waits for its acknowledgement starts at the checkpoint, and its envelopes are all its events.\<close>

definition batch_ok :: "tail_env \<Rightarrow> contents \<Rightarrow> tailer \<Rightarrow> event_envelope list \<Rightarrow> bool" where
  "batch_ok T F r es \<longleftrightarrow>
     (case tr_inflight r of
        None \<Rightarrow> True
      | Some t \<Rightarrow>
          (\<exists>s seg. tr_state r = Some s \<and> ts_dev s = tt_dev t \<and> ts_ino s = tt_ino t \<and> ts_offset s = tt_start t
             \<and> tt_start t < tt_end t \<and> tt_end t \<le> length (F (tt_dev t) (tt_ino t))
             \<and> seg = take (tt_end t - tt_start t) (drop (tt_start t) (F (tt_dev t) (tt_ino t))) \<and> whole_lines seg
             \<and> es \<noteq> [] \<and> (\<forall>e \<in> set es. ev_token e = t)
             \<and> event_ids T r (tt_dev t) (tt_ino t) (tt_start t) seg = ev_id ` set es))"

definition same_setup :: "tailer \<Rightarrow> tailer \<Rightarrow> bool" where
  "same_setup r r' \<longleftrightarrow> tr_log_path r' = tr_log_path r \<and> tr_state_path r' = tr_state_path r
     \<and> tr_hostname r' = tr_hostname r \<and> tr_peer_key r' = tr_peer_key r"

lemma same_setup_simps [simp]:
  "same_setup r r" "same_setup r (r\<lparr>tr_state := s\<rparr>)" "same_setup r (r\<lparr>tr_inflight := i\<rparr>)" "same_setup r (r\<lparr>tr_oversize_warned := b\<rparr>)"
  by (simp_all add: same_setup_def)

lemma same_setup_trans: "same_setup r r' \<Longrightarrow> same_setup r' r'' \<Longrightarrow> same_setup r r''"
  by (simp add: same_setup_def)

text \<open>A tailer that keeps its checkpoint in a file other than its temporary files.\<close>

definition store_ok :: "tailer \<Rightarrow> bool" where
  "store_ok r \<longleftrightarrow> (\<forall>dir pid. tr_state_path r \<noteq> tail_tmp dir pid)"

lemma persist_whole:
  assumes "store_ok r" "tr_state r = Some s" "persist S T r w = (res, w')"
  shows "fget w' (tr_state_path r) = fget w (tr_state_path r) \<or> fget w' (tr_state_path r) = Some (te_enc T s)"
    "res = Inr u \<Longrightarrow> fget w' (tr_state_path r) = Some (te_enc T s)"
proof -
  have st: "tail_store_at (tr_state_path r)" using assms(1) by unfold_locales (simp add: store_ok_def)
  have p: "persist_state S T (tr_state_path r) s w = (res, w')" using assms(2,3) by (simp add: persist_def)
  show "res = Inr u \<Longrightarrow> fget w' (tr_state_path r) = Some (te_enc T s)"
    using tail_store_at.persist_ok_stores [OF st] p by blast
  then show "fget w' (tr_state_path r) = fget w (tr_state_path r) \<or> fget w' (tr_state_path r) = Some (te_enc T s)"
    using tail_store_at.persist_err_whole [OF st] tail_store_at.persist_ok_stores [OF st] p by (cases res) blast+
qed

lemma checkpoints_setup:
  assumes "same_setup r r'" "tr_state r' = tr_state r"
  shows "checkpoints_ok T F D P (r', w) = checkpoints_ok T F D P (r, w)"
  using assms settled_setup [of r' r] by (simp add: checkpoints_ok_def same_setup_def)

lemma checkpoints_step:
  assumes "checkpoints_ok T F D P (r, w)" "store_ok r" "settled T r F D P s"
    "persist S T (r\<lparr>tr_state := Some s\<rparr>) w = (res, w')"
  shows "checkpoints_ok T F D P (r\<lparr>tr_state := Some s\<rparr>, w')" "checkpoints_ok T F D P (r, w')"
proof -
  have w: "fget w' (tr_state_path r) = fget w (tr_state_path r) \<or> fget w' (tr_state_path r) = Some (te_enc T s)"
    using persist_whole(1) [of "r\<lparr>tr_state := Some s\<rparr>" s S T w res w'] assms(2,4) by (simp add: store_ok_def)
  have s: "settled T (r\<lparr>tr_state := x\<rparr>) F D P = settled T r F D P" for x by (intro ext settled_setup) simp_all
  show "checkpoints_ok T F D P (r\<lparr>tr_state := Some s\<rparr>, w')" "checkpoints_ok T F D P (r, w')"
    using w assms(1,3) by (auto simp: checkpoints_ok_def s)
qed

lemma store_state_step:
  assumes "store_state S T s (r, w) = (res, (r', w'))" "checkpoints_ok T F D P (r, w)" "store_ok r" "settled T r F D P s"
  shows "checkpoints_ok T F D P (r', w') \<and> r' = r\<lparr>tr_state := Some s\<rparr>"
  using assms checkpoints_step(1) [OF assms(2-4)] by (auto simp: store_state_def Let_def split: prod.splits)

text \<open>The outcome of a step of a poll: both checkpoints stay settled, and a batch that was handed out is right.\<close>

definition step_ok ::
    "tail_env \<Rightarrow> contents \<Rightarrow> string set \<Rightarrow> starts \<Rightarrow> tailer \<Rightarrow> (tail_error, event_envelope list option) result \<Rightarrow> 'z tail_world \<Rightarrow> bool" where
  "step_ok T F D P r res rw' \<longleftrightarrow>
     checkpoints_ok T F D P rw' \<and> same_setup r (fst rw') \<and>
     (case res of Inr (Some es) \<Rightarrow> batch_ok T F (fst rw') es | _ \<Rightarrow> tr_inflight (fst rw') = None)"

lemma read_batch_step:
  assumes rb: "read_batch S T W session source s (r, w) = (res, rw')"
    and r: "tr_state r = Some s" "tr_inflight r = None" "store_ok r" "checkpoints_ok T F D P (r, w)"
    and src: "shows_file F W source" "same_file s source"
  shows "step_ok T F D P r (and_then res (\<lambda>es. Ok (Some es))) rw'"
proof (cases "lw_read W (gn_path source) (ts_offset s)")
  case (Inl e)
  with rb r show ?thesis by (auto simp: read_batch_def step_ok_def)
next
  case (Inr bytes)
  let ?f = "F (ts_dev s) (ts_ino s)" and ?o = "ts_offset s"
  define ls where "ls = batch_lines 0 0 (take read_buffer bytes)"
  define r1 where "r1 = r\<lparr>tr_oversize_warned := tr_oversize_warned r \<or> list_ex (\<lambda>(_, raw). max_line_bytes < length raw) ls\<rparr>"
  define token where "token = \<lparr>tt_dev = gn_dev source, tt_ino = gn_ino source, tt_start = ?o, tt_end = ?o + batch_end ls\<rparr>"
  define es where "es = List.map_filter (line_envelope T r session source ?o token) ls"
  have src_file: "gn_dev source = ts_dev s" "gn_ino source = ts_ino s" using src(2) by (simp_all add: same_file_def)
  have r1: "same_setup r r1" "tr_state r1 = Some s" "tr_inflight r1 = None" "checkpoints_ok T F D P (r1, w)" "store_ok r1"
    using r checkpoints_setup [of r r1 T F D P w] by (simp_all add: r1_def store_ok_def)
  obtain seg rest where seg: "take read_buffer bytes = seg @ rest" "whole_lines seg" "lines_at 0 seg = ls"
    "ls \<noteq> [] \<Longrightarrow> batch_end ls = length seg" "seg = [] \<longleftrightarrow> ls = []"
    using batch_lines_front [of "take read_buffer bytes" 0 0, folded ls_def, unfolded add_0] by blast
  obtain ext where ext: "drop ?o ?f = bytes @ ext" using src(1) Inr src_file by (auto simp: shows_file_def)
  have "bytes = seg @ rest @ drop read_buffer bytes" by (metis append.assoc append_take_drop_id seg(1))
  with ext have dr: "drop ?o ?f = seg @ rest @ drop read_buffer bytes @ ext" by simp
  have seg_eq: "seg = take (length seg) (drop ?o ?f)" by (simp add: dr)
  have ids: "ev_id ` set es = event_ids T r (ts_dev s) (ts_ino s) ?o seg"
    using envelope_ids [OF seg(3), of T r session source ?o token] by (simp add: es_def src_file)
  have rb': "(res, rw') = (if ls = [] then (Ok [], (r1, w))
      else if es = [] then (case persist S T (r1\<lparr>tr_state := Some (s\<lparr>ts_offset := tt_end token\<rparr>)\<rparr>) w of
                          (Inr _, w') \<Rightarrow> (Ok [], (r1\<lparr>tr_state := Some (s\<lparr>ts_offset := tt_end token\<rparr>)\<rparr>, w'))
                        | (Inl e, w') \<Rightarrow> (Err e, (r1, w')))
      else (Ok es, (r1\<lparr>tr_inflight := Some token\<rparr>, w)))"
    using rb [unfolded read_batch_def split Inr sum.case Let_def, folded ls_def, folded token_def r1_def, folded es_def,
        unfolded r1(2) option.case, symmetric] .
  consider "ls = []" | "ls \<noteq> []" "es = []" | "ls \<noteq> []" "es \<noteq> []" by blast
  then show ?thesis
  proof cases
    case 1
    with rb' r1 show ?thesis by (simp add: step_ok_def batch_ok_def)
  next
    case 2
    then have len: "tt_end token = ?o + length seg" "seg \<noteq> []" using seg(4,5) by (simp_all add: token_def)
    then have le: "?o + length seg \<le> length ?f" using arg_cong [OF dr, of length] by (cases "?o \<le> length ?f") auto
    have "settled T r F D P s" using r by (simp add: checkpoints_ok_def)
    from settled_advance [OF this le seg_eq seg(2)] 2(2) ids
    have adv: "settled T r1 F D P (s\<lparr>ts_offset := tt_end token\<rparr>)" using settled_setup [of r1 r] r1(1) len(1)
      by (simp add: same_setup_def)
    obtain pr w1 where p: "persist S T (r1\<lparr>tr_state := Some (s\<lparr>ts_offset := tt_end token\<rparr>)\<rparr>) w = (pr, w1)"
      by (cases "persist S T (r1\<lparr>tr_state := Some (s\<lparr>ts_offset := tt_end token\<rparr>)\<rparr>) w")
    note st = checkpoints_step [OF r1(4,5) adv p]
    show ?thesis
      using rb' 2 p st r1(1,3) same_setup_trans [OF r1(1)] by (cases pr) (simp_all add: step_ok_def batch_ok_def)
  next
    case 3
    then have len: "tt_end token = ?o + length seg" "seg \<noteq> []" using seg(4,5) by (simp_all add: token_def)
    then have le: "?o + length seg \<le> length ?f" using arg_cong [OF dr, of length] by (cases "?o \<le> length ?f") auto
    let ?r2 = "r1\<lparr>tr_inflight := Some token\<rparr>"
    have su: "same_setup r ?r2" using same_setup_trans [OF r1(1)] by simp
    have ev: "event_ids T ?r2 = event_ids T r" using su event_ids_setup [of ?r2 r] by (simp add: same_setup_def)
    have toks: "\<forall>e \<in> set es. ev_token e = token" using envelope_tokens unfolding es_def by blast
    have "batch_ok T F ?r2 es"
      using r1(2) 3 len le seg_eq seg(2) ids toks unfolding batch_ok_def ev by (simp add: token_def src_file)
    moreover have "checkpoints_ok T F D P (?r2, w)" using r1(4) checkpoints_setup [of r1 ?r2 T F D P w] by simp
    ultimately show ?thesis using rb' 3 su by (simp add: step_ok_def)
  qed
qed

text \<open>Position zero of every file is a start.\<close>

definition zero_starts :: "starts \<Rightarrow> bool" where
  "zero_starts P \<longleftrightarrow> (\<forall>d i. (d, i, 0) \<in> P)"

lemma settled_zero: "zero_starts P \<Longrightarrow> ts_offset s = 0 \<Longrightarrow> settled T r F D P s"
  by (rule settled_start) (simp_all add: zero_starts_def)

lemma step_okI_err: "checkpoints_ok T F D P (r', w') \<Longrightarrow> same_setup r r' \<Longrightarrow> tr_inflight r' = None \<Longrightarrow> step_ok T F D P r (Inl e) (r', w')"
  by (simp add: step_ok_def)

lemma batch_ok_none: "tr_inflight r = None \<Longrightarrow> batch_ok T F r es"
  by (simp add: batch_ok_def)

lemma store_then:
  assumes "st_bind (store_state S T s) (\<lambda>_ rw. (Ok v, rw)) (r, w) = (res, rw')" "checkpoints_ok T F D P (r, w)" "store_ok r"
    "settled T r F D P s" "tr_inflight r = None"
  shows "step_ok T F D P r res rw'" "res = Inr y \<Longrightarrow> y = v \<and> fst rw' = r\<lparr>tr_state := Some s\<rparr>"
proof -
  obtain res1 r1 w1 where st: "store_state S T s (r, w) = (res1, (r1, w1))" by (metis prod.exhaust)
  note step = store_state_step [OF st assms(2-4)]
  show "step_ok T F D P r res rw'" "res = Inr y \<Longrightarrow> y = v \<and> fst rw' = r\<lparr>tr_state := Some s\<rparr>"
    using assms(1,5) step by (cases res1; auto simp: st_bind_def st step_ok_def batch_ok_none split: option.split)+
qed

lemma select_source_step:
  assumes "select_source S T W s current (r, w) = (res, rw')" "tr_state r = Some s" "tr_inflight r = None" "store_ok r"
    "checkpoints_ok T F D P (r, w)" "zero_starts P" "world_ok F W" "generation_of W (tr_log_path r) = Ok (Some current)"
  shows "checkpoints_ok T F D P rw' \<and> same_setup r (fst rw') \<and> tr_inflight (fst rw') = None
    \<and> (\<forall>source. res = Inr source \<longrightarrow> shows_file F W source \<and> (\<exists>s'. tr_state (fst rw') = Some s' \<and> same_file s' source))"
proof -
  have cur: "shows_file F W current" "gn_path current = tr_log_path r" using generation_of_shows assms(7,8) by blast+
  show ?thesis
  proof (cases "same_file s current")
    case True
    have "current\<lparr>gn_path := tr_log_path r\<rparr> = current" using cur(2) by simp
    with True assms cur show ?thesis by (auto simp: select_source_def)
  next
    case False
    show ?thesis
    proof (cases "find_rotated W (tr_log_path r) (ts_dev s) (ts_ino s)")
      case (Inl e)
      with False assms show ?thesis by (auto simp: select_source_def)
    next
      case (Inr g)
      show ?thesis
      proof (cases g)
        case (Some rotated)
        with Inr find_rotated_shows [OF assms(7), of "tr_log_path r"] False assms show ?thesis
          by (auto simp: select_source_def same_file_def)
      next
        case None
        with False Inr assms(1) have
          st: "st_bind (store_state S T (start_of r current 0)) (\<lambda>_ rw. (Ok current, rw)) (r, w) = (res, rw')"
          by (simp add: select_source_def)
        obtain res1 r1 w1 where s1: "store_state S T (start_of r current 0) (r, w) = (res1, (r1, w1))" by (metis prod.exhaust)
        have "settled T r F D P (start_of r current 0)" by (rule settled_zero [OF assms(6)]) (simp add: start_of_def)
        from store_state_step [OF s1 assms(5,4) this] st s1 cur(1) assms(3) show ?thesis
          by (cases res1) (auto simp: st_bind_def same_file_def start_of_def)
      qed
    qed
  qed
qed

lemma poll_source_step:
  assumes "poll_source S T W session current source (r, w) = (res, rw')" "tr_state r = Some s" "same_file s source"
    "tr_inflight r = None" "store_ok r" "checkpoints_ok T F D P (r, w)" "zero_starts P" "shows_file F W source"
  shows "step_ok T F D P r res rw'"
proof (cases "(gn_dev source \<noteq> gn_dev current \<or> gn_ino source \<noteq> gn_ino current) \<and> gn_len source \<le> ts_offset s")
  case True
  with assms(1,2) have "st_bind (store_state S T (start_of r current 0)) (\<lambda>_ rw. (Ok None, rw)) (r, w) = (res, rw')"
    by (simp add: poll_source_def)
  then show ?thesis
    by (rule store_then(1) [OF _ assms(6,5) settled_zero [OF assms(7)] assms(4)]) (simp add: start_of_def)
next
  case False
  obtain res1 rw1 where rb: "read_batch S T W session source s (r, w) = (res1, rw1)" by (metis prod.exhaust)
  have "res = and_then res1 (\<lambda>es. Ok (Some es)) \<and> rw' = rw1"
    using assms(1,2) False rb by (cases res1) (auto simp: poll_source_def st_bind_def)
  then show ?thesis using read_batch_step [OF rb assms(2,4,5,6,8,3)] by simp
qed

lemma step_ok_setup: "step_ok T F D P r1 res rw' \<Longrightarrow> same_setup r r1 \<Longrightarrow> step_ok T F D P r res rw'"
  using same_setup_trans by (auto simp: step_ok_def)

lemma poll_current_step:
  assumes "poll_current S T W session current (r, w) = (res, rw')" "tr_state r = Some s"
    "tr_inflight r = None" "store_ok r" "checkpoints_ok T F D P (r, w)" "zero_starts P" "world_ok F W"
    "generation_of W (tr_log_path r) = Ok (Some current)"
  shows "step_ok T F D P r res rw'"
proof -
  define cut where "cut = (same_file s current \<and> gn_len current < ts_offset s)"
  define s' where "s' = (if cut then s\<lparr>ts_offset := 0\<rparr> else s)"
  obtain res1 r1 w1 where st: "(if cut then store_state S T s' else (\<lambda>rw. (Ok (), rw))) (r, w) = (res1, (r1, w1))"
    by (metis prod.exhaust)
  have r1: "checkpoints_ok T F D P (r1, w1)" "same_setup r r1" "tr_inflight r1 = None" "tr_state r1 = Some s'"
  proof -
    have "settled T r F D P (s\<lparr>ts_offset := 0\<rparr>)" by (rule settled_zero [OF assms(6)]) simp
    with store_state_step [OF _ assms(5,4), of S s' res1 r1 w1] st assms(2,3,5)
    show "checkpoints_ok T F D P (r1, w1)" "same_setup r r1" "tr_inflight r1 = None" "tr_state r1 = Some s'"
      by (cases cut; simp add: s'_def)+
  qed
  have ok1: "store_ok r1" and gen1: "generation_of W (tr_log_path r1) = Ok (Some current)"
    using r1(2) assms(4,8) by (simp_all add: same_setup_def store_ok_def)
  obtain res2 r2 w2 where sel: "select_source S T W s' current (r1, w1) = (res2, (r2, w2))" by (metis prod.exhaust)
  note sel' = select_source_step [OF sel r1(4,3) ok1 r1(1) assms(6,7) gen1, simplified]
  have "(res, rw') = st_bind (if cut then store_state S T s' else (\<lambda>rw. (Ok (), rw)))
      (\<lambda>_. st_bind (select_source S T W s' current) (\<lambda>source. poll_source S T W session current source)) (r, w)"
    using assms(1) [unfolded poll_current_def split assms(2) option.case Let_def, folded cut_def, folded s'_def, symmetric] .
  then have eq: "(res, rw') = (case res1 of Inl e \<Rightarrow> (Err e, (r1, w1))
      | Inr _ \<Rightarrow> st_bind (select_source S T W s' current) (\<lambda>source. poll_source S T W session current source) (r1, w1))"
    unfolding st_bind_def [of "if cut then _ else _"] st by simp
  show ?thesis
  proof (cases res1)
    case (Inl e)
    with eq r1 show ?thesis by (auto simp: st_bind_def intro!: step_okI_err)
  next
    case ok: (Inr u)
    show ?thesis
    proof (cases res2)
      case (Inl e)
      with eq ok sel sel' same_setup_trans [OF r1(2)] show ?thesis by (auto simp: st_bind_def intro!: step_okI_err)
    next
      case (Inr source)
      then obtain s2 where s2: "shows_file F W source" "tr_state r2 = Some s2" "same_file s2 source" using sel' by blast
      have ok2: "store_ok r2" using sel' ok1 by (simp add: same_setup_def store_ok_def)
      have "poll_source S T W session current source (r2, w2) = (res, rw')"
        using eq ok sel Inr by (simp add: st_bind_def)
      from poll_source_step [OF this s2(2,3) _ ok2 _ assms(6) s2(1)] sel'
      have "step_ok T F D P r2 res rw'" by blast
      then show ?thesis using step_ok_setup same_setup_trans [OF r1(2)] sel' by blast
    qed
  qed
qed

section \<open>Polls\<close>

lemma store_state_frame:
  "store_state S T s (r, w) = (res, (r', w')) \<Longrightarrow> r' = r\<lparr>tr_state := Some s\<rparr>"
  by (auto simp: store_state_def Let_def split: prod.splits)

lemma select_source_frame:
  assumes "select_source S T W s current (r, w) = (res, (r', w'))"
  shows "tr_log_path r' = tr_log_path r \<and> tr_inflight r' = tr_inflight r \<and> (tr_state r \<noteq> None \<longrightarrow> tr_state r' \<noteq> None)"
proof -
  obtain res1 r1 w1 where s1: "store_state S T (start_of r current 0) (r, w) = (res1, (r1, w1))" by (metis prod.exhaust)
  note f = store_state_frame [OF s1]
  show ?thesis
    using assms s1 f by (cases res1) (auto simp: select_source_def st_bind_def split: if_splits sum.splits option.splits)
qed

text \<open>The round that starts over has moved to the beginning of the current file.\<close>

lemma again_state:
  assumes "tail_round S T W session (r, w) = (Inr None, (r', w'))"
  shows "\<exists>current. generation_of W (tr_log_path r') = Ok (Some current) \<and> tr_state r' = Some (start_of r' current 0) \<and> tr_inflight r' = None"
proof -
  from assms have infl: "tr_inflight r = None" by (simp add: tail_round_def split: if_splits)
  with assms obtain current where gen: "generation_of W (tr_log_path r) = Ok (Some current)"
    and pc: "poll_current S T W session current (r, w) = (Inr None, (r', w'))"
    by (auto simp: tail_round_def split: sum.splits option.splits)
  from pc obtain s where s: "tr_state r = Some s"
    by (cases "tr_state r") (auto simp: poll_current_def st_bind_ok_iff)
  define cut where "cut = (same_file s current \<and> gn_len current < ts_offset s)"
  define s' where "s' = (if cut then s\<lparr>ts_offset := 0\<rparr> else s)"
  from pc [unfolded poll_current_def split s option.case Let_def, folded cut_def, folded s'_def]
  obtain r1 w1 source r2 w2 where 1: "(if cut then store_state S T s' else (\<lambda>rw. (Ok (), rw))) (r, w) = (Inr (), (r1, w1))"
    and 2: "select_source S T W s' current (r1, w1) = (Inr source, (r2, w2))"
    and 3: "poll_source S T W session current source (r2, w2) = (Inr None, (r', w'))"
    unfolding st_bind_ok_iff by fastforce
  have f1: "tr_log_path r1 = tr_log_path r \<and> tr_inflight r1 = None"
    using 1 infl by (cases cut) (auto dest: store_state_frame)
  have f2: "tr_log_path r2 = tr_log_path r \<and> tr_inflight r2 = None" using select_source_frame [OF 2] f1 by simp
  from 3 obtain s2 u where "tr_state r2 = Some s2" "store_state S T (start_of r2 current 0) (r2, w2) = (Inr u, (r', w'))"
    by (cases "tr_state r2") (auto simp: poll_source_def st_bind_ok_iff split: if_splits)
  then have "r' = r2\<lparr>tr_state := Some (start_of r2 current 0)\<rparr>" using store_state_frame by blast
  with f2 gen show ?thesis by (simp add: start_of_def)
qed

lemma no_second_round:
  assumes "generation_of W (tr_log_path r) = Ok (Some current)" "tr_state r = Some (start_of r current 0)" "tr_inflight r = None"
  shows "tail_round S T W session (r, w) \<noteq> (Inr None, rw')"
proof -
  have same: "same_file (start_of r current 0) current" "ts_offset (start_of r current 0) = 0"
    by (simp_all add: same_file_def start_of_def)
  have "tail_round S T W session (r, w) =
      st_bind (read_batch S T W session (current\<lparr>gn_path := tr_log_path r\<rparr>) (start_of r current 0)) (\<lambda>es rw. (Ok (Some es), rw)) (r, w)"
    using assms same by (simp add: tail_round_def poll_current_def select_source_def poll_source_def st_bind_def)
  then show ?thesis by (simp add: st_bind_ok_iff)
qed

text \<open>C31: A poll ends within two rounds when the log does not change during it, whatever the state of the tailer and
  whichever calls fail.\<close>

theorem poll_ends_in_two_rounds: "tail_poll S T session [W, W] rw \<noteq> None"
proof -
  obtain r w where rw: "rw = (r, w)" by (cases rw)
  obtain res r' w' where 1: "tail_round S T W session (r, w) = (res, (r', w'))" by (metis prod.exhaust)
  show ?thesis
  proof (cases "res = Inr None")
    case True
    with 1 again_state obtain current where c: "generation_of W (tr_log_path r') = Ok (Some current)"
      "tr_state r' = Some (start_of r' current 0)" "tr_inflight r' = None" by blast
    obtain res2 rw2 where 2: "tail_round S T W session (r', w') = (res2, rw2)" by (cases "tail_round S T W session (r', w')")
    with no_second_round [OF c] have "res2 \<noteq> Inr None" by blast
    with 1 2 True rw show ?thesis by (auto split: sum.split option.split)
  qed (use 1 rw in \<open>auto split: sum.split option.split\<close>)
qed

lemma tail_round_step:
  assumes "tail_round S T W session (r, w) = (res, rw')" "tr_state r = Some s" "tr_inflight r = None" "store_ok r"
    "checkpoints_ok T F D P (r, w)" "zero_starts P" "world_ok F W"
  shows "step_ok T F D P r res rw'"
proof (cases "generation_of W (tr_log_path r)")
  case (Inl e)
  with assms show ?thesis by (auto simp: tail_round_def step_ok_def)
next
  case (Inr g)
  show ?thesis
  proof (cases g)
    case None
    with Inr assms show ?thesis by (auto simp: tail_round_def step_ok_def batch_ok_none)
  next
    case (Some current)
    with Inr assms(1,3) have pc: "poll_current S T W session current (r, w) = (res, rw')" by (simp add: tail_round_def)
    from poll_current_step [OF pc assms(2-7)] Inr Some show ?thesis by simp
  qed
qed

text \<open>The outcome of a poll that returned.\<close>

definition polled_ok ::
    "tail_env \<Rightarrow> contents \<Rightarrow> string set \<Rightarrow> starts \<Rightarrow> tailer \<Rightarrow> (tail_error, event_envelope list) result \<Rightarrow> 'z tail_world \<Rightarrow> bool" where
  "polled_ok T F D P r res rw' \<longleftrightarrow>
     checkpoints_ok T F D P rw' \<and> same_setup r (fst rw')
     \<and> (case res of Inr es \<Rightarrow> batch_ok T F (fst rw') es | Inl _ \<Rightarrow> tr_inflight (fst rw') = None)"

lemma tail_poll_step:
  assumes "tail_poll S T session Ws (r, w) = Some (res, rw')" "tr_state r = Some s" "tr_inflight r = None" "store_ok r"
    "checkpoints_ok T F D P (r, w)" "zero_starts P" "list_all (world_ok F) Ws"
  shows "polled_ok T F D P r res rw'"
  using assms
proof (induction Ws arbitrary: r w s)
  case (Cons W Ws)
  obtain res1 r1 w1 where 1: "tail_round S T W session (r, w) = (res1, (r1, w1))" by (metis prod.exhaust)
  have st: "step_ok T F D P r res1 (r1, w1)" using tail_round_step [OF 1 Cons.prems(2-6)] Cons.prems(7) by simp
  show ?case
  proof (cases "res1 = Inr None")
    case True
    with 1 again_state obtain s1 where s1: "tr_state r1 = Some s1" "tr_inflight r1 = None" by blast
    have "store_ok r1" using st Cons.prems(4) by (simp add: step_ok_def same_setup_def store_ok_def)
    moreover have "tail_poll S T session Ws (r1, w1) = Some (res, rw')" using Cons.prems(1) 1 True by simp
    ultimately have "polled_ok T F D P r1 res rw'"
      using Cons.IH [OF _ s1] st Cons.prems(6,7) by (simp add: step_ok_def)
    then show ?thesis using st same_setup_trans by (auto simp: polled_ok_def step_ok_def)
  qed (use st 1 Cons.prems(1) in \<open>auto simp: polled_ok_def step_ok_def split: sum.splits option.splits\<close>)
qed simp

text \<open>The first poll of a fresh tailer starts to follow the log at its end.\<close>

definition start_point :: "tailer \<Rightarrow> tailer \<Rightarrow> starts" where
  "start_point r r' = (if tr_state r = None then {(ts_dev s, ts_ino s, ts_offset s) | s. tr_state r' = Some s} else {})"

lemma checkpoints_mono: "checkpoints_ok T F D P rw \<Longrightarrow> D \<subseteq> D' \<Longrightarrow> P \<subseteq> P' \<Longrightarrow> checkpoints_ok T F D' P' rw"
  unfolding checkpoints_ok_def case_prod_unfold using settled_mono by blast

lemma first_poll_step:
  assumes "tail_poll S T session Ws (r, w) = Some (res, (r', w'))" "tr_state r = None" "tr_inflight r = None" "store_ok r"
    "checkpoints_ok T F D P (r, w)" "list_all (world_ok F) Ws"
  shows "polled_ok T F D (P \<union> start_point r r') r res (r', w')"
proof -
  from assms(1) obtain W Ws' where Ws: "Ws = W # Ws'" by (cases Ws) auto
  show ?thesis
  proof (cases "generation_of W (tr_log_path r)")
    case (Inl e)
    with assms Ws show ?thesis by (auto simp: tail_round_def polled_ok_def intro: checkpoints_mono)
  next
    case (Inr g)
    show ?thesis
    proof (cases g)
      case None
      with Inr assms Ws show ?thesis by (auto simp: tail_round_def polled_ok_def batch_ok_none intro: checkpoints_mono)
    next
      case (Some current)
      let ?s = "start_of r current (gn_len current)"
      obtain res1 r1 w1 where st: "store_state S T ?s (r, w) = (res1, (r1, w1))" by (metis prod.exhaust)
      have eq: "res = (case res1 of Inl e \<Rightarrow> Err e | Inr _ \<Rightarrow> Ok [])" "r' = r1" "w' = w1"
        using assms(1,2,3) Ws Inr Some st
        by (cases res1; auto simp: tail_round_def poll_current_def st_bind_def)+
      have r1: "r1 = r\<lparr>tr_state := Some ?s\<rparr>" by (rule store_state_frame [OF st])
      have P: "P \<union> start_point r r' = insert (gn_dev current, gn_ino current, gn_len current) P"
        using assms(2) by (auto simp: start_point_def eq r1 start_of_def)
      have "shows_file F W current" using generation_of_shows [of F W "tr_log_path r" current] assms(6) Ws Inr Some by simp
      then have "settled T r F D (P \<union> start_point r r') ?s"
        unfolding P by (intro settled_start) (simp_all add: start_of_def shows_file_def)
      from store_state_step [OF st checkpoints_mono [OF assms(5)] assms(4) this]
      have "checkpoints_ok T F D (P \<union> start_point r r') (r1, w1)" by blast
      then show ?thesis using eq r1 assms(3) by (cases res1) (simp_all add: polled_ok_def batch_ok_none)
    qed
  qed
qed

text \<open>A line that does not end within the buffer stays at the checkpoint, also when it is complete.\<close>

lemma long_line_stays:
  assumes "lw_read W (gn_path source) (ts_offset s) = Ok bytes" "CHR 0x0A \<notin> set (take read_buffer bytes)"
  shows "read_batch S T W session source s (r, w) = (Ok [], (r, w))"
  using assms by (simp add: read_batch_def Let_def iffD2 [OF batch_lines_none])

section \<open>Acknowledgement, release and restart\<close>

lemma ack_step:
  assumes ack: "ack_success S T t (r, w) = (res, (r', w'))" and ok: "store_ok r" "checkpoints_ok T F D P (r, w)" "batch_ok T F r es"
    and t: "tr_inflight r = Some t"
  shows "checkpoints_ok T F (D \<union> ev_id ` set es) P (r', w') \<and> same_setup r r' \<and> batch_ok T F r' es"
proof -
  let ?D = "D \<union> ev_id ` set es"
  from ok(3) t obtain s seg where b: "tr_state r = Some s" "ts_dev s = tt_dev t" "ts_ino s = tt_ino t" "ts_offset s = tt_start t"
    "tt_start t < tt_end t" "tt_end t \<le> length (F (tt_dev t) (tt_ino t))"
    "seg = take (tt_end t - tt_start t) (drop (tt_start t) (F (tt_dev t) (tt_ino t)))" "whole_lines seg"
    "event_ids T r (tt_dev t) (tt_ino t) (tt_start t) seg = ev_id ` set es"
    unfolding batch_ok_def by auto
  have D: "checkpoints_ok T F ?D P (r, w)" using ok(2) by (rule checkpoints_mono) auto
  then have "settled T r F ?D P s" using b(1) by (simp add: checkpoints_ok_def)
  from settled_advance [OF this, of "tt_end t - tt_start t" seg] b
  have adv: "settled T r F ?D P (s\<lparr>ts_offset := tt_end t\<rparr>)" by simp
  obtain pr w1 where p: "persist S T (r\<lparr>tr_state := Some (s\<lparr>ts_offset := tt_end t\<rparr>)\<rparr>) w = (pr, w1)"
    by (cases "persist S T (r\<lparr>tr_state := Some (s\<lparr>ts_offset := tt_end t\<rparr>)\<rparr>) w")
  note st = checkpoints_step [OF D ok(1) adv p]
  have "(res, (r', w')) = (case pr of Inl e \<Rightarrow> (Err e, (r, w1))
      | Inr _ \<Rightarrow> (Ok (), (r\<lparr>tr_state := Some (s\<lparr>ts_offset := tt_end t\<rparr>), tr_inflight := None\<rparr>, w1)))"
    unfolding ack [symmetric] using t b(1-4) p by (cases pr) (simp_all add: ack_success_def)
  then show ?thesis
    using st ok(3) checkpoints_setup [of "r\<lparr>tr_state := Some (s\<lparr>ts_offset := tt_end t\<rparr>)\<rparr>"
        "r\<lparr>tr_state := Some (s\<lparr>ts_offset := tt_end t\<rparr>), tr_inflight := None\<rparr>" T F ?D P w1]
    by (cases pr) (auto simp: same_setup_def batch_ok_none)
qed

lemma ack_other:
  assumes "ack_success S T t (r, w) = (res, (r', w'))" "tr_inflight r \<noteq> Some t"
  shows "r' = r \<and> w' = w"
  using assms by (auto simp: ack_success_def split: option.splits if_splits)

lemma restart_step:
  assumes "with_paths_and_key S T (tr_hostname r) (tr_log_path r) (tr_state_path r) (tr_peer_key r) w = (Inr r', w')"
    "checkpoints_ok T F D P (r, w)" "\<And>s. te_dec T (te_enc T s) = Some s"
  shows "checkpoints_ok T F D P (r', w') \<and> same_setup r r' \<and> tr_inflight r' = None"
proof -
  have su: "same_setup r r'" "tr_inflight r' = None"
    using assms(1) by (auto simp: with_paths_and_key_def Let_def same_setup_def split: prod.splits sum.splits option.splits if_splits)
  have w': "fget w' n = fget w n" for n
    using assms(1) touches_mono [OF fs_open_touches [of w S "tr_state_path r"], of "{}"]
    by (auto simp: with_paths_and_key_def Let_def touches_def split: prod.splits sum.splits)
  have "\<exists>c. fget w (tr_state_path r) = Some c \<and> te_dec T c = Some s" if "tr_state r' = Some s" for s
    using assms(1) that by (auto simp: with_paths_and_key_def Let_def ok_iff split: prod.splits sum.splits option.splits if_splits)
  then have "settled T r F D P s" if "tr_state r' = Some s" for s
    using assms(2,3) that by (fastforce simp: checkpoints_ok_def)
  moreover have "settled T r' F D P = settled T r F D P"
    using su(1) by (intro ext settled_setup) (simp_all add: same_setup_def)
  ultimately show ?thesis using assms(2) su w' by (simp add: checkpoints_ok_def same_setup_def)
qed

section \<open>Runs\<close>

text \<open>
  A run of the agent: polls in any worlds, deliveries followed by the acknowledgement with the token of the first
  envelope, releases and restarts, in any order.  The configuration also records what was handed out last, what was
  delivered and where files began to be followed.
\<close>

record tail_conf =
  tc_tailer :: tailer
  tc_fs :: fs
  tc_pending :: "event_envelope list"
  tc_delivered :: "string set"
  tc_starts :: starts

inductive tail_run :: "sys \<Rightarrow> tail_env \<Rightarrow> contents \<Rightarrow> tailer \<Rightarrow> fs \<Rightarrow> tail_conf \<Rightarrow> bool" for S T F r0 w0 where
  start: "tr_state r0 = None \<Longrightarrow> tr_inflight r0 = None \<Longrightarrow>
    tail_run S T F r0 w0 \<lparr>tc_tailer = r0, tc_fs = w0, tc_pending = [], tc_delivered = {}, tc_starts = {(d, i, o'). o' = 0}\<rparr>"
| polls: "tail_run S T F r0 w0 c \<Longrightarrow> list_all (world_ok F) Ws \<Longrightarrow>
    tail_poll S T session Ws (tc_tailer c, tc_fs c) = Some (res, (r', w')) \<Longrightarrow>
    tail_run S T F r0 w0 (c\<lparr>tc_tailer := r', tc_fs := w',
      tc_pending := (if tr_inflight (tc_tailer c) = None then (case res of Inr es \<Rightarrow> es | Inl _ \<Rightarrow> []) else tc_pending c),
      tc_starts := tc_starts c \<union> start_point (tc_tailer c) r'\<rparr>)"
| delivers: "tail_run S T F r0 w0 c \<Longrightarrow> tc_pending c \<noteq> [] \<Longrightarrow>
    ack_success S T (ev_token (hd (tc_pending c))) (tc_tailer c, tc_fs c) = (ares, (r', w')) \<Longrightarrow>
    tail_run S T F r0 w0 (c\<lparr>tc_tailer := r', tc_fs := w', tc_delivered := tc_delivered c \<union> ev_id ` set (tc_pending c)\<rparr>)"
| releases: "tail_run S T F r0 w0 c \<Longrightarrow> nack (tc_tailer c, tc_fs c) = (r', w') \<Longrightarrow>
    tail_run S T F r0 w0 (c\<lparr>tc_tailer := r', tc_fs := w'\<rparr>)"
| restarts: "tail_run S T F r0 w0 c \<Longrightarrow>
    with_paths_and_key S T (tr_hostname r0) (tr_log_path r0) (tr_state_path r0) (tr_peer_key r0) (tc_fs c) = (Inr r', w') \<Longrightarrow>
    tail_run S T F r0 w0 (c\<lparr>tc_tailer := r', tc_fs := w', tc_pending := []\<rparr>)"

definition conf_ok :: "tail_env \<Rightarrow> contents \<Rightarrow> tailer \<Rightarrow> tail_conf \<Rightarrow> bool" where
  "conf_ok T F r0 c \<longleftrightarrow>
     checkpoints_ok T F (tc_delivered c) (tc_starts c) (tc_tailer c, tc_fs c) \<and> same_setup r0 (tc_tailer c)
     \<and> batch_ok T F (tc_tailer c) (tc_pending c) \<and> zero_starts (tc_starts c)"

lemma conf_okI:
  assumes "checkpoints_ok T F (tc_delivered c) (tc_starts c) (tc_tailer c, tc_fs c)" "same_setup r0 r" "same_setup r (tc_tailer c)"
    "batch_ok T F (tc_tailer c) (tc_pending c)" "zero_starts (tc_starts c)"
  shows "conf_ok T F r0 c"
  using assms same_setup_trans [OF assms(2,3)] by (simp add: conf_ok_def)

lemma tail_run_ok:
  assumes run: "tail_run S T F r0 w0 c" and st: "store_ok r0" "fget w0 (tr_state_path r0) = None"
    and codec: "\<And>s. te_dec T (te_enc T s) = Some s"
  shows "conf_ok T F r0 c"
  using run
proof (induction rule: tail_run.induct)
  case start
  then show ?case using st(2) by (simp add: conf_ok_def checkpoints_ok_def batch_ok_none zero_starts_def)
next
  case (polls c Ws session res r' w')
  let ?r = "tc_tailer c" and ?P = "tc_starts c \<union> start_point (tc_tailer c) r'"
  note IH = polls.IH [unfolded conf_ok_def]
  have ok: "store_ok ?r" using IH st(1) by (simp add: same_setup_def store_ok_def)
  have z: "zero_starts ?P" using IH by (simp add: zero_starts_def)
  show ?case
  proof (cases "tr_inflight ?r")
    case (Some t)
    then have "res = Ok []" "r' = ?r" "w' = tc_fs c"
      using polls.hyps(3) by (cases Ws; simp add: tail_round_def)+
    moreover have "checkpoints_ok T F (tc_delivered c) ?P (?r, tc_fs c)"
      by (rule checkpoints_mono [OF conjunct1 [OF IH]]) simp_all
    ultimately show ?thesis using IH z Some by (intro conf_okI [of T F _ r0 ?r]) simp_all
  next
    case None
    have "polled_ok T F (tc_delivered c) ?P ?r res (r', w')"
    proof (cases "tr_state ?r")
      case None
      with first_poll_step [OF polls.hyps(3) None _ ok _ polls.hyps(2)] \<open>tr_inflight ?r = None\<close> IH show ?thesis by blast
    next
      case (Some s)
      have "checkpoints_ok T F (tc_delivered c) ?P (?r, tc_fs c)"
        by (rule checkpoints_mono [OF conjunct1 [OF IH]]) simp_all
      from tail_poll_step [OF polls.hyps(3) Some None ok this z polls.hyps(2)] show ?thesis .
    qed
    then show ?thesis
      using IH z None by (cases res) (simp_all add: conf_okI [of T F _ r0 ?r] polled_ok_def batch_ok_none)
  qed
next
  case (delivers c ares r' w')
  let ?r = "tc_tailer c" and ?t = "ev_token (hd (tc_pending c))"
  note IH = delivers.IH [unfolded conf_ok_def]
  have ok: "store_ok ?r" using IH st(1) by (simp add: same_setup_def store_ok_def)
  show ?case
  proof (cases "tr_inflight ?r = Some ?t")
    case True
    from ack_step [OF delivers.hyps(3) ok _ _ True, of F "tc_delivered c" "tc_starts c" "tc_pending c"] IH
    show ?thesis by (intro conf_okI [of T F _ r0 ?r]) simp_all
  next
    case False
    then have "r' = ?r" "w' = tc_fs c" using ack_other [OF delivers.hyps(3)] by simp_all
    moreover have "checkpoints_ok T F (tc_delivered c \<union> ev_id ` set (tc_pending c)) (tc_starts c) (?r, tc_fs c)"
      by (rule checkpoints_mono [OF conjunct1 [OF IH]]) simp_all
    ultimately show ?thesis using IH by (intro conf_okI [of T F _ r0 ?r]) simp_all
  qed
next
  case (releases c r' w')
  then have r': "r' = tc_tailer c\<lparr>tr_inflight := None\<rparr>" "w' = tc_fs c" by (simp_all add: nack_def)
  have "same_setup (tc_tailer c) r'" "tr_state r' = tr_state (tc_tailer c)" by (simp_all add: r')
  then show ?case
    using releases.IH [unfolded conf_ok_def] checkpoints_setup [of "tc_tailer c" r' T F "tc_delivered c" "tc_starts c" w'] r'(2)
    by (intro conf_okI [of T F _ r0 "tc_tailer c"]) (simp_all add: batch_ok_none r'(1))
next
  case (restarts c r' w')
  note IH = restarts.IH [unfolded conf_ok_def]
  have su: "tr_hostname r0 = tr_hostname (tc_tailer c)" "tr_log_path r0 = tr_log_path (tc_tailer c)"
    "tr_state_path r0 = tr_state_path (tc_tailer c)" "tr_peer_key r0 = tr_peer_key (tc_tailer c)"
    using IH by (simp_all add: same_setup_def)
  from restart_step [OF restarts.hyps(2) [unfolded su] _ codec, of F "tc_delivered c" "tc_starts c"] IH show ?case
    by (intro conf_okI [of T F _ r0 "tc_tailer c"]) (simp_all add: batch_ok_none)
qed

lemma run_checkpoint_settled:
  assumes "tail_run S T F r0 w0 c" "store_ok r0" "fget w0 (tr_state_path r0) = None" "\<And>s. te_dec T (te_enc T s) = Some s"
    and "fget (tc_fs c) (tr_state_path r0) = Some (te_enc T s)"
  shows "settled T r0 F (tc_delivered c) (tc_starts c) s"
proof -
  note ok = tail_run_ok [OF assms(1-4), unfolded conf_ok_def]
  have su: "tr_hostname (tc_tailer c) = tr_hostname r0" "tr_peer_key (tc_tailer c) = tr_peer_key r0"
    "tr_state_path (tc_tailer c) = tr_state_path r0" using ok by (simp_all add: same_setup_def)
  obtain s' where s': "te_enc T s = te_enc T s'" "settled T (tc_tailer c) F (tc_delivered c) (tc_starts c) s'"
    using ok assms(5) by (auto simp: checkpoints_ok_def su)
  have "s' = s" using s'(1) assms(4) [of s] assms(4) [of s'] by (metis option.inject)
  with s'(2) show ?thesis using settled_setup [OF su(1,2), of T F "tc_delivered c" "tc_starts c" s] by simp
qed

text \<open>Over every run, with any failing writes and any restarts, the checkpoint on disk never passes an undelivered event:
  every event between the place where the tailer began to follow the file and the checkpoint has been
  delivered.\<close>

theorem checkpoint_after_delivery:
  assumes "tail_run S T F r0 w0 c" "store_ok r0" "fget w0 (tr_state_path r0) = None" "\<And>s. te_dec T (te_enc T s) = Some s"
    and "fget (tc_fs c) (tr_state_path r0) = Some (te_enc T s)"
  shows "\<exists>b. (ts_dev s, ts_ino s, b) \<in> tc_starts c \<and> b \<le> ts_offset s
    \<and> event_ids T r0 (ts_dev s) (ts_ino s) b (drop b (take (ts_offset s) (F (ts_dev s) (ts_ino s)))) \<subseteq> tc_delivered c"
  using run_checkpoint_settled [OF assms] unfolding settled_def by blast

subsection \<open>A first poll\<close>

definition enc_tail_state :: "tail_state \<Rightarrow> bytes" where
  "enc_tail_state s = put_strs [ts_path s, show_nat (ts_dev s), show_nat (ts_ino s), show_nat (ts_offset s)]"

definition dec_tail_state :: "bytes \<Rightarrow> tail_state option" where
  "dec_tail_state c =
     (case get_strs (length c) c of
        Some [p, d, i, k] \<Rightarrow>
          Some \<lparr>ts_path = p, ts_dev = digits_value 10 0 d, ts_ino = digits_value 10 0 i, ts_offset = digits_value 10 0 k\<rparr>
      | _ \<Rightarrow> None)"

lemma dec_enc_tail_state: "dec_tail_state (enc_tail_state s) = Some s"
  unfolding dec_tail_state_def enc_tail_state_def by (subst get_put_strs) (simp_all add: show_nat_value)

definition sample_tail_env :: tail_env where
  "sample_tail_env = \<lparr>tz_naive = (\<lambda>_. None), tz_local = (\<lambda>_. Nonexistent), tz_text = (\<lambda>_. []), lower_case = (\<lambda>s. s),
     agent_version = ''1'', te_enc = enc_tail_state, te_dec = dec_tail_state, te_pid = 7\<rparr>"

definition sample_tailer :: tailer where
  "sample_tailer = \<lparr>tr_log_path = ''/l/r.txt'', tr_state_path = ''/s/t.json'', tr_hostname = ''h'', tr_peer_key = None,
     tr_state = None, tr_inflight = None, tr_oversize_warned = False\<rparr>"

definition sample_world :: log_world where
  "sample_world = \<lparr>lw_stat = (\<lambda>_. Ok (Some (True, 1, 2, 0))), lw_dir = (\<lambda>_. Ok []), lw_read = (\<lambda>_ _. Ok [])\<rparr>"

definition sample_point :: tail_state where
  "sample_point = \<lparr>ts_path = ''/l/r.txt'', ts_dev = 1, ts_ino = 2, ts_offset = 0\<rparr>"

lemma sample_store_ok: "store_ok sample_tailer"
proof -
  have "''/s/t.json'' \<noteq> tail_tmp dir pid" for dir pid
    using arg_cong [of "''/s/t.json''" "tail_tmp dir pid" last] by (auto simp: tail_tmp_def path_join_def)
  then show ?thesis by (simp add: store_ok_def sample_tailer_def)
qed

lemma sample_poll:
  "\<exists>w. tail_poll steady_sys sample_tail_env session [sample_world] (sample_tailer, bare_fs)
      = Some (Ok [], (sample_tailer\<lparr>tr_state := Some sample_point\<rparr>, w))
    \<and> fget w ''/s/t.json'' = Some (enc_tail_state sample_point)"
proof -
  let ?r = "sample_tailer\<lparr>tr_state := Some sample_point\<rparr>"
  have dir: "parent_dir ''/s/t.json'' = Some ''/s''" by (simp add: parent_dir_def rposition_def)
  have "fst (persist steady_sys sample_tail_env ?r bare_fs) = Inr ()"
    by (simp add: persist_def persist_state_def sample_tailer_def sample_tail_env_def steady_sys_def dir Let_def
        with_err_def io_bind_def fs_touch_def fs_create_trunc_def fs_write_def fs_rename_def append_file_def)
  then obtain w' where p: "persist steady_sys sample_tail_env ?r bare_fs = (Inr (), w')" by (metis prod.collapse)
  have "store_ok ?r" using sample_store_ok unfolding store_ok_def by simp
  from persist_whole(2) [OF this _ p refl] have "fget w' ''/s/t.json'' = Some (enc_tail_state sample_point)"
    by (simp add: sample_tailer_def sample_tail_env_def)
  moreover have "tail_poll steady_sys sample_tail_env session [sample_world] (sample_tailer, bare_fs) = Some (Ok [], (?r, w'))"
    using p by (simp add: tail_round_def poll_current_def generation_of_def sample_world_def st_bind_def store_state_def start_of_def
        sample_tailer_def sample_point_def)
  ultimately show ?thesis by blast
qed

theorem checkpoint_after_delivery_witness:
  "\<exists>c. tail_run steady_sys sample_tail_env (\<lambda>_ _. []) sample_tailer bare_fs c
     \<and> fget (tc_fs c) ''/s/t.json'' = Some (enc_tail_state sample_point) \<and> (\<exists>b. (1, 2, b) \<in> tc_starts c \<and> b \<le> 0)"
proof -
  let ?S = steady_sys and ?T = sample_tail_env and ?F = "\<lambda>_ _. []" and ?r = sample_tailer
  obtain w where w: "tail_poll ?S ?T undefined [sample_world] (?r, bare_fs) = Some (Ok [], (?r\<lparr>tr_state := Some sample_point\<rparr>, w))"
    "fget w ''/s/t.json'' = Some (enc_tail_state sample_point)" using sample_poll by blast
  have "world_ok ?F sample_world" by (simp add: world_ok_def sample_world_def)
  then have W: "list_all (world_ok ?F) [sample_world]" by simp
  have 0: "tail_run ?S ?T ?F ?r bare_fs \<lparr>tc_tailer = ?r, tc_fs = bare_fs, tc_pending = [], tc_delivered = {}, tc_starts = {(d, i, o'). o' = 0}\<rparr>"
    by (rule tail_run.start) (simp_all add: sample_tailer_def)
  obtain c where c: "tail_run ?S ?T ?F ?r bare_fs c" "tc_fs c = w"
    using tail_run.polls [OF 0 W, of undefined "Ok []" "?r\<lparr>tr_state := Some sample_point\<rparr>" w] w(1) by auto
  have p: "tr_state_path ?r = ''/s/t.json''" "te_enc ?T = enc_tail_state" "te_dec ?T = dec_tail_state"
    by (simp_all add: sample_tailer_def sample_tail_env_def)
  have "\<exists>b. (ts_dev sample_point, ts_ino sample_point, b) \<in> tc_starts c \<and> b \<le> ts_offset sample_point"
    using checkpoint_after_delivery [OF c(1) sample_store_ok, of sample_point] w(2)
    unfolding p c(2) by (simp add: dec_enc_tail_state del: split_paired_Ex)
  then show ?thesis using c w(2) by (auto simp: sample_point_def simp del: split_paired_Ex)
qed

end
