(* ===== verification/Stream_Tick.thy ===== *)
theory Stream_Tick
  imports Tail_Safety Bulk
begin

text \<open>
  The stream part of a tick of \<open>src/src/main.rs\<close>, where the tailer of \<open>Remote_Tail\<close> meets the delivery of \<open>Bulk\<close>: a batch
  is posted, and the answer decides between acknowledgement and release.  The lemmas show that the ticks are runs of
  \<open>Tail_Safety\<close>, so that the checkpoint rests on answered requests, and what a failed acknowledgement does to the ticks
  that follow.
\<close>

section \<open>A tick\<close>

definition tick_documents :: "event_envelope list \<Rightarrow> ship_document list" where
  "tick_documents es = map (\<lambda>e. \<lparr>sd_document = ev_document e, sd_id = Some (ev_id e)\<rparr>) es"

text \<open>Whether the delivery of a batch reports no failed document.\<close>

definition batch_confirmed :: "'cert net \<Rightarrow> es_config \<Rightarrow> event_envelope list \<Rightarrow> bool" where
  "batch_confirmed N config es =
     (case fst (ship_documents N config (tick_documents es)) of Inr x \<Rightarrow> sr_failed x = 0 | Inl _ \<Rightarrow> False)"

text \<open>Errors of the poll and of the acknowledgement are logged and otherwise ignored.\<close>

definition stream_tick ::
    "sys \<Rightarrow> tail_env \<Rightarrow> 'cert net \<Rightarrow> es_config \<Rightarrow> session_manager \<Rightarrow> log_world list \<Rightarrow> 'z tail_world \<Rightarrow> ('z tail_world \<times> effects) option" where
  "stream_tick S T N config session Ws rw =
     (case tail_poll S T session Ws rw of
        None \<Rightarrow> None
      | Some (Inl _, rw1) \<Rightarrow> Some (rw1, quiet)
      | Some (Inr [], rw1) \<Rightarrow> Some (rw1, quiet)
      | Some (Inr (e # es), rw1) \<Rightarrow>
          Some (if batch_confirmed N config (e # es) then snd (ack_success S T (ev_token e) rw1) else nack rw1,
                snd (ship_documents N config (tick_documents (e # es)))))"

text \<open>Ticks in a row, with the requests they sent.\<close>

type_synonym 'cert tick_input = "'cert net \<times> es_config \<times> session_manager \<times> log_world list"

fun stream_ticks :: "sys \<Rightarrow> tail_env \<Rightarrow> 'cert tick_input list \<Rightarrow> 'z tail_world \<Rightarrow> ('z tail_world \<times> http_request list) option" where
  "stream_ticks S T [] rw = Some (rw, [])"
| "stream_ticks S T ((N, config, session, Ws) # ticks) rw =
     do { (rw1, fx) \<leftarrow> stream_tick S T N config session Ws rw;
          (rw2, sent) \<leftarrow> stream_ticks S T ticks rw1;
          Some (rw2, fx_sent fx @ sent) }"

section \<open>Ticks are runs of the tailer\<close>

definition confirmed_ids :: "'cert net \<Rightarrow> es_config \<Rightarrow> (tail_error, event_envelope list) result \<Rightarrow> string set" where
  "confirmed_ids N config res = (case res of Inl _ \<Rightarrow> {} | Inr es \<Rightarrow> if batch_confirmed N config es then ev_id ` set es else {})"

text \<open>
  Ticks and restarts, in any order.  The configuration records as delivered what was in a request whose answer reported
  no failure.
\<close>

inductive tick_run :: "sys \<Rightarrow> tail_env \<Rightarrow> contents \<Rightarrow> tailer \<Rightarrow> fs \<Rightarrow> tail_conf \<Rightarrow> bool" for S T F r0 w0 where
  first: "tr_state r0 = None \<Longrightarrow> tr_inflight r0 = None \<Longrightarrow>
    tick_run S T F r0 w0 \<lparr>tc_tailer = r0, tc_fs = w0, tc_pending = [], tc_delivered = {}, tc_starts = {(d, i, o'). o' = 0}\<rparr>"
| ticks: "tick_run S T F r0 w0 c \<Longrightarrow> list_all (world_ok F) Ws \<Longrightarrow>
    tail_poll S T session Ws (tc_tailer c, tc_fs c) = Some (res, (r1, w1)) \<Longrightarrow>
    stream_tick S T (N :: nat net) config session Ws (tc_tailer c, tc_fs c) = Some ((r', w'), fx) \<Longrightarrow>
    tick_run S T F r0 w0 (c\<lparr>tc_tailer := r', tc_fs := w', tc_delivered := tc_delivered c \<union> confirmed_ids N config res,
      tc_starts := tc_starts c \<union> start_point (tc_tailer c) r1\<rparr>)"
| reopens: "tick_run S T F r0 w0 c \<Longrightarrow>
    with_paths_and_key S T (tr_hostname r0) (tr_log_path r0) (tr_state_path r0) (tr_peer_key r0) (tc_fs c) = (Inr r', w') \<Longrightarrow>
    tick_run S T F r0 w0 (c\<lparr>tc_tailer := r', tc_fs := w'\<rparr>)"

lemma tail_run_eq: "tail_run S T F r0 w0 c \<Longrightarrow> c = c' \<Longrightarrow> tail_run S T F r0 w0 c'"
  by simp

lemma poll_waits:
  assumes "tail_poll S T session Ws (r, w) = Some (res, rw')" "tr_inflight r \<noteq> None"
  shows "res = Ok [] \<and> rw' = (r, w)"
  using assms by (cases Ws) (simp_all add: tail_round_def)

lemma tick_is_run:
  assumes run: "tail_run S T F r0 w0 (c\<lparr>tc_pending := p\<rparr>)" and Ws: "list_all (world_ok F) Ws"
    and poll: "tail_poll S T session Ws (tc_tailer c, tc_fs c) = Some (res, (r1, w1))"
    and tick: "stream_tick S T N config session Ws (tc_tailer c, tc_fs c) = Some ((r', w'), fx)"
  shows "\<exists>p. tail_run S T F r0 w0 (c\<lparr>tc_tailer := r', tc_fs := w', tc_delivered := tc_delivered c \<union> confirmed_ids N config res,
      tc_starts := tc_starts c \<union> start_point (tc_tailer c) r1, tc_pending := p\<rparr>)"
proof -
  define q where "q = (if tr_inflight (tc_tailer c) = None then (case res of Inr es \<Rightarrow> es | Inl _ \<Rightarrow> []) else p)"
  let ?c = "c\<lparr>tc_tailer := r1, tc_fs := w1, tc_pending := q, tc_starts := tc_starts c \<union> start_point (tc_tailer c) r1\<rparr>"
  have polled: "tail_run S T F r0 w0 ?c"
    using tail_run.polls [OF run Ws, of session res r1 w1] poll
    unfolding q_def by (cases "tr_inflight (tc_tailer c)") simp_all
  consider (none) "\<forall>e es. res \<noteq> Ok (e # es)" | (some) e es where "res = Ok (e # es)" by blast
  then show ?thesis
  proof cases
    case none
    then have "(r', w') = (r1, w1)" using tick poll by (cases res; auto simp: stream_tick_def split: list.splits)
    moreover from none have "res = Ok [] \<or> (\<exists>e. res = Err e)" by (metis list.exhaust sum.exhaust)
    then have "confirmed_ids N config res = {}" by (auto simp: confirmed_ids_def split: if_splits)
    ultimately show ?thesis by (intro exI [of _ q] tail_run_eq [OF polled]) (cases c, simp)
  next
    case some
    have "tr_inflight (tc_tailer c) = None" using poll_waits [OF poll] some by blast
    then have q: "q = e # es" by (simp add: q_def some)
    show ?thesis
    proof (cases "batch_confirmed N config (e # es)")
      case True
      obtain ares r2 w2 where a: "ack_success S T (ev_token e) (r1, w1) = (ares, (r2, w2))" by (metis prod.exhaust)
      then have "(r', w') = (r2, w2)" using tick poll some True by (simp add: stream_tick_def)
      moreover have d: "tail_run S T F r0 w0 (?c\<lparr>tc_tailer := r2, tc_fs := w2, tc_delivered := tc_delivered c \<union> ev_id ` set q\<rparr>)"
        using tail_run.delivers [OF polled, of ares r2 w2] a q by simp
      ultimately show ?thesis using some True q
        by (intro exI [of _ q] tail_run_eq [OF d]) (cases c, simp add: confirmed_ids_def)
    next
      case False
      then have "nack (r1, w1) = (r', w')" using tick poll some by (simp add: stream_tick_def)
      then have d: "tail_run S T F r0 w0 (?c\<lparr>tc_tailer := r', tc_fs := w'\<rparr>)" using tail_run.releases [OF polled, of r' w'] by simp
      show ?thesis using some False by (intro exI [of _ q] tail_run_eq [OF d]) (cases c, simp add: confirmed_ids_def)
    qed
  qed
qed

lemma tick_run_is_run: "tick_run S T F r0 w0 c \<Longrightarrow> \<exists>p. tail_run S T F r0 w0 (c\<lparr>tc_pending := p\<rparr>)"
proof (induction rule: tick_run.induct)
  case first
  then show ?case using tail_run.start [of r0 S T F w0] by (intro exI [of _ "[]"]) simp
next
  case (ticks c Ws session res r1 w1 N config r' w' fx)
  from ticks.IH obtain p where "tail_run S T F r0 w0 (c\<lparr>tc_pending := p\<rparr>)" ..
  from tick_is_run [OF this ticks.hyps(2-4)] show ?case by simp
next
  case (reopens c r' w')
  from reopens.IH obtain p where p: "tail_run S T F r0 w0 (c\<lparr>tc_pending := p\<rparr>)" ..
  show ?case
    using tail_run.restarts [OF p, of r' w'] reopens.hyps(2) by (intro exI [of _ "[]"]) simp
qed

text \<open>C3: Over every sequence of ticks and restarts, with any answers, any faults and any rotation of the log, an event
  between the place where the tailer began to follow the file and the checkpoint on disk was in a bulk request whose
  answer reported no failed document.\<close>

theorem checkpoint_rests_on_answers:
  assumes "tick_run S T F r0 w0 c" "store_ok r0" "fget w0 (tr_state_path r0) = None" "\<And>s. te_dec T (te_enc T s) = Some s"
    and "fget (tc_fs c) (tr_state_path r0) = Some (te_enc T s)"
  shows "\<exists>b. (ts_dev s, ts_ino s, b) \<in> tc_starts c \<and> b \<le> ts_offset s
    \<and> event_ids T r0 (ts_dev s) (ts_ino s) b (drop b (take (ts_offset s) (F (ts_dev s) (ts_ino s)))) \<subseteq> tc_delivered c"
proof -
  obtain p where "tail_run S T F r0 w0 (c\<lparr>tc_pending := p\<rparr>)" using tick_run_is_run [OF assms(1)] ..
  from run_checkpoint_settled [OF this assms(2-4), of s] assms(5) show ?thesis unfolding settled_def by auto
qed

section \<open>A failed acknowledgement\<close>

lemma read_batch_inflight:
  "read_batch S T W session source s (r, w) = (Inr (e # es), (r', w')) \<Longrightarrow> tr_inflight r' \<noteq> None"
  by (auto simp: read_batch_def Let_def split: sum.splits if_splits option.splits prod.splits)

lemma round_inflight:
  assumes "tail_round S T W session (r, w) = (Inr (Some (e # es)), (r', w'))"
  shows "tr_inflight r' \<noteq> None"
proof -
  from assms obtain current where "poll_current S T W session current (r, w) = (Inr (Some (e # es)), (r', w'))"
    by (auto simp: tail_round_def split: sum.splits if_splits option.splits)
  then obtain source r2 w2 where "poll_source S T W session current source (r2, w2) = (Inr (Some (e # es)), (r', w'))"
    by (auto simp: poll_current_def Let_def st_bind_ok_iff split: option.splits)
  then show ?thesis
    by (auto simp: poll_source_def st_bind_ok_iff split: option.splits if_splits dest: read_batch_inflight)
qed

lemma poll_inflight: "tail_poll S T session Ws rw = Some (Inr (e # es), (r', w')) \<Longrightarrow> tr_inflight r' \<noteq> None"
proof (induction Ws arbitrary: rw)
  case (Cons W Ws)
  obtain r w where rw: "rw = (r, w)" by (cases rw)
  obtain res rw1 where r: "tail_round S T W session (r, w) = (res, rw1)" by (cases "tail_round S T W session (r, w)")
  from Cons r rw show ?case by (cases rw1) (auto split: sum.splits option.splits dest: round_inflight)
qed simp

lemma ack_error_keeps: "ack_success S T token (r, w) = (Inl e, (r', w')) \<Longrightarrow> r' = r"
  by (auto simp: ack_success_def Let_def split: option.splits if_splits prod.splits sum.splits)

lemma idle_ticks:
  assumes "tr_inflight r \<noteq> None"
  shows "list_all (\<lambda>(_, _, _, Ws). Ws \<noteq> []) later \<Longrightarrow> stream_ticks S T later (r, w) = Some ((r, w), [])"
proof (induction later)
  case (Cons tick later)
  obtain N config session Ws where t: "tick = (N, config, session, Ws)" by (cases tick)
  with Cons.prems obtain W Ws' where "Ws = W # Ws'" by (cases Ws) auto
  then have "stream_tick S T N config session Ws (r, w) = Some ((r, w), quiet)"
    using assms by (simp add: stream_tick_def tail_round_def)
  with Cons t show ?case by simp
qed simp

text \<open>C37: When a batch was delivered but its checkpoint cannot be stored, the tick keeps the batch as unacknowledged, and no
  later tick of the process reads the log, sends a request or changes a file, whatever the log and the disk do by then.\<close>

theorem failed_ack_stalls:
  assumes "tail_poll S T session Ws rw = Some (Ok (e # es), rw1)" "batch_confirmed N config (e # es)"
    "ack_success S T (ev_token e) rw1 = (Inl err, rw2)"
  shows "stream_tick S T N config session Ws rw = Some (rw2, snd (ship_documents N config (tick_documents (e # es))))
    \<and> (\<forall>S' later. list_all (\<lambda>(_, _, _, Vs). Vs \<noteq> []) later \<longrightarrow> stream_ticks S' T (later :: nat tick_input list) rw2 = Some (rw2, []))"
proof -
  obtain r1 w1 r2 w2 where rw: "rw1 = (r1, w1)" "rw2 = (r2, w2)" by (cases rw1; cases rw2) auto
  have "tr_inflight r1 \<noteq> None" using poll_inflight assms(1) rw by blast
  then have i: "tr_inflight r2 \<noteq> None" using ack_error_keeps assms(3) rw by blast
  show ?thesis using assms rw by (simp add: stream_tick_def idle_ticks [OF i])
qed

section \<open>Examples\<close>

theorem checkpoint_rests_on_answers_witness:
  "\<exists>c. tick_run steady_sys sample_tail_env (\<lambda>_ _. []) sample_tailer bare_fs c
     \<and> fget (tc_fs c) ''/s/t.json'' = Some (enc_tail_state sample_point) \<and> (\<exists>b. (1, 2, b) \<in> tc_starts c \<and> b \<le> 0)"
proof -
  let ?S = steady_sys and ?T = sample_tail_env and ?F = "\<lambda>_ _. []" and ?r = sample_tailer
  obtain w where w: "tail_poll ?S ?T undefined [sample_world] (?r, bare_fs) = Some (Ok [], (?r\<lparr>tr_state := Some sample_point\<rparr>, w))"
    "fget w ''/s/t.json'' = Some (enc_tail_state sample_point)" using sample_poll by blast
  then have tick: "stream_tick ?S ?T sample_net sample_es undefined [sample_world] (?r, bare_fs)
      = Some ((?r\<lparr>tr_state := Some sample_point\<rparr>, w), quiet)" by (simp add: stream_tick_def del: tail_poll.simps)
  have W: "list_all (world_ok ?F) [sample_world]" by (simp add: world_ok_def sample_world_def)
  have 0: "tick_run ?S ?T ?F ?r bare_fs \<lparr>tc_tailer = ?r, tc_fs = bare_fs, tc_pending = [], tc_delivered = {}, tc_starts = {(d, i, o'). o' = 0}\<rparr>"
    by (rule tick_run.first) (simp_all add: sample_tailer_def)
  obtain c where c: "tick_run ?S ?T ?F ?r bare_fs c" "tc_fs c = w"
    using tick_run.ticks [OF 0 W, of undefined "Ok []" "?r\<lparr>tr_state := Some sample_point\<rparr>" w sample_net sample_es
        "?r\<lparr>tr_state := Some sample_point\<rparr>" w quiet] w(1) tick
    by (auto simp del: tail_poll.simps)
  have p: "tr_state_path ?r = ''/s/t.json''" "te_enc ?T = enc_tail_state" "te_dec ?T = dec_tail_state"
    by (simp_all add: sample_tailer_def sample_tail_env_def)
  have "\<exists>b. (ts_dev sample_point, ts_ino sample_point, b) \<in> tc_starts c \<and> b \<le> ts_offset sample_point"
    using checkpoint_rests_on_answers [OF c(1) sample_store_ok, of sample_point] w(2)
    unfolding p c(2) by (simp add: dec_enc_tail_state del: split_paired_Ex)
  then show ?thesis using c w(2) by (auto simp: sample_point_def simp del: split_paired_Ex)
qed

definition event_line :: bytes where
  "event_line = peer_line ''2026-01-02 03:04:05'' ''2'' ''box'' ''connected''"

definition event_world :: log_world where
  "event_world = \<lparr>lw_stat = (\<lambda>_. Ok (Some (True, 1, 2, 47))), lw_dir = (\<lambda>_. Ok []), lw_read = (\<lambda>_ _. Ok (event_line @ [CHR 0x0A]))\<rparr>"

definition event_libs :: tail_env where
  "event_libs = sample_tail_env\<lparr>tz_naive := (\<lambda>_. Some 0), tz_local := (\<lambda>t. Single t)\<rparr>"

definition created_net :: "nat net" where
  "created_net = sample_net\<lparr>net_send := (\<lambda>_ _. Some \<lparr>rsp_status = 200, rsp_text = None, rsp_json = Some (JObject
     [(''errors'', JBool False), (''items'', JArray [JObject [(''create'', JObject [(''status'', JNumber (PosInt 201))])]])])\<rparr>)\<rparr>"

text \<open>A disk on which every call fails.\<close>

definition broken_sys :: sys where "broken_sys = steady_sys\<lparr>fault := (\<lambda>_. Some 0)\<rparr>"

lemma event_document: "\<exists>d. parse_document L event_line h session None = Some d \<and> doc_stream d = Some (''logs'', ''rigsignal.events'')"
  if "utc_of L ''2026-01-02 03:04:05'' = Some t"
proof -
  have v: "utf8_valid event_line" by (rule ascii_valid) (simp add: event_line_def peer_line_def client_mark_def)
  have t: "timestamp_ok ''2026-01-02 03:04:05''"
    by (simp add: timestamp_ok_def client_mark_def starts_with_def is_cont_def)
  have p: "peer_ok ''2'' ''box''" by (simp_all add: peer_ok_def is_digit_def starts_with_def)
  have c: "parse_transition (trim_end_cr ''connected'') = Some (''connected'', None)" by code_simp
  show ?thesis
    unfolding parse_document_def lossy_valid [OF v] unfolding event_line_def trim_peer_line parse_fields_peer_line [OF t p]
    unfolding c using that by (simp add: doc_stream_def get_def as_str_def)
qed

lemma event_batch: "batch_lines 0 0 (event_line @ [CHR 0x0A]) = [(0, event_line)]"
proof -
  have "CHR 0x0A \<notin> set event_line" by (simp add: event_line_def peer_line_def client_mark_def)
  then have "split_once CHR 0x0A (event_line @ [CHR 0x0A]) = Some (event_line, [])" using split_once_append [of _ event_line "[]"] by blast
  then show ?thesis by (simp add: batch_lines.simps [of 0] batch_lines.simps [of _ "Suc 0"] max_batch_lines_def)
qed

lemma event_poll:
  "\<exists>e r1. tail_poll S event_libs session [event_world] (sample_tailer\<lparr>tr_state := Some sample_point\<rparr>, bare_fs)
      = Some (Ok [e], (r1, bare_fs))
    \<and> tr_state r1 = Some sample_point \<and> tr_inflight r1 = Some (ev_token e)
    \<and> doc_stream (ev_document e) = Some (''logs'', ''rigsignal.events'')"
proof -
  obtain d where d: "parse_document (tail_libs.truncate event_libs) event_line ''h'' session None = Some d"
    "doc_stream d = Some (''logs'', ''rigsignal.events'')"
    using event_document [of "tail_libs.truncate event_libs" 0 "''h''" session]
    by (auto simp: utc_of_def event_libs_def sample_tail_env_def tail_libs.defs)
  have len: "length event_line = 46" by (simp add: event_line_def peer_line_def client_mark_def)
  then have buf: "take read_buffer (event_line @ [CHR 0x0A]) = event_line @ [CHR 0x0A]"
    by (simp add: read_buffer_def max_batch_bytes_def max_line_bytes_def)
  show ?thesis
    using d len
    by (simp add: tail_round_def poll_current_def generation_of_def event_world_def sample_tailer_def sample_point_def same_file_def
        select_source_def poll_source_def st_bind_def read_batch_def buf event_batch Let_def List.map_filter_def line_envelope_def
        line_document_def max_line_bytes_def del: take_append)
qed

lemma created_confirms:
  assumes "doc_stream (ev_document e) = Some (''logs'', ''rigsignal.events'')"
  shows "batch_confirmed created_net sample_es [e]"
proof -
  have "bulk_action (ev_document e) k = Ok (action_of (''logs'', ''rigsignal.events'') k)" for k using assms by (simp add: bulk_action_iff)
  then show ?thesis
    by (simp add: batch_confirmed_def tick_documents_def ship_documents_def build_client_def created_net_def sample_net_def sample_es_def
        sample_libs_def is_success_def ship_outcome_def errors_flag_def get_def as_bool_def as_array_def item_delivered_def list_get_def
        item_action_def bulk_item_success_def as_u64_def as_str_def Let_def)
qed

theorem failed_ack_stalls_witness:
  "\<exists>r w fx. stream_tick broken_sys event_libs created_net sample_es undefined [event_world]
       (sample_tailer\<lparr>tr_state := Some sample_point\<rparr>, bare_fs) = Some ((r, w), fx)
     \<and> stream_ticks steady_sys event_libs (replicate 9 (created_net, sample_es, undefined, [event_world])) (r, w) = Some ((r, w), [])"
proof -
  obtain e r1 where p: "tail_poll broken_sys event_libs undefined [event_world] (sample_tailer\<lparr>tr_state := Some sample_point\<rparr>, bare_fs)
      = Some (Ok [e], (r1, bare_fs))"
    and e: "tr_state r1 = Some sample_point" "tr_inflight r1 = Some (ev_token e)"
      "doc_stream (ev_document e) = Some (''logs'', ''rigsignal.events'')"
    using event_poll by blast
  have "\<exists>err rw2. ack_success broken_sys event_libs (ev_token e) (r1, bare_fs) = (Inl err, rw2)"
    using e by (auto simp: ack_success_def persist_def persist_state_def broken_sys_def with_err_def io_bind_def fs_touch_def Let_def
        split: option.splits)
  then obtain err r2 w2 where a: "ack_success broken_sys event_libs (ev_token e) (r1, bare_fs) = (Inl err, (r2, w2))" by auto
  have l: "list_all (\<lambda>(_, _, _, Vs). Vs \<noteq> []) (replicate 9 (created_net, sample_es, undefined, [event_world]))" by (simp add: numeral_eq_Suc)
  show ?thesis using failed_ack_stalls [OF p created_confirms [OF e(3)] a] l by blast
qed

end
