(* ===== verification/Settings.thy ===== *)
theory Settings
  imports Session Bulk
begin

text \<open>
  Model of the settings of a session: the overlays of \<open>src/src/main.rs\<close> (command line over configuration), of
  \<open>src/src/profiles.rs\<close> (game profiles) and of the module scan of \<open>Game_Scan\<close>, how \<open>deep_merge\<close> combines them when a game
  starts and what becomes of them when it ends, and the session documents that carry them.  The lemmas give the value of
  a merged document at every path, the precedence of the sources, and what a direct switch of games keeps.
\<close>

section \<open>\<open>deep_merge\<close>\<close>

fun deep_merge :: "json \<Rightarrow> json \<Rightarrow> json"
  and merge_members :: "(string \<times> json) list \<Rightarrow> (string \<times> json) list \<Rightarrow> (string \<times> json) list" where
  "deep_merge (JObject base_map) (JObject overlay_map) = JObject (merge_members base_map overlay_map)"
| "deep_merge base overlay = overlay"
| "merge_members base_map [] = base_map"
| "merge_members base_map ((k, v) # rest) =
     merge_members
       (obj_insert k
          (case map_of base_map k of
             Some existing \<Rightarrow> if is_object existing \<and> is_object v then deep_merge existing v else v
           | None \<Rightarrow> v) base_map) rest"

definition add_data_stream :: "json \<Rightarrow> string \<Rightarrow> json" where
  "add_data_stream doc dataset =
     (case doc of
        JObject m \<Rightarrow> JObject (obj_insert ''data_stream''
          (JObject [(''dataset'', JString dataset), (''namespace'', JString ''default''), (''type'', JString ''metrics'')]) m)
      | _ \<Rightarrow> doc)"

section \<open>The sources of settings\<close>

text \<open>The fields of \<open>ProfileSettings\<close>, which are also the arguments of \<open>build_settings_overlay\<close>.\<close>

record settings_fields =
  sf_preset :: "string option"
  sf_upscaler_tech :: "string option"
  sf_upscaler_preset :: "string option"
  sf_frame_gen_tech :: "string option"
  sf_features_active :: "string list option"
  sf_resolution :: "string option"
  sf_vsync :: "string option"
  sf_notes :: "string option"

text \<open>The members of an object that are present, in the order of their keys.\<close>

definition members :: "(string \<times> json option) list \<Rightarrow> (string \<times> json) list" where
  "members ps = concat (map (\<lambda>(k, v). opt_field k v) ps)"

definition wrap_settings :: "(string \<times> json) list \<Rightarrow> json" where
  "wrap_settings m = JObject [(''rigsignal'', JObject [(''settings'', JObject m)])]"

definition render_object :: "settings_fields \<Rightarrow> json" where
  "render_object s =
     JObject (members [(''resolution_output'', map_option JString (sf_resolution s)), (''vsync'', map_option JString (sf_vsync s))])"

definition settings_members :: "string \<Rightarrow> string \<Rightarrow> settings_fields \<Rightarrow> json option \<Rightarrow> json option \<Rightarrow> (string \<times> json option) list" where
  "settings_members confidence source s features upscaler =
     [(''confidence'', Some (JString confidence)),
      (''features_active'', features),
      (''frame_gen'', map_option (\<lambda>t. JObject [(''tech'', JString t)]) (sf_frame_gen_tech s)),
      (''notes'', map_option JString (sf_notes s)),
      (''preset'', map_option JString (sf_preset s)),
      (''render'', if sf_resolution s = None \<and> sf_vsync s = None then None
         else Some (render_object s)),
      (''source'', Some (JString source)),
      (''upscaler'', upscaler)]"

definition upscaler_object :: "settings_fields \<Rightarrow> json" where
  "upscaler_object s =
     JObject (members [(''preset'', map_option JString (sf_upscaler_preset s)), (''tech'', map_option JString (sf_upscaler_tech s))])"

definition build_settings_overlay :: "settings_fields \<Rightarrow> json option" where
  "build_settings_overlay s =
     (if sf_preset s = None \<and> sf_upscaler_tech s = None \<and> sf_frame_gen_tech s = None \<and> sf_features_active s = None
         \<and> sf_resolution s = None \<and> sf_vsync s = None \<and> sf_notes s = None then None
      else Some (wrap_settings (members (settings_members ''high'' ''manual'' s
        (map_option (\<lambda>fs. JArray (map JString fs)) (sf_features_active s))
        (if sf_upscaler_tech s = None \<and> sf_upscaler_preset s = None then None else Some (upscaler_object s))))))"

definition parse_upscaler :: "string \<Rightarrow> string \<times> string option" where
  "parse_upscaler s =
     (case split_once CHR '':'' s of
        Some (tech, preset) \<Rightarrow> (tech, if preset = [] then None else Some preset) | None \<Rightarrow> (s, None))"

record cli_settings =
  cs_upscaler :: "string option"
  cs_preset :: "string option"
  cs_frame_gen :: "string option"
  cs_resolution :: "string option"
  cs_vsync :: "string option"
  cs_notes :: "string option"
  cs_features :: "string option"

text \<open>The flags over the \<open>[session.settings]\<close> table; an upscaler without a name is none.\<close>

definition tier1_settings :: "cli_settings \<Rightarrow> settings_fields \<Rightarrow> settings_fields" where
  "tier1_settings cli cfg =
     (let (tech, preset) =
        (case cs_upscaler cli of
           Some u \<Rightarrow> parse_upscaler u
         | None \<Rightarrow> (case sf_upscaler_tech cfg of Some t \<Rightarrow> t | None \<Rightarrow> [], sf_upscaler_preset cfg))
      in \<lparr>sf_preset = or_else (cs_preset cli) (sf_preset cfg),
          sf_upscaler_tech = (if tech = [] then None else Some tech), sf_upscaler_preset = preset,
          sf_frame_gen_tech = or_else (cs_frame_gen cli) (sf_frame_gen_tech cfg),
          sf_features_active = or_else (map_option (\<lambda>s. map trim (split_on CHR '','' s)) (cs_features cli)) (sf_features_active cfg),
          sf_resolution = or_else (cs_resolution cli) (sf_resolution cfg), sf_vsync = or_else (cs_vsync cli) (sf_vsync cfg),
          sf_notes = or_else (cs_notes cli) (sf_notes cfg)\<rparr>)"

record game_profile =
  gp_name :: string
  gp_steam_app_id :: "nat option"
  gp_aliases :: "string list"
  gp_settings :: settings_fields

text \<open>A profile sets its upscaler only when it names the technique, and no empty list of features.\<close>

definition profile_features :: "settings_fields \<Rightarrow> json option" where
  "profile_features s =
     (case sf_features_active s of
        Some fs \<Rightarrow> if fs = [] then None else Some (JArray (map JString fs)) | None \<Rightarrow> None)"

definition to_overlay :: "game_profile \<Rightarrow> json" where
  "to_overlay profile =
     (let s = gp_settings profile;
          upscaler = (if sf_upscaler_tech s = None then None else Some (upscaler_object s))
      in if sf_preset s = None \<and> sf_upscaler_tech s = None \<and> sf_frame_gen_tech s = None \<and> profile_features s = None
            \<and> sf_resolution s = None \<and> sf_vsync s = None \<and> sf_notes s = None then JNull
         else wrap_settings (members (settings_members ''medium'' ''profile'' s (profile_features s) upscaler)))"

section \<open>Profiles\<close>

text \<open>\<open>exe\<close> is \<open>current_exe\<close>, \<open>toml\<close> the reader of a profile.\<close>

definition profile_dirs :: "host_view \<Rightarrow> string option \<Rightarrow> string list" where
  "profile_dirs H exe =
     (let home = or_else (do { u \<leftarrow> hv_var H ''SUDO_USER''; if u \<noteq> [] then Some (path_join ''/home'' u) else None }) (hv_var H ''HOME'')
      in (case hv_var H ''RIGSIGNAL_PROFILES_DIR'' of Some p \<Rightarrow> if p \<noteq> [] then [p] else [] | None \<Rightarrow> [])
         @ (case home of Some h \<Rightarrow> [path_join h ''.config/rigsignal/profiles''] | None \<Rightarrow> [])
         @ [''/etc/rigsignal/profiles'', ''/usr/share/rigsignal/profiles'']
         @ (case exe \<bind> parent_dir of
              Some dir \<Rightarrow> filter (hv_exists H) [path_join dir ''../profiles'', path_join dir ''../../profiles'']
            | None \<Rightarrow> []))"

definition load_dir :: "host_view \<Rightarrow> (string \<Rightarrow> game_profile option) \<Rightarrow> string \<Rightarrow> game_profile list" where
  "load_dir H toml dir =
     (case hv_dir H dir of
        None \<Rightarrow> []
      | Some names \<Rightarrow>
          List.map_filter (\<lambda>name. if snd (split_name name) \<noteq> Some ''toml'' then None
                                else read_to_string H (path_join dir name) \<bind> toml) names)"

definition load_all :: "host_view \<Rightarrow> string option \<Rightarrow> (string \<Rightarrow> game_profile option) \<Rightarrow> game_profile list" where
  "load_all H exe toml = concat (map (load_dir H toml) (profile_dirs H exe))"

definition name_matches :: "(string \<Rightarrow> string) \<Rightarrow> string \<Rightarrow> game_profile \<Rightarrow> bool" where
  "name_matches lower name_lower p \<longleftrightarrow>
     str_contains (lower (gp_name p)) name_lower \<or> list_ex (\<lambda>a. str_contains (lower a) name_lower) (gp_aliases p)"

definition find_profile :: "(string \<Rightarrow> string) \<Rightarrow> game_profile list \<Rightarrow> target \<Rightarrow> game_profile option" where
  "find_profile lower all target =
     or_else (do { app_id \<leftarrow> tg_steam_app_id target; List.find (\<lambda>p. gp_steam_app_id p = Some app_id) all })
       (List.find (name_matches lower (lower (tg_display_name target))) all)"

section \<open>A game starts and ends\<close>

definition or_empty :: "json option \<Rightarrow> json" where
  "or_empty ov = (case ov of Some v \<Rightarrow> v | None \<Rightarrow> JObject [])"

definition overlay_on_start :: "json option \<Rightarrow> game_profile option \<Rightarrow> json \<Rightarrow> json option \<Rightarrow> json option" where
  "overlay_on_start base profile maps_ov overlay =
     (let profile_ov = (case profile of Some p \<Rightarrow> to_overlay p | None \<Rightarrow> JNull);
          overlay1 = (if profile_ov \<noteq> JNull then Some (deep_merge profile_ov (or_empty base)) else overlay)
      in if maps_ov \<noteq> JNull then Some (deep_merge maps_ov (or_empty overlay1)) else overlay1)"

text \<open>What the session keeps as its overlay after an event; \<open>lower\<close>, \<open>all\<close> and \<open>H\<close> give the profile and the modules.\<close>

definition overlay_event ::
    "(string \<Rightarrow> string) \<Rightarrow> game_profile list \<Rightarrow> host_view \<Rightarrow> json option \<Rightarrow> session_event \<Rightarrow> json option \<Rightarrow> json option" where
  "overlay_event lower all H base event overlay =
     (case event of
        GameStarted target \<Rightarrow>
          overlay_on_start base (find_profile lower all target) (settings_overlay_from_maps H (tg_pid target)) overlay
      | GameEnded _ \<Rightarrow> base
      | NoChange \<Rightarrow> overlay)"

section \<open>Documents\<close>

definition with_settings :: "session_manager \<Rightarrow> json \<Rightarrow> json" where
  "with_settings s doc = (case sm_settings_overlay s of Some settings \<Rightarrow> deep_merge doc settings | None \<Rightarrow> doc)"

definition timestamp_doc :: "string \<Rightarrow> json" where
  "timestamp_doc now_text = JObject [(''@timestamp'', JString now_text)]"

definition build_session_start_doc :: "(string \<Rightarrow> string) \<Rightarrow> string \<Rightarrow> string \<Rightarrow> session_manager \<Rightarrow> json \<Rightarrow> string \<Rightarrow> json" where
  "build_session_start_doc lower version now_text s host_snapshot hostname =
     add_data_stream (with_settings s
       (deep_merge (deep_merge (timestamp_doc now_text) (base_doc lower version s hostname)) host_snapshot)) ''rigsignal.session''"

definition compat_overlay :: "target \<Rightarrow> json" where
  "compat_overlay t =
     (let compat = members [(''dxvk_version'', map_option JString (tg_dxvk_version t)), (''proton_version'', map_option JString (tg_proton_version t))]
      in JObject (if compat = [] then [] else [(''rigsignal'', JObject [(''compatibility'', JObject compat)])]))"

definition build_game_detected_doc ::
    "(string \<Rightarrow> string) \<Rightarrow> string \<Rightarrow> string \<Rightarrow> session_manager \<Rightarrow> json \<Rightarrow> string \<Rightarrow> target \<Rightarrow> json" where
  "build_game_detected_doc lower version now_text s host_snapshot hostname t =
     add_data_stream (with_settings s
       (deep_merge (deep_merge (deep_merge (timestamp_doc now_text) (base_doc lower version s hostname)) host_snapshot)
          (compat_overlay t))) ''rigsignal.session''"

section \<open>The value of a merged document at a path\<close>

fun lookup :: "string list \<Rightarrow> json \<Rightarrow> json option" where
  "lookup [] v = Some v"
| "lookup (k # ks) v = get k v \<bind> lookup ks"

text \<open>
  A schema tells which paths lead to objects.  Values that conform to one have their objects there and nowhere
  else, each with its keys in order.
\<close>

definition conforms :: "(string list \<Rightarrow> bool) \<Rightarrow> json \<Rightarrow> bool" where
  "conforms sch v \<longleftrightarrow>
     (\<forall>p x. lookup p v = Some x \<longrightarrow> (case x of JObject m \<Rightarrow> sch p \<and> sorted_keys m | _ \<Rightarrow> \<not> sch p))"

lemma get_simps [simp]:
  "get k (JObject m) = map_of m k" "get k JNull = None" "get k (JBool b) = None" "get k (JNumber n) = None"
  "get k (JString s) = None" "get k (JArray vs) = None"
  by (simp_all add: get_def)

lemma is_object_simps [simp]:
  "is_object (JObject m)" "\<not> is_object JNull" "\<not> is_object (JBool b)" "\<not> is_object (JNumber n)" "\<not> is_object (JString s)"
  "\<not> is_object (JArray vs)"
  by (simp_all add: is_object_def as_object_def)

lemma get_leaf: "\<not> is_object v \<Longrightarrow> get k v = None"
  by (cases v) simp_all

lemma deep_merge_leaf: "\<not> (is_object a \<and> is_object b) \<Longrightarrow> deep_merge a b = b"
  by (cases a; cases b) simp_all

lemma conforms_get: "conforms sch v \<Longrightarrow> get k v = Some x \<Longrightarrow> conforms (\<lambda>p. sch (k # p)) x"
  unfolding conforms_def by (metis bind.bind_lunit lookup.simps(2))

lemma conforms_object:
  "conforms sch (JObject m) \<longleftrightarrow> sch [] \<and> sorted_keys m \<and> (\<forall>k v. map_of m k = Some v \<longrightarrow> conforms (\<lambda>p. sch (k # p)) v)"
proof
  assume c: "conforms sch (JObject m)"
  then have "lookup [] (JObject m) = Some x \<Longrightarrow> (case x of JObject m \<Rightarrow> sch [] \<and> sorted_keys m | _ \<Rightarrow> \<not> sch [])" for x
    unfolding conforms_def by blast
  with conforms_get [OF c] show "sch [] \<and> sorted_keys m \<and> (\<forall>k v. map_of m k = Some v \<longrightarrow> conforms (\<lambda>p. sch (k # p)) v)" by simp
next
  assume c: "sch [] \<and> sorted_keys m \<and> (\<forall>k v. map_of m k = Some v \<longrightarrow> conforms (\<lambda>p. sch (k # p)) v)"
  have "case x of JObject m \<Rightarrow> sch p \<and> sorted_keys m | _ \<Rightarrow> \<not> sch p" if "lookup p (JObject m) = Some x" for p x
    using that c by (cases p) (auto simp: conforms_def bind_eq_Some_conv)
  then show "conforms sch (JObject m)" unfolding conforms_def by blast
qed

lemma conforms_leaf: "\<not> is_object v \<Longrightarrow> conforms sch v \<longleftrightarrow> \<not> sch []"
proof -
  assume v: "\<not> is_object v"
  have "lookup p v = Some x \<longleftrightarrow> p = [] \<and> x = v" for p x using get_leaf [OF v] by (cases p) auto
  with v show ?thesis unfolding conforms_def by (cases v) auto
qed

lemma conforms_kind: "conforms sch v \<Longrightarrow> is_object v \<longleftrightarrow> sch []"
  by (cases "is_object v") (auto simp: conforms_leaf conforms_object is_object_def as_object_def split: json.splits)

lemma map_of_merge_members:
  "sorted_keys overlay \<Longrightarrow> map_of (merge_members m overlay) k =
     (case map_of overlay k of
        None \<Rightarrow> map_of m k
      | Some v \<Rightarrow> Some (case map_of m k of Some existing \<Rightarrow> deep_merge existing v | None \<Rightarrow> v))"
proof (induction overlay arbitrary: m)
  case (Cons e rest)
  obtain j v where e: "e = (j, v)" by (cases e)
  have rest: "sorted_keys rest" using Cons.prems by (simp add: sorted_keys_def)
  have "map_of rest j = None" using Cons.prems e by (force simp: sorted_keys_def map_of_eq_None_iff)
  then show ?case using Cons.IH [OF rest] e by (auto simp: deep_merge_leaf split: option.splits)
qed simp

lemma sorted_merge_members: "sorted_keys m \<Longrightarrow> sorted_keys (merge_members m overlay)"
  by (induction overlay arbitrary: m) (auto simp: sorted_obj_insert)

lemma conforms_obj: "conforms sch v \<Longrightarrow> sch [] \<Longrightarrow> \<exists>m. v = JObject m"
  using conforms_kind [of sch v] by (cases v) simp_all

lemma lookup_deep_merge:
  "conforms sch a \<Longrightarrow> conforms sch b \<Longrightarrow> lookup p (deep_merge a b) =
     (case lookup p b of
        None \<Rightarrow> lookup p a
      | Some y \<Rightarrow> Some (case lookup p a of Some x \<Rightarrow> deep_merge x y | None \<Rightarrow> y))"
proof (induction p arbitrary: sch a b)
  case (Cons k ks)
  show ?case
  proof (cases "sch []")
    case True
    then obtain ma mb where o: "a = JObject ma" "b = JObject mb" using Cons.prems conforms_obj by blast
    have sorted: "sorted_keys mb" using Cons.prems(2) o by (simp add: conforms_object)
    note law = map_of_merge_members [OF sorted, of ma k]
    show ?thesis
    proof (cases "map_of ma k")
      case None
      then show ?thesis using o law by (simp split: option.splits)
    next
      case (Some x)
      have x: "conforms (\<lambda>p. sch (k # p)) x" using conforms_get [OF Cons.prems(1)] o Some by simp
      show ?thesis
      proof (cases "map_of mb k")
        case None
        with Some o law show ?thesis by simp
      next
        case y: (Some y)
        have "conforms (\<lambda>p. sch (k # p)) y" using conforms_get [OF Cons.prems(2)] o y by simp
        from Cons.IH [OF x this] Some y o law show ?thesis by (simp split: option.splits)
      qed
    qed
  next
    case False
    then have "\<not> is_object a" "\<not> is_object b" using Cons.prems conforms_kind by blast+
    then show ?thesis by (simp add: deep_merge_leaf get_leaf)
  qed
qed simp

lemma conforms_at: "conforms sch v \<Longrightarrow> lookup p v = Some x \<Longrightarrow> (case x of JObject m \<Rightarrow> sch p \<and> sorted_keys m | _ \<Rightarrow> \<not> sch p)"
  by (simp add: conforms_def)

lemma deep_merge_conforms:
  assumes "conforms sch a" "conforms sch b"
  shows "conforms sch (deep_merge a b)"
proof -
  have "case z of JObject m \<Rightarrow> sch p \<and> sorted_keys m | _ \<Rightarrow> \<not> sch p" if z: "lookup p (deep_merge a b) = Some z" for p z
  proof (cases "lookup p b")
    case None
    then show ?thesis using z lookup_deep_merge [OF assms, of p] conforms_at [OF assms(1), of p z] by simp
  next
    case (Some y)
    note y = conforms_at [OF assms(2) Some]
    show ?thesis
    proof (cases "lookup p a")
      case None
      then show ?thesis using z Some y lookup_deep_merge [OF assms, of p] by simp
    next
      case x: (Some x)
      have "z = deep_merge x y" using z Some x lookup_deep_merge [OF assms, of p] by simp
      then show ?thesis using y conforms_at [OF assms(1) x] by (cases x; cases y) (simp_all add: sorted_merge_members)
    qed
  qed
  then show ?thesis by (simp add: conforms_def)
qed

text \<open>The setting at a path, below the document itself: what stands there and is not an object.\<close>

definition setting_at :: "string list \<Rightarrow> json \<Rightarrow> json option" where
  "setting_at p v = (if p = [] then None else lookup p v \<bind> (\<lambda>x. if is_object x then None else Some x))"

lemma setting_at_merge:
  assumes "conforms sch a" "conforms sch b"
  shows "setting_at p (deep_merge a b) = or_else (setting_at p b) (setting_at p a)"
proof (cases "lookup p b")
  case None
  then show ?thesis using lookup_deep_merge [OF assms, of p] by (simp add: setting_at_def)
next
  case (Some y)
  note y = conforms_at [OF assms(2) Some]
  show ?thesis
  proof (cases "lookup p a")
    case None
    then show ?thesis using Some lookup_deep_merge [OF assms, of p] by (simp add: setting_at_def)
  next
    case x: (Some x)
    from conforms_at [OF assms(1) x] y Some x lookup_deep_merge [OF assms, of p] show ?thesis
      by (cases x; cases y) (simp_all add: setting_at_def)
  qed
qed

section \<open>The overlays conform to one schema\<close>

definition settings_schema :: "string list \<Rightarrow> bool" where
  "settings_schema p \<longleftrightarrow>
     p \<in> {[], [''rigsignal''], [''rigsignal'', ''settings''], [''rigsignal'', ''settings'', ''upscaler''],
          [''rigsignal'', ''settings'', ''frame_gen''], [''rigsignal'', ''settings'', ''render'']}"

abbreviation overlay_ok :: "json \<Rightarrow> bool" where "overlay_ok \<equiv> conforms settings_schema"

lemma members_simps [simp]:
  "members [] = []" "members ((k, None) # ps) = members ps" "members ((k, Some v) # ps) = (k, v) # members ps"
  by (simp_all add: members_def opt_field_def)

lemma members_keys: "fst ` set (members ps) \<subseteq> fst ` set ps"
proof (induction ps)
  case (Cons p ps)
  obtain k v where "p = (k, v)" by (cases p)
  with Cons show ?case by (cases v) auto
qed simp

lemma sorted_members: "sorted_wrt (<) (map fst ps) \<Longrightarrow> sorted_keys (members ps)"
proof (induction ps)
  case (Cons p ps)
  obtain k v where p: "p = (k, v)" by (cases p)
  have "\<forall>x \<in> fst ` set ps. k < x" using Cons.prems p by simp
  then have "\<forall>x \<in> fst ` set (members ps). k < x" using members_keys [of ps] by blast
  then show ?case using Cons p by (cases v) (auto simp: sorted_keys_def)
qed (simp add: sorted_keys_def)

lemma map_of_members: "map_of (members ps) k = Some v \<Longrightarrow> (k, Some v) \<in> set ps"
  by (induction ps) (auto simp: members_def opt_field_def split: option.splits if_splits)

lemma conforms_members:
  assumes "sch []" "sorted_wrt (<) (map fst ps)" "\<And>k v. (k, Some v) \<in> set ps \<Longrightarrow> conforms (\<lambda>p. sch (k # p)) v"
  shows "conforms sch (JObject (members ps))"
  using assms sorted_members map_of_members by (fastforce simp: conforms_object)

lemma settings_schema_simps [simp]:
  "settings_schema []" "settings_schema [''rigsignal'']" "settings_schema [''rigsignal'', ''settings'']"
  "settings_schema (''rigsignal'' # ''settings'' # k # p) \<longleftrightarrow> p = [] \<and> k \<in> {''upscaler'', ''frame_gen'', ''render''}"
  by (auto simp: settings_schema_def)

lemma wrap_ok: "conforms (\<lambda>p. settings_schema (''rigsignal'' # ''settings'' # p)) (JObject m) \<Longrightarrow> overlay_ok (wrap_settings m)"
  by (simp add: wrap_settings_def conforms_object sorted_keys_def)

text \<open>Below the settings, a leaf conforms to the empty schema and a section to the one of a flat object.\<close>

lemma Some_eq_map: "Some v = map_option f x \<longleftrightarrow> (\<exists>t. x = Some t \<and> v = f t)"
  by (cases x) auto

lemma leaf_ok: "\<not> is_object v \<Longrightarrow> conforms (\<lambda>p. False) v"
  by (simp add: conforms_leaf)

lemma section_ok:
  assumes "sorted_wrt (<) (map fst ps)" "\<And>j v. (j, Some v) \<in> set ps \<Longrightarrow> \<not> is_object v"
  shows "conforms (\<lambda>p. p = []) (JObject (members ps))"
  by (rule conforms_members) (use assms in \<open>auto simp: leaf_ok\<close>)

lemma upscaler_ok: "conforms (\<lambda>p. p = []) (upscaler_object s)"
  unfolding upscaler_object_def by (rule section_ok) (auto simp: less_char_def Some_eq_map)

lemma render_ok: "conforms (\<lambda>p. p = []) (render_object s)"
  unfolding render_object_def by (rule section_ok) (auto simp: less_char_def Some_eq_map)

lemma tech_ok: "conforms (\<lambda>p. p = []) (JObject [(''tech'', JString t)])"
  using section_ok [of "[(''tech'', Some (JString t))]"] by simp

lemma settings_members_ok:
  assumes "\<And>v. features = Some v \<Longrightarrow> \<not> is_object v" "\<And>v. upscaler = Some v \<Longrightarrow> v = upscaler_object s"
  shows "overlay_ok (wrap_settings (members (settings_members confidence source s features upscaler)))"
proof (intro wrap_ok conforms_members)
  show "settings_schema [''rigsignal'', ''settings'']" by simp
  show "sorted_wrt (<) (map fst (settings_members confidence source s features upscaler))"
    by (simp add: settings_members_def less_char_def)
next
  fix k v
  assume "(k, Some v) \<in> set (settings_members confidence source s features upscaler)"
  then show "conforms (\<lambda>p. settings_schema (''rigsignal'' # ''settings'' # k # p)) v"
    using assms(1) [of v] assms(2) [of v]
    by (auto simp: settings_members_def Some_eq_map leaf_ok upscaler_ok render_ok tech_ok split: if_splits)
qed

lemma build_settings_ok: "build_settings_overlay s = Some v \<Longrightarrow> overlay_ok v"
  by (auto simp: build_settings_overlay_def intro!: settings_members_ok split: if_splits)

lemma to_overlay_ok: "to_overlay p \<noteq> JNull \<Longrightarrow> overlay_ok (to_overlay p)"
  by (auto simp: to_overlay_def Let_def profile_features_def intro!: settings_members_ok split: if_splits option.splits)

lemma maps_overlay_ok:
  assumes "settings_overlay_from_paths paths \<noteq> JNull"
  shows "overlay_ok (settings_overlay_from_paths paths)"
proof -
  let ?f = "map_option (\<lambda>t. JObject [(''tech'', JString t)])"
  let ?m = "[(''confidence'', Some (JString ''medium'')), (''frame_gen'', ?f (detect_frame_gen_from_paths paths)),
     (''source'', Some (JString ''auto_detected'')), (''upscaler'', ?f (detect_upscaler_from_paths paths))]"
  have "settings_overlay_from_paths paths = wrap_settings (members ?m)"
    using assms by (auto simp: settings_overlay_from_paths_def wrap_settings_def Let_def split: if_splits option.splits)
  moreover have "overlay_ok (wrap_settings (members ?m))"
  proof (intro wrap_ok conforms_members)
    show "sorted_wrt (<) (map fst ?m)" by (simp add: less_char_def)
  qed (auto simp: leaf_ok tech_ok Some_eq_map)
  ultimately show ?thesis by simp
qed

section \<open>Precedence\<close>

definition setting_of :: "string list \<Rightarrow> json option \<Rightarrow> json option" where
  "setting_of p ov = ov \<bind> setting_at p"

definition profile_overlay :: "game_profile option \<Rightarrow> json" where
  "profile_overlay profile = (case profile of Some q \<Rightarrow> to_overlay q | None \<Rightarrow> JNull)"

lemma setting_at_null [simp]: "setting_at p JNull = None"
  by (cases p) (simp_all add: setting_at_def)

lemma setting_at_empty [simp]: "setting_at p (JObject []) = None"
  by (cases p) (simp_all add: setting_at_def)

lemma overlay_ok_empty: "overlay_ok (JObject [])"
  by (simp add: conforms_object sorted_keys_def)

lemma or_empty_ok: "(\<And>v. ov = Some v \<Longrightarrow> overlay_ok v) \<Longrightarrow> overlay_ok (or_empty ov)"
  by (cases ov) (simp_all add: or_empty_def overlay_ok_empty)

lemma setting_or_empty: "setting_at p (or_empty ov) = setting_of p ov"
  by (cases ov) (simp_all add: or_empty_def setting_of_def)

lemma profile_overlay_ok: "profile_overlay profile \<noteq> JNull \<Longrightarrow> overlay_ok (profile_overlay profile)"
  by (cases profile) (simp_all add: profile_overlay_def to_overlay_ok)

text \<open>A start in general: the previous overlay counts unless the new game has a profile.\<close>

lemma setting_on_start:
  assumes "\<And>v. base = Some v \<Longrightarrow> overlay_ok v" "\<And>v. overlay = Some v \<Longrightarrow> overlay_ok v" "maps_ov \<noteq> JNull \<Longrightarrow> overlay_ok maps_ov"
  shows "(\<forall>v. overlay_on_start base profile maps_ov overlay = Some v \<longrightarrow> overlay_ok v)
    \<and> setting_of p (overlay_on_start base profile maps_ov overlay) =
      or_else (if profile_overlay profile \<noteq> JNull then or_else (setting_of p base) (setting_at p (profile_overlay profile))
               else setting_of p overlay) (setting_at p maps_ov)"
proof -
  define ov1 where "ov1 = (if profile_overlay profile \<noteq> JNull then Some (deep_merge (profile_overlay profile) (or_empty base)) else overlay)"
  have ok1: "overlay_ok v" if "ov1 = Some v" for v
    using that assms(2) deep_merge_conforms [OF profile_overlay_ok or_empty_ok [OF assms(1)]]
    by (auto simp: ov1_def split: if_splits)
  have s1: "setting_of p ov1 = (if profile_overlay profile \<noteq> JNull then or_else (setting_of p base) (setting_at p (profile_overlay profile))
      else setting_of p overlay)"
    using setting_at_merge [OF profile_overlay_ok or_empty_ok [OF assms(1)], where p = p] by (auto simp: ov1_def setting_of_def [of p "Some _"] setting_or_empty)
  have r: "overlay_on_start base profile maps_ov overlay = (if maps_ov \<noteq> JNull then Some (deep_merge maps_ov (or_empty ov1)) else ov1)"
    by (simp add: overlay_on_start_def ov1_def profile_overlay_def Let_def)
  show ?thesis
    using ok1 s1 r deep_merge_conforms [OF assms(3) or_empty_ok [OF ok1]] setting_at_merge [OF assms(3) or_empty_ok [OF ok1], where p = p]
    by (cases "maps_ov = JNull") (auto simp: setting_of_def [of p "Some _"] setting_or_empty or_else_def split: option.splits)
qed


lemma maps_overlay_event_ok: "settings_overlay_from_maps H pid \<noteq> JNull \<Longrightarrow> overlay_ok (settings_overlay_from_maps H pid)"
  by (simp add: settings_overlay_from_maps_def maps_overlay_ok)

text \<open>C36: When the running game is replaced by one without a profile, every setting found for the first game stays and wins
  over what is found for the second one; after the end of the first game only the settings of the command line,
  the configuration and the second game's modules count.\<close>

theorem switch_keeps_settings:
  assumes "base = build_settings_overlay s" "ov1 = overlay_event lower all H base (GameStarted t1) base"
    "setting_of p ov1 = Some x" "find_profile lower all t2 = None"
  shows "setting_of p (overlay_event lower all H' base (GameStarted t2) ov1) = Some x
    \<and> setting_of p (overlay_event lower all H' base (GameStarted t2) (overlay_event lower all H' base (GameEnded t1) ov1))
      = or_else (setting_of p base) (setting_at p (settings_overlay_from_maps H' (tg_pid t2)))"
proof -
  have base: "overlay_ok v" if "base = Some v" for v using build_settings_ok [of s v] that assms(1) by simp
  have ov1: "overlay_ok v" if "ov1 = Some v" for v
    using setting_on_start [OF base base maps_overlay_event_ok] that assms(2) by (simp add: overlay_event_def)
  have none: "profile_overlay (find_profile lower all t2) = JNull" using assms(4) by (simp add: profile_overlay_def)
  have "setting_of p (overlay_event lower all H' base (GameStarted t2) ov1) = or_else (setting_of p ov1) (setting_at p (settings_overlay_from_maps H' (tg_pid t2)))"
    using setting_on_start [OF base ov1 maps_overlay_event_ok, where p = p and profile = "find_profile lower all t2"] none
    by (simp add: overlay_event_def)
  moreover have "setting_of p (overlay_event lower all H' base (GameStarted t2) base)
      = or_else (setting_of p base) (setting_at p (settings_overlay_from_maps H' (tg_pid t2)))"
    using setting_on_start [OF base base maps_overlay_event_ok, where p = p and profile = "find_profile lower all t2"] none
    by (simp add: overlay_event_def)
  ultimately show ?thesis using assms(3) by (simp add: overlay_event_def)
qed

definition module_host :: "string \<Rightarrow> host_view" where
  "module_host path = sample_host\<lparr>hv_read := (\<lambda>_. Some (''0 r 0 0 0 '' @ path)), hv_lower := (\<lambda>s. s)\<rparr>"

definition no_settings :: settings_fields where
  "no_settings = \<lparr>sf_preset = None, sf_upscaler_tech = None, sf_upscaler_preset = None, sf_frame_gen_tech = None,
     sf_features_active = None, sf_resolution = None, sf_vsync = None, sf_notes = None\<rparr>"

abbreviation upscaler_tech_path :: "string list" where
  "upscaler_tech_path \<equiv> [''rigsignal'', ''settings'', ''upscaler'', ''tech'']"

lemma module_host_dlss:
  "setting_of upscaler_tech_path (overlay_event (\<lambda>s. s) [] (module_host ''/nvngx_dlss'') None (GameStarted (game_at 1)) None) = Some (JString ''dlss'')"
proof -
  let ?l = "''0 r 0 0 0 /nvngx_dlss''"
  have a: "list_all (\<lambda>c. byte c < 0x80) ?l" "list_all (\<lambda>c. byte c < 0x80) ''/nvngx_dlss''" by simp_all
  have five: "(5 :: nat) = Suc (Suc (Suc (Suc (Suc 0))))" by simp
  have "after_pieces 5 (chars ?l) = Some (map of_char ''/nvngx_dlss'')"
    unfolding chars_ascii [OF a(1)] five by (simp add: is_whitespace_def)
  moreover have "trim ''/nvngx_dlss'' = ''/nvngx_dlss''"
    by (rule trim_ascii) (simp_all add: is_whitespace_def)
  ultimately have "mapped_path (\<lambda>s. s) ?l = Some ''/nvngx_dlss''"
    unfolding mapped_path_def using str_of_chars_ascii [OF a(2)] by (simp add: starts_with_def)
  then have "read_mapped_paths (module_host ''/nvngx_dlss'') pid = [''/nvngx_dlss'']" for pid
    using ascii_valid [OF a(1)]
    by (simp add: read_mapped_paths_def module_host_def read_to_string_def lines_def List.map_filter_def)
  then have "settings_overlay_from_maps (module_host ''/nvngx_dlss'') pid
      = JObject [(''rigsignal'', JObject [(''settings'', JObject [(''confidence'', JString ''medium''),
          (''source'', JString ''auto_detected''), (''upscaler'', JObject [(''tech'', JString ''dlss'')])])])]" for pid
    by (simp add: settings_overlay_from_maps_def settings_overlay_from_paths_def detect_upscaler_from_paths_def
        detect_frame_gen_from_paths_def any_path_def str_contains_def starts_with_def)
  then show ?thesis
    by (simp add: overlay_event_def overlay_on_start_def find_profile_def or_empty_def setting_of_def setting_at_def)
qed

theorem switch_keeps_settings_witness:
  "setting_of upscaler_tech_path (overlay_event (\<lambda>s. s) [] (module_host ''/libxess'') None (GameStarted (game_at 2))
     (overlay_event (\<lambda>s. s) [] (module_host ''/nvngx_dlss'') None (GameStarted (game_at 1)) None)) = Some (JString ''dlss'')"
proof -
  have b: "None = build_settings_overlay no_settings" by (simp add: build_settings_overlay_def no_settings_def)
  have f: "find_profile (\<lambda>s. s) [] (game_at 2) = None" by (simp add: find_profile_def or_else_def split: option.split)
  show ?thesis using switch_keeps_settings [OF b refl module_host_dlss f] by blast
qed

section \<open>Routing\<close>

lemma is_object_merge [simp]: "is_object a \<Longrightarrow> is_object b \<Longrightarrow> is_object (deep_merge a b)"
  by (cases a; cases b) simp_all

lemma add_data_stream_routes: "is_object doc \<Longrightarrow> doc_stream (add_data_stream doc dataset) = Some (''metrics'', dataset)"
  by (cases doc) (simp_all add: add_data_stream_def doc_stream_def as_str_def)

text \<open>Every session document names the session stream, whatever the snapshot of the host and the settings hold.\<close>

theorem session_docs_routed:
  assumes "is_object host_snapshot" "\<And>v. sm_settings_overlay s = Some v \<Longrightarrow> is_object v"
  shows "bulk_action (build_session_start_doc lower version now_text s host_snapshot hostname) key
      = Ok (action_of (''metrics'', ''rigsignal.session'') key)
    \<and> bulk_action (build_game_detected_doc lower version now_text s host_snapshot hostname t) key
      = Ok (action_of (''metrics'', ''rigsignal.session'') key)"
proof -
  have w: "is_object (with_settings s doc)" if "is_object doc" for doc
    using that assms(2) by (cases "sm_settings_overlay s") (simp_all add: with_settings_def)
  show ?thesis
    unfolding build_session_start_doc_def build_game_detected_doc_def
    using assms(1) by (simp add: bulk_action_iff add_data_stream_routes w timestamp_doc_def base_doc_def compat_overlay_def Let_def del: deep_merge.simps)
qed

end
