(* ===== verification/Delivery_Health.thy ===== *)
theory Delivery_Health
  imports Bulk Spool
begin

text \<open>
  Model of the delivery tracker of \<open>src/src/main.rs\<close> (\<open>EsDeliveryHealth\<close>) and of \<open>write_output\<close>, which sends documents to the
  spool or in bulk and reports the outcomes of the latter to the tracker.  The tracker keeps the outage in progress
  and the time of its last warning; the lemmas show that its lines are those that the whole history of deliveries
  asks for, and that warnings keep their distance.
\<close>

section \<open>The tracker\<close>

definition es_unreachable_repeat_secs :: nat where "es_unreachable_repeat_secs = 60"

record outage =
  og_since :: nat
  og_attempts :: nat
  og_announced :: bool

record delivery_state =
  eh_outage :: "outage option"
  eh_last_spoke :: "nat option"

datatype health_line = Failing nat nat | Recovered nat

definition default_health :: delivery_state where
  "default_health = \<lparr>eh_outage = None, eh_last_spoke = None\<rparr>"

text \<open>The count is a \<open>u64\<close>.\<close>

definition record_failure :: "nat \<Rightarrow> delivery_state \<Rightarrow> (nat \<times> nat) option \<times> delivery_state" where
  "record_failure now_unix g =
     (let due = (case eh_last_spoke g of None \<Rightarrow> True | Some prev \<Rightarrow> now_unix < prev \<or> es_unreachable_repeat_secs \<le> now_unix - prev);
          o0 = (case eh_outage g of Some o' \<Rightarrow> o' | None \<Rightarrow> \<lparr>og_since = now_unix, og_attempts = 0, og_announced = False\<rparr>);
          o1 = o0\<lparr>og_attempts := (og_attempts o0 + 1) mod 2 ^ 64\<rparr>
      in if \<not> due then (None, g\<lparr>eh_outage := Some o1\<rparr>)
         else (Some (og_since o1, og_attempts o1),
               g\<lparr>eh_outage := Some (o1\<lparr>og_announced := True\<rparr>), eh_last_spoke := Some now_unix\<rparr>))"

definition record_success :: "delivery_state \<Rightarrow> nat option \<times> delivery_state" where
  "record_success g =
     (case eh_outage g of
        Some o' \<Rightarrow> if og_announced o' then Some (og_attempts o') else None
      | None \<Rightarrow> None, g\<lparr>eh_outage := None\<rparr>)"

text \<open>\<open>note_failure\<close> and \<open>note_success\<close> log the line they are due to.\<close>

definition note_failure :: "nat \<Rightarrow> delivery_state \<Rightarrow> health_line option \<times> delivery_state" where
  "note_failure now_unix g = (case record_failure now_unix g of (e, g') \<Rightarrow> (map_option (\<lambda>(s, n). Failing s n) e, g'))"

definition note_success :: "delivery_state \<Rightarrow> health_line option \<times> delivery_state" where
  "note_success g = (case record_success g of (e, g') \<Rightarrow> (map_option Recovered e, g'))"

definition observe :: "nat \<Rightarrow> (ship_error, ship_result) result \<Rightarrow> delivery_state \<Rightarrow> health_line option \<times> delivery_state" where
  "observe now_unix outcome g =
     (case outcome of
        Inr r \<Rightarrow> if sr_failed r = 0 then note_success g else note_failure now_unix g
      | Inl _ \<Rightarrow> note_failure now_unix g)"

fun observe_all :: "(nat \<times> (ship_error, ship_result) result) list \<Rightarrow> delivery_state \<Rightarrow> health_line option list \<times> delivery_state" where
  "observe_all [] g = ([], g)"
| "observe_all ((now_unix, outcome) # rest) g =
     (let (line, g') = observe now_unix outcome g; (ls, g'') = observe_all rest g' in (line # ls, g''))"

section \<open>The output of a document\<close>

text \<open>\<open>write_output\<close>: the tracker sees the outcomes of bulk requests only.\<close>

datatype write_error = SpoolFailed spool_error | ShipFailed ship_error

definition write_output ::
    "sys \<Rightarrow> (json \<Rightarrow> bytes option) \<Rightarrow> 'cert net \<Rightarrow> es_config \<Rightarrow> nat \<Rightarrow> json list \<Rightarrow> 'z spool_state_scheme option \<times> delivery_state
      \<Rightarrow> (write_error, ship_result) result \<times> 'z spool_state_scheme option \<times> delivery_state \<times> health_line option" where
  "write_output S ser N config now_unix docs = (\<lambda>(spool_writer, g).
     case spool_writer of
       Some st \<Rightarrow>
         (case write_docs S ser docs st of
            (Inl e, st') \<Rightarrow> (Err (SpoolFailed e), Some st', g, None)
          | (Inr _, st') \<Rightarrow> (Ok \<lparr>sr_attempted = length docs, sr_succeeded = length docs, sr_failed = 0\<rparr>, Some st', g, None))
     | None \<Rightarrow>
         (let outcome = fst (ship N config docs); (line, g') = observe now_unix outcome g
          in (case outcome of Inl e \<Rightarrow> Err (ShipFailed e) | Inr r \<Rightarrow> Ok r, None, g', line)))"

section \<open>What the history asks for\<close>

text \<open>A history lists the deliveries so far, the last one first: whether every document landed, when, and the line.\<close>

type_synonym delivery_history = "(bool \<times> nat \<times> health_line option) list"

definition landed :: "(ship_error, ship_result) result \<Rightarrow> bool" where
  "landed outcome = (case outcome of Inr r \<Rightarrow> sr_failed r = 0 | Inl _ \<Rightarrow> False)"

definition streak :: "delivery_history \<Rightarrow> delivery_history" where
  "streak hist = takeWhile (\<lambda>(ok, _, _). \<not> ok) hist"

definition warned_at :: "delivery_history \<Rightarrow> nat option" where
  "warned_at hist = map_option (\<lambda>(_, t, _). t) (List.find (\<lambda>(ok, _, l). \<not> ok \<and> l \<noteq> None) hist)"

definition asked_line :: "delivery_history \<Rightarrow> bool \<Rightarrow> nat \<Rightarrow> health_line option" where
  "asked_line hist ok now_unix =
     (if ok then (if \<exists>(_, _, l) \<in> set (streak hist). l \<noteq> None then Some (Recovered (length (streak hist))) else None)
      else if (case warned_at hist of None \<Rightarrow> True | Some t \<Rightarrow> now_unix < t \<or> 60 \<le> now_unix - t)
      then Some (Failing (if streak hist = [] then now_unix else fst (snd (last (streak hist)))) (length (streak hist) + 1))
      else None)"

fun asked_lines :: "delivery_history \<Rightarrow> (nat \<times> (ship_error, ship_result) result) list \<Rightarrow> health_line option list" where
  "asked_lines hist [] = []"
| "asked_lines hist ((now_unix, outcome) # rest) =
     (let l = asked_line hist (landed outcome) now_unix in l # asked_lines ((landed outcome, now_unix, l) # hist) rest)"

text \<open>The state that stands for a history.\<close>

definition tracks :: "delivery_state \<Rightarrow> delivery_history \<Rightarrow> bool" where
  "tracks g hist \<longleftrightarrow>
     eh_outage g = (if streak hist = [] then None
       else Some \<lparr>og_since = fst (snd (last (streak hist))), og_attempts = length (streak hist),
                  og_announced = (\<exists>(_, _, l) \<in> set (streak hist). l \<noteq> None)\<rparr>)
     \<and> eh_last_spoke g = warned_at hist"

lemma streak_simps [simp]:
  "streak [] = []" "streak ((True, t, l) # hist) = []" "streak ((False, t, l) # hist) = (False, t, l) # streak hist"
  by (simp_all add: streak_def)

lemma warned_at_simps [simp]:
  "warned_at [] = None" "warned_at ((True, t, l) # hist) = warned_at hist"
  "warned_at ((False, t, None) # hist) = warned_at hist" "warned_at ((False, t, Some x) # hist) = Some t"
  by (simp_all add: warned_at_def)

lemma streak_length: "length (streak hist) \<le> length hist"
  by (simp add: streak_def length_takeWhile_le)

lemma observe_tracks:
  assumes "tracks g hist" "length hist + 1 < 2 ^ 64" "observe now_unix outcome g = (l, g')"
  shows "l = asked_line hist (landed outcome) now_unix \<and> tracks g' ((landed outcome, now_unix, l) # hist)"
proof (cases "landed outcome")
  case True
  then have "(l, g') = note_success g" using assms(3) by (auto simp: observe_def landed_def split: sum.splits if_splits)
  then show ?thesis using assms(1) True
    by (auto simp: note_success_def record_success_def tracks_def asked_line_def split: if_splits)
next
  case False
  then have f: "(l, g') = note_failure now_unix g" using assms(3) by (auto simp: observe_def landed_def split: sum.splits if_splits)
  have "length (streak hist) + 1 < 2 ^ 64" using streak_length [of hist] assms(2) by simp
  then show ?thesis using f assms(1) False
    by (cases "streak hist = []")
      (auto simp: note_failure_def record_failure_def Let_def tracks_def asked_line_def es_unreachable_repeat_secs_def
        split: if_splits option.splits)
qed

text \<open>C9: For every sequence of deliveries the tracker, which keeps one outage and one time, logs exactly the lines that the
  history asks for: a warning when none was given in the last minute or the clock went back, with the time and
  the number of the failures in a row; and a recovery when a success ends failures that were announced, with their
  number.\<close>

theorem health_lines_follow_history:
  assumes "length calls < 2 ^ 64"
  shows "fst (observe_all calls default_health) = asked_lines [] calls"
proof -
  have "fst (observe_all calls g) = asked_lines hist calls" if "tracks g hist" "length hist + length calls < 2 ^ 64" for g hist
    using that
  proof (induction calls arbitrary: g hist)
    case (Cons call rest)
    obtain t outcome where c: "call = (t, outcome)" by (cases call)
    obtain l g' where o: "observe t outcome g = (l, g')" by (cases "observe t outcome g")
    have s: "l = asked_line hist (landed outcome) t \<and> tracks g' ((landed outcome, t, l) # hist)"
      by (rule observe_tracks [OF Cons.prems(1) _ o]) (use Cons.prems(2) in simp)
    from Cons.IH [OF conjunct2 [OF s]] Cons.prems(2) c o conjunct1 [OF s] show ?case by (simp add: case_prod_unfold Let_def)
  qed simp
  from this [of default_health "[]"] assms show ?thesis by (simp add: tracks_def default_health_def)
qed

theorem health_lines_follow_history_witness:
  "fst (observe_all [(10, Err SendError), (20, Err SendError), (80, Err ParseError),
      (81, Ok \<lparr>sr_attempted = 1, sr_succeeded = 1, sr_failed = 0\<rparr>)] default_health)
   = [Some (Failing 10 1), None, Some (Failing 10 3), Some (Recovered 3)]"
  using health_lines_follow_history [of "[(10, Err SendError), (20, Err SendError), (80, Err ParseError),
      (81, Ok \<lparr>sr_attempted = 1, sr_succeeded = 1, sr_failed = 0\<rparr>)]"]
  by (simp add: asked_line_def landed_def)

end
