(* ===== verification/F64_Round.thy ===== *)
theory F64_Round
  imports Contract "HOL-Library.Log_Nat"
begin

text \<open>
  Rounding to \<open>f64\<close>, as far as the display detector uses it: to nearest, ties to even, with 53 bits and no bounds on the
  exponent, which its operands are far away from.  The lemmas bound the error and give the values that are exact.
\<close>

definition round_half_even :: "rat \<Rightarrow> int" where
  "round_half_even x =
     (let f = \<lfloor>x\<rfloor>; d = x - of_int f in
      if d < 1 / 2 then f else if 1 / 2 < d then f + 1 else if even f then f else f + 1)"

text \<open>The exponent \<open>e\<close> with \<open>2 ^ e \<le> x < 2 ^ (e + 1)\<close>.\<close>

definition exponent_of :: "rat \<Rightarrow> int" where
  "exponent_of x =
     (let (a, b) = quotient_of x; e = bitlen a - bitlen b in if 2 powi e \<le> x then e else e - 1)"

definition round_f64 :: "rat \<Rightarrow> rat" where
  "round_f64 x =
     (if x = 0 then 0
      else let u = 2 powi (exponent_of \<bar>x\<bar> - 52) in sgn x * of_int (round_half_even (\<bar>x\<bar> / u)) * u)"

lemma round_half_even_error: "\<bar>of_int (round_half_even x) - x\<bar> \<le> 1 / 2"
proof -
  have "of_int \<lfloor>x\<rfloor> \<le> x" "x < of_int \<lfloor>x\<rfloor> + 1" by linarith+
  then show ?thesis by (auto simp: round_half_even_def Let_def abs_le_iff)
qed

lemma round_half_even_int [simp]: "round_half_even (of_int n) = n"
  by (simp add: round_half_even_def)

lemma powi_less_exp: "(2 :: rat) powi m < 2 powi n \<Longrightarrow> m < n"
  using power_int_increasing [of n m "2 :: rat"] by (metis leD leI numeral_One one_le_numeral)

lemma bitlen_powi:
  assumes "0 < n"
  shows "(2 :: rat) powi (bitlen n - 1) \<le> of_int n \<and> of_int n < (2 :: rat) powi (bitlen n)"
proof -
  have b: "2 ^ nat (bitlen n - 1) \<le> n \<and> n < 2 ^ nat (bitlen n)" by (rule bitlen_bounds [OF assms])
  have "1 \<le> bitlen n" using assms bitlen_eq_zero_iff [of n] bitlen_nonneg [of n] by linarith
  then have p: "(2 :: rat) powi (bitlen n - 1) = of_int (2 ^ nat (bitlen n - 1))" "(2 :: rat) powi (bitlen n) = of_int (2 ^ nat (bitlen n))"
    by (simp_all add: power_int_def)
  show ?thesis unfolding p of_int_le_iff of_int_less_iff using b .
qed

lemma exponent_of_bounds:
  assumes "0 < x"
  shows "2 powi exponent_of x \<le> x \<and> x < 2 powi (exponent_of x + 1)"
proof -
  obtain a b where q: "quotient_of x = (a, b)" by (cases "quotient_of x")
  have b0: "0 < b" using quotient_of_denom_pos [OF q] .
  have x: "x = of_int a / of_int b" using quotient_of_div [OF q] .
  have a0: "0 < a" using assms x b0 by (simp add: zero_less_divide_iff)
  define e where "e = bitlen a - bitlen b"
  note ab = bitlen_powi [OF a0] bitlen_powi [OF b0]
  have "2 powi (e - 1) < x"
  proof -
    have "(2 :: rat) powi (e - 1) = 2 powi (bitlen a - 1) / 2 powi bitlen b" by (simp add: e_def power_int_diff [symmetric] algebra_simps)
    also have "\<dots> < of_int a / of_int b" using ab b0 a0 by (intro frac_less2) simp_all
    finally show ?thesis by (simp add: x)
  qed
  moreover have "x < 2 powi (e + 1)"
  proof -
    have "of_int a / of_int b < (2 :: rat) powi bitlen a / 2 powi (bitlen b - 1)" using ab a0 by (intro frac_less) simp_all
    also have "\<dots> = 2 powi (e + 1)" by (simp add: e_def power_int_diff [symmetric] algebra_simps)
    finally show ?thesis by (simp add: x)
  qed
  moreover have "exponent_of x = (if 2 powi e \<le> x then e else e - 1)" by (simp add: exponent_of_def q e_def Let_def)
  ultimately show ?thesis by auto
qed

text \<open>The error of rounding is at most half a unit in the last place.\<close>

lemma round_f64_error: "\<bar>round_f64 x - x\<bar> \<le> \<bar>x\<bar> / 2 ^ 53"
proof (cases "x = 0")
  case False
  define e where "e = exponent_of \<bar>x\<bar>"
  define u :: rat where "u = 2 powi (e - 52)"
  have u0: "0 < u" by (simp add: u_def)
  have "2 powi e \<le> \<bar>x\<bar>" using exponent_of_bounds [of "\<bar>x\<bar>"] False by (simp add: e_def)
  moreover have "u / 2 = 2 powi e / 2 ^ 53"
    by (simp add: u_def power_int_diff)
  ultimately have small: "u / 2 \<le> \<bar>x\<bar> / 2 ^ 53" by (simp add: divide_right_mono)
  have r: "round_f64 x = sgn x * of_int (round_half_even (\<bar>x\<bar> / u)) * u" using False by (simp add: round_f64_def u_def e_def Let_def)
  have "\<bar>round_f64 x - x\<bar> = \<bar>of_int (round_half_even (\<bar>x\<bar> / u)) - \<bar>x\<bar> / u\<bar> * u"
  proof -
    have "round_f64 x - x = sgn x * ((of_int (round_half_even (\<bar>x\<bar> / u)) - \<bar>x\<bar> / u) * u)"
      using u0 by (simp add: r algebra_simps abs_mult_sgn)
    then show ?thesis using False u0 by (simp add: abs_mult abs_sgn_eq)
  qed
  also have "\<dots> \<le> 1 / 2 * u" using round_half_even_error u0 by (intro mult_right_mono) simp_all
  finally show ?thesis using small by linarith
qed (simp add: round_f64_def)

lemma round_f64_exact:
  assumes "0 < x" "\<bar>x\<bar> / 2 powi (exponent_of x - 52) = of_int n"
  shows "round_f64 x = x"
proof -
  define u :: rat where "u = 2 powi (exponent_of x - 52)"
  have "0 < u" by (simp add: u_def)
  have "x / u = of_int n" using assms by (simp add: u_def)
  then have "round_half_even (x / u) = n" "x = of_int n * u" using \<open>0 < u\<close> by (simp_all add: field_simps)
  moreover have "round_f64 x = of_int (round_half_even (x / u)) * u" using assms(1) by (simp add: round_f64_def u_def Let_def)
  ultimately show ?thesis by metis
qed

text \<open>Counts below \<open>2 ^ 53\<close> and powers of two are exact.\<close>

lemma round_f64_nat:
  assumes "n < 2 ^ 53"
  shows "round_f64 (of_nat n) = of_nat n"
proof (cases "n = 0")
  case False
  define e where "e = exponent_of (of_nat n)"
  have b: "2 powi e \<le> (of_nat n :: rat)" using exponent_of_bounds [of "of_nat n"] False by (simp add: e_def)
  have "(of_nat n :: rat) < of_nat (2 ^ 53)" using assms unfolding of_nat_less_iff .
  with b have "(2 :: rat) powi e < 2 powi 53" by simp
  then have "e < 53" by (rule powi_less_exp)
  then have "(of_nat n :: rat) / 2 powi (e - 52) = of_nat n * 2 ^ nat (52 - e)"
    by (simp add: power_int_def field_simps)
  then have "\<bar>of_nat n\<bar> / 2 powi (exponent_of (of_nat n) - 52) = (of_int (int n * 2 ^ nat (52 - e)) :: rat)"
    by (simp add: e_def)
  then show ?thesis using False by (intro round_f64_exact [of _ "int n * 2 ^ nat (52 - e)"]) simp_all
qed (simp add: round_f64_def)

lemma round_f64_half: "round_f64 (1 / 2) = 1 / 2"
proof -
  have "exponent_of (1 / 2) = - 1"
  proof -
    note b = exponent_of_bounds [of "1 / 2"]
    have "(2 :: rat) powi exponent_of (1 / 2) < 2 powi 0" "(2 :: rat) powi (- 1) < 2 powi (exponent_of (1 / 2) + 1)" using b by auto
    then have "exponent_of (1 / 2) < 0" "- 1 < exponent_of (1 / 2) + 1"
      by (blast dest: powi_less_exp)+
    then show ?thesis by simp
  qed
  then show ?thesis by (intro round_f64_exact [of _ "2 ^ 52"]) (simp_all add: power_int_def power_divide)
qed

text \<open>A rounded quotient and the half of 1.\<close>

lemma round_f64_below_half:
  assumes "b \<le> 2 ^ 32" "0 < b"
  shows "round_f64 (of_nat a / of_nat b) < 1 / 2 \<longleftrightarrow> 2 * a < b"
proof -
  define q :: rat where "q = of_nat a / of_nat b"
  have err: "\<bar>round_f64 q - q\<bar> \<le> \<bar>q\<bar> / 2 ^ 53" by (rule round_f64_error)
  have q0: "0 \<le> q" by (simp add: q_def)
  have bq: "q * of_nat b = of_nat a" using assms(2) by (simp add: q_def)
  have small: "(of_nat b :: rat) \<le> 2 ^ 32" using assms(1) by (metis of_nat_le_iff of_nat_numeral of_nat_power)
  have step: "1 / 2 ^ 33 \<le> \<bar>q - 1 / 2\<bar>" if "2 * a \<noteq> b"
  proof -
    have "1 \<le> \<bar>2 * int a - int b\<bar>" using that by linarith
    then have "(of_int 1 :: rat) \<le> of_int \<bar>2 * int a - int b\<bar>" unfolding of_int_le_iff .
    then have "1 \<le> \<bar>2 * of_nat a - (of_nat b :: rat)\<bar>" by simp
    also have "\<dots> = \<bar>q - 1 / 2\<bar> * (2 * of_nat b)"
    proof -
      have "2 * of_nat a - of_nat b = (q - 1 / 2) * (2 * of_nat b)" by (simp add: bq [symmetric] algebra_simps)
      then show ?thesis by (simp add: abs_mult)
    qed
    also have "\<dots> \<le> \<bar>q - 1 / 2\<bar> * (2 * 2 ^ 32)" using small by (intro mult_left_mono) simp_all
    finally show ?thesis by simp
  qed
  consider (lt) "2 * a < b" | (eq) "2 * a = b" | (gt) "b < 2 * a" by linarith
  then show ?thesis
  proof cases
    case lt
    have "q < 1 / 2" using lt assms(2) by (simp add: q_def divide_less_eq)
    then have "q \<le> 1 / 2 - 1 / 2 ^ 33" using step lt by (simp add: abs_if split: if_splits)
    moreover have "round_f64 q - q \<le> q / 2 ^ 53" using abs_le_D1 [OF err] q0 by simp
    ultimately have "round_f64 q < 1 / 2" by (simp add: field_simps)
    then show ?thesis using lt by (simp add: q_def)
  next
    case eq
    then have q: "q = 1 / 2" using assms(2) by (auto simp: q_def)
    show ?thesis unfolding q_def [symmetric] q round_f64_half using eq by simp
  next
    case gt
    have "1 / 2 < q" using gt assms(2) by (simp add: q_def less_divide_eq)
    then have "1 / 2 + 1 / 2 ^ 33 \<le> q" using step gt by (simp add: abs_if split: if_splits)
    moreover have "q - round_f64 q \<le> q / 2 ^ 53" using abs_le_D2 [OF err] q0 by simp
    ultimately have "\<not> round_f64 q < 1 / 2" by (simp add: field_simps)
    then show ?thesis using gt by (simp add: q_def)
  qed
qed

text \<open>The rounded difference of two rounded quotients of counts up to \<open>2 ^ 14\<close>.\<close>

lemma rounded_difference_error:
  assumes "0 \<le> x" "x \<le> 2 ^ 14" "0 \<le> y" "y \<le> 2 ^ 14"
  shows "\<bar>\<bar>round_f64 (round_f64 x - round_f64 y)\<bar> - \<bar>x - y\<bar>\<bar> \<le> 1 / 2 ^ 36"
proof -
  have x: "\<bar>round_f64 x - x\<bar> \<le> 1 / 2 ^ 39" using round_f64_error [of x] assms(1,2) by simp
  have y: "\<bar>round_f64 y - y\<bar> \<le> 1 / 2 ^ 39" using round_f64_error [of y] assms(3,4) by simp
  define d where "d = round_f64 x - round_f64 y"
  have "\<bar>d\<bar> \<le> 2 ^ 15" using x y assms unfolding d_def abs_le_iff by simp
  then have d: "\<bar>round_f64 d - d\<bar> \<le> 1 / 2 ^ 38" using round_f64_error [of d] by simp
  have "\<bar>\<bar>round_f64 d\<bar> - \<bar>x - y\<bar>\<bar> \<le> \<bar>round_f64 d - (x - y)\<bar>" by (rule abs_triangle_ineq3)
  also have "\<dots> = \<bar>(round_f64 d - d) + ((round_f64 x - x) - (round_f64 y - y))\<bar>" by (simp add: d_def)
  also have "\<dots> \<le> \<bar>round_f64 d - d\<bar> + \<bar>(round_f64 x - x) - (round_f64 y - y)\<bar>" by (rule abs_triangle_ineq)
  also have "\<dots> \<le> \<bar>round_f64 d - d\<bar> + (\<bar>round_f64 x - x\<bar> + \<bar>round_f64 y - y\<bar>)" by (intro add_left_mono abs_triangle_ineq4)
  also have "\<dots> \<le> 1 / 2 ^ 38 + (1 / 2 ^ 39 + 1 / 2 ^ 39)" by (intro add_mono d x y)
  also have "\<dots> \<le> 1 / 2 ^ 36" by simp
  finally show ?thesis by (simp add: d_def)
qed

lemma of_nat_quotient_le:
  assumes "a \<le> m" "1 \<le> b"
  shows "of_nat a / of_nat b \<le> (of_nat m :: rat)"
proof -
  have "a \<le> m * b" using mult_le_mono [OF assms] by simp
  then have "(of_nat a :: rat) \<le> of_nat m * of_nat b" by (metis of_nat_le_iff of_nat_mult)
  then show ?thesis using assms(2) by (simp add: divide_le_eq)
qed

end
