(* ===== verification/D6_Display.thy ===== *)
theory D6_Display
  imports F64_Round Paths Lossy
begin

text \<open>
  Model of \<open>src/src/detectors/d6.rs\<close>, the display detector: the reader of Gamescope's mode overrides, the checks of an
  override against the connectors and the choice of the finding that is reported.  Arithmetic on \<open>f64\<close> is that of
  \<open>F64_Round\<close>; the texts and the parser of numbers and the JSON reader and writer of the captured state are parameters.
  A finite \<open>f64\<close> is its rational number, so both zeros are 0.
\<close>

section \<open>Data\<close>

record mode_override =
  mo_line_number :: nat
  mo_raw_line :: string
  mo_key :: string
  mo_width :: nat
  mo_height :: nat
  mo_hz :: rat

type_synonym dims = "nat \<times> nat"

definition resolution :: "mode_override \<Rightarrow> dims" where
  "resolution o' = (mo_width o', mo_height o')"

definition dims_text :: "dims \<Rightarrow> string" where
  "dims_text r = show_nat (fst r) @ ''x'' @ show_nat (snd r)"

record connector =
  cn_name :: string
  cn_status :: string
  cn_edid_bytes :: nat
  cn_modes :: "string list"
  cn_active_mode :: "string option"
  cn_enabled :: "string option"
  cn_dpms :: "string option"

record gamescope_control =
  gc_connector_name :: string
  gc_display_make :: string
  gc_display_model :: string
  gc_valid_refresh_rates :: "rat list"

record drm_state =
  dr_connectors :: "connector list"
  dr_control :: gamescope_control
  dr_collection_notes :: "string list"

text \<open>\<open>Result::map_err\<close>\<close>

definition map_err :: "('e \<Rightarrow> 'f) \<Rightarrow> ('e, 'a) result \<Rightarrow> ('f, 'a) result" where
  "map_err f r = (case r of Inl e \<Rightarrow> Inl (f e) | Inr a \<Rightarrow> Inr a)"

lemma map_err_simps [simp]: "map_err f (Inl e) = Inl (f e)" "map_err f (Inr a) = Inr a"
  by (simp_all add: map_err_def)

text \<open>
  \<open>v_parse\<close> is \<open>str::parse::<f64>\<close>, \<open>v_text\<close> the text of a number, \<open>v_three\<close> the one with three decimals, \<open>v_debug\<close> that of
  a list; \<open>v_dec\<close> and \<open>v_enc\<close> are \<open>serde_json\<close> on \<open>DrmState\<close>, with the text of their error.
\<close>

record d6_env =
  v_now :: string
  v_parse :: "string \<Rightarrow> f64 option"
  v_text :: "rat \<Rightarrow> string"
  v_three :: "rat \<Rightarrow> string"
  v_debug :: "rat list \<Rightarrow> string"
  v_dec :: "string \<Rightarrow> (string, drm_state) result"
  v_enc :: "drm_state \<Rightarrow> (string, string) result"

definition d6_contract :: detector_contract where
  "d6_contract = \<lparr>dc_detector_id = ''D6'', dc_rule_version = ''d6.2'', dc_error_prefix = ''D6''\<rparr>"

definition d6_diagnosis ::
    "d6_env \<Rightarrow> disposition \<Rightarrow> string \<Rightarrow> rat \<Rightarrow> string \<Rightarrow> string list \<Rightarrow> string \<Rightarrow> string list \<Rightarrow> string \<Rightarrow> string option
      \<Rightarrow> (string, outcome) result" where
  "d6_diagnosis E disp verdict confidence basis evidence plain_language fixes falsifier host =
     and_then (build (v_now E) d6_contract
        \<lparr>df_disposition = disp, df_verdict = verdict, df_confidence = Finite confidence, df_confidence_basis = basis,
         df_evidence = evidence, df_plain_language = plain_language, df_suggested_fixes = fixes, df_falsifier = falsifier,
         df_supported_scope = [''Gamescope modes.cfg overrides mapped to connected external DRM connectors.''],
         df_missing_evidence = [], df_nearest_alternative = ''A display-side issue unrelated to a Gamescope mode override.'',
         df_host = host\<rparr>) (\<lambda>d. Ok (Diagnosis d))"

definition external_evidence_limit :: nat where "external_evidence_limit = 1024"
definition external_line_limit :: nat where "external_line_limit = 4096"

definition area_ratio_max :: rat where "area_ratio_max = 1 / 2"
definition aspect_tolerance :: rat where "aspect_tolerance = 3602879701896397 / 72057594037927936"
definition conf_invalid :: rat where "conf_invalid = 8106479329266893 / 9007199254740992"
definition conf_degraded :: rat where "conf_degraded = 7656119366529843 / 9007199254740992"
definition conf_none :: rat where "conf_none = 3152519739159347 / 4503599627370496"

section \<open>Resolutions and connectors\<close>

definition parse_resolution :: "string \<Rightarrow> dims option" where
  "parse_resolution v =
     do { (width, rest) \<leftarrow> split_once CHR ''x'' (dropWhile (\<lambda>c. \<not> is_digit c) v);
          w \<leftarrow> parse_u32 width;
          h \<leftarrow> parse_u32 (takeWhile is_digit rest);
          if 0 < w \<and> 0 < h then Some (w, h) else None }"

definition sanitize_external :: "string \<Rightarrow> string" where
  "sanitize_external v = str_of_chars (take external_evidence_limit (filter (\<lambda>c. \<not> is_control c) (chars v)))"

definition orientation_normalize :: "dims \<Rightarrow> dims" where
  "orientation_normalize r = (max (fst r) (snd r), min (fst r) (snd r))"

definition area :: "dims \<Rightarrow> rat" where
  "area r = round_f64 (of_nat (fst r) * of_nat (snd r))"

definition aspect :: "dims \<Rightarrow> rat" where
  "aspect r = round_f64 (of_nat (fst r) / of_nat (snd r))"

definition area_ratio :: "dims \<Rightarrow> dims \<Rightarrow> rat" where
  "area_ratio r preferred = round_f64 (area r / area preferred)"

definition aspect_delta :: "dims \<Rightarrow> dims \<Rightarrow> rat" where
  "aspect_delta r preferred = \<bar>round_f64 (aspect r - aspect preferred)\<bar>"

definition card_connector_short_name :: "string \<Rightarrow> string" where
  "card_connector_short_name name =
     (case split_once CHR ''-'' name of
        Some (crd, rest) \<Rightarrow>
          (case strip_prefix ''card'' crd of
             Some index \<Rightarrow> if index \<noteq> [] \<and> list_all is_digit index then rest else name
           | None \<Rightarrow> name)
      | None \<Rightarrow> name)"

definition connector_short_name :: "connector \<Rightarrow> string" where
  "connector_short_name c = card_connector_short_name (cn_name c)"

definition is_connected_external :: "connector \<Rightarrow> bool" where
  "is_connected_external c \<longleftrightarrow>
     cn_status c = ''connected'' \<and> 0 < cn_edid_bytes c \<and> \<not> starts_with ''eDP'' (connector_short_name c)"

definition mode_set :: "connector \<Rightarrow> dims list" where
  "mode_set c = List.map_filter parse_resolution (cn_modes c)"

definition preferred_resolution :: "connector \<Rightarrow> dims option" where
  "preferred_resolution c = (case cn_modes c of [] \<Rightarrow> None | mode # _ \<Rightarrow> parse_resolution mode)"

definition internal_native_resolutions :: "drm_state \<Rightarrow> dims list" where
  "internal_native_resolutions s =
     map orientation_normalize
       (List.map_filter preferred_resolution (filter (\<lambda>c. starts_with ''eDP'' (connector_short_name c)) (dr_connectors s)))"

section \<open>\<open>modes.cfg\<close>\<close>

text \<open>\<open>rsplit_once(':')\<close>\<close>

definition rsplit_colon :: "string \<Rightarrow> (string \<times> string) option" where
  "rsplit_colon s = map_option (\<lambda>i. (take i s, drop (i + 1) s)) (rposition (\<lambda>c. c = CHR '':'') s)"

definition parse_mode :: "d6_env \<Rightarrow> string \<Rightarrow> (string \<times> dims \<times> rat) option" where
  "parse_mode E line =
     do { (key, mode) \<leftarrow> rsplit_colon line;
          (res, hz_text) \<leftarrow> split_once CHR ''@'' mode;
          r \<leftarrow> parse_resolution res;
          word \<leftarrow> (case split_whitespace hz_text of [] \<Rightarrow> None | w # _ \<Rightarrow> Some w);
          hz \<leftarrow> v_parse E word;
          (case hz of
             Finite q \<Rightarrow> if 0 < q \<and> key \<noteq> [] then Some (key, r, q) else None
           | _ \<Rightarrow> None) }"

text \<open>One line with its number from 1: nothing, an override, or a note.\<close>

datatype cfg_line = Blank | Entry mode_override | Note string

definition cfg_line_of :: "d6_env \<Rightarrow> nat \<Rightarrow> string \<Rightarrow> cfg_line" where
  "cfg_line_of E number raw =
     (let line = trim raw in
      if line = [] then Blank
      else if external_line_limit < length raw then Note (''modes.cfg line '' @ show_nat number @ '': ignored oversized line'')
      else case parse_mode E line of
        Some (key, r, hz) \<Rightarrow>
          Entry \<lparr>mo_line_number = number, mo_raw_line = sanitize_external raw, mo_key = sanitize_external key,
                 mo_width = fst r, mo_height = snd r, mo_hz = hz\<rparr>
      | None \<Rightarrow> Note (''modes.cfg line '' @ show_nat number @ '': ignored unparsable line: '' @ sanitize_external raw))"

definition no_override_note :: string where
  "no_override_note = ''modes.cfg: no override present (file empty)''"

definition cfg_entries :: "cfg_line list \<Rightarrow> mode_override list" where
  "cfg_entries ls = List.map_filter (\<lambda>l. case l of Entry o' \<Rightarrow> Some o' | _ \<Rightarrow> None) ls"

definition cfg_notes :: "cfg_line list \<Rightarrow> string list" where
  "cfg_notes ls = List.map_filter (\<lambda>l. case l of Note n \<Rightarrow> Some n | _ \<Rightarrow> None) ls"

definition parse_modes_cfg :: "d6_env \<Rightarrow> string \<Rightarrow> (string, mode_override list \<times> string list) result" where
  "parse_modes_cfg E contents =
     (let ls = map (\<lambda>(i, raw). cfg_line_of E i raw) (enumerate 1 (lines contents));
          nonblank = length (filter (\<lambda>l. l \<noteq> Blank) ls)
      in if cfg_entries ls = [] \<and> 0 < nonblank then Err ''modes.cfg contains only unparsable nonblank lines''
         else Ok (cfg_entries ls, cfg_notes ls @ (if cfg_entries ls = [] \<and> nonblank = 0 then [no_override_note] else [])))"

section \<open>The checks of an override\<close>

definition find_gamescope_connector :: "drm_state \<Rightarrow> mode_override \<Rightarrow> connector option" where
  "find_gamescope_connector s o' =
     (if trim (gc_display_make (dr_control s) @ '' '' @ gc_display_model (dr_control s)) = mo_key o'
      then List.find (\<lambda>c. connector_short_name c = gc_connector_name (dr_control s)) (dr_connectors s)
      else None)"

definition line_note :: "mode_override \<Rightarrow> string" where
  "line_note o' = ''modes.cfg line '' @ show_nat (mo_line_number o') @ '': '' @ mo_raw_line o'"

definition invalid_mode :: "mode_override \<Rightarrow> connector \<Rightarrow> dims option \<Rightarrow> string list option" where
  "invalid_mode o' c active =
     (let missing = (if resolution o' \<notin> set (mode_set c) then [''pinned '' @ dims_text (resolution o')] else [])
                  @ (case active of Some a \<Rightarrow> if a \<notin> set (mode_set c) then [''active '' @ dims_text a] else [] | None \<Rightarrow> [])
      in if missing = [] then None
         else Some [line_note o',
           cn_name c @ '': '' @ join_with '', '' missing
             @ '' not present in resolution-only sysfs modes; Hz cannot be validated from /sys/class/drm modes data''])"

definition degraded_branches :: "d6_env \<Rightarrow> mode_override \<Rightarrow> dims \<Rightarrow> drm_state \<Rightarrow> string list" where
  "degraded_branches E o' preferred s =
     (let pinned = orientation_normalize (resolution o');
          ratio = area_ratio (resolution o') preferred; delta = aspect_delta (resolution o') preferred
      in (if pinned \<in> set (internal_native_resolutions s)
          then [''pinned '' @ dims_text (resolution o') @ '' equals orientation-normalized internal-panel native '' @ dims_text pinned]
          else [])
         @ (if resolution o' \<noteq> preferred \<and> ratio < area_ratio_max \<and> aspect_tolerance < delta
            then [''pinned area ratio '' @ v_three E ratio @ '' < 0.5 and aspect delta '' @ v_three E delta
                    @ '' > 0.05 versus preferred '' @ dims_text preferred]
            else []))"

definition active_note :: "mode_override \<Rightarrow> connector \<Rightarrow> dims option \<Rightarrow> string list" where
  "active_note o' c active =
     (case cn_active_mode c of
        None \<Rightarrow> []
      | Some mode \<Rightarrow>
          [cn_name c @ '': active_mode '' @ mode
             @ (if active = Some (resolution o') then '' agrees with pinned '' else '' differs from pinned '')
             @ dims_text (resolution o')])"

definition refresh_note :: "d6_env \<Rightarrow> mode_override \<Rightarrow> drm_state \<Rightarrow> string list" where
  "refresh_note E o' s =
     (let rates = gc_valid_refresh_rates (dr_control s) in
      if rates \<noteq> [] \<and> \<not> list_ex (\<lambda>rate. \<bar>round_f64 (rate - mo_hz o')\<bar> < 1 / 2 ^ 52) rates
      then [''gamescope_control.valid_refresh_rates='' @ v_debug E rates @ '' diverges from pinned refresh '' @ v_text E (mo_hz o')]
      else [])"

definition degraded_mode :: "d6_env \<Rightarrow> mode_override \<Rightarrow> connector \<Rightarrow> drm_state \<Rightarrow> dims option \<Rightarrow> (rat \<times> string list) option" where
  "degraded_mode E o' c s active =
     do { preferred \<leftarrow> preferred_resolution c;
          let branches = degraded_branches E o' preferred s;
          if branches = [] then None
          else Some (if 2 \<le> length branches then conf_invalid else conf_degraded,
            [line_note o', cn_name c @ '': preferred resolution is '' @ dims_text preferred @ '' (first sysfs mode)'']
            @ active_note o' c active
            @ map (\<lambda>branch. cn_name c @ '': degraded branch: '' @ branch) branches
            @ refresh_note E o' s) }"

definition plain_bad :: "d6_env \<Rightarrow> mode_override \<Rightarrow> connector \<Rightarrow> string" where
  "plain_bad E o' c =
     ''Your display is being driven at '' @ dims_text (resolution o') @ ''@'' @ v_text E (mo_hz o') @ '' while '' @ cn_name c @ '' prefers ''
     @ (case preferred_resolution c of Some r \<Rightarrow> dims_text r | None \<Rightarrow> ''the display native/preferred mode'')
     @ ''. This driven-vs-native mismatch points to a stale gamescope mode override in modes.cfg. A reboot won't help because this is a home-dir config, not an EDID cache.''"

section \<open>The diagnosis\<close>

definition no_override_outcome :: "d6_env \<Rightarrow> string list \<Rightarrow> string option \<Rightarrow> (string, outcome) result" where
  "no_override_outcome E evidence host =
     d6_diagnosis E NonFinding ''ok'' conf_none ''No modes.cfg override was present, so D6 has no mode pin to validate.'' evidence
       ''No gamescope display mode override is present.'' []
       ''A parsed gamescope mode override would cause D6 to validate it against DRM state.'' host"

record d6_finding =
  fd_override :: mode_override
  fd_connector :: connector
  fd_verdict :: string
  fd_confidence :: rat
  fd_evidence :: "string list"

record d6_scan =
  sc_evidence :: "string list"
  sc_best :: "d6_finding option"
  sc_mapped :: bool
  sc_ok_notes :: "string list"

definition ok_note :: "mode_override \<Rightarrow> connector \<Rightarrow> string" where
  "ok_note o' c =
     (case preferred_resolution c of
        Some preferred \<Rightarrow>
          if preferred \<noteq> resolution o'
          then line_note o' @ '' -- below preferred '' @ dims_text preferred @ '' but aspect/native checks are legitimate''
          else line_note o' @ '' -- pinned mode matches preferred resolution''
      | None \<Rightarrow> line_note o' @ '' -- pinned mode matches preferred resolution'')"

definition check_override :: "d6_env \<Rightarrow> drm_state \<Rightarrow> mode_override \<Rightarrow> d6_scan \<Rightarrow> d6_scan" where
  "check_override E s o' a =
     (case find_gamescope_connector s o' of
        Some c \<Rightarrow>
          if \<not> is_connected_external c
          then a\<lparr>sc_evidence := sc_evidence a @ [line_note o' @ '' -- display not currently connected; cannot validate'']\<rparr>
          else
            (let active = cn_active_mode c \<bind> parse_resolution; a1 = a\<lparr>sc_mapped := True\<rparr> in
             case invalid_mode o' c active of
               Some bad \<Rightarrow>
                 if sc_best a1 = None
                 then a1\<lparr>sc_best := Some \<lparr>fd_override = o', fd_connector = c, fd_verdict = ''mode-override-invalid'',
                                        fd_confidence = conf_invalid, fd_evidence = bad\<rparr>\<rparr>
                 else a1
             | None \<Rightarrow>
                 (case degraded_mode E o' c s active of
                    Some (confidence, bad) \<Rightarrow>
                      if (case sc_best a1 of None \<Rightarrow> True | Some b \<Rightarrow> fd_confidence b < confidence)
                      then a1\<lparr>sc_best := Some \<lparr>fd_override = o', fd_connector = c, fd_verdict = ''mode-override-degraded'',
                                             fd_confidence = confidence, fd_evidence = bad\<rparr>\<rparr>
                      else a1
                  | None \<Rightarrow> a1\<lparr>sc_ok_notes := sc_ok_notes a1 @ [ok_note o' c]\<rparr>))
      | None \<Rightarrow> a\<lparr>sc_evidence := sc_evidence a @ [line_note o' @ '' -- display not currently connected; cannot validate'']\<rparr>)"

definition finding_outcome :: "d6_env \<Rightarrow> d6_finding \<Rightarrow> string list \<Rightarrow> string option \<Rightarrow> (string, outcome) result" where
  "finding_outcome E b evidence host =
     d6_diagnosis E Finding (fd_verdict b) (fd_confidence b)
       (if fd_verdict b = ''mode-override-invalid''
        then ''Pinned or active resolution is absent from the selected connector's resolution-only sysfs modes.''
        else ''One or more D6 degraded-mode branches matched the pinned mode against preferred and internal-panel evidence.'')
       (evidence @ fd_evidence b) (plain_bad E (fd_override b) (fd_connector b))
       [''Correct or delete the offending line in ~/.config/gamescope/modes.cfg.'', ''Run: systemctl --user restart gamescope-session.target'']
       ''The finding is falsified if a fresh DRM snapshot shows the pinned/active resolution valid and neither degraded branch matches.''
       host"

definition validated_outcome :: "d6_env \<Rightarrow> string list \<Rightarrow> string option \<Rightarrow> (string, outcome) result" where
  "validated_outcome E evidence host =
     d6_diagnosis E NonFinding ''ok'' (3 / 4)
       ''All mapped overrides validated against the current connector modes and D6 degraded-mode checks.'' evidence
       ''Mapped gamescope display overrides validate against the current DRM snapshot.'' []
       ''A connector snapshot that makes an override absent or triggers a D6 degraded branch would falsify this validation.'' host"

definition unmapped_outcome :: "string list \<Rightarrow> outcome" where
  "unmapped_outcome evidence =
     NotApplicable (new_not_applicable ''Parsed overrides did not map to a connected, usable external display.'' evidence)"

definition diagnose_inputs :: "d6_env \<Rightarrow> string \<Rightarrow> string \<Rightarrow> string option \<Rightarrow> (string, outcome) result" where
  "diagnose_inputs E modes_cfg drm_text host =
     and_then (parse_modes_cfg E modes_cfg) (\<lambda>(overrides, evidence).
     and_then (map_err (\<lambda>e. ''malformed DRM-state JSON: '' @ e) (v_dec E drm_text)) (\<lambda>s.
       if overrides = [] then no_override_outcome E evidence host
       else let a = fold (check_override E s) overrides
                      \<lparr>sc_evidence = evidence @ dr_collection_notes s, sc_best = None, sc_mapped = False, sc_ok_notes = []\<rparr>
            in if \<not> sc_mapped a then Ok (unmapped_outcome (sc_evidence a))
               else case sc_best a of
                 Some b \<Rightarrow> finding_outcome E b (sc_evidence a) host
               | None \<Rightarrow> validated_outcome E (sc_evidence a @ sc_ok_notes a) host))"

end
