(* ===== verification/D6_Live.thy ===== *)
theory D6_Live
  imports D6_Display
begin

text \<open>
  The files and the live collection of \<open>src/src/detectors/d6.rs\<close>: bounded reads of regular files, the offline
  diagnosis, the run of \<open>gamescopectl\<close> with its two reader threads and its time limit, the connectors of
  \<open>/sys/class/drm\<close> and the command line.
\<close>

section \<open>Files\<close>

text \<open>
  An opened file: its metadata (is it a regular file), the bytes it gives, and the error that ends them, if one does.
\<close>

record open_file =
  of_regular :: "(string, bool) result"
  of_bytes :: string
  of_error :: "string option"

text \<open>\<open>take(n)\<close> and \<open>read_to_end\<close>\<close>

definition read_up_to :: "nat \<Rightarrow> open_file \<Rightarrow> (string, string) result" where
  "read_up_to n f =
     (if n \<le> length (of_bytes f) then Ok (take n (of_bytes f))
      else case of_error f of Some e \<Rightarrow> Err e | None \<Rightarrow> Ok (of_bytes f))"

text \<open>
  The state of \<open>run_gamescopectl\<close> as the loop meets it.  One turn of the loop sees the messages that the readers have
  sent (the flag says whether it is that of the standard output), the result of \<open>try_wait\<close>, and the milliseconds since
  the start.  \<open>gr_late\<close> are the messages that come after the last turn; when they run out, a reader still waits
  for the end of its pipe, or \<open>gr_closed\<close> says that both have ended.  \<open>gr_spawn\<close> fails with the text of the error and
  whether it is \<open>NotFound\<close>; the pipes of a child that was started with them are always there.
\<close>

type_synonym reader_message = "bool \<times> (string, string) result"

record exit_status =
  ex_success :: bool
  ex_text :: string

record loop_turn =
  lt_messages :: "reader_message list"
  lt_wait :: "(string, exit_status option) result"
  lt_elapsed :: nat

datatype run_error = RunNotFound | RunFailed string

record gamescope_run =
  gr_spawn :: "(bool \<times> string, unit) result"
  gr_turns :: "loop_turn list"
  gr_late :: "reader_message list"
  gr_closed :: bool

record d6_host =
  h_meta :: "string \<Rightarrow> (string, bool) result"
  h_open :: "string \<Rightarrow> (string, open_file) result"
  h_is_dir :: "string \<Rightarrow> bool"
  h_drm :: "(string, (string, string) result list) result"
  h_home :: "string option"
  h_run :: gamescope_run

definition fixture_file_limit :: nat where "fixture_file_limit = 1024 * 1024"
definition live_file_limit :: nat where "live_file_limit = 64 * 1024"

definition open_regular_file :: "d6_host \<Rightarrow> string \<Rightarrow> (string, open_file) result" where
  "open_regular_file H path =
     and_then (h_meta H path) (\<lambda>regular.
       if \<not> regular then Err ''not a regular file''
       else and_then (h_open H path) (\<lambda>f.
            and_then (of_regular f) (\<lambda>still.
              if \<not> still then Err ''not a regular file'' else Ok f)))"

definition exceeds_limit :: "nat \<Rightarrow> string" where
  "exceeds_limit limit = ''file exceeds '' @ show_nat limit @ ''-byte limit''"

definition d6_read_regular_text :: "d6_host \<Rightarrow> string \<Rightarrow> nat \<Rightarrow> (string, string) result" where
  "d6_read_regular_text H path limit =
     and_then (open_regular_file H path) (\<lambda>f.
     and_then (read_up_to (limit + 1) f) (\<lambda>bytes.
       if limit < length bytes then Err (exceeds_limit limit)
       else if utf8_valid bytes then Ok bytes else Err ''file was not UTF-8''))"

definition regular_file_len :: "d6_host \<Rightarrow> string \<Rightarrow> nat \<Rightarrow> (string, nat) result" where
  "regular_file_len H path limit =
     and_then (open_regular_file H path) (\<lambda>f.
     and_then (read_up_to (limit + 1) f) (\<lambda>bytes.
       if limit < length bytes then Err (exceeds_limit limit) else Ok (length bytes)))"

definition display_diagnose :: "d6_env \<Rightarrow> d6_host \<Rightarrow> string option \<Rightarrow> string \<Rightarrow> string option \<Rightarrow> (string, outcome) result" where
  "display_diagnose E H modes_cfg drm_path host =
     (case modes_cfg of
        None \<Rightarrow> no_override_outcome E [no_override_note] host
      | Some path \<Rightarrow>
          and_then (map_err (\<lambda>e. ''cannot read modes.cfg '' @ from_utf8_lossy path @ '': '' @ e)
                     (d6_read_regular_text H path fixture_file_limit)) (\<lambda>modes.
          and_then (map_err (\<lambda>e. ''cannot read DRM-state '' @ from_utf8_lossy drm_path @ '': '' @ e)
                     (d6_read_regular_text H drm_path fixture_file_limit)) (\<lambda>drm.
            diagnose_inputs E modes drm host)))"

section \<open>The output of \<open>gamescopectl\<close>\<close>

text \<open>The fields are set by the last line that carries them.\<close>

record ctl_fields =
  cf_connector :: "string option"
  cf_make :: "string option"
  cf_model :: "string option"
  cf_rates :: "rat list option"

definition parse_rates :: "d6_env \<Rightarrow> string \<Rightarrow> rat list" where
  "parse_rates E v =
     List.map_filter
       (\<lambda>word. case v_parse E (trim_matches (\<lambda>c. c = 0x2C) word) of
          Some (Finite q) \<Rightarrow> if 0 < q then Some q else None
        | _ \<Rightarrow> None)
       (split_whitespace v)"

definition ctl_line :: "d6_env \<Rightarrow> string \<Rightarrow> ctl_fields \<Rightarrow> ctl_fields" where
  "ctl_line E raw f =
     (let line = trim raw;
          field = (\<lambda>p. map_option (\<lambda>v. sanitize_external (trim v)) (strip_prefix p line))
      in if external_line_limit < length line then f
         else f\<lparr>cf_connector := or_else (field ''- Connector Name:'') (cf_connector f),
                cf_make := or_else (field ''- Display Make:'') (cf_make f),
                cf_model := or_else (field ''- Display Model:'') (cf_model f),
                cf_rates := or_else (map_option (parse_rates E) (strip_prefix ''- ValidRefreshRates:'' line)) (cf_rates f)\<rparr>)"

definition parse_gamescopectl :: "d6_env \<Rightarrow> string \<Rightarrow> (string, gamescope_control) result" where
  "parse_gamescopectl E stdout =
     (let f = fold (ctl_line E) (lines stdout) \<lparr>cf_connector = None, cf_make = None, cf_model = None, cf_rates = None\<rparr> in
      and_then (ok_or ''gamescopectl output missing Connector Name'' (cf_connector f)) (\<lambda>name.
      and_then (ok_or ''gamescopectl output missing Display Make'' (cf_make f)) (\<lambda>make.
      and_then (ok_or ''gamescopectl output missing Display Model'' (cf_model f)) (\<lambda>model.
      and_then (ok_or ''gamescopectl output missing ValidRefreshRates'' (cf_rates f)) (\<lambda>rates.
        if name = [] \<or> make = [] \<or> model = [] \<or> rates = []
        then Err ''gamescopectl output has empty required display fields''
        else Ok \<lparr>gc_connector_name = name, gc_display_make = make, gc_display_model = model,
                 gc_valid_refresh_rates = rates\<rparr>)))))"

section \<open>The run of \<open>gamescopectl\<close>\<close>

definition output_limit :: nat where "output_limit = 256 * 1024"
definition run_timeout_ms :: nat where "run_timeout_ms = 5000"

text \<open>The reader of one pipe: what it sends when its pipe is an \<^typ>\<open>open_file\<close>.\<close>

definition spawn_reader :: "string \<Rightarrow> bool \<Rightarrow> open_file \<Rightarrow> reader_message" where
  "spawn_reader name is_stdout pipe =
     (is_stdout,
      and_then (map_err (\<lambda>e. ''cannot read gamescopectl '' @ name @ '': '' @ e) (read_up_to (output_limit + 1) pipe)) (\<lambda>bytes.
        if length bytes \<le> output_limit then Ok bytes
        else Err (''gamescopectl '' @ name @ '' exceeds '' @ show_nat output_limit @ ''-byte limit'')))"

record run_state =
  rs_stdout :: "string option"
  rs_stderr :: "string option"
  rs_received :: nat

definition store_output :: "bool \<Rightarrow> string \<Rightarrow> run_state \<Rightarrow> run_state" where
  "store_output is_stdout bytes st =
     (if is_stdout then st\<lparr>rs_stdout := Some bytes\<rparr> else st\<lparr>rs_stderr := Some bytes\<rparr>)"

text \<open>The messages that \<open>try_recv\<close> gives: the first error ends the loop.\<close>

fun take_messages :: "reader_message list \<Rightarrow> run_state \<Rightarrow> run_state \<times> (string \<times> reader_message list) option" where
  "take_messages [] st = (st, None)"
| "take_messages ((is_stdout, result) # ms) st =
     (let st1 = st\<lparr>rs_received := rs_received st + 1\<rparr> in
      case result of
        Inr bytes \<Rightarrow> take_messages ms (store_output is_stdout bytes st1)
      | Inl e \<Rightarrow> (st1, Some (e, ms)))"

text \<open>
  The blocking \<open>recv\<close>: a message, an error when both readers are gone, or no return at all.
\<close>

datatype 'a received = Got 'a | Gone | Blocked

definition recv :: "bool \<Rightarrow> reader_message list \<Rightarrow> (reader_message \<times> reader_message list) received" where
  "recv gone ms = (case ms of m # rest \<Rightarrow> Got (m, rest) | [] \<Rightarrow> if gone then Gone else Blocked)"

text \<open>\<open>while received < 2 { let _ = receiver.recv(); received += 1; }\<close>: true when it ends.\<close>

fun drain :: "bool \<Rightarrow> nat \<Rightarrow> reader_message list \<Rightarrow> bool" where
  "drain gone 0 ms = True"
| "drain gone (Suc missing) ms =
     (case recv gone ms of
        Got (_, rest) \<Rightarrow> drain gone missing rest
      | Gone \<Rightarrow> drain gone missing []
      | Blocked \<Rightarrow> False)"

text \<open>The loop that collects the rest of the output after the exit; \<^const>\<open>None\<close> when it never returns.\<close>

fun collect_rest :: "bool \<Rightarrow> nat \<Rightarrow> reader_message list \<Rightarrow> run_state \<Rightarrow> (run_error, run_state) result option" where
  "collect_rest gone 0 ms st = Some (Ok st)"
| "collect_rest gone (Suc missing) ms st =
     (case recv gone ms of
        Got ((is_stdout, Inr bytes), rest) \<Rightarrow>
          collect_rest gone missing rest (store_output is_stdout bytes (st\<lparr>rs_received := rs_received st + 1\<rparr>))
      | Got ((_, Inl e), _) \<Rightarrow> Some (Err (RunFailed e))
      | Gone \<Rightarrow> Some (Err (RunFailed ''gamescopectl output reader stopped unexpectedly''))
      | Blocked \<Rightarrow> None)"

record ctl_output =
  co_status :: exit_status
  co_stdout :: string

definition ended :: "bool \<Rightarrow> run_error \<Rightarrow> (run_error, 'a) result option" where
  "ended returns e = (if returns then Some (Err e) else None)"

text \<open>The messages of the turns that have not been seen and the late ones are what a blocking \<open>recv\<close> waits for.\<close>

definition to_come :: "gamescope_run \<Rightarrow> loop_turn list \<Rightarrow> reader_message list" where
  "to_come G turns = concat (map lt_messages turns) @ gr_late G"

fun run_loop :: "gamescope_run \<Rightarrow> loop_turn list \<Rightarrow> run_state \<Rightarrow> (run_error, ctl_output) result option" where
  "run_loop G [] st = None"
| "run_loop G (t # ts) st =
     (case take_messages (lt_messages t) st of
        (st1, Some (e, rest)) \<Rightarrow>
          ended (drain (gr_closed G) (2 - rs_received st1) (rest @ to_come G ts)) (RunFailed e)
      | (st1, None) \<Rightarrow>
          (case lt_wait t of
             Inl e \<Rightarrow> Some (Err (RunFailed (''cannot wait for gamescopectl: '' @ e)))
           | Inr (Some status) \<Rightarrow>
               map_option (\<lambda>r. and_then r (\<lambda>st2. Ok \<lparr>co_status = status, co_stdout = case_option [] id (rs_stdout st2)\<rparr>))
                 (collect_rest (gr_closed G) (2 - rs_received st1) (to_come G ts) st1)
           | Inr None \<Rightarrow>
               if run_timeout_ms \<le> lt_elapsed t
               then ended (drain (gr_closed G) (2 - rs_received st1) (to_come G ts))
                      (RunFailed ''gamescopectl timed out after 5 seconds'')
               else run_loop G ts st1))"

definition run_gamescopectl :: "gamescope_run \<Rightarrow> (run_error, ctl_output) result option" where
  "run_gamescopectl G =
     (case gr_spawn G of
        Inl (not_found, e) \<Rightarrow>
          Some (Err (if not_found then RunNotFound else RunFailed (''cannot execute gamescopectl: '' @ e)))
      | Inr _ \<Rightarrow> run_loop G (gr_turns G) \<lparr>rs_stdout = None, rs_stderr = None, rs_received = 0\<rparr>)"

section \<open>The live collection\<close>

definition drm_dir :: string where "drm_dir = ''/sys/class/drm''"

definition optional_text :: "d6_host \<Rightarrow> string \<Rightarrow> string \<Rightarrow> string \<Rightarrow> string option \<times> string list" where
  "optional_text H dir name leaf =
     (case d6_read_regular_text H (path_join dir leaf) live_file_limit of
        Inr v \<Rightarrow> (Some (sanitize_external (trim v)), [])
      | Inl e \<Rightarrow> (None, [name @ '': '' @ leaf @ '' metadata unavailable: '' @ e]))"

text \<open>One entry of the directory with its connector, if it is one, and the notes it leaves.\<close>

definition live_connector ::
    "d6_host \<Rightarrow> string \<Rightarrow> string \<Rightarrow> (string, (connector \<times> string list) option) result" where
  "live_connector H wanted entry =
     (let name = from_utf8_lossy entry; dir = path_join drm_dir entry in
      if \<not> starts_with ''card'' name \<or> \<not> str_contains ''-'' name then Ok None
      else if \<not> h_is_dir H dir then Ok None
      else and_then (map_err (\<lambda>e. ''cannot read mandatory status for '' @ name @ '': '' @ e)
                      (d6_read_regular_text H (path_join dir ''status'') live_file_limit)) (\<lambda>raw.
        let status = sanitize_external (trim raw);
            selected = (card_connector_short_name name = wanted \<and> status = ''connected'') in
        and_then
          (if selected
           then and_then (map_err (\<lambda>e. ''cannot read mandatory edid for '' @ name @ '': '' @ e)
                           (regular_file_len H (path_join dir ''edid'') live_file_limit)) (\<lambda>n.
                  if n = 0 then Err (''selected connector '' @ name @ '' has empty mandatory edid'') else Ok n)
           else Ok (case regular_file_len H (path_join dir ''edid'') live_file_limit of Inr n \<Rightarrow> n | Inl _ \<Rightarrow> 0)) (\<lambda>edid_bytes.
        and_then
          (if selected
           then map_err (\<lambda>e. ''cannot read mandatory modes for '' @ name @ '': '' @ e)
                  (d6_read_regular_text H (path_join dir ''modes'') live_file_limit)
           else Ok (case d6_read_regular_text H (path_join dir ''modes'') live_file_limit of Inr v \<Rightarrow> v | Inl _ \<Rightarrow> [])) (\<lambda>modes.
        let (enabled, n1) = optional_text H dir name ''enabled''; (dpms, n2) = optional_text H dir name ''dpms'' in
        Ok (Some (\<lparr>cn_name = name, cn_status = status, cn_edid_bytes = edid_bytes,
                   cn_modes = map sanitize_external (lines modes), cn_active_mode = None, cn_enabled = enabled,
                   cn_dpms = dpms\<rparr>, n1 @ n2))))))"

fun live_connectors ::
    "d6_host \<Rightarrow> string \<Rightarrow> (string, string) result list \<Rightarrow> (string, connector list \<times> string list) result" where
  "live_connectors H wanted [] = Ok ([], [])"
| "live_connectors H wanted (entry # rest) =
     and_then (map_err (\<lambda>e. ''cannot enumerate /sys/class/drm entry: '' @ e) entry) (\<lambda>name.
     and_then (live_connector H wanted name) (\<lambda>found.
     and_then (live_connectors H wanted rest) (\<lambda>(cs, notes).
       Ok (case found of None \<Rightarrow> (cs, notes) | Some (c, n) \<Rightarrow> (c # cs, n @ notes)))))"

definition matching :: "string \<Rightarrow> connector list \<Rightarrow> connector list" where
  "matching wanted cs = filter (\<lambda>c. connector_short_name c = wanted \<and> is_connected_external c) cs"

definition live_modes :: "d6_host \<Rightarrow> string \<times> string list" where
  "live_modes H =
     (case h_home H of
        None \<Rightarrow> ([], [])
      | Some home \<Rightarrow>
          (let path = path_join home ''.config/gamescope/modes.cfg'' in
           case d6_read_regular_text H path live_file_limit of
             Inr modes \<Rightarrow> (modes, [])
           | Inl e \<Rightarrow> ([], [''modes.cfg unavailable at '' @ from_utf8_lossy path @ '': '' @ e])))"

text \<open>\<open>live_outcome\<close> after the run: \<open>output\<close> is what the run returned.\<close>

definition outcome_of_run :: "d6_env \<Rightarrow> d6_host \<Rightarrow> string option \<Rightarrow> (run_error, ctl_output) result \<Rightarrow> (string, outcome) result" where
  "outcome_of_run E H host output =
     (case output of
        Inl RunNotFound \<Rightarrow>
          Ok (NotApplicable (new_not_applicable
            ''gamescopectl is not installed; no Gamescope display session is available.'' [''gamescopectl executable not found'']))
      | Inl (RunFailed e) \<Rightarrow> Err e
      | Inr out \<Rightarrow>
          let txt = co_stdout out; lower = map ascii_lower txt in
          if \<not> utf8_valid txt then Err ''gamescopectl stdout was not UTF-8''
          else if \<not> ex_success (co_status out)
          then (if str_contains ''no gamescope'' lower \<or> str_contains ''no session'' lower
                then Ok (NotApplicable (new_not_applicable ''Gamescope reports no active display session.'' [sanitize_external txt]))
                else Err (''gamescopectl exited with '' @ ex_text (co_status out)))
          else and_then (parse_gamescopectl E txt) (\<lambda>control.
               and_then (map_err (\<lambda>e. ''cannot enumerate /sys/class/drm: '' @ e) (h_drm H)) (\<lambda>entries.
               and_then (live_connectors H (gc_connector_name control) entries) (\<lambda>(cs, notes).
                 if length (matching (gc_connector_name control) cs) = 0
                 then Ok (NotApplicable (new_not_applicable ''No connected usable external connector matches gamescopectl.''
                        [''gamescopectl connector='' @ gc_connector_name control]))
                 else if 1 < length (matching (gc_connector_name control) cs)
                 then Err (''ambiguous connected connector '' @ gc_connector_name control @ '' across GPU cards'')
                 else let (modes, note) = live_modes H in
                   and_then (v_enc E \<lparr>dr_connectors = cs, dr_control = control, dr_collection_notes = notes @ note\<rparr>) (\<lambda>state.
                     diagnose_inputs E modes state host)))))"

definition d6_live_outcome :: "d6_env \<Rightarrow> d6_host \<Rightarrow> string option \<Rightarrow> (string, outcome) result option" where
  "d6_live_outcome E H host = map_option (outcome_of_run E H host) (run_gamescopectl (h_run H))"

definition d6_live_outcome_other :: "(string, outcome) result" where
  "d6_live_outcome_other =
     Ok (NotApplicable (new_not_applicable ''Live D6 collection is only available on Linux.'' [''non-Linux build'']))"

text \<open>\<^const>\<open>None\<close> when the live collection does not return.\<close>

definition d6_run_cli ::
    "texts \<Rightarrow> d6_env \<Rightarrow> d6_host \<Rightarrow> string option \<Rightarrow> string option \<Rightarrow> bool \<Rightarrow> string option \<Rightarrow> (nat \<times> string) option" where
  "d6_run_cli X E H modes_cfg drm_path json host =
     map_option (\<lambda>r. emit X r json)
       (case (modes_cfg, drm_path) of
          (Some modes, Some drm) \<Rightarrow> Some (display_diagnose E H (Some modes) drm host)
        | (None, None) \<Rightarrow> d6_live_outcome E H host
        | _ \<Rightarrow> Some (Err ''offline display diagnosis requires both --modes-cfg and --drm-state''))"

end
