(* ===== verification/D6_Safety.thy ===== *)
theory D6_Safety
  imports D6_Live
begin

text \<open>
  Properties of the display detector: its floating point comparisons against exact ones, the loop over the overrides
  against a reference that reads them one by one, the bounded reads of files, and when the run of \<open>gamescopectl\<close> returns.
\<close>

section \<open>The comparison with the preferred mode\<close>

lemma area_exact:
  assumes "w \<le> 16384" "h \<le> 16384"
  shows "area (w, h) = of_nat (w * h)"
proof -
  have "w * h \<le> 16384 * 16384" by (rule mult_le_mono [OF assms])
  then have "w * h < 2 ^ 53" by simp
  then show ?thesis using round_f64_nat [of "w * h"] by (simp add: area_def)
qed

lemma quotient_difference:
  assumes "1 \<le> h" "1 \<le> h'"
  shows "\<bar>of_nat w / of_nat h - of_nat w' / of_nat h'\<bar>
           = (of_int \<bar>int w * int h' - int w' * int h\<bar> / of_nat (h * h') :: rat)"
proof -
  have nz: "(of_nat h :: rat) \<noteq> 0" "(of_nat h' :: rat) \<noteq> 0" using assms by auto
  have "of_nat w / of_nat h - of_nat w' / of_nat h'
          = (of_int (int w * int h' - int w' * int h) / of_nat (h * h') :: rat)"
    using nz by (simp add: diff_frac_eq)
  then show ?thesis by (simp only: abs_divide of_int_abs abs_of_nat)
qed

text \<open>A fraction with a denominator up to \<open>2 ^ 28\<close> that is not one twentieth is far enough from it.\<close>

lemma twentieth_gap:
  fixes x :: rat
  assumes d: "1 \<le> d" "d \<le> 268435456" and ne: "20 * n \<noteq> int d" and x: "\<bar>x - of_int n / of_nat d\<bar> \<le> 1 / 2 ^ 36"
  shows "aspect_tolerance < x \<longleftrightarrow> int d < 20 * n"
proof -
  have d0: "0 < (of_nat d :: rat)" using d(1) by simp
  have small: "1 / (20 * 268435456) \<le> 1 / (20 * (of_nat d :: rat))"
  proof -
    have "(of_nat d :: rat) \<le> 268435456" using d(2) by (metis of_nat_le_iff of_nat_numeral)
    then show ?thesis using d0 by (intro divide_left_mono) auto
  qed
  have frac: "(of_int m :: rat) / (20 * of_nat d) \<le> of_int n / of_nat d \<longleftrightarrow> m \<le> 20 * n"
             "of_int n / of_nat d \<le> (of_int m :: rat) / (20 * of_nat d) \<longleftrightarrow> 20 * n \<le> m" for m
  proof -
    have e: "of_int n / of_nat d = (of_int (20 * n) :: rat) / (20 * of_nat d)" by simp
    have p: "0 < 20 * (of_nat d :: rat)" using d0 by simp
    show "(of_int m :: rat) / (20 * of_nat d) \<le> of_int n / of_nat d \<longleftrightarrow> m \<le> 20 * n"
      unfolding e divide_le_cancel using p by (simp only: of_int_le_iff) auto
    show "of_int n / of_nat d \<le> (of_int m :: rat) / (20 * of_nat d) \<longleftrightarrow> 20 * n \<le> m"
      unfolding e divide_le_cancel using p by (simp only: of_int_le_iff) auto
  qed
  define q r :: rat where "q = of_int n / of_nat d" and "r = 1 / (20 * of_nat d)"
  have bound: "(of_int (int d + k) :: rat) / (20 * of_nat d) = 1 / 20 + of_int k * r" for k
    using d0 by (simp add: add_divide_distrib r_def)
  have r: "1 / (20 * 268435456) \<le> r" using small by (simp add: r_def)
  have xq: "x \<le> q + 1 / 2 ^ 36" "q - 1 / 2 ^ 36 \<le> x" using x unfolding q_def by linarith+
  show ?thesis
  proof (cases "int d < 20 * n")
    case True
    then have "1 / 20 + of_int 1 * r \<le> q" by (simp only: frac q_def flip: bound)
    then have "aspect_tolerance < x" using r xq by (simp add: aspect_tolerance_def)
    then show ?thesis using True by simp
  next
    case False
    then have "20 * n \<le> int d + - 1" using ne by simp
    then have "q \<le> 1 / 20 + of_int (- 1) * r" by (simp only: frac q_def flip: bound)
    then have "\<not> aspect_tolerance < x" using r xq by (simp add: aspect_tolerance_def)
    then show ?thesis using False by simp
  qed
qed

text \<open>C38: For resolutions up to 16384 in each direction the two comparisons of the degraded check, made on rounded 64-bit
  floating point numbers, agree with exact arithmetic: the area test asks whether twice the pinned area is below the preferred one,
  and the aspect test whether the aspect ratios differ by more than one twentieth, except where they differ by exactly that.
\<close>

theorem mode_comparison_exact:
  assumes "1 \<le> w" "w \<le> 16384" "1 \<le> h" "h \<le> 16384" "1 \<le> w'" "w' \<le> 16384" "1 \<le> h'" "h' \<le> 16384"
    and "20 * \<bar>int w * int h' - int w' * int h\<bar> \<noteq> int (h * h')"
  shows "(area_ratio (w, h) (w', h') < area_ratio_max \<longleftrightarrow> 2 * (w * h) < w' * h')
       \<and> (aspect_tolerance < aspect_delta (w, h) (w', h') \<longleftrightarrow> int (h * h') < 20 * \<bar>int w * int h' - int w' * int h\<bar>)"
proof
  have "w' * h' \<le> 16384 * 16384" by (rule mult_le_mono [OF assms(6,8)])
  then have "w' * h' \<le> 2 ^ 32" by simp
  moreover have "0 < w' * h'" using assms by simp
  ultimately show "area_ratio (w, h) (w', h') < area_ratio_max \<longleftrightarrow> 2 * (w * h) < w' * h'"
    using round_f64_below_half [of "w' * h'" "w * h"]
    by (simp only: area_ratio_def area_ratio_max_def area_exact [OF assms(2,4)] area_exact [OF assms(6,8)])
next
  have "h * h' \<le> 16384 * 16384" by (rule mult_le_mono [OF assms(4,8)])
  then have hh: "h * h' \<le> 268435456" by simp
  have "1 \<le> h * h'" using assms by simp
  have q: "of_nat w / of_nat h \<le> (2 ^ 14 :: rat)" "of_nat w' / of_nat h' \<le> (2 ^ 14 :: rat)"
    using of_nat_quotient_le [OF assms(2,3)] of_nat_quotient_le [OF assms(6,7)] by simp_all
  have "\<bar>aspect_delta (w, h) (w', h') - of_int \<bar>int w * int h' - int w' * int h\<bar> / of_nat (h * h')\<bar> \<le> 1 / 2 ^ 36"
    using rounded_difference_error [OF _ q(1) _ q(2)]
    by (simp only: aspect_delta_def aspect_def fst_conv snd_conv quotient_difference [OF assms(3,7)]) simp
  then show "aspect_tolerance < aspect_delta (w, h) (w', h') \<longleftrightarrow> int (h * h') < 20 * \<bar>int w * int h' - int w' * int h\<bar>"
    by (rule twentieth_gap [OF \<open>1 \<le> h * h'\<close> hh assms(9)])
qed

theorem mode_comparison_exact_witness:
  "area_ratio (1280, 800) (3840, 2160) < area_ratio_max \<and> aspect_tolerance < aspect_delta (1280, 800) (3840, 2160)"
  using mode_comparison_exact [of 1280 800 3840 2160] by simp

section \<open>The choice of the finding\<close>

text \<open>
  The reference reads the overrides one by one: the connector of an override, its finding, and the finding that is
  reported, which is the first one unless that has the lower confidence and a later degraded mode has the higher.
\<close>

definition mapped_connector :: "drm_state \<Rightarrow> mode_override \<Rightarrow> connector option" where
  "mapped_connector s o' = find_gamescope_connector s o' \<bind> (\<lambda>c. if is_connected_external c then Some c else None)"

definition invalid_finding :: "mode_override \<Rightarrow> connector \<Rightarrow> string list \<Rightarrow> d6_finding" where
  "invalid_finding o' c bad =
     \<lparr>fd_override = o', fd_connector = c, fd_verdict = ''mode-override-invalid'', fd_confidence = conf_invalid, fd_evidence = bad\<rparr>"

definition degraded_finding :: "mode_override \<Rightarrow> connector \<Rightarrow> rat \<times> string list \<Rightarrow> d6_finding" where
  "degraded_finding o' c r =
     \<lparr>fd_override = o', fd_connector = c, fd_verdict = ''mode-override-degraded'', fd_confidence = fst r, fd_evidence = snd r\<rparr>"

definition finding_on :: "d6_env \<Rightarrow> drm_state \<Rightarrow> mode_override \<Rightarrow> connector \<Rightarrow> d6_finding option" where
  "finding_on E s o' c =
     (let active = cn_active_mode c \<bind> parse_resolution in
      case invalid_mode o' c active of
        Some bad \<Rightarrow> Some (invalid_finding o' c bad)
      | None \<Rightarrow> map_option (degraded_finding o' c) (degraded_mode E o' c s active))"

definition finding_of :: "d6_env \<Rightarrow> drm_state \<Rightarrow> mode_override \<Rightarrow> d6_finding option" where
  "finding_of E s o' = mapped_connector s o' \<bind> finding_on E s o'"

definition high_degraded :: "d6_finding \<Rightarrow> bool" where
  "high_degraded f \<longleftrightarrow> fd_verdict f = ''mode-override-degraded'' \<and> fd_confidence f = conf_invalid"

definition reported :: "d6_finding list \<Rightarrow> d6_finding option" where
  "reported fs =
     (case fs of
        [] \<Rightarrow> None
      | f # rest \<Rightarrow>
          if fd_confidence f = conf_invalid then Some f
          else Some (case List.find high_degraded rest of Some g \<Rightarrow> g | None \<Rightarrow> f))"

lemma conf_order [simp]: "conf_degraded < conf_invalid" "\<not> conf_invalid < conf_degraded" "conf_degraded \<noteq> conf_invalid" "conf_invalid \<noteq> conf_degraded"
  by (simp_all add: conf_degraded_def conf_invalid_def)

lemma degraded_mode_Some:
  "degraded_mode E o' c s active = Some (q, ev) \<Longrightarrow> (q = conf_degraded \<or> q = conf_invalid) \<and> ev \<noteq> []"
  by (auto simp: degraded_mode_def Let_def bind_eq_Some_conv split: if_splits)

lemma invalid_mode_Some: "invalid_mode o' c active = Some ev \<Longrightarrow> ev \<noteq> []"
  by (auto simp: invalid_mode_def Let_def split: if_splits)

lemma finding_of_Some:
  assumes "finding_of E s o' = Some f"
  shows "fd_override f = o'" "fd_confidence f = conf_degraded \<or> fd_confidence f = conf_invalid" "fd_evidence f \<noteq> []"
    "mapped_connector s o' = Some (fd_connector f)" "fd_verdict f \<in> {''mode-override-invalid'', ''mode-override-degraded''}"
  using assms degraded_mode_Some invalid_mode_Some
  by (fastforce simp: finding_of_def finding_on_def Let_def bind_eq_Some_conv invalid_finding_def degraded_finding_def
        split: option.splits)+

text \<open>What one override adds to the scan, by the three cases of the reference.\<close>

definition better :: "d6_finding option \<Rightarrow> d6_finding \<Rightarrow> d6_finding option" where
  "better best f =
     (case best of
        None \<Rightarrow> Some f
      | Some b \<Rightarrow> if high_degraded f \<and> fd_confidence b \<noteq> conf_invalid then Some f else Some b)"

lemma check_override_cases:
  assumes "\<And>b. sc_best a = Some b \<Longrightarrow> fd_confidence b = conf_degraded \<or> fd_confidence b = conf_invalid"
  shows "check_override E s o' a =
    (case mapped_connector s o' of
       None \<Rightarrow> a\<lparr>sc_evidence := sc_evidence a @ [line_note o' @ '' -- display not currently connected; cannot validate'']\<rparr>
     | Some c \<Rightarrow>
         (case finding_of E s o' of
            Some f \<Rightarrow> a\<lparr>sc_mapped := True, sc_best := better (sc_best a) f\<rparr>
          | None \<Rightarrow> a\<lparr>sc_mapped := True, sc_ok_notes := sc_ok_notes a @ [ok_note o' c]\<rparr>))"
proof (cases "mapped_connector s o'")
  case None
  then show ?thesis by (auto simp: check_override_def mapped_connector_def split: option.splits if_splits bind_splits)
next
  case (Some c)
  then have c: "find_gamescope_connector s o' = Some c" "is_connected_external c"
    by (auto simp: mapped_connector_def bind_eq_Some_conv split: if_splits)
  have f: "finding_of E s o' = finding_on E s o' c" by (simp add: finding_of_def Some)
  show ?thesis
  proof (cases "invalid_mode o' c (cn_active_mode c \<bind> parse_resolution)")
    case None
    then show ?thesis using assms degraded_mode_Some [of E o' c s "cn_active_mode c \<bind> parse_resolution"]
      by (cases "sc_best a") (force simp: check_override_def c Some f finding_on_def Let_def better_def high_degraded_def degraded_finding_def
            split: option.splits)+
  next
    case (Some bad)
    then show ?thesis using \<open>mapped_connector s o' = Some c\<close>
      by (cases "sc_best a") (simp_all add: check_override_def c f finding_on_def Let_def better_def high_degraded_def invalid_finding_def)
  qed
qed

definition graded :: "d6_finding option \<Rightarrow> bool" where
  "graded best \<longleftrightarrow> (case best of None \<Rightarrow> True | Some b \<Rightarrow> fd_confidence b = conf_degraded \<or> fd_confidence b = conf_invalid)"

lemma graded_better: "graded best \<Longrightarrow> finding_of E s o' = Some f \<Longrightarrow> graded (better best f)"
  using finding_of_Some(2) by (fastforce simp: graded_def better_def split: option.splits if_splits)

lemma reported_better:
  "reported (case_option [] (\<lambda>b. [b]) (better best f) @ fs) = reported (case_option [] (\<lambda>b. [b]) best @ f # fs)"
  by (auto simp: reported_def better_def high_degraded_def split: option.splits)

lemma check_overrides:
  assumes "graded (sc_best a)"
  shows "sc_best (fold (check_override E s) os a)
           = reported (case_option [] (\<lambda>b. [b]) (sc_best a) @ List.map_filter (finding_of E s) os)"
    and "sc_mapped (fold (check_override E s) os a) \<longleftrightarrow> sc_mapped a \<or> (\<exists>o' \<in> set os. mapped_connector s o' \<noteq> None)"
    and "sc_ok_notes (fold (check_override E s) os a) = [] \<longleftrightarrow>
           sc_ok_notes a = [] \<and> (\<forall>o' \<in> set os. mapped_connector s o' \<noteq> None \<longrightarrow> finding_of E s o' \<noteq> None)"
  using assms
proof (induction os arbitrary: a)
  case Nil
  { case 1 then show ?case by (auto simp: reported_def split: option.splits) }
  { case 2 then show ?case by simp }
  { case 3 then show ?case by simp }
next
  case (Cons o' os)
  have step: "check_override E s o' a =
      (case mapped_connector s o' of
         None \<Rightarrow> a\<lparr>sc_evidence := sc_evidence a @ [line_note o' @ '' -- display not currently connected; cannot validate'']\<rparr>
       | Some c \<Rightarrow>
           (case finding_of E s o' of
              Some f \<Rightarrow> a\<lparr>sc_mapped := True, sc_best := better (sc_best a) f\<rparr>
            | None \<Rightarrow> a\<lparr>sc_mapped := True, sc_ok_notes := sc_ok_notes a @ [ok_note o' c]\<rparr>))" if "graded (sc_best a)" for a
    using that by (intro check_override_cases) (auto simp: graded_def)
  have unmapped: "mapped_connector s o' = None \<Longrightarrow> finding_of E s o' = None" by (simp add: finding_of_def)
  have g: "graded (sc_best (check_override E s o' a))" if "graded (sc_best a)" for a
    using that graded_better step by (auto split: option.splits)
  { case 1
    have "sc_best (check_override E s o' a) = case_option (sc_best a) (better (sc_best a)) (finding_of E s o')"
      using step [OF 1] unmapped by (simp split: option.splits)
    then show ?case using Cons.IH(1) [OF g [OF 1]]
      by (cases "finding_of E s o'") (simp_all add: map_filter_simps reported_better) }
  { case 2
    then show ?case using Cons.IH(2) [OF g] step by (auto split: option.splits) }
  { case 3
    then show ?case using Cons.IH(3) [OF g] step by (auto split: option.splits) }
qed

lemma reported_mem: "reported fs = Some f \<Longrightarrow> f \<in> set fs"
  by (auto simp: reported_def find_Some_iff in_set_conv_nth split: list.splits if_splits option.splits)

lemma reported_Nil [simp]: "reported [] = None" by (simp add: reported_def)

lemma reported_None [simp]: "reported fs = None \<longleftrightarrow> fs = []"
  by (auto simp: reported_def split: list.splits)

lemma conf_unit [simp]: "0 \<le> conf_degraded" "conf_degraded \<le> 1" "0 \<le> conf_invalid" "conf_invalid \<le> 1" "0 \<le> conf_none" "conf_none \<le> 1"
  by (simp_all add: conf_degraded_def conf_invalid_def conf_none_def)

lemma no_override_built:
  "evidence \<noteq> [] \<Longrightarrow> \<exists>d. no_override_outcome E evidence host = Ok (Diagnosis d) \<and> dg_disposition d = NonFinding
     \<and> dg_verdict d = ''ok'' \<and> dg_evidence d = evidence"
  by (simp add: no_override_outcome_def d6_diagnosis_def build_def validate_def in_unit_def Let_def)

lemma finding_built:
  assumes "finding_of E s o' = Some b"
  shows "\<exists>d. finding_outcome E b evidence host = Ok (Diagnosis d) \<and> dg_disposition d = Finding
     \<and> dg_verdict d = fd_verdict b \<and> dg_confidence d = Finite (fd_confidence b)"
proof -
  note b = finding_of_Some [OF assms]
  have "plain_bad E (fd_override b) (fd_connector b) \<noteq> []" by (simp add: plain_bad_def)
  then show ?thesis
    using b(2,3) by (auto simp: finding_outcome_def d6_diagnosis_def build_def validate_def in_unit_def Let_def)
qed

lemma validated_built:
  "evidence \<noteq> [] \<Longrightarrow> \<exists>d. validated_outcome E evidence host = Ok (Diagnosis d) \<and> dg_disposition d = NonFinding
     \<and> dg_verdict d = ''ok''"
  by (simp add: validated_outcome_def d6_diagnosis_def build_def validate_def in_unit_def Let_def)

lemma parse_modes_cfg_evidence: "parse_modes_cfg E cfg = Ok ([], ev) \<Longrightarrow> ev \<noteq> []"
  by (auto simp: parse_modes_cfg_def Let_def filter_map split: if_splits)

lemma scan_start_graded [simp]: "graded None" by (simp add: graded_def)

lemma diagnose_inputs_scan:
  assumes "parse_modes_cfg E cfg = Ok (os, ev)" "v_dec E drm = Ok s" "os \<noteq> []"
  shows "\<exists>ev' oks. diagnose_inputs E cfg drm host =
     (if \<forall>o' \<in> set os. mapped_connector s o' = None then Ok (unmapped_outcome ev')
      else case reported (List.map_filter (finding_of E s) os) of
        Some b \<Rightarrow> finding_outcome E b ev' host
      | None \<Rightarrow> validated_outcome E (ev' @ oks) host)
     \<and> ((\<exists>o' \<in> set os. mapped_connector s o' \<noteq> None \<and> finding_of E s o' = None) \<longrightarrow> oks \<noteq> [])"
proof -
  define a where "a = \<lparr>sc_evidence = ev @ dr_collection_notes s, sc_best = None, sc_mapped = False, sc_ok_notes = []\<rparr>"
  have "graded (sc_best a)" by (simp add: a_def)
  note scan = check_overrides [OF this, of E s os]
  define m where "m = fold (check_override E s) os a"
  have best: "sc_best m = reported (List.map_filter (finding_of E s) os)" using scan(1) by (simp add: m_def a_def)
  have mapped: "sc_mapped m \<longleftrightarrow> \<not> (\<forall>o' \<in> set os. mapped_connector s o' = None)" using scan(2) by (simp add: m_def a_def)
  have "diagnose_inputs E cfg drm host =
     (if \<not> sc_mapped m then Ok (unmapped_outcome (sc_evidence m))
      else case sc_best m of Some b \<Rightarrow> finding_outcome E b (sc_evidence m) host
        | None \<Rightarrow> validated_outcome E (sc_evidence m @ sc_ok_notes m) host)"
    using assms unfolding diagnose_inputs_def m_def a_def by (simp add: Let_def)
  moreover have "(\<exists>o' \<in> set os. mapped_connector s o' \<noteq> None \<and> finding_of E s o' = None) \<longrightarrow> sc_ok_notes m \<noteq> []"
    using scan(3) by (auto simp: m_def)
  ultimately show ?thesis unfolding best mapped not_not by blast
qed

text \<open>C17: Once the overrides and the captured state can be read, the detector always ends in an outcome.  It is not applicable exactly when
  there are overrides and none of them maps to a connected external connector.  It is a finding exactly when some override
  has one, with the verdict and the confidence of the finding that the reference reports: the first one, unless that has the lower
  confidence and a later degraded mode has the higher, in particular never an invalid mode after a degraded one.  Otherwise its verdict is ok.
\<close>

theorem diagnose_inputs_verdicts:
  assumes "parse_modes_cfg E cfg = Ok (os, ev)" "v_dec E drm = Ok s"
  shows "\<exists>r. diagnose_inputs E cfg drm host = Ok r \<and>
    (case r of
       NotApplicable n \<Rightarrow> os \<noteq> [] \<and> (\<forall>o' \<in> set os. mapped_connector s o' = None)
     | Diagnosis d \<Rightarrow>
         (os = [] \<or> (\<exists>o' \<in> set os. mapped_connector s o' \<noteq> None)) \<and>
         (case reported (List.map_filter (finding_of E s) os) of
            Some b \<Rightarrow> dg_disposition d = Finding \<and> dg_verdict d = fd_verdict b \<and> dg_confidence d = Finite (fd_confidence b)
          | None \<Rightarrow> dg_disposition d = NonFinding \<and> dg_verdict d = ''ok''))"
proof (cases "os = []")
  case True
  then show ?thesis using no_override_built [OF parse_modes_cfg_evidence, of E cfg ev E host] assms
    by (auto simp: diagnose_inputs_def map_filter_simps)
next
  case False
  obtain ev' oks where r: "diagnose_inputs E cfg drm host =
     (if \<forall>o' \<in> set os. mapped_connector s o' = None then Ok (unmapped_outcome ev')
      else case reported (List.map_filter (finding_of E s) os) of
        Some b \<Rightarrow> finding_outcome E b ev' host
      | None \<Rightarrow> validated_outcome E (ev' @ oks) host)"
    and n: "(\<exists>o' \<in> set os. mapped_connector s o' \<noteq> None \<and> finding_of E s o' = None) \<longrightarrow> oks \<noteq> []"
    using diagnose_inputs_scan [OF assms False, of host] by blast
  show ?thesis
  proof (cases "\<forall>o' \<in> set os. mapped_connector s o' = None")
    case True
    then show ?thesis using r False by (simp add: unmapped_outcome_def)
  next
    case mapped: False
    show ?thesis
    proof (cases "reported (List.map_filter (finding_of E s) os)")
      case None
      then have "\<forall>o' \<in> set os. finding_of E s o' = None" by (auto simp: map_filter_def filter_empty_conv)
      then have "ev' @ oks \<noteq> []" using n mapped by auto
      then show ?thesis using validated_built [of "ev' @ oks" E host] r None mapped by auto
    next
      case (Some b)
      then obtain o' where "finding_of E s o' = Some b"
        using reported_mem [OF Some] by (auto simp: map_filter_def)
      then show ?thesis using finding_built [of E s o' b ev' host] r Some mapped by auto
    qed
  qed
qed

definition deck_connector :: "string \<Rightarrow> string \<Rightarrow> connector" where
  "deck_connector name status =
     \<lparr>cn_name = name, cn_status = status, cn_edid_bytes = 128, cn_modes = [''8x6''], cn_active_mode = None,
      cn_enabled = None, cn_dpms = None\<rparr>"

definition deck_state :: "connector list \<Rightarrow> drm_state" where
  "deck_state cs =
     \<lparr>dr_connectors = cs,
      dr_control = \<lparr>gc_connector_name = ''DP-1'', gc_display_make = ''A'', gc_display_model = ''B'', gc_valid_refresh_rates = []\<rparr>,
      dr_collection_notes = [''dpms unavailable'']\<rparr>"

definition deck_env :: "connector list \<Rightarrow> d6_env" where
  "deck_env cs =
     \<lparr>v_now = ''now'', v_parse = (\<lambda>s. if s = ''60'' then Some (Finite 60) else None), v_text = (\<lambda>_. ''n''), v_three = (\<lambda>_. ''n''),
      v_debug = (\<lambda>_. ''n''), v_dec = (\<lambda>_. Ok (deck_state cs)), v_enc = (\<lambda>_. Ok ''{}'')\<rparr>"

definition deck_cfg :: string where "deck_cfg = ''A B:4x3@60''"

definition deck_override :: mode_override where
  "deck_override = \<lparr>mo_line_number = 1, mo_raw_line = deck_cfg, mo_key = ''A B'', mo_width = 4, mo_height = 3, mo_hz = 60\<rparr>"

lemmas text_simps = chars_ascii str_of_chars_def encode_char_def char_of_def bit_0 is_whitespace_def is_control_def

lemma deck_lines: "lines deck_cfg = [deck_cfg]"
  by (simp add: lines_def deck_cfg_def strip_cr_def)

lemma deck_trim: "trim deck_cfg = deck_cfg" "trim ''A B'' = ''A B''"
  by (simp_all add: trim_def trim_start_def trim_end_def deck_cfg_def text_simps)

lemma deck_split: "rsplit_colon deck_cfg = Some (''A B'', ''4x3@60'')" "split_whitespace ''60'' = [''60'']"
  by (simp_all add: rsplit_colon_def rposition_def deck_cfg_def split_whitespace_def text_simps)

lemma deck_resolution: "parse_resolution ''4x3'' = Some (4, 3)" "parse_resolution ''8x6'' = Some (8, 6)"
  by (simp_all add: parse_resolution_def is_digit_def parse_u32_def from_str_radix_def u32_max_def digit_value_def)

lemma deck_clean: "sanitize_external deck_cfg = deck_cfg" "sanitize_external ''A B'' = ''A B''"
  by (simp_all add: sanitize_external_def external_evidence_limit_def deck_cfg_def text_simps)

lemmas deck_texts = deck_lines deck_trim deck_split deck_resolution deck_clean

lemma deck_parsed: "parse_modes_cfg (deck_env cs) deck_cfg = Ok ([deck_override], [])"
proof -
  have "deck_cfg \<noteq> []" "length deck_cfg \<le> 4096" by (simp_all add: deck_cfg_def)
  then have "cfg_line_of (deck_env cs) 1 deck_cfg = Entry deck_override"
    by (simp add: cfg_line_of_def parse_mode_def deck_texts external_line_limit_def deck_env_def deck_override_def)
  then show ?thesis
    by (simp add: parse_modes_cfg_def deck_texts cfg_entries_def cfg_notes_def map_filter_simps)
qed

lemma deck_dec: "v_dec (deck_env cs) drm = Ok (deck_state cs)" by (simp add: deck_env_def)

lemma deck_names:
  "connector_short_name (deck_connector ''card1-DP-1'' status) = ''DP-1''"
  "connector_short_name (deck_connector ''card0-DP-1'' status) = ''DP-1''"
  "is_connected_external (deck_connector ''card1-DP-1'' ''connected'')"
  "\<not> is_connected_external (deck_connector ''card0-DP-1'' ''disconnected'')"
  by (simp_all add: connector_short_name_def card_connector_short_name_def deck_connector_def strip_prefix_def is_digit_def
      is_connected_external_def starts_with_def)

lemma deck_finding:
  "mapped_connector (deck_state [deck_connector ''card1-DP-1'' ''connected'']) deck_override
     = Some (deck_connector ''card1-DP-1'' ''connected'')"
  "\<exists>bad. finding_of E (deck_state [deck_connector ''card1-DP-1'' ''connected'']) deck_override
     = Some (invalid_finding deck_override (deck_connector ''card1-DP-1'' ''connected'') bad)"
proof -
  show m: "mapped_connector (deck_state [deck_connector ''card1-DP-1'' ''connected'']) deck_override
     = Some (deck_connector ''card1-DP-1'' ''connected'')"
    by (simp add: mapped_connector_def find_gamescope_connector_def deck_state_def deck_override_def deck_texts deck_names)
  have "mode_set (deck_connector ''card1-DP-1'' ''connected'') = [(8, 6)]"
    by (simp add: mode_set_def deck_connector_def map_filter_simps deck_texts)
  moreover have "resolution deck_override = (4, 3)" by (simp add: resolution_def deck_override_def)
  ultimately show "\<exists>bad. finding_of E (deck_state [deck_connector ''card1-DP-1'' ''connected'']) deck_override
     = Some (invalid_finding deck_override (deck_connector ''card1-DP-1'' ''connected'') bad)"
    by (auto simp: finding_of_def m finding_on_def invalid_mode_def)
qed

theorem diagnose_inputs_verdicts_witness:
  "\<exists>d. diagnose_inputs (deck_env [deck_connector ''card1-DP-1'' ''connected'']) deck_cfg ''{}'' None = Ok (Diagnosis d)
     \<and> dg_disposition d = Finding \<and> dg_verdict d = ''mode-override-invalid''"
proof -
  let ?cs = "[deck_connector ''card1-DP-1'' ''connected'']"
  obtain bad where f: "finding_of (deck_env ?cs) (deck_state ?cs) deck_override
      = Some (invalid_finding deck_override (deck_connector ''card1-DP-1'' ''connected'') bad)"
    using deck_finding(2) by blast
  have "reported (List.map_filter (finding_of (deck_env ?cs) (deck_state ?cs)) [deck_override])
      = Some (invalid_finding deck_override (deck_connector ''card1-DP-1'' ''connected'') bad)"
    by (simp add: map_filter_simps f reported_def)
  moreover obtain r where "diagnose_inputs (deck_env ?cs) deck_cfg ''{}'' None = Ok r"
      "case r of
         NotApplicable n \<Rightarrow> [deck_override] \<noteq> [] \<and> (\<forall>o' \<in> set [deck_override]. mapped_connector (deck_state ?cs) o' = None)
       | Diagnosis d \<Rightarrow>
           ([deck_override] = [] \<or> (\<exists>o' \<in> set [deck_override]. mapped_connector (deck_state ?cs) o' \<noteq> None)) \<and>
           (case reported (List.map_filter (finding_of (deck_env ?cs) (deck_state ?cs)) [deck_override]) of
              Some b \<Rightarrow> dg_disposition d = Finding \<and> dg_verdict d = fd_verdict b \<and> dg_confidence d = Finite (fd_confidence b)
            | None \<Rightarrow> dg_disposition d = NonFinding \<and> dg_verdict d = ''ok'')"
    using diagnose_inputs_verdicts [OF deck_parsed deck_dec, of ?cs "''{}''" None] by blast
  ultimately show ?thesis using deck_finding(1) by (cases r) (auto simp: invalid_finding_def)
qed

text \<open>C40: The live collection accepts a state with one connected external connector of the name that Gamescope reports, but the check takes
  the first connector of that name: when an unconnected connector of another card comes before the connected one, every
  override is left unchecked and the outcome is not applicable.
\<close>

theorem first_connector_shadows:
  assumes "parse_modes_cfg E cfg = Ok (os, ev)" "os \<noteq> []" "v_dec E drm = Ok s" "dr_connectors s = [c', c]"
    and "connector_short_name c' = gc_connector_name (dr_control s)" "connector_short_name c = gc_connector_name (dr_control s)"
    and "\<not> is_connected_external c'" "is_connected_external c"
  shows "matching (gc_connector_name (dr_control s)) (dr_connectors s) = [c]
    \<and> (\<exists>ev'. diagnose_inputs E cfg drm host = Ok (unmapped_outcome ev'))"
proof -
  have "mapped_connector s o' = None" for o'
    using assms by (auto simp: mapped_connector_def find_gamescope_connector_def)
  then show ?thesis using diagnose_inputs_scan [OF assms(1,3,2), of host] assms by (auto simp: matching_def)
qed

theorem first_connector_shadows_witness:
  "\<exists>ev'. diagnose_inputs
     (deck_env [deck_connector ''card0-DP-1'' ''disconnected'', deck_connector ''card1-DP-1'' ''connected''])
     deck_cfg ''{}'' None = Ok (unmapped_outcome ev')"
  using first_connector_shadows [OF deck_parsed _ deck_dec,
      of _ "deck_connector ''card0-DP-1'' ''disconnected''" "deck_connector ''card1-DP-1'' ''connected''" "''{}''" None]
  by (simp add: deck_state_def deck_names)

section \<open>Files\<close>

lemma open_regular_file_Ok:
  "open_regular_file H path = Ok f \<longleftrightarrow> h_meta H path = Ok True \<and> h_open H path = Ok f \<and> of_regular f = Ok True"
  by (cases "h_meta H path"; cases "h_open H path"; cases "of_regular (projr (h_open H path))")
    (auto simp: open_regular_file_def)

lemma read_up_to_within:
  "(read_up_to (limit + 1) f = Ok s \<and> length s \<le> limit) \<longleftrightarrow> of_error f = None \<and> of_bytes f = s \<and> length s \<le> limit"
  by (auto simp: read_up_to_def split: option.splits)

text \<open>A read succeeds exactly when the path is a regular file before and after it is opened, all of it can be read, it has at most
  the allowed number of bytes and these are UTF-8; the result is then the whole content.
\<close>

theorem d6_read_regular_text_iff:
  "d6_read_regular_text H path limit = Ok s \<longleftrightarrow>
     h_meta H path = Ok True \<and>
     (\<exists>f. h_open H path = Ok f \<and> of_regular f = Ok True \<and> of_error f = None \<and> of_bytes f = s)
     \<and> length s \<le> limit \<and> utf8_valid s"
proof -
  have "d6_read_regular_text H path limit = Ok s \<longleftrightarrow>
      (\<exists>f. open_regular_file H path = Ok f \<and> (read_up_to (limit + 1) f = Ok s \<and> length s \<le> limit) \<and> utf8_valid s)"
    by (auto simp: d6_read_regular_text_def and_then_eq_Inr split: if_splits) (intro exI [of _ s], simp)
  then show ?thesis unfolding open_regular_file_Ok read_up_to_within by blast
qed

text \<open>When the file of the overrides cannot be read, the live collection notes why, but the outcome is that of an
  absent file, and the note is not part of its evidence.
\<close>

theorem unreadable_modes_look_absent:
  assumes "h_home H = Some home"
    and "d6_read_regular_text H (path_join home ''.config/gamescope/modes.cfg'') live_file_limit = Err e"
    and "v_dec E drm = Ok s" "dr_collection_notes s = earlier @ snd (live_modes H)"
  shows "length (snd (live_modes H)) = 1
    \<and> (\<exists>d. diagnose_inputs E (fst (live_modes H)) drm host = Ok (Diagnosis d) \<and> dg_disposition d = NonFinding
         \<and> dg_verdict d = ''ok'' \<and> dg_evidence d = [no_override_note])"
proof -
  have "live_modes H = ([], [''modes.cfg unavailable at ''
          @ from_utf8_lossy (path_join home ''.config/gamescope/modes.cfg'') @ '': '' @ e])"
    using assms(1,2) by (simp add: live_modes_def Let_def)
  moreover have "parse_modes_cfg E [] = Ok ([], [no_override_note])"
    by (simp add: parse_modes_cfg_def lines_def cfg_entries_def cfg_notes_def map_filter_simps)
  ultimately show ?thesis
    using assms(3) no_override_built [of "[no_override_note]" E host] by (simp add: diagnose_inputs_def)
qed

definition denied_host :: d6_host where
  "denied_host =
     \<lparr>h_meta = (\<lambda>_. Err ''Permission denied''), h_open = (\<lambda>_. Err ''Permission denied''), h_is_dir = (\<lambda>_. False), h_drm = Ok [],
      h_home = Some ''/home/u'', h_run = \<lparr>gr_spawn = Err (True, []), gr_turns = [], gr_late = [], gr_closed = True\<rparr>\<rparr>"

definition denied_env :: d6_env where
  "denied_env = (deck_env [])\<lparr>v_dec := (\<lambda>_. Ok ((deck_state [])\<lparr>dr_collection_notes := snd (live_modes denied_host)\<rparr>))\<rparr>"

theorem unreadable_modes_look_absent_witness:
  "\<exists>d. diagnose_inputs denied_env (fst (live_modes denied_host)) ''{}'' None = Ok (Diagnosis d) \<and> dg_disposition d = NonFinding
         \<and> dg_verdict d = ''ok'' \<and> dg_evidence d = [no_override_note]"
  using unreadable_modes_look_absent [of denied_host "''/home/u''" "''Permission denied''" denied_env "''{}''"
      "(deck_state [])\<lparr>dr_collection_notes := snd (live_modes denied_host)\<rparr>" "[]" None]
  by (simp add: denied_env_def d6_read_regular_text_def open_regular_file_def) (simp add: denied_host_def)

section \<open>The run of \<open>gamescopectl\<close>\<close>

lemma take_messages_count:
  "take_messages ms st = (st1, None) \<Longrightarrow> rs_received st1 = rs_received st + length ms"
  "take_messages ms st = (st1, Some (e, rest)) \<Longrightarrow> rs_received st1 + length rest = rs_received st + length ms"
proof (induction ms st rule: take_messages.induct)
  case (2 is_stdout result ms st)
  { case 1 then show ?case using 2 by (auto simp: Let_def store_output_def split: sum.splits if_splits) }
  { case 2 then show ?case using "2.IH"(2) by (auto simp: Let_def store_output_def split: sum.splits if_splits) }
qed simp_all

lemma drain_returns: "gone \<or> missing \<le> length ms \<Longrightarrow> drain gone missing ms"
  by (induction gone missing ms rule: drain.induct) (auto simp: recv_def split: list.splits)

lemma collect_rest_returns: "gone \<or> missing \<le> length ms \<Longrightarrow> \<exists>r. collect_rest gone missing ms st = Some r"
proof (induction missing arbitrary: ms st)
  case (Suc missing)
  then show ?case by (cases ms) (auto simp: recv_def split: sum.splits)
qed simp

lemma run_loop_returns:
  assumes "gr_closed G \<or> 2 \<le> rs_received st + length (to_come G ts)"
    and "\<exists>t \<in> set ts. lt_wait t \<noteq> Ok None \<or> run_timeout_ms \<le> lt_elapsed t"
  shows "\<exists>r. run_loop G ts st = Some r"
  using assms
proof (induction ts arbitrary: st)
  case (Cons t ts)
  obtain st1 err where m: "take_messages (lt_messages t) st = (st1, err)" by (cases "take_messages (lt_messages t) st")
  show ?case
  proof (cases err)
    case (Some p)
    obtain e rest where p: "p = (e, rest)" by (cases p)
    have "gr_closed G \<or> 2 - rs_received st1 \<le> length (rest @ to_come G ts)"
      using Cons.prems(1) take_messages_count(2) [of _ _ st1 e rest] m Some p by (force simp: to_come_def)
    then show ?thesis using m Some p drain_returns by (simp add: ended_def)
  next
    case None
    then have left: "gr_closed G \<or> 2 \<le> rs_received st1 + length (to_come G ts)"
      using Cons.prems(1) take_messages_count(1) m by (fastforce simp: to_come_def)
    then have "gr_closed G \<or> 2 - rs_received st1 \<le> length (to_come G ts)" by auto
    then obtain r where "collect_rest (gr_closed G) (2 - rs_received st1) (to_come G ts) st1 = Some r"
        "drain (gr_closed G) (2 - rs_received st1) (to_come G ts)"
      using collect_rest_returns drain_returns by meson
    then show ?thesis using Cons.IH [OF left] Cons.prems(2) m None
      by (auto simp: ended_def split: sum.splits option.splits)
  qed
qed simp

text \<open>C39: The run of gamescopectl returns: at the first turn in which the child has ended, cannot be waited for or has used up its
  five seconds, if both readers come to the end of their pipes.
\<close>

theorem run_gamescopectl_returns:
  assumes "\<exists>t \<in> set (gr_turns G). lt_wait t \<noteq> Ok None \<or> run_timeout_ms \<le> lt_elapsed t"
    and "gr_closed G \<or> 2 \<le> length (to_come G (gr_turns G))"
  shows "\<exists>r. run_gamescopectl G = Some r"
  using run_loop_returns [of G "\<lparr>rs_stdout = None, rs_stderr = None, rs_received = 0\<rparr>" "gr_turns G"] assms
  by (auto simp: run_gamescopectl_def split: sum.splits)

definition late_turn :: loop_turn where
  "late_turn = \<lparr>lt_messages = [], lt_wait = Ok None, lt_elapsed = 5000\<rparr>"

theorem run_gamescopectl_returns_witness:
  "\<exists>r. run_gamescopectl
     \<lparr>gr_spawn = Ok (), gr_turns = [late_turn], gr_late = [(True, Ok ''a''), (False, Ok ''b'')], gr_closed = True\<rparr> = Some r"
  by (rule run_gamescopectl_returns) (simp_all add: late_turn_def run_timeout_ms_def)

text \<open>The five seconds do not bound the run: while no reader comes to the end of its pipe, as when a process that gamescopectl has started
  keeps the pipes open, the run never returns, whether the child has ended or was killed at its time limit.
\<close>

theorem run_gamescopectl_blocks:
  assumes "gr_spawn G = Ok ()" "to_come G (gr_turns G) = []" "\<not> gr_closed G" "\<forall>t \<in> set (gr_turns G). \<exists>w. lt_wait t = Ok w"
  shows "run_gamescopectl G = None"
proof -
  have "run_loop G ts st = None" if "to_come G ts = []" "\<forall>t \<in> set ts. \<exists>w. lt_wait t = Ok w" "rs_received st = 0" for ts st
    using that
  proof (induction ts)
    case (Cons t ts)
    then have "lt_messages t = []" "to_come G ts = []" by (auto simp: to_come_def)
    then show ?case using Cons assms(3)
      by (auto simp: recv_def ended_def numeral_2_eq_2 split: option.splits)
  qed simp
  then show ?thesis using assms by (simp add: run_gamescopectl_def)
qed

theorem run_gamescopectl_blocks_witness:
  "run_gamescopectl \<lparr>gr_spawn = Ok (), gr_turns = [late_turn], gr_late = [], gr_closed = False\<rparr> = None"
  by (rule run_gamescopectl_blocks) (simp_all add: late_turn_def to_come_def)

end
