(* ===== verification/Spec2Isabelle.thy ===== *)
theory Spec2Isabelle
  imports Handshake Log_Safe Recovery_Safety Bulk Diagnosis_Event D3_Cli Stream_Tick Settings Delivery_Health D6_Safety
begin

text \<open>
  A verification development of the RigSignal agent, a Rust program that samples a gaming host, runs detectors
  over what it saw, and delivers documents to Elasticsearch, directly or through files in a spool directory.

  \<^bold>\<open>Parts and how they interact.\<close>  The agent's collectors produce JSON documents.  \<open>shipper.rs\<close> either posts them in
  bulk or appends them to per-dataset spool files, which a separate reader picks up once they carry their final
  name.  \<open>handshake.rs\<close> is the probe run before an installation is enrolled: it reads the local configuration,
  makes at most three requests to the cluster and prints one classified report.  \<open>detectors/d3.rs\<close> runs once per boot:
  it compares a snapshot of the PCI devices with the state the previous boots left, reads the tail of the previous
  boot's kernel journal and says whether a GPU vanished or failed before.  \<open>detectors/d6.rs\<close> checks the display modes that
  Gamescope is told to use against the connectors of the host.  \<open>session.rs\<close> watches for a running game
  of one of four launchers and keeps the session: its label, its number and the file the eBPF daemon reads;
  \<open>dllscan.rs\<close> and \<open>profiles.rs\<close> contribute the settings of a game, which \<open>main.rs\<close> merges.  \<open>remote_connections.rs\<close>
  follows the connection log of Steam with a durable checkpoint, and \<open>main.rs\<close> posts its batches in bulk and
  tracks how delivery fares.  The detectors end in an
  outcome of \<open>detectors/contract.rs\<close>, which \<open>detectors/contract/diagnosis_event.rs\<close> validates and turns into a versioned
  event in canonical JSON.  Everything that reaches a log line passes \<open>log_safe.rs\<close>.

  \<^bold>\<open>Theories.\<close>
  \<^item> \<open>Prelude\<close>, \<open>Rust_Str\<close>: byte strings, numerals, UTF-8, the parts of \<open>str\<close> and \<open>char\<close> in use.
  \<^item> \<open>Log_Safe\<close>: \<open>log_safe.rs\<close>.  An escaped text stays on one line, escaping is injective, truncation is maximal.
  \<^item> \<open>Sha256\<close>, \<open>Accepted_Set\<close>: the local SHA-256 against FIPS 180-4, identifiers and the digest of the accepted
    versions.  The digest frame determines the set, and the text forms round-trip.
  \<^item> \<open>Json_Scan\<close>: the bounded admission of a body before it is parsed, against a lexer and a syntax tree.
  \<^item> \<open>Preflight\<close>: arguments, environment, configuration precedence, endpoint, credentials, certificates.
  \<^item> \<open>Handshake\<close>: transport, classification and \<open>run_check\<close>: when it reports readiness, what it requests, what a
    report discloses.  The locale \<open>transport_seam\<close> is the seam the probe is written against and is
    interpreted by the production transport.
  \<^item> \<open>File_System\<close>: system calls on one flat directory under a schedule of faults.
  \<^item> \<open>Spool\<close>, \<open>Spool_Safety\<close>, \<open>Spool_Stream\<close>: \<open>SpoolWriter\<close> with its rotation, publication, padding, pruning and
    finalisation.  For all faults published files stay as they are; a call that reports success extends the
    stream of records of each dataset by exactly the documents written.
  \<^item> \<open>Recovery\<close>, \<open>Recovery_Safety\<close>: \<open>SpoolWriter::new\<close>, the lock with its retry and the recovery of stranded files.
  \<^item> \<open>Bulk\<close>: the HTTP side of \<open>shipper.rs\<close>, Base64, the accounting of a bulk answer, failure messages.
  \<^item> \<open>Contract\<close>, \<open>Jcs\<close>, \<open>Diagnosis_Event\<close>: the output contract of detectors, RFC 8785 text, and the exact condition
    under which an outcome becomes an event.
  \<^item> \<open>D3_Pci\<close>, \<open>D3_Journal\<close>, \<open>D3_Redact\<close>, \<open>Lossy\<close>: the readers of the boot detector: PCI snapshots, kernel journal
    lines and the failure signatures in them, bounded excerpts and their redaction, lossy UTF-8.
  \<^item> \<open>Atomic_Store\<close>: the locale \<open>atomic_store\<close>: a save that fails leaves the old or the new content, one that succeeds
    leaves the new content, and what was saved is read back.
  \<^item> \<open>D3_State\<close>, \<open>D3_Safety\<close>, \<open>D3_Cli\<close>: the state file, the verdict of a boot and the command line of the detector.
    The state file is an \<open>atomic_store\<close> (sublocale \<open>d3_store_at\<close>, interpretation \<open>d3_default\<close>); the verdicts are
    characterised, and the command refines the pure evaluation of a boot.
  \<^item> \<open>F64_Round\<close>: rounding to 64-bit floating point numbers, its error and the exact cases.
  \<^item> \<open>D6_Display\<close>, \<open>D6_Live\<close>, \<open>D6_Safety\<close>: the display detector: overrides, connectors and checks, bounded file reads, the run of
    \<open>gamescopectl\<close> with its reader threads and time limit, the live collection.  Its rounded comparisons agree with exact ones,
    the finding it reports is that of a reference, and the run returns once its pipes are closed.
  \<^item> \<open>Paths\<close>, \<open>Field_Codec\<close>: path operations, and a concrete encoding of records that shows the assumptions on JSON
    readers and writers can hold.
  \<^item> \<open>Game_Scan\<close>: the Steam, Lutris, Heroic and Bottles scanners, the user's target and the module scan.  Which process is
    reported, when a helper is reported in its place, and the one input on which the scan panics.
  \<^item> \<open>Session\<close>: labels, the counter file, \<open>session.json\<close>, documents and \<open>poll\<close>, with the polls as traces of an abstract
    machine, the counter as a count of calls, and the session file as a function of the events.
  \<^item> \<open>Settings\<close>: overlays and \<open>deep_merge\<close>; the value of a merged document at every path, the precedence of the sources,
    and what a direct switch of games keeps.
  \<^item> \<open>Tail_Line\<close>: the line parser, the pseudonyms (HMAC of RFC 2104 over FIPS 180-4) and the identities of the lines.
  \<^item> \<open>Remote_Tail\<close>, \<open>Tail_Safety\<close>: the tailer, its checkpoint file (an \<open>atomic_store\<close>: sublocale \<open>tail_store_at\<close>,
    interpretation \<open>tail_file\<close>), rotation, acknowledgement and restart.  No run stores a checkpoint behind an event that
    was not delivered; a poll of an unchanged log ends within two rounds.
  \<^item> \<open>Stream_Tick\<close>: the tailer with the bulk delivery of \<open>Bulk\<close>: checkpoints rest on answered requests, and a checkpoint that
    cannot be stored stops the stream.
  \<^item> \<open>Delivery_Health\<close>: \<open>write_output\<close> and the tracker of failed deliveries, against the history of deliveries.

  \<^bold>\<open>Correspondence.\<close>  A struct is a record, an enum a datatype, a function a function of the same name; \<open>Result\<close> is a
  sum (\<open>Inl\<close> the error) or an option where the error carries nothing; a method with \<open>&mut self\<close> returns the new state.
  Strings are byte lists; 32-bit and 64-bit arithmetic that can wrap is on words or has its bound written out.

  \<^bold>\<open>Parameters.\<close>  Code outside the repository is an argument: the TOML, URL, PEM and JSON parsers and writers, the
  HTTP peer (a function of the requests so far), the text of floating point numbers and of status codes,
  the UUID and RFC 3339 parsers, the Unicode lower case table, the clocks, the calendar functions of chrono, the output of child processes, the facts of the host, the faults of system calls and the order
  in which directories and hash maps are walked.

  \<^bold>\<open>Fuel.\<close>  The search for a free spool name counts upwards with no bound in the source; it takes \<open>fuel\<close>, and
  \<open>publish_closed_file_succeeds\<close> shows a number of steps that is enough, while \<open>publish_loop_never_returns\<close> shows the one
  start from which none is.  The duplicate walk of \<open>Json_Scan\<close> has two units of fuel per byte, which is shown to
  be enough.  The recursion of the tailer's \<open>poll\<close> takes the list of what the log shows in each round;
  \<open>poll_ends_in_two_rounds\<close> shows that two are enough on an unchanged log.  The wait for \<open>gamescopectl\<close>
  takes the list of what its turns see, and a wait that never ends is \<open>None\<close>.  All other loops are structural or carry a
  measure.

  \<^bold>\<open>Not modelled.\<close>  The deserialisation that serde derives; the collectors (reads of \<open>/proc\<close>, \<open>/sys\<close> and Windows
  interfaces) and the Windows variants of the scanners; of \<open>main.rs\<close> the command line, start and shutdown, the detached
  delivery of the ticks and the summary document with its floating point statistics; the eBPF
  aggregator, which is statistics over many floating point samples; the eBPF probes and their loader; build scripts.
\<close>

end
